(* ===== verification/Prelude.thy ===== *)
theory Prelude
  imports Main "HOL-Library.Word" "HOL-Library.AList"
begin

text \<open>
  Shared vocabulary of the development: the machine types, byte strings (the model of
  \<^verbatim>\<open>std::string\<close> used as a buffer), the little-endian memory image of an integer, the
  parts of the C++ standard library that the sources call on text (\<^verbatim>\<open>std::stoi\<close>,
  \<^verbatim>\<open>std::to_string\<close>, \<^verbatim>\<open>find\<close>, \<^verbatim>\<open>substr\<close>), the result of an operation
  that may throw or run into undefined behaviour, and the interface of a keyed table
  (\<^verbatim>\<open>std::unordered_map\<close>) with its implementation by association lists.
\<close>

unbundle bit_operations_syntax

section \<open>Machine types\<close>

type_synonym u8 = "8 word"
type_synonym u16 = "16 word"
type_synonym u32 = "32 word"
type_synonym u64 = "64 word"
type_synonym bytes = "u8 list"

text \<open>Collections of simplification rules that the component proofs share.\<close>

named_theorems bytes_simps \<open>lengths, slices and memory images of byte strings\<close>
named_theorems table_simps \<open>lookups in a keyed table after an operation\<close>

section \<open>Results: a value, an exception, undefined behaviour\<close>

text \<open>
  \<open>Throw\<close> is a C++ exception of the standard library or of Poco; \<open>Undef\<close> marks an
  execution whose next access is out of bounds, after which the source has no meaning.
\<close>

datatype 'a res = Ok 'a | Throw | Undef

fun bind_res :: "'a res \<Rightarrow> ('a \<Rightarrow> 'b res) \<Rightarrow> 'b res" where
  "bind_res (Ok a) f = f a"
| "bind_res Throw f = Throw"
| "bind_res Undef f = Undef"

lemma bind_res_Ok_iff: "bind_res r f = Ok b \<longleftrightarrow> (\<exists>a. r = Ok a \<and> f a = Ok b)"
  by (cases r) auto

text \<open>A sequence of calls, left by the first exception: \<open>foldl bind_res\<close>.\<close>

lemma foldl_bind_preserves:
  assumes "foldl bind_res r fs = Ok c'" and "\<And>f c d. f \<in> set fs \<Longrightarrow> f c = Ok d \<Longrightarrow> Q c \<Longrightarrow> Q d"
    and "\<And>c. r = Ok c \<Longrightarrow> Q c"
  shows "Q c'"
  using assms
proof (induction fs arbitrary: r)
  case (Cons f fs)
  show ?case
  proof (rule Cons.IH)
    show "foldl bind_res (bind_res r f) fs = Ok c'" using Cons.prems(1) by simp
    show "Q d" if "g \<in> set fs" "g c = Ok d" "Q c" for g c d using Cons.prems(2) [of g c d] that by simp
    show "Q c" if "bind_res r f = Ok c" for c
      using that Cons.prems(2) [of f _ c] Cons.prems(3) by (auto simp: bind_res_Ok_iff)
  qed
qed simp

lemma foldl_bind_not_Undef:
  "r \<noteq> Undef \<Longrightarrow> (\<And>f c. f \<in> set fs \<Longrightarrow> f c \<noteq> Undef) \<Longrightarrow> foldl bind_res r fs \<noteq> Undef"
proof (induction fs arbitrary: r)
  case (Cons f fs)
  have "bind_res r f \<noteq> Undef" using Cons.prems by (cases r) auto
  then show ?case using Cons by simp
qed simp

lemma bind_Undef: "bind_res r f = Undef \<longleftrightarrow> r = Undef \<or> (\<exists>x. r = Ok x \<and> f x = Undef)"
  by (cases r) auto

section \<open>Byte strings\<close>

definition str :: "string \<Rightarrow> bytes" where
  "str s = map (\<lambda>c. of_char c) s"

text \<open>
  A read through a struct pointer. Every use in the model is guarded by the length check
  of the code, or by an explicit \<open>Undef\<close> branch where the code has none.
\<close>

definition rd8 :: "bytes \<Rightarrow> nat \<Rightarrow> u8" where
  "rd8 b i = (if i < length b then b ! i else 0)"

definition slice :: "nat \<Rightarrow> nat \<Rightarrow> bytes \<Rightarrow> bytes" where
  "slice off n b = take n (drop off b)"

text \<open>A write through a struct pointer: \<open>v\<close> replaces the bytes from \<open>off\<close> on.\<close>

definition splice :: "nat \<Rightarrow> bytes \<Rightarrow> bytes \<Rightarrow> bytes" where
  "splice off v b = take off b @ v @ drop (off + length v) b"

text \<open>\<open>std::string::resize(n)\<close>: truncate, or pad with zero bytes.\<close>

definition resize :: "nat \<Rightarrow> bytes \<Rightarrow> bytes" where
  "resize n b = take n b @ replicate (n - length b) 0"

lemma length_str [simp]: "length (str s) = length s"
  by (simp add: str_def)

lemma length_slice [bytes_simps]: "off + n \<le> length b \<Longrightarrow> length (slice off n b) = n"
  by (simp add: slice_def)

lemma length_splice [bytes_simps]:
  "off + length v \<le> length b \<Longrightarrow> length (splice off v b) = length b"
  by (simp add: splice_def)

lemma slice_splice_same [bytes_simps]:
  "off + length v \<le> length b \<Longrightarrow> n = length v \<Longrightarrow> slice off n (splice off v b) = v"
  by (simp add: slice_def splice_def)

lemma slice_splice_before:
  "off' + n \<le> off \<Longrightarrow> off \<le> length b \<Longrightarrow> slice off' n (splice off v b) = slice off' n b"
  by (auto simp: slice_def splice_def drop_take min_def)

lemma slice_splice_after:
  "off + length v \<le> off' \<Longrightarrow> off \<le> length b \<Longrightarrow> slice off' n (splice off v b) = slice off' n b"
  by (simp add: slice_def splice_def min_def)

lemma length_resize [simp]: "length (resize n b) = n"
  by (simp add: resize_def)

lemma resize_shorter: "n \<le> length b \<Longrightarrow> resize n b = take n b"
  by (simp add: resize_def)

lemma slice_append_skip: "length p = off \<Longrightarrow> slice off n (p @ q) = take n q"
  by (simp add: slice_def)

lemma slice_Cons [simp]: "slice (Suc off) n (x # b) = slice off n b"
  by (simp add: slice_def)

lemma slice_0_append [bytes_simps]: "n = length p \<Longrightarrow> slice 0 n (p @ q) = p"
  by (simp add: slice_def)

lemma slice_append_right [bytes_simps]:
  "length p \<le> off \<Longrightarrow> slice off n (p @ q) = slice (off - length p) n q"
  by (simp add: slice_def)

lemma slice_all: "n = length p \<Longrightarrow> slice 0 n p = p"
  by (simp add: slice_def)

lemma rd8_append_right [bytes_simps]:
  "length p \<le> i \<Longrightarrow> rd8 (p @ q) i = rd8 q (i - length p)"
  by (auto simp: rd8_def nth_append)

lemma rd8_Cons_0 [simp]: "rd8 (x # b) 0 = x"
  by (simp add: rd8_def)

lemma rd8_Cons_Suc [simp]: "rd8 (x # b) (Suc i) = rd8 b i"
  by (simp add: rd8_def)

section \<open>The memory image of an integer\<close>

text \<open>
  The hosts the program is built for (x86, ARM) are little-endian: a packed field holds
  the bytes of the integer from the least significant one on.
\<close>

definition le_bytes :: "nat \<Rightarrow> 'a::len word \<Rightarrow> bytes" where
  "le_bytes n w = map (\<lambda>i. ucast (drop_bit (8 * i) w)) [0..<n]"

fun le_word :: "bytes \<Rightarrow> 'a::len word" where
  "le_word [] = 0"
| "le_word (b # bs) = ucast b OR push_bit 8 (le_word bs)"

lemma length_le_bytes [simp]: "length (le_bytes n w) = n"
  by (simp add: le_bytes_def)

lemma bit_le_word:
  "bit (le_word bs :: 'a::len word) i \<longleftrightarrow>
     i < LENGTH('a) \<and> i div 8 < length bs \<and> bit (bs ! (i div 8)) (i mod 8)"
proof (induction bs arbitrary: i)
  case Nil
  then show ?case by simp
next
  case (Cons b bs)
  show ?case
  proof (cases "i < 8")
    case True
    then show ?thesis
      by (auto simp: bit_or_iff bit_ucast_iff bit_push_bit_iff dest: bit_imp_le_length)
  next
    case False
    then have "i = 8 + (i - 8)" by simp
    then obtain j where j: "i = 8 + j" by blast
    have nb: "\<not> bit b i"
      using False by (auto dest: bit_imp_le_length)
    have "bit (le_word (b # bs) :: 'a word) i \<longleftrightarrow> i < LENGTH('a) \<and> bit (le_word bs :: 'a word) j"
      using nb j by (auto simp: bit_or_iff bit_ucast_iff bit_push_bit_iff)
    also have "\<dots> \<longleftrightarrow> i < LENGTH('a) \<and> j div 8 < length bs \<and> bit (bs ! (j div 8)) (j mod 8)"
      using j by (auto simp: Cons.IH)
    finally show ?thesis
      using j div_add_self1 [of 8 j] by simp
  qed
qed

lemma le_word_le_bytes:
  fixes w :: "'a::len word"
  assumes "LENGTH('a) = 8 * n"
  shows "le_word (le_bytes n w) = w"
proof (rule bit_word_eqI)
  fix i assume i: "i < LENGTH('a)"
  then have "i div 8 < n" using assms by simp
  then show "bit (le_word (le_bytes n w) :: 'a word) i = bit w i"
    using i by (simp add: bit_le_word le_bytes_def bit_ucast_iff bit_drop_bit_eq)
qed

lemma le_bytes_le_word:
  assumes "LENGTH('a) = 8 * n" and "length bs = n"
  shows "le_bytes n (le_word bs :: 'a::len word) = bs"
proof (rule nth_equalityI)
  fix i assume "i < length (le_bytes n (le_word bs :: 'a word))"
  then have i: "i < n" by simp
  show "le_bytes n (le_word bs :: 'a word) ! i = bs ! i"
  proof (rule bit_word_eqI)
    fix j assume j: "j < LENGTH(8)"
    then have "8 * i + j < 8 * n" using i by simp
    then show "bit (le_bytes n (le_word bs :: 'a word) ! i) j = bit (bs ! i) j"
      using i j assms by (simp add: le_bytes_def bit_ucast_iff bit_drop_bit_eq bit_le_word)
  qed
qed (use assms in simp)

lemma le_word_append_take:
  "LENGTH('a) \<le> 8 * length p \<Longrightarrow> (le_word (p @ q) :: 'a::len word) = le_word p"
  by (rule bit_word_eqI) (auto simp: bit_le_word nth_append)

text \<open>\<^verbatim>\<open>byteswap\<close>, \<^verbatim>\<open>ntoh\<close> and \<^verbatim>\<open>hton\<close> of \<^verbatim>\<open>core/net.h\<close>.\<close>

definition byteswap :: "'a::len word \<Rightarrow> 'a word" where
  "byteswap w = le_word (rev (le_bytes (LENGTH('a) div 8) w))"

definition ntoh :: "'a::len word \<Rightarrow> 'a word" where
  "ntoh v = byteswap v"

definition hton :: "'a::len word \<Rightarrow> 'a word" where
  "hton v = ntoh v"

lemma byteswap_byteswap:
  fixes w :: "'a::len word"
  assumes "8 dvd LENGTH('a)"
  shows "byteswap (byteswap w) = w"
proof -
  let ?n = "LENGTH('a) div 8"
  have n: "LENGTH('a) = 8 * ?n" using assms by simp
  have "le_bytes ?n (le_word (rev (le_bytes ?n w)) :: 'a word) = rev (le_bytes ?n w)"
    by (rule le_bytes_le_word [OF n]) simp
  then show ?thesis
    by (simp add: byteswap_def le_word_le_bytes [OF n])
qed

lemma ntoh_hton [simp]:
  "ntoh (hton (w16 :: u16)) = w16" "ntoh (hton (w32 :: u32)) = w32" "ntoh (hton (w64 :: u64)) = w64"
  by (simp_all add: ntoh_def hton_def byteswap_byteswap)

section \<open>Text: digits, \<open>std::to_string\<close>, \<open>std::stoi\<close>\<close>

definition is_digit :: "u8 \<Rightarrow> bool" where
  "is_digit b \<longleftrightarrow> 48 \<le> b \<and> b \<le> 57"

definition is_space :: "u8 \<Rightarrow> bool" where
  "is_space b \<longleftrightarrow> b = 32 \<or> (9 \<le> b \<and> b \<le> 13)"

fun digits_val :: "nat \<Rightarrow> bytes \<Rightarrow> nat" where
  "digits_val acc [] = acc"
| "digits_val acc (b # bs) = digits_val (10 * acc + (unat b - 48)) bs"

fun show_nat :: "nat \<Rightarrow> bytes" where
  "show_nat n = (if n < 10 then [of_nat (48 + n)] else show_nat (n div 10) @ [of_nat (48 + n mod 10)])"

declare show_nat.simps [simp del]

definition to_string :: "int \<Rightarrow> bytes" where
  "to_string i = (if i < 0 then 45 # show_nat (nat (- i)) else show_nat (nat i))"

text \<open>
  \<^verbatim>\<open>std::stoi\<close>: leading white space, an optional sign, the longest run of digits; no digit
  is \<^verbatim>\<open>invalid_argument\<close>, a value outside \<^verbatim>\<open>int\<close> is \<^verbatim>\<open>out_of_range\<close> (both \<open>None\<close>).
\<close>

definition stoi :: "bytes \<Rightarrow> int option" where
  "stoi s =
     (let t = dropWhile is_space s;
          neg = (t \<noteq> [] \<and> hd t = 45);
          u = (if t \<noteq> [] \<and> (hd t = 45 \<or> hd t = 43) then tl t else t);
          ds = takeWhile is_digit u;
          v = (if neg then - int (digits_val 0 ds) else int (digits_val 0 ds))
      in if ds = [] then None
         else if - (2 ^ 31) \<le> v \<and> v < 2 ^ 31 then Some v else None)"

lemma digit_of_nat: "d < 10 \<Longrightarrow> unat (of_nat (48 + d) :: u8) = 48 + d"
  by (simp add: unat_of_nat take_bit_nat_eq_self del: of_nat_add)

lemma is_digit_of_nat:
  assumes "d < 10"
  shows "is_digit (of_nat (48 + d) :: u8)"
  using digit_of_nat [OF assms] assms by (simp add: is_digit_def word_le_nat_alt)

lemma digits_val_append: "digits_val acc (p @ q) = digits_val (digits_val acc p) q"
  by (induction p arbitrary: acc) auto

lemma digits_val_show_nat: "digits_val 0 (show_nat n) = n"
proof (induction n rule: show_nat.induct)
  case (1 n)
  show ?case
    by (cases "n < 10")
      (simp_all add: show_nat.simps [of n] digits_val_append "1.IH" digit_of_nat del: of_nat_add)
qed

lemma show_nat_digits: "\<forall>b \<in> set (show_nat n). is_digit b"
proof (induction n rule: show_nat.induct)
  case (1 n)
  show ?case
    using 1 is_digit_of_nat [of n] is_digit_of_nat [of "n mod 10"]
    by (cases "n < 10") (auto simp: show_nat.simps [of n] simp del: of_nat_add)
qed

lemma show_nat_nonempty [simp]: "show_nat n \<noteq> []"
  by (simp add: show_nat.simps [of n])

lemma hd_show_nat_digit: "is_digit (hd (show_nat n))"
  using show_nat_digits [of n] by (cases "show_nat n") auto

lemma digit_neqs: "is_digit b \<Longrightarrow> b \<noteq> 45 \<and> b \<noteq> 43 \<and> b \<noteq> 47 \<and> b \<noteq> 46 \<and> \<not> is_space b"
  unfolding is_digit_def is_space_def by unat_arith

lemma takeWhile_show_nat:
  "q = [] \<or> \<not> is_digit (hd q) \<Longrightarrow> takeWhile is_digit (show_nat n @ q) = show_nat n"
  using show_nat_digits [of n] by (cases q) (simp_all add: takeWhile_append2 takeWhile_tail)

lemma stoi_to_string:
  assumes "q = [] \<or> \<not> is_digit (hd q)" and "n < 2 ^ 31"
  shows "stoi (to_string (int n) @ q) = Some (int n)"
proof -
  have h: "is_digit (hd (show_nat n @ q))" by (simp add: hd_show_nat_digit)
  then have d: "dropWhile is_space (show_nat n @ q) = show_nat n @ q"
    using digit_neqs [OF h] by (cases "show_nat n @ q") auto
  show ?thesis
    using digit_neqs [OF h] assms
    by (simp add: stoi_def to_string_def d takeWhile_show_nat digits_val_show_nat Let_def)
qed

section \<open>Keyed tables\<close>

text \<open>
  A \<^verbatim>\<open>std::unordered_map\<close> is modelled by an association list with distinct keys. Its order
  is the order in which a range-for visits the entries; the standard leaves that order
  open, and no property of the development depends on it. The operations the sources use
  are a lookup (\<^verbatim>\<open>find\<close>), an insertion that overwrites (\<^verbatim>\<open>m[k] = v\<close>), an erasure, a pass
  that erases the entries failing a test (\<^verbatim>\<open>it = m.erase(it)\<close> in a loop) and a pass that
  updates every entry.
\<close>

type_synonym ('k, 'v) table = "('k \<times> 'v) list"

definition tbl_put :: "'k \<Rightarrow> 'v \<Rightarrow> ('k, 'v) table \<Rightarrow> ('k, 'v) table" where
  "tbl_put k v t = AList.update k v t"

definition tbl_erase :: "'k \<Rightarrow> ('k, 'v) table \<Rightarrow> ('k, 'v) table" where
  "tbl_erase k t = filter (\<lambda>(k', v). k' \<noteq> k) t"

definition tbl_keep :: "('k \<Rightarrow> 'v \<Rightarrow> bool) \<Rightarrow> ('k, 'v) table \<Rightarrow> ('k, 'v) table" where
  "tbl_keep P t = filter (\<lambda>(k, v). P k v) t"

definition tbl_each :: "('k \<Rightarrow> 'v \<Rightarrow> 'v) \<Rightarrow> ('k, 'v) table \<Rightarrow> ('k, 'v) table" where
  "tbl_each f t = map (\<lambda>(k, v). (k, f k v)) t"

definition tbl_ok :: "('k, 'v) table \<Rightarrow> bool" where
  "tbl_ok t \<longleftrightarrow> distinct (map fst t)"

locale keyed_table =
  fixes empty :: "'t"
    and find :: "'t \<Rightarrow> 'k \<Rightarrow> 'v option"
    and put :: "'k \<Rightarrow> 'v \<Rightarrow> 't \<Rightarrow> 't"
    and erase :: "'k \<Rightarrow> 't \<Rightarrow> 't"
    and keep :: "('k \<Rightarrow> 'v \<Rightarrow> bool) \<Rightarrow> 't \<Rightarrow> 't"
    and each :: "('k \<Rightarrow> 'v \<Rightarrow> 'v) \<Rightarrow> 't \<Rightarrow> 't"
    and size_of :: "'t \<Rightarrow> nat"
    and invar :: "'t \<Rightarrow> bool"
  assumes find_empty: "find empty k = None"
    and find_put: "find (put k v t) k' = (if k' = k then Some v else find t k')"
    and find_erase: "find (erase k t) k' = (if k' = k then None else find t k')"
    and find_keep: "invar t \<Longrightarrow>
      find (keep P t) k = (case find t k of None \<Rightarrow> None | Some v \<Rightarrow> if P k v then Some v else None)"
    and find_each: "find (each f t) k = map_option (f k) (find t k)"
    and invar_empty: "invar empty"
    and invar_put: "invar t \<Longrightarrow> invar (put k v t)"
    and invar_erase: "invar t \<Longrightarrow> invar (erase k t)"
    and invar_keep: "invar t \<Longrightarrow> invar (keep P t)"
    and invar_each: "invar t \<Longrightarrow> invar (each f t)"
    and size_put: "size_of (put k v t) = (if find t k = None then Suc (size_of t) else size_of t)"
    and size_erase: "invar t \<Longrightarrow> find t k \<noteq> None \<Longrightarrow> Suc (size_of (erase k t)) = size_of t"
    and size_keep: "size_of (keep P t) \<le> size_of t"
begin

lemma keep_Some_iff: "invar t \<Longrightarrow> find (keep P t) k = Some v \<longleftrightarrow> find t k = Some v \<and> P k v"
  by (auto simp: find_keep split: option.splits)

lemma keep_None_iff: "invar t \<Longrightarrow> find (keep P t) k = None \<longleftrightarrow> (\<forall>v. find t k = Some v \<longrightarrow> \<not> P k v)"
  by (auto simp: find_keep split: option.splits)

lemma put_same: "find (put k v t) k = Some v"
  by (simp add: find_put)

lemma erase_put: "find (erase k (put k v t)) k' = find (erase k t) k'"
  by (simp add: find_put find_erase)

lemma size_put_le: "size_of (put k v t) \<le> Suc (size_of t)"
  by (simp add: size_put)

lemmas invar_ops = invar_empty invar_put invar_erase invar_keep invar_each

end

lemma map_of_filter_distinct:
  "distinct (map fst t) \<Longrightarrow>
   map_of (filter (\<lambda>(k, v). P k v) t) k =
     (case map_of t k of None \<Rightarrow> None | Some v \<Rightarrow> if P k v then Some v else None)"
proof (induction t)
  case Nil
  then show ?case by simp
next
  case (Cons kv t)
  obtain k' v' where [simp]: "kv = (k', v')" by (cases kv)
  have "map_of t k' = None" using Cons.prems by (simp add: map_of_eq_None_iff)
  then show ?case using Cons by (auto split: option.splits)
qed

lemma length_filter_key:
  "distinct (map fst t) \<Longrightarrow> map_of t k \<noteq> None \<Longrightarrow>
   Suc (length (filter (\<lambda>(k', v). k' \<noteq> k) t)) = length t"
proof (induction t)
  case Nil
  then show ?case by simp
next
  case (Cons kv t)
  obtain k' v' where [simp]: "kv = (k', v')" by (cases kv)
  show ?case
  proof (cases "k' = k")
    case True
    then have "filter (\<lambda>(k'', v). k'' \<noteq> k) t = t"
      using Cons.prems by (force simp: filter_id_conv)
    then show ?thesis using True by simp
  next
    case False
    then show ?thesis using Cons by simp
  qed
qed

lemma map_of_filter_neq:
  "map_of (filter (\<lambda>(k', v). k' \<noteq> k) t) k'' = (if k'' = k then None else map_of t k'')"
  by (induction t) auto

lemma map_of_each: "map_of (map (\<lambda>(k, v). (k, f k v)) t) k' = map_option (f k') (map_of t k')"
  by (induction t) auto

lemma length_update: "length (AList.update k v t) = (if map_of t k = None then Suc (length t) else length t)"
  by (induction t) auto

interpretation tbl: keyed_table "[] :: ('k, 'v) table" map_of tbl_put tbl_erase tbl_keep tbl_each length tbl_ok
proof unfold_locales
  fix f and t :: "('k, 'v) table"
  have "map fst (tbl_each f t) = map fst t"
    by (simp add: tbl_each_def case_prod_unfold comp_def)
  then show "tbl_ok t \<Longrightarrow> tbl_ok (tbl_each f t)"
    by (simp add: tbl_ok_def)
qed (simp_all add: tbl_put_def tbl_erase_def tbl_keep_def tbl_each_def tbl_ok_def update_conv'
      map_of_filter_neq map_of_filter_distinct map_of_each distinct_update length_filter_key
      length_update distinct_map_filter)

lemmas [table_simps] = tbl.find_put tbl.find_erase tbl.find_each tbl.find_empty

lemma tbl_ok_in_set: "tbl_ok t \<Longrightarrow> (k, v) \<in> set t \<longleftrightarrow> map_of t k = Some v"
  by (simp add: tbl_ok_def)

lemma tbl_in_set_lookup: "map_of t k = Some v \<Longrightarrow> (k, v) \<in> set t"
  by (rule map_of_SomeD)
end
