(* ===== verification/Net.thy ===== *)
theory Net
  imports Prelude
begin

text \<open>
  \<^verbatim>\<open>candy/src/core/net.h\<close>, \<^verbatim>\<open>net.cc\<close>: IPv4 addresses as four raw bytes in network order,
  the packed IPv4 header and system route entry, and \<^verbatim>\<open>Address\<close>, a host with a mask,
  with its CIDR text form. The parser and the printer of a dotted address belong to Poco
  and are the parameter \<open>poco\<close>.
\<close>

section \<open>IP4\<close>

datatype ip4 = IP4 u8 u8 u8 u8

fun raw :: "ip4 \<Rightarrow> bytes" where
  "raw (IP4 a b c d) = [a, b, c, d]"

definition ip4_of_raw :: "bytes \<Rightarrow> ip4" where
  "ip4_of_raw r = IP4 (rd8 r 0) (rd8 r 1) (rd8 r 2) (rd8 r 3)"

fun ip4_and :: "ip4 \<Rightarrow> ip4 \<Rightarrow> ip4" where
  "ip4_and (IP4 a b c d) (IP4 a' b' c' d') = IP4 (a' AND a) (b' AND b) (c' AND c) (d' AND d)"

fun ip4_or :: "ip4 \<Rightarrow> ip4 \<Rightarrow> ip4" where
  "ip4_or (IP4 a b c d) (IP4 a' b' c' d') = IP4 (a' OR a) (b' OR b) (c' OR c) (d' OR d)"

fun ip4_xor :: "ip4 \<Rightarrow> ip4 \<Rightarrow> ip4" where
  "ip4_xor (IP4 a b c d) (IP4 a' b' c' d') = IP4 (a' XOR a) (b' XOR b) (c' XOR c) (d' XOR d)"

definition ip4_zero :: ip4 where
  "ip4_zero = IP4 0 0 0 0"

fun ip4_not :: "ip4 \<Rightarrow> ip4" where
  "ip4_not (IP4 a b c d) = IP4 (0 OR NOT a) (0 OR NOT b) (0 OR NOT c) (0 OR NOT d)"

text \<open>The conversion to \<^verbatim>\<open>uint32_t\<close> copies the raw bytes into a host integer.\<close>

definition ip4_u32 :: "ip4 \<Rightarrow> u32" where
  "ip4_u32 ip = le_word (raw ip)"

definition ip4_of_u32 :: "u32 \<Rightarrow> ip4" where
  "ip4_of_u32 t = ip4_of_raw (le_bytes 4 t)"

definition ip4_next :: "ip4 \<Rightarrow> ip4" where
  "ip4_next ip = ip4_of_u32 (hton (ntoh (ip4_u32 ip) + 1))"

fun ip4_empty :: "ip4 \<Rightarrow> bool" where
  "ip4_empty (IP4 a b c d) \<longleftrightarrow> a = 0 \<and> b = 0 \<and> c = 0 \<and> d = 0"

definition ip4_reset :: "ip4 \<Rightarrow> ip4" where
  "ip4_reset ip = ip4_zero"

text \<open>
  \<^verbatim>\<open>fromPrefix\<close> sets the leading bits one by one. The array has four bytes and the loop
  has no bound but \<open>prefix\<close>: from 33 on it writes past the array.
\<close>

definition prefix_bit :: "nat \<Rightarrow> u8" where
  "prefix_bit i = drop_bit (i mod 8) 128"

definition set_prefix_bit :: "bytes \<Rightarrow> nat \<Rightarrow> bytes" where
  "set_prefix_bit r i = r[i div 8 := r ! (i div 8) OR prefix_bit i]"

definition fromPrefix :: "int \<Rightarrow> ip4 res" where
  "fromPrefix prefix =
     (if prefix > 32 then Undef
      else Ok (ip4_of_raw (foldl set_prefix_bit [0, 0, 0, 0] [0..<nat prefix])))"

definition toPrefix :: "ip4 \<Rightarrow> nat" where
  "toPrefix ip = length (takeWhile (\<lambda>i. raw ip ! (i div 8) AND prefix_bit i \<noteq> 0) [0..<32])"

section \<open>The text form, a service of Poco\<close>

text \<open>
  \<open>ip_parse\<close>: the first four bytes of \<^verbatim>\<open>Poco::Net::IPAddress(s).addr()\<close>, \<open>None\<close> when the
  constructor throws. \<open>ip_show\<close>: \<^verbatim>\<open>IPAddress(raw, 4).toString()\<close>. The other three are the
  address classes of \<^verbatim>\<open>IPAddress\<close>. What the code relies on is \<open>poco_ok\<close>: printing and
  parsing again gives the address back, and a printed IPv4 address has only digits and
  dots and at most 15 characters. \<open>uri_parse\<close> is \<^verbatim>\<open>Poco::URI\<close>, \<open>None\<close> when it throws, and
  \<open>resolve\<close> the constructor \<^verbatim>\<open>SocketAddress(host, port)\<close>, which looks a host name up.
\<close>

record uri =
  uri_scheme :: bytes
  uri_host :: bytes
  uri_path :: bytes
  uri_port :: u16

record poco =
  ip_parse :: "bytes \<Rightarrow> ip4 option"
  ip_show :: "ip4 \<Rightarrow> bytes"
  isSiteLocal :: "ip4 \<Rightarrow> bool"
  isLinkLocal :: "ip4 \<Rightarrow> bool"
  isSiteLocalMC :: "ip4 \<Rightarrow> bool"
  uri_parse :: "bytes \<Rightarrow> uri option"
  resolve :: "bytes \<Rightarrow> u16 \<Rightarrow> (ip4 \<times> u16) option"

definition poco_ok :: "poco \<Rightarrow> bool" where
  "poco_ok P \<longleftrightarrow>
     (\<forall>ip. ip_parse P (ip_show P ip) = Some ip) \<and>
     (\<forall>ip. \<forall>c \<in> set (ip_show P ip). is_digit c \<or> c = 46) \<and>
     (\<forall>ip. length (ip_show P ip) \<le> 15)"

section \<open>Packed structures on top of IP4\<close>

record IP4Header =
  version_ihl :: u8
  tos :: u8
  tot_len :: u16
  ip_id :: u16
  frag_off :: u16
  ttl :: u8
  protocol :: u8
  check :: u16
  saddr :: ip4
  daddr :: ip4

definition sizeof_IP4Header :: nat where
  "sizeof_IP4Header = 20"

definition IP4Header_at :: "bytes \<Rightarrow> nat \<Rightarrow> IP4Header" where
  "IP4Header_at b off =
     \<lparr>version_ihl = rd8 b off, tos = rd8 b (off + 1),
      tot_len = le_word (slice (off + 2) 2 b), ip_id = le_word (slice (off + 4) 2 b),
      frag_off = le_word (slice (off + 6) 2 b), ttl = rd8 b (off + 8), protocol = rd8 b (off + 9),
      check = le_word (slice (off + 10) 2 b),
      saddr = ip4_of_raw (slice (off + 12) 4 b), daddr = ip4_of_raw (slice (off + 16) 4 b)\<rparr>"

definition isIPv4 :: "IP4Header \<Rightarrow> bool" where
  "isIPv4 h \<longleftrightarrow> drop_bit 4 (version_ihl h) = 4"

definition isIPIP :: "IP4Header \<Rightarrow> bool" where
  "isIPIP h \<longleftrightarrow> protocol h = 4"

record SysRouteEntry =
  rt_dst :: ip4
  rt_mask :: ip4
  rt_nexthop :: ip4

definition SysRouteEntry_bytes :: "SysRouteEntry \<Rightarrow> bytes" where
  "SysRouteEntry_bytes e = raw (rt_dst e) @ raw (rt_mask e) @ raw (rt_nexthop e)"

definition SysRouteEntry_at :: "bytes \<Rightarrow> nat \<Rightarrow> SysRouteEntry" where
  "SysRouteEntry_at b off =
     \<lparr>rt_dst = ip4_of_raw (slice off 4 b), rt_mask = ip4_of_raw (slice (off + 4) 4 b),
      rt_nexthop = ip4_of_raw (slice (off + 8) 4 b)\<rparr>"

section \<open>Address\<close>

record address =
  a_host :: ip4
  a_mask :: ip4

definition Address0 :: address where
  "Address0 = \<lparr>a_host = ip4_zero, a_mask = ip4_zero\<rparr>"

definition Net :: "address \<Rightarrow> ip4" where
  "Net a = ip4_and (a_host a) (a_mask a)"

definition Next :: "address \<Rightarrow> address" where
  "Next a =
     \<lparr>a_host = ip4_or (Net a) (ip4_and (ip4_not (a_mask a)) (ip4_next (a_host a))),
      a_mask = a_mask a\<rparr>"

definition isValid :: "address \<Rightarrow> bool" where
  "isValid a =
     (if ip4_u32 (ip4_and (ip4_not (a_mask a)) (a_host a)) = 0 then False
      else if ip4_u32 (ip4_not (ip4_or (a_mask a) (a_host a))) = 0 then False
      else True)"

definition address_empty :: "address \<Rightarrow> bool" where
  "address_empty a \<longleftrightarrow> ip4_empty (a_host a) \<and> ip4_empty (a_mask a)"

text \<open>\<^verbatim>\<open>std::string::find\<close> of one character; \<open>None\<close> is \<^verbatim>\<open>npos\<close>.\<close>

fun find_byte :: "u8 \<Rightarrow> bytes \<Rightarrow> nat option" where
  "find_byte c [] = None"
| "find_byte c (x # xs) = (if x = c then Some 0 else map_option Suc (find_byte c xs))"

text \<open>
  \<^verbatim>\<open>fromCidr\<close> returns 0, or -1 after catching an exception; the host is then already
  replaced when it was the prefix that failed to parse. Without a slash \<^verbatim>\<open>find\<close> gives
  \<^verbatim>\<open>npos\<close>, so both \<^verbatim>\<open>substr(0, npos)\<close> and \<^verbatim>\<open>substr(npos + 1)\<close> are the whole text.
\<close>

definition cidr_split :: "bytes \<Rightarrow> bytes \<times> bytes" where
  "cidr_split cidr =
     (case find_byte 47 cidr of
        None \<Rightarrow> (cidr, cidr)
      | Some pos \<Rightarrow> (take pos cidr, drop (pos + 1) cidr))"

definition fromCidr :: "poco \<Rightarrow> bytes \<Rightarrow> address \<Rightarrow> (address \<times> int) res" where
  "fromCidr P cidr a =
     (let (host_text, mask_text) = cidr_split cidr
      in case ip_parse P host_text of
           None \<Rightarrow> Ok (a, -1)
         | Some h \<Rightarrow>
             (case stoi mask_text of
                None \<Rightarrow> Ok (a\<lparr>a_host := h\<rparr>, -1)
              | Some prefix \<Rightarrow>
                  bind_res (fromPrefix prefix) (\<lambda>m. Ok (a\<lparr>a_host := h, a_mask := m\<rparr>, 0))))"

definition Address_of :: "poco \<Rightarrow> bytes \<Rightarrow> address res" where
  "Address_of P cidr =
     (if cidr = [] then Ok Address0
      else bind_res (fromCidr P cidr Address0) (\<lambda>(a, _). Ok a))"

definition toCidr :: "poco \<Rightarrow> address \<Rightarrow> bytes" where
  "toCidr P a = ip_show P (a_host a) @ [47] @ to_string (int (toPrefix (a_mask a)))"

section \<open>Facts about IP4\<close>

lemma length_raw [simp]: "length (raw ip) = 4"
  by (cases ip) simp

lemma ip4_of_raw_raw [simp]: "ip4_of_raw (raw ip) = ip"
  by (cases ip) (simp add: ip4_of_raw_def rd8_def)

lemma ip4_of_raw_append [simp]: "ip4_of_raw (raw ip @ q) = ip"
  by (cases ip) (simp add: ip4_of_raw_def rd8_def)

lemma raw_ip4_of_raw: "length r = 4 \<Longrightarrow> raw (ip4_of_raw r) = r"
  by (auto simp: ip4_of_raw_def rd8_def length_Suc_conv numeral_eq_Suc)

lemma ip4_of_raw_slice [bytes_simps]: "ip4_of_raw (slice 0 4 (raw ip @ q)) = ip"
  by (simp add: slice_def)

lemma ip4_of_u32_u32 [simp]: "ip4_of_u32 (ip4_u32 ip) = ip"
  by (simp add: ip4_of_u32_def ip4_u32_def le_bytes_le_word)

lemma ip4_u32_of_u32 [simp]: "ip4_u32 (ip4_of_u32 t) = t"
  by (simp add: ip4_of_u32_def ip4_u32_def raw_ip4_of_raw le_word_le_bytes)

lemma ip4_empty_iff: "ip4_empty ip \<longleftrightarrow> ip = ip4_zero"
  by (cases ip) (simp add: ip4_zero_def)

text \<open>The address read as the number that its dotted form denotes.\<close>

definition ip4_num :: "ip4 \<Rightarrow> u32" where
  "ip4_num ip = ntoh (ip4_u32 ip)"

lemma ip4_num_rev: "ip4_num ip = le_word (rev (raw ip))"
  by (simp add: ip4_num_def ntoh_def byteswap_def ip4_u32_def le_bytes_le_word)

lemma ip4_num_inject: "ip4_num a = ip4_num b \<longleftrightarrow> a = b"
proof
  assume "ip4_num a = ip4_num b"
  then have "le_bytes 4 (le_word (rev (raw a)) :: u32) = le_bytes 4 (le_word (rev (raw b)) :: u32)"
    by (simp add: ip4_num_rev)
  then have "rev (raw a) = rev (raw b)"
    by (simp add: le_bytes_le_word)
  then show "a = b"
    by (metis ip4_of_raw_raw rev_rev_ident)
qed simp

lemma bit_ip4_num: "bit (ip4_num ip) i \<longleftrightarrow> i < 32 \<and> bit (raw ip ! (3 - i div 8)) (i mod 8)"
proof -
  have "i < 32 \<Longrightarrow> rev (raw ip) ! (i div 8) = raw ip ! (3 - i div 8)"
    by (simp add: rev_nth)
  then show ?thesis
    by (auto simp: ip4_num_rev bit_le_word)
qed

lemma raw_ops:
  "j < 4 \<Longrightarrow> raw (ip4_and a b) ! j = raw a ! j AND raw b ! j"
  "j < 4 \<Longrightarrow> raw (ip4_or a b) ! j = raw a ! j OR raw b ! j"
  "j < 4 \<Longrightarrow> raw (ip4_xor a b) ! j = raw a ! j XOR raw b ! j"
  "j < 4 \<Longrightarrow> raw (ip4_not a) ! j = NOT (raw a ! j)"
  "j < 4 \<Longrightarrow> raw ip4_zero ! j = 0"
  by (cases a; cases b; auto simp: ip4_zero_def nth_Cons numeral_eq_Suc ac_simps split: nat.splits)+

lemma ip4_num_ops:
  "ip4_num (ip4_and a b) = ip4_num a AND ip4_num b"
  "ip4_num (ip4_or a b) = ip4_num a OR ip4_num b"
  "ip4_num (ip4_xor a b) = ip4_num a XOR ip4_num b"
  "ip4_num (ip4_not a) = NOT (ip4_num a)"
  "ip4_num ip4_zero = 0"
  by (rule bit_word_eqI, simp add: bit_ip4_num raw_ops bit_and_iff bit_or_iff bit_xor_iff bit_not_iff)+

lemma ip4_num_next: "ip4_num (ip4_next a) = ip4_num a + 1"
  by (simp add: ip4_num_def ip4_next_def)

lemma ip4_u32_eq_0_iff: "ip4_u32 ip = 0 \<longleftrightarrow> ip4_num ip = 0"
proof -
  have z: "ntoh (0 :: u32) = 0" by code_simp
  have inv: "ntoh (ntoh (w :: u32)) = w" for w
    using ntoh_hton(2) [of w] by (simp add: hton_def)
  show ?thesis
    unfolding ip4_num_def using z inv by metis
qed

section \<open>Facts about prefixes\<close>

text \<open>A mask is a prefix mask when it is what \<open>fromPrefix\<close> makes of its own prefix length.\<close>

definition is_prefix_mask :: "ip4 \<Rightarrow> bool" where
  "is_prefix_mask m \<longleftrightarrow> fromPrefix (int (toPrefix m)) = Ok m"

lemma bit_128: "bit (128 :: int) n \<longleftrightarrow> n = 7"
  using bit_exp_iff [of 7 n, where 'a = int] by auto

lemma bit_prefix_bit: "bit (prefix_bit i) b \<longleftrightarrow> b = 7 - i mod 8"
proof -
  have "i mod 8 < 8" by simp
  then have "i mod 8 + b = 7 \<longleftrightarrow> b = 7 - i mod 8" by arith
  then show ?thesis
    by (auto simp: prefix_bit_def bit_drop_bit_eq bit_128)
qed

lemma and_prefix_bit: "w AND prefix_bit i \<noteq> 0 \<longleftrightarrow> bit w (7 - i mod 8)"
  by (auto simp: bit_eq_iff [where 'a = u8] bit_and_iff bit_prefix_bit)

lemma length_set_prefix_bit [simp]: "length (set_prefix_bit r i) = length r"
  by (simp add: set_prefix_bit_def)

lemma prefix_position:
  fixes b j p :: nat
  assumes "b < 8"
  shows "(j = p div 8 \<and> b = 7 - p mod 8) \<longleftrightarrow> 8 * j + (7 - b) = p"
proof
  assume "j = p div 8 \<and> b = 7 - p mod 8"
  moreover have "p mod 8 < 8" by simp
  ultimately have "8 * j + (7 - b) = 8 * (p div 8) + p mod 8" by auto
  then show "8 * j + (7 - b) = p" by simp
next
  assume "8 * j + (7 - b) = p"
  then have "p = (7 - b) + 8 * j" by simp
  moreover have "7 - b < 8" by simp
  ultimately have "p div 8 = j" "p mod 8 = 7 - b" by auto
  then show "j = p div 8 \<and> b = 7 - p mod 8" using assms by auto
qed

lemma prefix_fold:
  assumes "p \<le> 32"
  shows "length (foldl set_prefix_bit [0, 0, 0, 0] [0..<p]) = 4 \<and>
    (\<forall>j < 4. \<forall>b < 8. bit (foldl set_prefix_bit [0, 0, 0, 0] [0..<p] ! j) b \<longleftrightarrow> 8 * j + (7 - b) < p)"
  using assms
proof (induction p)
  case 0
  then show ?case by (auto simp: nth_Cons split: nat.splits)
next
  case (Suc p)
  let ?r = "foldl set_prefix_bit [0, 0, 0, 0] [0..<p]"
  have IH: "length ?r = 4" "\<And>j b. j < 4 \<Longrightarrow> b < 8 \<Longrightarrow> bit (?r ! j) b \<longleftrightarrow> 8 * j + (7 - b) < p"
    using Suc by auto
  have "bit (set_prefix_bit ?r p ! j) b \<longleftrightarrow> 8 * j + (7 - b) < Suc p" if "j < 4" "b < 8" for j b
  proof -
    have "(j = p div 8 \<and> b = 7 - p mod 8) \<longleftrightarrow> 8 * j + (7 - b) = p"
      using that(2) by (rule prefix_position)
    moreover have "8 * j + (7 - b) < Suc p \<longleftrightarrow> 8 * j + (7 - b) < p \<or> 8 * j + (7 - b) = p"
      by (rule less_Suc_eq)
    moreover have "bit (set_prefix_bit ?r p ! j) b \<longleftrightarrow> bit (?r ! j) b \<or> (j = p div 8 \<and> b = 7 - p mod 8)"
      using that IH(1) by (cases "j = p div 8") (simp_all add: set_prefix_bit_def bit_or_iff bit_prefix_bit)
    ultimately show ?thesis
      using IH(2) [OF that] by simp
  qed
  then show ?case
    using IH(1) by simp
qed

lemma fromPrefix_spec:
  assumes "0 \<le> p" and "p \<le> 32"
  shows "\<exists>m. fromPrefix p = Ok m \<and> toPrefix m = nat p \<and> ip4_num m = NOT (mask (32 - nat p))"
proof -
  let ?r = "foldl set_prefix_bit [0, 0, 0, 0] [0..<nat p]" and ?p = "nat p"
  have p: "?p \<le> 32" using assms by simp
  have raw: "raw (ip4_of_raw ?r) = ?r"
    using prefix_fold [OF p] by (simp add: raw_ip4_of_raw)
  have bits: "bit (?r ! (i div 8)) (7 - i mod 8) \<longleftrightarrow> i < ?p" if "i < 32" for i
  proof -
    have "8 * (i div 8) + (7 - (7 - i mod 8)) = i" by presburger
    then show ?thesis
      using prefix_fold [OF p] that by simp
  qed
  have "takeWhile (\<lambda>i. ?r ! (i div 8) AND prefix_bit i \<noteq> 0) [0..<32] = takeWhile (\<lambda>i. i < ?p) [0..<32]"
    by (rule takeWhile_cong) (simp_all add: and_prefix_bit bits)
  also have "\<dots> = takeWhile (\<lambda>i. i < ?p) ([0..<?p] @ [?p..<32])"
    using p upt_add_eq_append [of 0 ?p "32 - ?p"] by simp
  also have "\<dots> = [0..<?p]"
    by (subst takeWhile_append2) (auto simp: takeWhile_eq_Nil_iff)
  finally have "toPrefix (ip4_of_raw ?r) = ?p"
    by (simp add: toPrefix_def raw)
  moreover have "ip4_num (ip4_of_raw ?r) = NOT (mask (32 - ?p))"
  proof (rule bit_word_eqI)
    fix i assume "i < LENGTH(32)"
    then have i: "i < 32" by simp
    have "i div 8 \<le> 3" "i mod 8 \<le> 7" using i by auto
    moreover have "8 * (i div 8) + i mod 8 = i" by simp
    ultimately have "8 * (3 - i div 8) + (7 - i mod 8) = 31 - i" by arith
    then have "bit (ip4_num (ip4_of_raw ?r)) i \<longleftrightarrow> 31 - i < ?p"
      using prefix_fold [OF p] i by (simp add: bit_ip4_num raw)
    then show "bit (ip4_num (ip4_of_raw ?r)) i \<longleftrightarrow> bit (NOT (mask (32 - ?p)) :: u32) i"
      using i p by (auto simp: bit_not_iff bit_mask_iff)
  qed
  ultimately show ?thesis
    using assms by (auto simp: fromPrefix_def)
qed

lemma toPrefix_le: "toPrefix m \<le> 32"
  unfolding toPrefix_def using length_takeWhile_le [of _ "[0..<32]"] by simp

lemma prefix_mask_num: "is_prefix_mask m \<Longrightarrow> ip4_num m = NOT (mask (32 - toPrefix m))"
  using fromPrefix_spec [of "int (toPrefix m)"] toPrefix_le [of m]
  by (auto simp: is_prefix_mask_def)

lemma fromPrefix_is_prefix_mask: "fromPrefix p = Ok m \<Longrightarrow> is_prefix_mask m"
proof (cases "0 \<le> p \<and> p \<le> 32")
  case True
  then show "fromPrefix p = Ok m \<Longrightarrow> ?thesis"
    using fromPrefix_spec [of p] by (auto simp: is_prefix_mask_def)
next
  case False
  then show "fromPrefix p = Ok m \<Longrightarrow> ?thesis"
    using fromPrefix_spec [of 0] by (auto simp: is_prefix_mask_def fromPrefix_def split: if_splits)
qed

text \<open>For every prefix length from 0 to 32 \<^verbatim>\<open>fromPrefix\<close> stays inside the four bytes and
  \<^verbatim>\<open>toPrefix\<close> reads the same length back; the mask, read as a number, has exactly its
  leading \<open>p\<close> bits set.\<close>

theorem fromPrefix_toPrefix:
  assumes "0 \<le> p" and "p \<le> 32"
  shows "\<exists>m. fromPrefix p = Ok m \<and> toPrefix m = nat p \<and> (\<forall>i < 32. bit (ip4_num m) i \<longleftrightarrow> 32 - nat p \<le> i)"
  using fromPrefix_spec [OF assms] by (auto simp: bit_not_iff bit_mask_iff)

theorem fromPrefix_toPrefix_witness:
  "(0::int) \<le> 24 \<and> (24::int) \<le> 32 \<and> (\<exists>m. fromPrefix 24 = Ok m \<and> toPrefix m = 24)"
  using fromPrefix_toPrefix [of 24] by auto

section \<open>Facts about Next\<close>

lemma unat_mask_eq:
  assumes "k \<le> 32"
  shows "unat (mask k :: u32) = 2 ^ k - 1"
proof -
  have "int (unat (mask k :: u32)) = mask k"
    using assms uint_mask_eq [of k, where 'a = 32] by (simp add: min_def)
  also have "\<dots> = int (2 ^ k - 1)"
    by (simp add: mask_eq_exp_minus_1)
  finally show ?thesis by (simp only: of_nat_eq_iff)
qed

text \<open>The index of an address inside its network: the bits the mask leaves free.\<close>

definition host_bits :: "address \<Rightarrow> nat" where
  "host_bits a = 32 - toPrefix (a_mask a)"

definition host_index :: "address \<Rightarrow> nat" where
  "host_index a = unat (ip4_num (ip4_and (a_host a) (ip4_not (a_mask a))))"

lemma host_bits_le: "host_bits a \<le> 32"
  by (simp add: host_bits_def)

lemma host_index_take_bit:
  "is_prefix_mask (a_mask a) \<Longrightarrow> host_index a = take_bit (host_bits a) (unat (ip4_num (a_host a)))"
  by (simp add: host_index_def ip4_num_ops prefix_mask_num host_bits_def unsigned_take_bit_eq
      flip: take_bit_eq_mask)

lemma host_index_less: "is_prefix_mask (a_mask a) \<Longrightarrow> host_index a < 2 ^ host_bits a"
  by (simp add: host_index_take_bit)

lemma Next_mask [simp]: "a_mask (Next a) = a_mask a"
  by (simp add: Next_def)

lemma host_bits_Next [simp]: "host_bits (Next a) = host_bits a"
  by (simp add: host_bits_def)

lemma Net_Next: "Net (Next a) = Net a"
proof -
  have "ip4_num (Net (Next a)) = ip4_num (Net a)"
    by (simp add: Net_def Next_def ip4_num_ops)
      (rule bit_word_eqI, auto simp: bit_and_iff bit_or_iff bit_not_iff)
  then show ?thesis by (simp add: ip4_num_inject)
qed

lemma host_index_Next:
  assumes "is_prefix_mask (a_mask a)"
  shows "host_index (Next a) = (host_index a + 1) mod 2 ^ host_bits a"
proof -
  let ?k = "host_bits a" and ?h = "ip4_num (a_host a)"
  have m: "ip4_num (a_mask a) = NOT (mask ?k)"
    using prefix_mask_num [OF assms] by (simp add: host_bits_def)
  have "ip4_num (ip4_and (a_host (Next a)) (ip4_not (a_mask a))) = take_bit ?k (?h + 1)"
    by (simp add: Next_def Net_def ip4_num_ops ip4_num_next m)
      (rule bit_word_eqI, auto simp: bit_and_iff bit_or_iff bit_not_iff bit_mask_iff bit_take_bit_iff)
  then have "host_index (Next a) = take_bit ?k (unat (?h + 1))"
    by (simp add: host_index_def unsigned_take_bit_eq)
  also have "\<dots> = take_bit ?k (unat ?h + 1)"
  proof -
    have "(2::nat) ^ ?k dvd 4294967296"
      using le_imp_power_dvd [OF host_bits_le [of a], of "2::nat"] by simp
    then show ?thesis
      by (simp add: unat_word_ariths take_bit_eq_mod mod_mod_cancel)
  qed
  also have "\<dots> = (host_index a + 1) mod 2 ^ ?k"
    by (simp add: host_index_take_bit [OF assms] take_bit_eq_mod mod_Suc_eq)
  finally show ?thesis .
qed

lemma all_ones_iff:
  assumes "is_prefix_mask (a_mask a)"
  shows "ip4_u32 (ip4_not (ip4_or (a_mask a) (a_host a))) = 0 \<longleftrightarrow> host_index a = 2 ^ host_bits a - 1"
proof -
  let ?k = "host_bits a" and ?h = "ip4_num (a_host a)"
  have m: "ip4_num (a_mask a) = NOT (mask ?k)"
    using prefix_mask_num [OF assms] by (simp add: host_bits_def)
  have "mask ?k AND NOT ?h = 0 \<longleftrightarrow> (\<forall>i < 32. i < ?k \<longrightarrow> bit ?h i)"
    by (auto simp: bit_eq_iff bit_and_iff bit_not_iff bit_mask_iff)
  also have "\<dots> \<longleftrightarrow> take_bit ?k ?h = mask ?k"
    by (auto simp: bit_eq_iff bit_take_bit_iff bit_mask_iff)
  also have "\<dots> \<longleftrightarrow> unat (take_bit ?k ?h) = unat (mask ?k :: u32)"
    by (rule word_unat_eq_iff)
  also have "\<dots> \<longleftrightarrow> host_index a = 2 ^ ?k - 1"
    using host_bits_le [of a]
    by (simp add: host_index_take_bit [OF assms] unsigned_take_bit_eq unat_mask_eq)
  finally show ?thesis
    by (simp add: ip4_u32_eq_0_iff ip4_num_ops m)
qed

lemma isValid_iff:
  assumes "is_prefix_mask (a_mask a)"
  shows "isValid a \<longleftrightarrow> host_index a \<noteq> 0 \<and> host_index a \<noteq> 2 ^ host_bits a - 1"
proof -
  have "ip4_u32 (ip4_and (ip4_not (a_mask a)) (a_host a)) = 0 \<longleftrightarrow> host_index a = 0"
    by (simp add: ip4_u32_eq_0_iff host_index_def ip4_num_ops unat_eq_0 ac_simps)
  then show ?thesis
    by (simp add: isValid_def all_ones_iff [OF assms])
qed

lemma same_net_same_index:
  assumes "is_prefix_mask (a_mask a)" and "a_mask b = a_mask a" and "Net b = Net a" and "host_index b = host_index a"
  shows "a_host b = a_host a"
proof -
  let ?m = "ip4_num (a_mask a)"
  have "ip4_num (a_host b) AND ?m = ip4_num (a_host a) AND ?m"
    using assms(2,3) by (metis Net_def ip4_num_ops(1))
  moreover have "ip4_num (a_host b) AND NOT ?m = ip4_num (a_host a) AND NOT ?m"
    using assms(2,4) by (simp add: host_index_def ip4_num_ops flip: word_unat_eq_iff)
  ultimately have "ip4_num (a_host b) = ip4_num (a_host a)"
    by (auto simp: bit_eq_iff bit_and_iff bit_not_iff)
  then show ?thesis by (simp add: ip4_num_inject)
qed

section \<open>Facts about the CIDR text\<close>

lemma find_byte_append: "c \<notin> set p \<Longrightarrow> find_byte c (p @ c # q) = Some (length p)"
  by (induction p) auto

lemma find_byte_None: "find_byte c b = None \<longleftrightarrow> c \<notin> set b"
  by (induction b) auto

lemma poco_ok_parse: "poco_ok P \<Longrightarrow> ip_parse P (ip_show P ip) = Some ip"
  by (simp add: poco_ok_def)

lemma poco_ok_no_slash: "poco_ok P \<Longrightarrow> 47 \<notin> set (ip_show P ip)"
  using digit_neqs by (fastforce simp: poco_ok_def)

lemma cidr_split_toCidr:
  "poco_ok P \<Longrightarrow> cidr_split (toCidr P a) = (ip_show P (a_host a), to_string (int (toPrefix (a_mask a))))"
  by (simp add: cidr_split_def toCidr_def find_byte_append poco_ok_no_slash)

lemma toCidr_nonempty [simp]: "toCidr P a \<noteq> []"
  by (simp add: toCidr_def)

lemma stoi_toPrefix: "stoi (to_string (int (toPrefix m))) = Some (int (toPrefix m))"
  using stoi_to_string [of "[]" "toPrefix m"] toPrefix_le [of m] by simp

lemma fromCidr_toCidr:
  "poco_ok P \<Longrightarrow> is_prefix_mask (a_mask a) \<Longrightarrow>
   fromCidr P (toCidr P a) b = Ok (b\<lparr>a_host := a_host a, a_mask := a_mask a\<rparr>, 0)"
  by (simp add: fromCidr_def cidr_split_toCidr poco_ok_parse stoi_toPrefix is_prefix_mask_def)

lemma Address_of_toCidr:
  "poco_ok P \<Longrightarrow> is_prefix_mask (a_mask a) \<Longrightarrow> Address_of P (toCidr P a) = Ok a"
  by (simp add: Address_of_def fromCidr_toCidr Address0_def)

lemma fromCidr_Ok_prefix_mask:
  "fromCidr P cidr a = Ok (a', 0) \<Longrightarrow> is_prefix_mask (a_mask a')"
  by (auto simp: fromCidr_def bind_res_Ok_iff fromPrefix_is_prefix_mask split: prod.splits option.splits)

lemma length_show_nat: "n < 10 ^ Suc k \<Longrightarrow> length (show_nat n) \<le> Suc k"
proof (induction k arbitrary: n)
  case 0
  then show ?case by (simp add: show_nat.simps [of n])
next
  case (Suc k)
  then have "n div 10 < 10 ^ Suc k" by (simp add: less_mult_imp_div_less mult.commute)
  then have "length (show_nat (n div 10)) \<le> Suc k" by (rule Suc.IH)
  then show ?case by (simp add: show_nat.simps [of n])
qed

lemma length_show_nat_byte: "n < 1000 \<Longrightarrow> length (show_nat n) \<le> 3"
  using length_show_nat [of n 2] by simp

lemma length_toCidr: "poco_ok P \<Longrightarrow> length (toCidr P a) \<le> 18"
proof -
  assume P: "poco_ok P"
  have "length (ip_show P (a_host a)) \<le> 15" using P by (simp add: poco_ok_def)
  moreover have "length (to_string (int (toPrefix (a_mask a)))) \<le> 2"
    using toPrefix_le [of "a_mask a"] length_show_nat [of "toPrefix (a_mask a)" 1]
    by (simp add: to_string_def)
  ultimately show ?thesis by (simp add: toCidr_def)
qed

section \<open>A dotted-decimal instance of the Poco services\<close>

text \<open>
  A concrete printer and parser with the documented behaviour on IPv4 text. The model
  never uses it; the witnesses evaluate on it, and it shows that \<open>poco_ok\<close> can hold.
\<close>

fun split_on :: "u8 \<Rightarrow> bytes \<Rightarrow> bytes list" where
  "split_on c [] = [[]]"
| "split_on c (x # xs) =
     (if x = c then [] # split_on c xs
      else case split_on c xs of [] \<Rightarrow> [[x]] | p # ps \<Rightarrow> (x # p) # ps)"

definition dotted_part :: "bytes \<Rightarrow> u8 option" where
  "dotted_part s =
     (if s \<noteq> [] \<and> length s \<le> 3 \<and> list_all is_digit s \<and> digits_val 0 s < 256
      then Some (of_nat (digits_val 0 s)) else None)"

fun dotted_parts :: "bytes list \<Rightarrow> ip4 option" where
  "dotted_parts [a, b, c, d] =
     (case (dotted_part a, dotted_part b, dotted_part c, dotted_part d) of
        (Some a', Some b', Some c', Some d') \<Rightarrow> Some (IP4 a' b' c' d')
      | _ \<Rightarrow> None)"
| "dotted_parts _ = None"

fun dotted_show :: "ip4 \<Rightarrow> bytes" where
  "dotted_show (IP4 a b c d) =
     show_nat (unat a) @ [46] @ show_nat (unat b) @ [46] @ show_nat (unat c) @ [46] @ show_nat (unat d)"

definition dotted_poco :: poco where
  "dotted_poco =
     \<lparr>ip_parse = (\<lambda>s. dotted_parts (split_on 46 s)), ip_show = dotted_show,
      isSiteLocal = (\<lambda>ip. rd8 (raw ip) 0 = 10 \<or> (rd8 (raw ip) 0 = 172 \<and> rd8 (raw ip) 1 AND 240 = 16) \<or>
                          (rd8 (raw ip) 0 = 192 \<and> rd8 (raw ip) 1 = 168)),
      isLinkLocal = (\<lambda>ip. rd8 (raw ip) 0 = 169 \<and> rd8 (raw ip) 1 = 254),
      isSiteLocalMC = (\<lambda>ip. rd8 (raw ip) 0 = 239 \<and> rd8 (raw ip) 1 = 255),
      uri_parse = (\<lambda>s. None),
      resolve = (\<lambda>h p. map_option (\<lambda>ip. (ip, p)) (dotted_parts (split_on 46 h)))\<rparr>"

lemma split_on_append: "c \<notin> set p \<Longrightarrow> split_on c (p @ c # q) = p # split_on c q"
  by (induction p) auto

lemma split_on_none: "c \<notin> set p \<Longrightarrow> split_on c p = [p]"
  by (induction p) auto

lemma unat_byte_less [simp]: "unat (b :: u8) < 256"
  using unsigned_less [of b, where 'a = nat] by simp

lemma dotted_part_show: "dotted_part (show_nat (unat b)) = Some b"
proof -
  have "unat b < 1000" using unat_byte_less [of b] by linarith
  then show ?thesis
    using show_nat_digits [of "unat b"]
    by (simp add: dotted_part_def list_all_iff digits_val_show_nat length_show_nat_byte)
qed

lemma dot_notin_show_nat [simp]: "46 \<notin> set (show_nat n)"
  using show_nat_digits [of n] digit_neqs by blast

lemma dotted_poco_ok: "poco_ok dotted_poco"
proof -
  have parse: "dotted_parts (split_on 46 (dotted_show ip)) = Some ip" for ip
    by (cases ip) (simp add: split_on_append split_on_none dotted_part_show)
  have chars: "\<forall>c \<in> set (dotted_show ip). is_digit c \<or> c = 46" for ip
    by (cases ip) (use show_nat_digits in auto)
  have len: "length (dotted_show ip) \<le> 15" for ip
  proof (cases ip)
    case (IP4 a b c d)
    have "length (show_nat (unat x)) \<le> 3" for x :: u8
      using unat_byte_less [of x] by (intro length_show_nat_byte) linarith
    from this [of a] this [of b] this [of c] this [of d] show ?thesis
      using IP4 by simp
  qed
  show ?thesis
    by (simp add: poco_ok_def dotted_poco_def parse chars len)
qed
end
