(* ===== verification/Wire.thy ===== *)
theory Wire
  imports Net
begin

text \<open>
  What the two wire protocols (websocket and peer) share: the OpenSSL services as a
  parameter, the interface of a packed structure that is cast onto a buffer, and the
  interface of a message that carries a hash of the password and its own fields.
\<close>

section \<open>OpenSSL, a parameter\<close>

text \<open>
  \<open>gcm_seal key iv plaintext\<close> is the sequence of EVP calls of an AES-256-GCM encryption:
  ciphertext and tag, or \<open>None\<close> when a call fails. \<open>gcm_open key iv tag ciphertext\<close> is the
  decryption, \<open>None\<close> when a call fails or the tag does not match. \<open>crypto_ok\<close> is the
  documented behaviour the code relies on.
\<close>

record crypto =
  SHA256 :: "bytes \<Rightarrow> bytes"
  gcm_seal :: "bytes \<Rightarrow> bytes \<Rightarrow> bytes \<Rightarrow> (bytes \<times> bytes) option"
  gcm_open :: "bytes \<Rightarrow> bytes \<Rightarrow> bytes \<Rightarrow> bytes \<Rightarrow> bytes option"

definition SHA256_DIGEST_LENGTH :: nat where
  "SHA256_DIGEST_LENGTH = 32"

definition AES_256_GCM_IV_LEN :: nat where
  "AES_256_GCM_IV_LEN = 12"

definition AES_256_GCM_TAG_LEN :: nat where
  "AES_256_GCM_TAG_LEN = 16"

definition AES_256_GCM_KEY_LEN :: nat where
  "AES_256_GCM_KEY_LEN = 32"

definition crypto_ok :: "crypto \<Rightarrow> bool" where
  "crypto_ok C \<longleftrightarrow>
     (\<forall>x. length (SHA256 C x) = 32) \<and>
     (\<forall>k iv p c t. gcm_seal C k iv p = Some (c, t) \<longrightarrow>
        length t = 16 \<and> length c = length p \<and> gcm_open C k iv t c = Some p)"

text \<open>
  An instance for witnesses: a digest that keeps the length, the sum and the last bytes of
  its input, and a cipher whose tag is derived from the key.
\<close>

definition toy_crypto :: crypto where
  "toy_crypto =
     \<lparr>SHA256 = (\<lambda>x. resize 32 (rev (take 31 (rev x)) @ [foldr (+) x 0])),
      gcm_seal = (\<lambda>k iv p. Some (p, resize 16 k)),
      gcm_open = (\<lambda>k iv t c. if t = resize 16 k then Some c else None)\<rparr>"

lemma toy_crypto_ok: "crypto_ok toy_crypto"
  by (simp add: crypto_ok_def toy_crypto_def)

section \<open>Packed structures\<close>

text \<open>
  A packed structure of \<open>sz\<close> bytes: \<open>enc\<close> is its memory, \<open>dec\<close> the reading of a buffer
  through a pointer cast, which looks at the first \<open>sz\<close> bytes only.
\<close>

locale wire_struct =
  fixes enc :: "'a \<Rightarrow> bytes"
    and dec :: "bytes \<Rightarrow> 'a"
    and sz :: nat
    and wf :: "'a \<Rightarrow> bool"
  assumes length_enc: "wf a \<Longrightarrow> length (enc a) = sz"
    and dec_enc: "wf a \<Longrightarrow> dec (enc a @ rest) = a"
    and enc_dec: "sz \<le> length b \<Longrightarrow> enc (dec b) = take sz b"
    and wf_dec: "sz \<le> length b \<Longrightarrow> wf (dec b)"
begin

lemma dec_enc_exact: "wf a \<Longrightarrow> dec (enc a) = a"
  using dec_enc [of a "[]"] by simp

lemma enc_inject: "wf a \<Longrightarrow> wf b \<Longrightarrow> enc a = enc b \<longleftrightarrow> a = b"
  by (metis dec_enc_exact)

lemma splice_dec: "wf a \<Longrightarrow> dec (splice 0 (enc a) b) = a"
  by (simp add: splice_def dec_enc)

lemma splice_tail: "wf a \<Longrightarrow> drop sz (splice 0 (enc a) b) = drop sz b"
  by (simp add: splice_def length_enc)

lemma length_splice_enc: "wf a \<Longrightarrow> sz \<le> length b \<Longrightarrow> length (splice 0 (enc a) b) = length b"
  by (simp add: splice_def length_enc)

lemma splice_same: "sz \<le> length b \<Longrightarrow> splice 0 (enc (dec b)) b = b"
  by (simp add: splice_def enc_dec)

end

section \<open>Messages authenticated by a hash\<close>

text \<open>
  \<^verbatim>\<open>updateHash\<close> stores the digest of the password followed by fields of the message;
  \<^verbatim>\<open>check\<close> keeps the reported hash, recomputes it in place and compares the two.
\<close>

locale hashed_message =
  fixes sha :: "bytes \<Rightarrow> bytes"
    and body :: "'m \<Rightarrow> bytes"
    and get_hash :: "'m \<Rightarrow> bytes"
    and set_hash :: "bytes \<Rightarrow> 'm \<Rightarrow> 'm"
    and upd :: "bytes \<Rightarrow> 'm \<Rightarrow> 'm"
    and chk :: "bytes \<Rightarrow> 'm \<Rightarrow> bool \<times> 'm"
  assumes get_set: "get_hash (set_hash h m) = h"
    and set_get: "set_hash (get_hash m) m = m"
    and set_set: "set_hash h (set_hash h' m) = set_hash h m"
    and body_set: "body (set_hash h m) = body m"
    and upd: "upd pw m = set_hash (sha (pw @ body m)) m"
    and chk: "chk pw m = (get_hash m = get_hash (upd pw m), upd pw m)"
begin

lemma chk_iff: "fst (chk pw m) \<longleftrightarrow> get_hash m = sha (pw @ body m)"
  by (simp add: chk upd get_set)

lemma chk_upd: "fst (chk pw (upd pw m))"
  by (simp add: chk_iff upd get_set body_set)

lemma chk_upd_other: "fst (chk pw' (upd pw m)) \<longleftrightarrow> sha (pw @ body m) = sha (pw' @ body m)"
  by (simp add: chk_iff upd get_set body_set)

lemma chk_unchanged: "fst (chk pw m) \<Longrightarrow> snd (chk pw m) = m"
  by (metis chk chk_iff set_get snd_conv upd)

lemma upd_idem: "upd pw (upd pw m) = upd pw m"
  by (simp add: upd body_set set_set)

end

text \<open>Reading the fields of a structure that was written as a concatenation.\<close>

lemmas struct_simps =
  bytes_simps slice_def rd8_def nth_append le_word_le_bytes le_bytes_le_word raw_ip4_of_raw

lemma slice_glue: "off' = off + n \<Longrightarrow> slice off n b @ slice off' m b = slice off (n + m) b"
  by (simp add: slice_def take_add add.commute [of off n])

lemma raw_ip4_slice: "off + 4 \<le> length b \<Longrightarrow> raw (ip4_of_raw (slice off 4 b)) = slice off 4 b"
  by (simp add: raw_ip4_of_raw slice_def)

lemma le_bytes2_slice: "off + 2 \<le> length b \<Longrightarrow> le_bytes 2 (le_word (slice off 2 b) :: u16) = slice off 2 b"
  by (simp add: le_bytes_le_word slice_def)

lemma le_bytes4_slice: "off + 4 \<le> length b \<Longrightarrow> le_bytes 4 (le_word (slice off 4 b) :: u32) = slice off 4 b"
  by (simp add: le_bytes_le_word slice_def)

lemma le_bytes8_slice: "off + 8 \<le> length b \<Longrightarrow> le_bytes 8 (le_word (slice off 8 b) :: u64) = slice off 8 b"
  by (simp add: le_bytes_le_word slice_def)

lemma take_as_slice: "take n b = slice 0 n b"
  by (simp add: slice_def)

lemma Cons_rd8_slice: "i < length b \<Longrightarrow> i' = i + 1 \<Longrightarrow> rd8 b i # slice i' m b = slice i (m + 1) b"
  by (simp add: slice_def rd8_def flip: Cons_nth_drop_Suc)

lemma Cons_rd8_0_slice: "m + 1 \<le> length b \<Longrightarrow> rd8 b 0 # slice 1 m b = slice 0 (m + 1) b"
  by (cases b) (simp_all add: slice_def rd8_def)

text \<open>Gluing consecutive slices back together, for the direction from bytes to a structure.\<close>

lemmas glue_simps =
  take_as_slice Cons_rd8_0_slice Cons_rd8_0_slice [simplified] Cons_rd8_slice slice_glue raw_ip4_slice
  le_bytes2_slice le_bytes4_slice le_bytes8_slice

end
