(* ===== verification/WsMessage.thy ===== *)
theory WsMessage
  imports Wire
begin

text \<open>
  \<^verbatim>\<open>websocket/message.h\<close>, \<^verbatim>\<open>message.cc\<close>: the packed messages between a client and the
  server, their constructors, and the hash that authenticates three of them. A field that
  the code stores through \<^verbatim>\<open>hton\<close> holds the swapped integer, as the field in memory does.
\<close>

section \<open>Kinds\<close>

definition WS_AUTH :: u8 where "WS_AUTH = 0"
definition WS_FORWARD :: u8 where "WS_FORWARD = 1"
definition WS_EXPTTUN :: u8 where "WS_EXPTTUN = 2"
definition WS_UDP4CONN :: u8 where "WS_UDP4CONN = 3"
definition WS_VMAC :: u8 where "WS_VMAC = 4"
definition WS_DISCOVERY :: u8 where "WS_DISCOVERY = 5"
definition WS_ROUTE :: u8 where "WS_ROUTE = 6"
definition WS_GENERAL :: u8 where "WS_GENERAL = 255"
definition GE_LOCALUDP4CONN :: u8 where "GE_LOCALUDP4CONN = 0"

lemmas WsMsgKind_defs = WS_AUTH_def WS_FORWARD_def WS_EXPTTUN_def WS_UDP4CONN_def WS_VMAC_def
  WS_DISCOVERY_def WS_ROUTE_def WS_GENERAL_def GE_LOCALUDP4CONN_def

section \<open>Auth\<close>

record Auth =
  au_type :: u8
  au_ip :: ip4
  au_timestamp :: u64
  au_hash :: bytes

definition sizeof_Auth :: nat where "sizeof_Auth = 45"

definition Auth_bytes :: "Auth \<Rightarrow> bytes" where
  "Auth_bytes a = au_type a # raw (au_ip a) @ le_bytes 8 (au_timestamp a) @ au_hash a"

definition Auth_at :: "bytes \<Rightarrow> Auth" where
  "Auth_at b = \<lparr>au_type = rd8 b 0, au_ip = ip4_of_raw (slice 1 4 b),
     au_timestamp = le_word (slice 5 8 b), au_hash = slice 13 32 b\<rparr>"

definition Auth_new :: "u64 \<Rightarrow> ip4 \<Rightarrow> Auth" where
  "Auth_new now ip = \<lparr>au_type = WS_AUTH, au_ip = ip, au_timestamp = hton now, au_hash = replicate 32 0\<rparr>"

definition Auth_updateHash :: "crypto \<Rightarrow> bytes \<Rightarrow> Auth \<Rightarrow> Auth" where
  "Auth_updateHash C password a =
     a\<lparr>au_hash := SHA256 C (password @ raw (au_ip a) @ le_bytes 8 (au_timestamp a))\<rparr>"

text \<open>
  \<^verbatim>\<open>check\<close> compares the time only to write a warning; \<open>stale\<close> is that comparison.
\<close>

definition stale :: "u64 \<Rightarrow> u64 \<Rightarrow> bool" where
  "stale now timestamp \<longleftrightarrow> \<bar>sint now - sint (ntoh timestamp)\<bar> > 300"

definition Auth_check :: "crypto \<Rightarrow> u64 \<Rightarrow> bytes \<Rightarrow> Auth \<Rightarrow> bool \<times> bool \<times> Auth" where
  "Auth_check C now password a =
     (let warned = stale now (au_timestamp a);
          reported = au_hash a;
          a' = Auth_updateHash C password a
      in if reported \<noteq> au_hash a' then (warned, False, a') else (warned, True, a'))"

section \<open>Forward\<close>

record Forward =
  fw_type :: u8
  fw_iph :: IP4Header

definition sizeof_Forward :: nat where "sizeof_Forward = 21"

definition Forward_at :: "bytes \<Rightarrow> Forward" where
  "Forward_at b = \<lparr>fw_type = rd8 b 0, fw_iph = IP4Header_at b 1\<rparr>"

section \<open>ExptTun\<close>

record ExptTun =
  et_type :: u8
  et_timestamp :: u64
  et_cidr :: bytes
  et_hash :: bytes

definition sizeof_ExptTun :: nat where "sizeof_ExptTun = 73"

definition ExptTun_bytes :: "ExptTun \<Rightarrow> bytes" where
  "ExptTun_bytes e = et_type e # le_bytes 8 (et_timestamp e) @ et_cidr e @ et_hash e"

definition ExptTun_at :: "bytes \<Rightarrow> ExptTun" where
  "ExptTun_at b = \<lparr>et_type = rd8 b 0, et_timestamp = le_word (slice 1 8 b),
     et_cidr = slice 9 32 b, et_hash = slice 41 32 b\<rparr>"

text \<open>\<^verbatim>\<open>strcpy\<close> into the zeroed field: the text, its terminator, and what was there before.\<close>

definition strcpy :: "bytes \<Rightarrow> bytes \<Rightarrow> bytes" where
  "strcpy dst src = splice 0 (takeWhile (\<lambda>c. c \<noteq> 0) src @ [0]) dst"

definition ExptTun_new :: "u64 \<Rightarrow> bytes \<Rightarrow> ExptTun res" where
  "ExptTun_new now cidr =
     (if 32 \<le> length (takeWhile (\<lambda>c. c \<noteq> 0) cidr) then Undef
      else Ok \<lparr>et_type = WS_EXPTTUN, et_timestamp = hton now,
               et_cidr = strcpy (replicate 32 0) cidr, et_hash = replicate 32 0\<rparr>)"

definition ExptTun_updateHash :: "crypto \<Rightarrow> bytes \<Rightarrow> ExptTun \<Rightarrow> ExptTun" where
  "ExptTun_updateHash C password e =
     e\<lparr>et_hash := SHA256 C (password @ le_bytes 8 (et_timestamp e))\<rparr>"

definition ExptTun_check :: "crypto \<Rightarrow> u64 \<Rightarrow> bytes \<Rightarrow> ExptTun \<Rightarrow> bool \<times> bool \<times> ExptTun" where
  "ExptTun_check C now password e =
     (let warned = stale now (et_timestamp e);
          reported = et_hash e;
          e' = ExptTun_updateHash C password e
      in if reported \<noteq> et_hash e' then (warned, False, e') else (warned, True, e'))"

section \<open>Conn\<close>

record Conn =
  cn_type :: u8
  cn_src :: ip4
  cn_dst :: ip4
  cn_ip :: ip4
  cn_port :: u16

definition sizeof_Conn :: nat where "sizeof_Conn = 15"

definition Conn_bytes :: "Conn \<Rightarrow> bytes" where
  "Conn_bytes c = cn_type c # raw (cn_src c) @ raw (cn_dst c) @ raw (cn_ip c) @ le_bytes 2 (cn_port c)"

definition Conn_at :: "bytes \<Rightarrow> Conn" where
  "Conn_at b = \<lparr>cn_type = rd8 b 0, cn_src = ip4_of_raw (slice 1 4 b), cn_dst = ip4_of_raw (slice 5 4 b),
     cn_ip = ip4_of_raw (slice 9 4 b), cn_port = le_word (slice 13 2 b)\<rparr>"

definition Conn_new :: Conn where
  "Conn_new = \<lparr>cn_type = WS_UDP4CONN, cn_src = ip4_zero, cn_dst = ip4_zero, cn_ip = ip4_zero, cn_port = 0\<rparr>"

section \<open>VMac\<close>

record VMac =
  vm_type :: u8
  vm_vmac :: bytes
  vm_timestamp :: u64
  vm_hash :: bytes

definition sizeof_VMac :: nat where "sizeof_VMac = 57"

definition VMac_bytes :: "VMac \<Rightarrow> bytes" where
  "VMac_bytes v = vm_type v # vm_vmac v @ le_bytes 8 (vm_timestamp v) @ vm_hash v"

definition VMac_at :: "bytes \<Rightarrow> VMac" where
  "VMac_at b = \<lparr>vm_type = rd8 b 0, vm_vmac = slice 1 16 b, vm_timestamp = le_word (slice 17 8 b),
     vm_hash = slice 25 32 b\<rparr>"

definition VMac_new :: "u64 \<Rightarrow> bytes \<Rightarrow> VMac" where
  "VMac_new now vmac =
     \<lparr>vm_type = WS_VMAC, vm_vmac = (if length vmac \<ge> 16 then take 16 vmac else replicate 16 0),
      vm_timestamp = hton now, vm_hash = replicate 32 0\<rparr>"

definition VMac_updateHash :: "crypto \<Rightarrow> bytes \<Rightarrow> VMac \<Rightarrow> VMac" where
  "VMac_updateHash C password v =
     v\<lparr>vm_hash := SHA256 C (password @ vm_vmac v @ le_bytes 8 (vm_timestamp v))\<rparr>"

definition VMac_check :: "crypto \<Rightarrow> u64 \<Rightarrow> bytes \<Rightarrow> VMac \<Rightarrow> bool \<times> bool \<times> VMac" where
  "VMac_check C now password v =
     (let warned = stale now (vm_timestamp v);
          reported = vm_hash v;
          v' = VMac_updateHash C password v
      in if reported \<noteq> vm_hash v' then (warned, False, v') else (warned, True, v'))"

section \<open>Discovery, SysRoute, General, ConnLocal\<close>

record Discovery =
  dc_type :: u8
  dc_src :: ip4
  dc_dst :: ip4

definition sizeof_Discovery :: nat where "sizeof_Discovery = 9"

definition Discovery_bytes :: "Discovery \<Rightarrow> bytes" where
  "Discovery_bytes d = dc_type d # raw (dc_src d) @ raw (dc_dst d)"

definition Discovery_at :: "bytes \<Rightarrow> Discovery" where
  "Discovery_at b = \<lparr>dc_type = rd8 b 0, dc_src = ip4_of_raw (slice 1 4 b), dc_dst = ip4_of_raw (slice 5 4 b)\<rparr>"

definition Discovery_new :: Discovery where
  "Discovery_new = \<lparr>dc_type = WS_DISCOVERY, dc_src = ip4_zero, dc_dst = ip4_zero\<rparr>"

definition sizeof_SysRoute :: nat where "sizeof_SysRoute = 4"

definition sizeof_SysRouteEntry :: nat where "sizeof_SysRouteEntry = 12"

record General =
  ge_type :: u8
  ge_subtype :: u8
  ge_extra :: u16
  ge_src :: ip4
  ge_dst :: ip4

definition sizeof_General :: nat where "sizeof_General = 12"

definition General_bytes :: "General \<Rightarrow> bytes" where
  "General_bytes g = ge_type g # ge_subtype g # le_bytes 2 (ge_extra g) @ raw (ge_src g) @ raw (ge_dst g)"

definition General_at :: "bytes \<Rightarrow> General" where
  "General_at b = \<lparr>ge_type = rd8 b 0, ge_subtype = rd8 b 1, ge_extra = le_word (slice 2 2 b),
     ge_src = ip4_of_raw (slice 4 4 b), ge_dst = ip4_of_raw (slice 8 4 b)\<rparr>"

record ConnLocal =
  cl_ge :: General
  cl_ip :: ip4
  cl_port :: u16

definition sizeof_ConnLocal :: nat where "sizeof_ConnLocal = 18"

definition ConnLocal_bytes :: "ConnLocal \<Rightarrow> bytes" where
  "ConnLocal_bytes c = General_bytes (cl_ge c) @ raw (cl_ip c) @ le_bytes 2 (cl_port c)"

definition ConnLocal_at :: "bytes \<Rightarrow> ConnLocal" where
  "ConnLocal_at b = \<lparr>cl_ge = General_at b, cl_ip = ip4_of_raw (slice 12 4 b), cl_port = le_word (slice 16 2 b)\<rparr>"

definition ConnLocal_new :: ConnLocal where
  "ConnLocal_new =
     \<lparr>cl_ge = \<lparr>ge_type = WS_GENERAL, ge_subtype = GE_LOCALUDP4CONN, ge_extra = 0,
              ge_src = ip4_zero, ge_dst = ip4_zero\<rparr>,
      cl_ip = ip4_zero, cl_port = 0\<rparr>"

section \<open>The structures meet the interface of a packed structure\<close>

lemmas WsMsg_layout =
  Auth_bytes_def Auth_at_def sizeof_Auth_def ExptTun_bytes_def ExptTun_at_def sizeof_ExptTun_def
  Conn_bytes_def Conn_at_def sizeof_Conn_def VMac_bytes_def VMac_at_def sizeof_VMac_def
  Discovery_bytes_def Discovery_at_def sizeof_Discovery_def
  General_bytes_def General_at_def sizeof_General_def
  ConnLocal_bytes_def ConnLocal_at_def sizeof_ConnLocal_def

interpretation auth: wire_struct Auth_bytes Auth_at sizeof_Auth "\<lambda>a. length (au_hash a) = 32"
proof unfold_locales
  show "Auth_bytes (Auth_at b) = take sizeof_Auth b" if "sizeof_Auth \<le> length b" for b
    using that by (simp add: WsMsg_layout glue_simps)
qed (auto simp: WsMsg_layout struct_simps)

interpretation expttun: wire_struct ExptTun_bytes ExptTun_at sizeof_ExptTun "\<lambda>e. length (et_cidr e) = 32 \<and> length (et_hash e) = 32"
proof unfold_locales
  show "ExptTun_bytes (ExptTun_at b) = take sizeof_ExptTun b" if "sizeof_ExptTun \<le> length b" for b
    using that by (simp add: WsMsg_layout glue_simps)
qed (auto simp: WsMsg_layout struct_simps)

interpretation conn: wire_struct Conn_bytes Conn_at sizeof_Conn "\<lambda>_. True"
proof unfold_locales
  show "Conn_bytes (Conn_at b) = take sizeof_Conn b" if "sizeof_Conn \<le> length b" for b
    using that by (simp add: WsMsg_layout glue_simps)
qed (auto simp: WsMsg_layout struct_simps)

interpretation vmac: wire_struct VMac_bytes VMac_at sizeof_VMac "\<lambda>v. length (vm_vmac v) = 16 \<and> length (vm_hash v) = 32"
proof unfold_locales
  show "VMac_bytes (VMac_at b) = take sizeof_VMac b" if "sizeof_VMac \<le> length b" for b
    using that by (simp add: WsMsg_layout glue_simps)
qed (auto simp: WsMsg_layout struct_simps)

interpretation discovery: wire_struct Discovery_bytes Discovery_at sizeof_Discovery "\<lambda>_. True"
proof unfold_locales
  show "Discovery_bytes (Discovery_at b) = take sizeof_Discovery b" if "sizeof_Discovery \<le> length b" for b
    using that by (simp add: WsMsg_layout glue_simps)
qed (auto simp: WsMsg_layout struct_simps)

interpretation general: wire_struct General_bytes General_at sizeof_General "\<lambda>_. True"
proof unfold_locales
  show "General_bytes (General_at b) = take sizeof_General b" if "sizeof_General \<le> length b" for b
    using that by (simp add: WsMsg_layout glue_simps)
qed (auto simp: WsMsg_layout struct_simps)

interpretation connlocal: wire_struct ConnLocal_bytes ConnLocal_at sizeof_ConnLocal "\<lambda>_. True"
proof unfold_locales
  show "ConnLocal_bytes (ConnLocal_at b) = take sizeof_ConnLocal b" if "sizeof_ConnLocal \<le> length b" for b
    using that by (simp add: WsMsg_layout glue_simps)
qed (auto simp: WsMsg_layout struct_simps)

section \<open>The authenticated messages meet the interface of a hashed message\<close>

interpretation auth_hash: hashed_message "SHA256 C" "\<lambda>a. raw (au_ip a) @ le_bytes 8 (au_timestamp a)"
    au_hash "\<lambda>h a. a\<lparr>au_hash := h\<rparr>" "Auth_updateHash C" "\<lambda>pw a. snd (Auth_check C now pw a)"
  for C now
  by unfold_locales (auto simp: Auth_updateHash_def Auth_check_def Let_def)

interpretation expttun_hash: hashed_message "SHA256 C" "\<lambda>e. le_bytes 8 (et_timestamp e)"
    et_hash "\<lambda>h e. e\<lparr>et_hash := h\<rparr>" "ExptTun_updateHash C" "\<lambda>pw e. snd (ExptTun_check C now pw e)"
  for C now
  by unfold_locales (auto simp: ExptTun_updateHash_def ExptTun_check_def Let_def)

interpretation vmac_hash: hashed_message "SHA256 C" "\<lambda>v. vm_vmac v @ le_bytes 8 (vm_timestamp v)"
    vm_hash "\<lambda>h v. v\<lparr>vm_hash := h\<rparr>" "VMac_updateHash C" "\<lambda>pw v. snd (VMac_check C now pw v)"
  for C now
  by unfold_locales (auto simp: VMac_updateHash_def VMac_check_def Let_def)

lemma Auth_wf_new: "crypto_ok C \<Longrightarrow> length (au_hash (Auth_updateHash C pw a)) = 32"
  by (simp add: Auth_updateHash_def crypto_ok_def)

lemma VMac_wf_new:
  "crypto_ok C \<Longrightarrow> length (vm_vmac (VMac_updateHash C pw (VMac_new now v))) = 16 \<and>
     length (vm_hash (VMac_updateHash C pw (VMac_new now v))) = 32"
  by (simp add: VMac_updateHash_def VMac_new_def crypto_ok_def)

lemma Auth_own_accepted:
  assumes "crypto_ok C"
  shows "snd (Auth_check C local_time pw (Auth_at (Auth_bytes (Auth_updateHash C pw (Auth_new t ip)) @ rest))) =
    (True, Auth_updateHash C pw (Auth_new t ip))"
  using auth_hash.chk_upd [of C local_time pw] auth_hash.chk_unchanged [of C local_time pw]
  by (simp add: auth.dec_enc Auth_wf_new [OF assms] prod_eq_iff)

lemma VMac_own_accepted:
  assumes "crypto_ok C"
  shows "snd (VMac_check C local_time pw (VMac_at (VMac_bytes (VMac_updateHash C pw (VMac_new t v)) @ rest))) =
    (True, VMac_updateHash C pw (VMac_new t v))"
  using vmac_hash.chk_upd [of C local_time pw] vmac_hash.chk_unchanged [of C local_time pw]
  by (simp add: vmac.dec_enc VMac_wf_new [OF assms] prod_eq_iff)

text \<open>The auth and virtual-MAC messages that a client builds, signs and sends survive the
  wire and pass the server's check under the same password, whatever follows them in the
  buffer and whatever the server's clock says (the age of a message is only reported); and a
  received auth message passes exactly when its hash is the digest of the password, its
  address and its timestamp.\<close>

theorem signed_messages_accepted:
  assumes "crypto_ok C"
  shows "snd (Auth_check C local_time pw (Auth_at (Auth_bytes (Auth_updateHash C pw (Auth_new t ip)) @ rest))) =
           (True, Auth_updateHash C pw (Auth_new t ip)) \<and>
         snd (VMac_check C local_time pw (VMac_at (VMac_bytes (VMac_updateHash C pw (VMac_new t v)) @ rest))) =
           (True, VMac_updateHash C pw (VMac_new t v)) \<and>
         (fst (snd (Auth_check C local_time pw a)) \<longleftrightarrow>
            au_hash a = SHA256 C (pw @ raw (au_ip a) @ le_bytes 8 (au_timestamp a)))"
  using Auth_own_accepted [OF assms] VMac_own_accepted [OF assms] auth_hash.chk_iff by blast

theorem signed_messages_accepted_witness:
  "crypto_ok toy_crypto \<and>
   snd (Auth_check toy_crypto 1000000 (str ''pw'')
     (Auth_at (Auth_bytes (Auth_updateHash toy_crypto (str ''pw'') (Auth_new 5 (IP4 10 0 0 1))) @ []))) =
     (True, Auth_updateHash toy_crypto (str ''pw'') (Auth_new 5 (IP4 10 0 0 1)))"
  using toy_crypto_ok signed_messages_accepted [OF toy_crypto_ok] by blast

end
