(* ===== verification/WsServer.thy ===== *)
theory WsServer
  imports WsMessage
begin

text \<open>
  \<^verbatim>\<open>websocket/server.h\<close>, \<^verbatim>\<open>server.cc\<close>: the relay server. Every connection is a call of
  \<^verbatim>\<open>handleWebsocket\<close> whose local \<^verbatim>\<open>WsCtx\<close> is registered by address in \<^verbatim>\<open>ipCtxMap\<close> through
  a raw pointer. The model names a context by a number and keeps the live contexts (those
  whose call has not returned) in a table; following a pointer to a context that is not
  live is undefined behaviour. Logging is not modelled. The result of an operation is the
  server, the frames sent so far (with the context they went to) and how it ended.
\<close>

section \<open>State\<close>

text \<open>
  \<open>loop_buffer\<close> is the local variable \<^verbatim>\<open>buffer\<close> of \<^verbatim>\<open>handleWebsocket\<close>.
\<close>

record WsCtx =
  ctx_buffer :: bytes
  ctx_status :: int
  ctx_ip :: ip4
  ctx_vmac :: bytes
  loop_buffer :: bytes

definition WsCtx_new :: WsCtx where
  "WsCtx_new = \<lparr>ctx_buffer = [], ctx_status = 0, ctx_ip = ip4_zero, ctx_vmac = [], loop_buffer = []\<rparr>"

record SysRoute =
  sr_dev :: address
  sr_dst :: address
  sr_next :: ip4

record WebSocketServer =
  sv_host :: bytes
  sv_port :: u16
  sv_password :: bytes
  sv_dhcp :: address
  sv_routes :: "SysRoute list"
  sv_running :: bool
  ipCtxMap :: "(ip4, nat) table"
  sv_ctxs :: "(nat, WsCtx) table"

text \<open>
  How a handler ends: it returns (\<open>Done\<close>), an exception of \<^verbatim>\<open>sendFrame\<close> or of the standard
  library leaves it (\<open>TimedOut\<close> is \<^verbatim>\<open>Poco::TimeoutException\<close>), or it follows a dangling
  pointer or writes out of bounds (\<open>Crashed\<close>). \<open>sent\<close> is what the websocket of a context does
  with a frame.
\<close>

datatype ending = Done | TimedOut | Thrown | Crashed
datatype sent = Sent | SendTimeout | SendFailed

type_synonym frames = "(nat \<times> bytes) list"
type_synonym outcome = "WebSocketServer \<times> frames \<times> ending"

text \<open>Writes to the fields of a live context.\<close>

definition upd_ctx :: "nat \<Rightarrow> (WsCtx \<Rightarrow> WsCtx) \<Rightarrow> WebSocketServer \<Rightarrow> WebSocketServer" where
  "upd_ctx c f s =
     (case map_of (sv_ctxs s) c of None \<Rightarrow> s
      | Some x \<Rightarrow> s\<lparr>sv_ctxs := tbl_put c (f x) (sv_ctxs s)\<rparr>)"

definition the_ctx :: "WebSocketServer \<Rightarrow> nat \<Rightarrow> WsCtx" where
  "the_ctx s c = (case map_of (sv_ctxs s) c of None \<Rightarrow> WsCtx_new | Some x \<Rightarrow> x)"

definition reject :: "nat \<Rightarrow> WebSocketServer \<Rightarrow> outcome" where
  "reject c s = (upd_ctx c (\<lambda>x. x\<lparr>ctx_status := -1\<rparr>) s, [], Done)"

section \<open>Configuration\<close>

definition setWebSocket :: "poco \<Rightarrow> bytes \<Rightarrow> WebSocketServer \<Rightarrow> WebSocketServer \<times> int" where
  "setWebSocket P u s =
     (case uri_parse P u of
        None \<Rightarrow> (s, -1)
      | Some parser \<Rightarrow>
          if uri_scheme parser \<noteq> str ''ws'' then (s, -1)
          else (s\<lparr>sv_host := uri_host parser, sv_port := uri_port parser\<rparr>, 0))"

definition setPassword :: "bytes \<Rightarrow> WebSocketServer \<Rightarrow> WebSocketServer \<times> int" where
  "setPassword password s = (s\<lparr>sv_password := password\<rparr>, 0)"

definition setDHCP :: "poco \<Rightarrow> bytes \<Rightarrow> WebSocketServer \<Rightarrow> (WebSocketServer \<times> int) res" where
  "setDHCP P cidr s =
     (if cidr = [] then Ok (s, 0)
      else bind_res (fromCidr P cidr (sv_dhcp s)) (\<lambda>(a, r). Ok (s\<lparr>sv_dhcp := a\<rparr>, r)))"

text \<open>
  \<^verbatim>\<open>std::getline\<close> on a string stream: the text up to the delimiter, which is consumed; it
  fails (\<open>None\<close>) when nothing is left.
\<close>

definition getline :: "u8 \<Rightarrow> bytes \<Rightarrow> (bytes \<times> bytes) option" where
  "getline d s =
     (if s = [] then None
      else Some (takeWhile (\<lambda>c. c \<noteq> d) s, tl (dropWhile (\<lambda>c. c \<noteq> d) s)))"

lemma getline_shorter: "getline d s = Some (t, r) \<Longrightarrow> length r < length s"
  using length_dropWhile_le [of "\<lambda>c. c \<noteq> d" s] by (cases s) (auto simp: getline_def)

definition parse_cidr_field :: "poco \<Rightarrow> bytes \<Rightarrow> (address \<times> bytes) option res" where
  "parse_cidr_field P ss =
     (case getline 44 ss of
        None \<Rightarrow> Ok None
      | Some (addr, rest) \<Rightarrow>
          bind_res (fromCidr P addr Address0) (\<lambda>(a, r).
            if r \<noteq> 0 \<or> a_host a \<noteq> Net a then Ok None else Ok (Some (a, rest))))"

text \<open>
  One rule \<^verbatim>\<open>dev,dst,next\<close>. \<open>Ok None\<close> is the branch that logs and returns -1. The next hop
  is parsed by \<^verbatim>\<open>IP4::fromString\<close>, which never returns an error but throws.
\<close>

definition parse_route :: "poco \<Rightarrow> bytes \<Rightarrow> SysRoute option res" where
  "parse_route P route =
     bind_res (parse_cidr_field P route) (\<lambda>f. case f of None \<Rightarrow> Ok None | Some (dev, ss) \<Rightarrow>
       bind_res (parse_cidr_field P ss) (\<lambda>g. case g of None \<Rightarrow> Ok None | Some (dst, ss') \<Rightarrow>
         (case getline 44 ss' of
            None \<Rightarrow> Ok None
          | Some (addr, _) \<Rightarrow>
              (case ip_parse P addr of
                 None \<Rightarrow> Throw
               | Some nexthop \<Rightarrow> Ok (Some \<lparr>sr_dev = dev, sr_dst = dst, sr_next = nexthop\<rparr>)))))"

function setSdwan_loop :: "poco \<Rightarrow> bytes \<Rightarrow> WebSocketServer \<Rightarrow> (WebSocketServer \<times> int) res" where
  "setSdwan_loop P stream s =
     (case getline 59 stream of
        None \<Rightarrow> Ok (s, 0)
      | Some (route, rest) \<Rightarrow>
          (case parse_route P route of
             Throw \<Rightarrow> Throw
           | Undef \<Rightarrow> Undef
           | Ok None \<Rightarrow> Ok (s, -1)
           | Ok (Some rt) \<Rightarrow> setSdwan_loop P rest (s\<lparr>sv_routes := sv_routes s @ [rt]\<rparr>)))"
  by pat_completeness auto
termination
  by (relation "measure (\<lambda>(P, stream, s). length stream)") (auto dest: getline_shorter)

declare setSdwan_loop.simps [simp del]

definition setSdwan :: "poco \<Rightarrow> bytes \<Rightarrow> WebSocketServer \<Rightarrow> (WebSocketServer \<times> int) res" where
  "setSdwan P sdwan s = (if sdwan = [] then Ok (s, 0) else setSdwan_loop P sdwan s)"

definition server_shutdown :: "WebSocketServer \<Rightarrow> WebSocketServer" where
  "server_shutdown s = s\<lparr>sv_running := False, sv_routes := []\<rparr>"

section \<open>Sending\<close>

text \<open>
  \<open>tx c f\<close>: what the websocket of \<open>c\<close> does with the frame \<open>f\<close>. When \<^verbatim>\<open>sendFrame\<close> throws,
  the frames that were still to be sent are not.
\<close>

fun send_frames :: "WebSocketServer \<Rightarrow> (nat \<Rightarrow> bytes \<Rightarrow> sent) \<Rightarrow> frames \<Rightarrow> frames \<times> ending" where
  "send_frames s tx [] = ([], Done)"
| "send_frames s tx ((c, f) # fs) =
     (if map_of (sv_ctxs s) c = None then ([], Crashed)
      else case tx c f of
        Sent \<Rightarrow> (let (sent, e) = send_frames s tx fs in ((c, f) # sent, e))
      | SendTimeout \<Rightarrow> ([], TimedOut)
      | SendFailed \<Rightarrow> ([], Thrown))"

definition finish :: "WebSocketServer \<Rightarrow> (nat \<Rightarrow> bytes \<Rightarrow> sent) \<Rightarrow> frames \<Rightarrow> outcome" where
  "finish s tx fs = (let (sent, e) = send_frames s tx fs in (s, sent, e))"

section \<open>System routes\<close>

definition route_matches :: "ip4 \<Rightarrow> SysRoute \<Rightarrow> bool" where
  "route_matches ip rt \<longleftrightarrow> ip4_and (a_mask (sr_dev rt)) ip = a_host (sr_dev rt)"

definition route_item :: "SysRoute \<Rightarrow> SysRouteEntry" where
  "route_item rt = \<lparr>rt_dst = Net (sr_dst rt), rt_mask = a_mask (sr_dst rt), rt_nexthop = sr_next rt\<rparr>"

text \<open>\<open>header->size\<close> is the second byte of the buffer.\<close>

fun sysroute_loop :: "ip4 \<Rightarrow> SysRoute list \<Rightarrow> bytes \<Rightarrow> bytes \<times> bytes list" where
  "sysroute_loop ip [] buf = (buf, [])"
| "sysroute_loop ip (rt # rts) buf =
     (let buf1 = (if route_matches ip rt
                  then splice 1 [rd8 buf 1 + 1] (buf @ SysRouteEntry_bytes (route_item rt))
                  else buf)
      in if rd8 buf1 1 > 100
         then let (buf', fs) = sysroute_loop ip rts (splice 1 [0] (resize sizeof_SysRoute buf1))
              in (buf', buf1 # fs)
         else sysroute_loop ip rts buf1)"

definition sysroute_frames :: "ip4 \<Rightarrow> SysRoute list \<Rightarrow> bytes \<times> bytes list" where
  "sysroute_frames ip rts =
     (let (buf, fs) = sysroute_loop ip rts [WS_ROUTE, 0, 0, 0]
      in (buf, if rd8 buf 1 > 0 then fs @ [buf] else fs))"

definition updateSysRoute :: "(nat \<Rightarrow> bytes \<Rightarrow> sent) \<Rightarrow> nat \<Rightarrow> WebSocketServer \<Rightarrow> outcome" where
  "updateSysRoute tx c s =
     (let (buf, fs) = sysroute_frames (ctx_ip (the_ctx s c)) (sv_routes s)
      in finish (upd_ctx c (\<lambda>x. x\<lparr>ctx_buffer := buf\<rparr>) s) tx (map (Pair c) fs))"

section \<open>The message handlers\<close>

definition handleAuthMsg :: "crypto \<Rightarrow> u64 \<Rightarrow> (nat \<Rightarrow> bytes \<Rightarrow> sent) \<Rightarrow> nat \<Rightarrow> WebSocketServer \<Rightarrow> outcome" where
  "handleAuthMsg C now tx c s =
     (let buf = ctx_buffer (the_ctx s c)
      in if length buf < sizeof_Auth then reject c s
         else let header = Auth_at buf;
                  (_, valid, header') = Auth_check C now (sv_password s) header;
                  s1 = upd_ctx c (\<lambda>x. x\<lparr>ctx_buffer := splice 0 (Auth_bytes header') buf\<rparr>) s
              in if \<not> valid then reject c s1
                 else let s2 = upd_ctx c (\<lambda>x. x\<lparr>ctx_ip := au_ip header\<rparr>) s1
                      in case map_of (ipCtxMap s2) (au_ip header) of
                           None \<Rightarrow>
                             updateSysRoute tx c (s2\<lparr>ipCtxMap := tbl_put (au_ip header) c (ipCtxMap s2)\<rparr>)
                         | Some old \<Rightarrow>
                             if map_of (sv_ctxs s2) old = None then (s2, [], Crashed)
                             else let s3 = upd_ctx old (\<lambda>x. x\<lparr>ctx_status := -1\<rparr>) s2
                                  in updateSysRoute tx c
                                       (s3\<lparr>ipCtxMap := tbl_put (au_ip header) c (ipCtxMap s3)\<rparr>))"

definition forward_broadcast :: "address \<Rightarrow> ip4 \<Rightarrow> bool" where
  "forward_broadcast dhcp d =
     (if ip4_and d (IP4 240 0 0 0) = IP4 224 0 0 0 then True
      else if d = IP4 255 255 255 255 then True
      else if address_empty dhcp then False
      else if ip4_and (a_mask dhcp) d \<noteq> Net dhcp then False
      else if ip4_u32 (ip4_not (ip4_xor (ip4_and d (ip4_not (a_mask dhcp))) (a_mask dhcp))) \<noteq> 0 then False
      else True)"

text \<open>The broadcast loop compares the address stored in each context, through its pointer.\<close>

fun broadcast_to_others ::
  "WebSocketServer \<Rightarrow> (nat \<Rightarrow> bytes \<Rightarrow> sent) \<Rightarrow> ip4 \<Rightarrow> bytes \<Rightarrow> (ip4, nat) table \<Rightarrow> frames \<times> ending" where
  "broadcast_to_others s tx ip f [] = ([], Done)"
| "broadcast_to_others s tx ip f ((_, c) # es) =
     (case map_of (sv_ctxs s) c of
        None \<Rightarrow> ([], Crashed)
      | Some x \<Rightarrow>
          if ctx_ip x \<noteq> ip
          then (case tx c f of
                  Sent \<Rightarrow> (let (sent, e) = broadcast_to_others s tx ip f es in ((c, f) # sent, e))
                | SendTimeout \<Rightarrow> ([], TimedOut)
                | SendFailed \<Rightarrow> ([], Thrown))
          else broadcast_to_others s tx ip f es)"

definition handleForwardMsg :: "(nat \<Rightarrow> bytes \<Rightarrow> sent) \<Rightarrow> nat \<Rightarrow> WebSocketServer \<Rightarrow> outcome" where
  "handleForwardMsg tx c s =
     (let x = the_ctx s c; buf = ctx_buffer x
      in if ip4_empty (ctx_ip x) then reject c s
         else if length buf < sizeof_Forward then reject c s
         else let d = daddr (fw_iph (Forward_at buf))
              in case map_of (ipCtxMap s) d of
                   Some c' \<Rightarrow> finish s tx [(c', buf)]
                 | None \<Rightarrow>
                     if forward_broadcast (sv_dhcp s) d
                     then (let (sent, e) = broadcast_to_others s tx (ctx_ip x) buf (ipCtxMap s) in (s, sent, e))
                     else (s, [], Done))"

text \<open>
  The search for a free address. The loop goes on while the address is both invalid and in
  use; \<open>None\<close> inside is the branch that gives up at the pool's own host.
\<close>

partial_function (option) dhcp_loop :: "(ip4 \<Rightarrow> bool) \<Rightarrow> ip4 \<Rightarrow> address \<Rightarrow> address option option" where
  "dhcp_loop used start a =
     (let a' = Next a
      in if a_host a' = start then Some None
         else if \<not> isValid a' \<and> used (a_host a') then dhcp_loop used start a'
         else Some (Some a'))"

declare dhcp_loop.simps [code]

definition c_str :: "nat \<Rightarrow> bytes \<Rightarrow> bytes" where
  "c_str off b = takeWhile (\<lambda>c. c \<noteq> 0) (drop off b)"

text \<open>\<open>None\<close>: the comparison with the holder of the address follows a dangling pointer.\<close>

definition expt_direct :: "WebSocketServer \<Rightarrow> nat \<Rightarrow> address \<Rightarrow> bool option" where
  "expt_direct s c exptTun =
     (if Net (sv_dhcp s) \<noteq> Net exptTun then Some False
      else case map_of (ipCtxMap s) (a_host exptTun) of
             None \<Rightarrow> Some True
           | Some old \<Rightarrow>
               (case map_of (sv_ctxs s) old of
                  None \<Rightarrow> None
                | Some y \<Rightarrow> Some (ctx_vmac (the_ctx s c) = ctx_vmac y)))"

text \<open>The reply is written into the request's buffer and hashed there.\<close>

definition expt_reply ::
  "crypto \<Rightarrow> poco \<Rightarrow> u64 \<Rightarrow> (nat \<Rightarrow> bytes \<Rightarrow> sent) \<Rightarrow> nat \<Rightarrow> address \<Rightarrow> WebSocketServer \<Rightarrow> outcome" where
  "expt_reply C P now tx c exptTun s =
     (let buf = ctx_buffer (the_ctx s c); text = toCidr P exptTun
      in if length buf \<le> 9 + length text then (s, [], Crashed)
         else let buf1 = splice 9 (text @ [0]) (splice 1 (le_bytes 8 (hton now)) buf);
                  buf2 = splice 0 (ExptTun_bytes (ExptTun_updateHash C (sv_password s) (ExptTun_at buf1))) buf1
              in finish (upd_ctx c (\<lambda>x. x\<lparr>ctx_buffer := buf2\<rparr>) s) tx [(c, buf2)])"

definition handleExptTunMsg ::
  "crypto \<Rightarrow> poco \<Rightarrow> u64 \<Rightarrow> (nat \<Rightarrow> bytes \<Rightarrow> sent) \<Rightarrow> nat \<Rightarrow> WebSocketServer \<Rightarrow> outcome" where
  "handleExptTunMsg C P now tx c s =
     (let buf = ctx_buffer (the_ctx s c)
      in if length buf < sizeof_ExptTun then reject c s
         else let (_, valid, header') = ExptTun_check C now (sv_password s) (ExptTun_at buf);
                  s1 = upd_ctx c (\<lambda>x. x\<lparr>ctx_buffer := splice 0 (ExptTun_bytes header') buf\<rparr>) s
              in if \<not> valid then reject c s1
                 else if address_empty (sv_dhcp s) then reject c s1
                 else case fromCidr P (c_str 9 buf) Address0 of
                        Throw \<Rightarrow> (s1, [], Thrown)
                      | Undef \<Rightarrow> (s1, [], Crashed)
                      | Ok (exptTun, r) \<Rightarrow>
                          if r \<noteq> 0 then reject c s1
                          else case expt_direct s1 c exptTun of
                                 None \<Rightarrow> (s1, [], Crashed)
                               | Some True \<Rightarrow> expt_reply C P now tx c exptTun s1
                               | Some False \<Rightarrow>
                                   (case dhcp_loop (\<lambda>ip. map_of (ipCtxMap s1) ip \<noteq> None)
                                           (a_host (sv_dhcp s1)) (sv_dhcp s1) of
                                      None \<Rightarrow> (s1, [], Crashed)
                                    | Some None \<Rightarrow> reject c s1
                                    | Some (Some a) \<Rightarrow> expt_reply C P now tx c a (s1\<lparr>sv_dhcp := a\<rparr>)))"

text \<open>
  A message for one other client, or for all: the three handlers share their shape but not
  their order of tests, and \<^verbatim>\<open>UDP4CONN\<close> has no broadcast.
\<close>

definition handleUdp4ConnMsg :: "(nat \<Rightarrow> bytes \<Rightarrow> sent) \<Rightarrow> nat \<Rightarrow> WebSocketServer \<Rightarrow> outcome" where
  "handleUdp4ConnMsg tx c s =
     (let x = the_ctx s c; buf = ctx_buffer x
      in if ip4_empty (ctx_ip x) then reject c s
         else if length buf < sizeof_Conn then reject c s
         else let header = Conn_at buf
              in if ctx_ip x \<noteq> cn_src header then reject c s
                 else case map_of (ipCtxMap s) (cn_dst header) of
                        None \<Rightarrow> (s, [], Done)
                      | Some c' \<Rightarrow> finish s tx [(c', buf)])"

definition handleVMacMsg :: "crypto \<Rightarrow> u64 \<Rightarrow> nat \<Rightarrow> WebSocketServer \<Rightarrow> outcome" where
  "handleVMacMsg C now c s =
     (let buf = ctx_buffer (the_ctx s c)
      in if length buf < sizeof_VMac then reject c s
         else let (_, valid, header') = VMac_check C now (sv_password s) (VMac_at buf);
                  s1 = upd_ctx c (\<lambda>x. x\<lparr>ctx_buffer := splice 0 (VMac_bytes header') buf\<rparr>) s
              in if \<not> valid then reject c s1
                 else (upd_ctx c (\<lambda>x. x\<lparr>ctx_vmac := vm_vmac header'\<rparr>) s1, [], Done))"

definition others_by_key :: "ip4 \<Rightarrow> bytes \<Rightarrow> (ip4, nat) table \<Rightarrow> frames" where
  "others_by_key src f t = map (\<lambda>(_, c). (c, f)) (filter (\<lambda>(ip, _). ip \<noteq> src) t)"

definition handleDiscoveryMsg :: "(nat \<Rightarrow> bytes \<Rightarrow> sent) \<Rightarrow> nat \<Rightarrow> WebSocketServer \<Rightarrow> outcome" where
  "handleDiscoveryMsg tx c s =
     (let x = the_ctx s c; buf = ctx_buffer x
      in if ip4_empty (ctx_ip x) then reject c s
         else if length buf < sizeof_Discovery then reject c s
         else let header = Discovery_at buf
              in if ctx_ip x \<noteq> dc_src header then reject c s
                 else if dc_dst header = IP4 255 255 255 255
                 then finish s tx (others_by_key (dc_src header) buf (ipCtxMap s))
                 else case map_of (ipCtxMap s) (dc_dst header) of
                        None \<Rightarrow> (s, [], Done)
                      | Some c' \<Rightarrow> finish s tx [(c', buf)])"

definition HandleGeneralMsg :: "(nat \<Rightarrow> bytes \<Rightarrow> sent) \<Rightarrow> nat \<Rightarrow> WebSocketServer \<Rightarrow> outcome" where
  "HandleGeneralMsg tx c s =
     (let x = the_ctx s c; buf = ctx_buffer x
      in if ip4_empty (ctx_ip x) then reject c s
         else if length buf < sizeof_General then reject c s
         else let header = General_at buf
              in if ctx_ip x \<noteq> ge_src header then reject c s
                 else if ge_dst header = IP4 255 255 255 255
                 then finish s tx (others_by_key (ge_src header) buf (ipCtxMap s))
                 else case map_of (ipCtxMap s) (ge_dst header) of
                        None \<Rightarrow> (s, [], Done)
                      | Some c' \<Rightarrow> finish s tx [(c', buf)])"

definition server_handleMsg ::
  "crypto \<Rightarrow> poco \<Rightarrow> u64 \<Rightarrow> (nat \<Rightarrow> bytes \<Rightarrow> sent) \<Rightarrow> nat \<Rightarrow> WebSocketServer \<Rightarrow> outcome" where
  "server_handleMsg C P now tx c s =
     (let msgKind = rd8 (ctx_buffer (the_ctx s c)) 0
      in if msgKind = WS_AUTH then handleAuthMsg C now tx c s
         else if msgKind = WS_FORWARD then handleForwardMsg tx c s
         else if msgKind = WS_EXPTTUN then handleExptTunMsg C P now tx c s
         else if msgKind = WS_UDP4CONN then handleUdp4ConnMsg tx c s
         else if msgKind = WS_VMAC then handleVMacMsg C now c s
         else if msgKind = WS_DISCOVERY then handleDiscoveryMsg tx c s
         else if msgKind = WS_GENERAL then HandleGeneralMsg tx c s
         else (s, [], Done))"

section \<open>A connection\<close>

text \<open>
  \<^verbatim>\<open>receiveFrame\<close> fills the front of the 1500-byte buffer with the payload of a frame, or
  throws. The opcodes are those of \<^verbatim>\<open>Poco::Net::WebSocket\<close>.
\<close>

datatype ws_event = RecvFrame bytes int | RecvTimeout | RecvError

definition FRAME_OP_BINARY :: int where "FRAME_OP_BINARY = 2"
definition FRAME_OP_CLOSE :: int where "FRAME_OP_CLOSE = 8"
definition FRAME_OP_PING :: int where "FRAME_OP_PING = 9"
definition FRAME_OP_PONG :: int where "FRAME_OP_PONG = 10"
definition FRAME_FLAG_FIN :: int where "FRAME_FLAG_FIN = 128"

lemmas frame_ops = FRAME_OP_BINARY_def FRAME_OP_CLOSE_def FRAME_OP_PING_def FRAME_OP_PONG_def
  FRAME_FLAG_FIN_def

definition frame_op :: "int \<Rightarrow> int" where
  "frame_op flags = flags mod 16"

definition leave :: "nat \<Rightarrow> WebSocketServer \<Rightarrow> WebSocketServer" where
  "leave c s =
     (let m = (case map_of (ipCtxMap s) (ctx_ip (the_ctx s c)) of
                 Some c' \<Rightarrow> if c' = c then tbl_erase (ctx_ip (the_ctx s c)) (ipCtxMap s) else ipCtxMap s
               | None \<Rightarrow> ipCtxMap s)
      in s\<lparr>ipCtxMap := m, sv_ctxs := tbl_erase c (sv_ctxs s)\<rparr>)"

definition connect_ctx :: "nat \<Rightarrow> WebSocketServer \<Rightarrow> WebSocketServer" where
  "connect_ctx c s = s\<lparr>sv_ctxs := tbl_put c WsCtx_new (sv_ctxs s)\<rparr>"

text \<open>
  One pass of the loop of \<^verbatim>\<open>handleWebsocket\<close>, up to the next test of its condition. A pass
  that leaves the loop runs the code after it, which ends the life of the context. The
  passes of different connections are interleaved, each pass taken as one step.
\<close>

definition handleWebsocket_pass ::
  "crypto \<Rightarrow> poco \<Rightarrow> u64 \<Rightarrow> (nat \<Rightarrow> bytes \<Rightarrow> sent) \<Rightarrow> nat \<Rightarrow> ws_event \<Rightarrow> WebSocketServer \<Rightarrow> outcome" where
  "handleWebsocket_pass C P now tx c ev s =
     (if \<not> (sv_running s \<and> ctx_status (the_ctx s c) = 0) then (leave c s, [], Done)
      else let buffer = resize 1500 (loop_buffer (the_ctx s c))
           in case ev of
                RecvTimeout \<Rightarrow> (upd_ctx c (\<lambda>x. x\<lparr>loop_buffer := buffer\<rparr>) s, [], Done)
              | RecvError \<Rightarrow> (leave c s, [], Done)
              | RecvFrame payload flags \<Rightarrow>
                  let received = splice 0 payload buffer;
                      s1 = upd_ctx c (\<lambda>x. x\<lparr>loop_buffer := received\<rparr>) s
                  in if frame_op flags = FRAME_OP_PING
                     then (case tx c received of
                             Sent \<Rightarrow> (s1, [(c, received)], Done)
                           | SendTimeout \<Rightarrow> (s1, [], Done)
                           | SendFailed \<Rightarrow> (leave c s1, [], Done))
                     else if payload = [] \<and> flags = 0 \<or> frame_op flags = FRAME_OP_CLOSE
                     then (leave c s1, [], Done)
                     else if frame_op flags = FRAME_OP_BINARY \<and> payload \<noteq> []
                     then let s2 = upd_ctx c (\<lambda>x. x\<lparr>ctx_buffer := resize (length payload) received,
                                                     loop_buffer := []\<rparr>) s1;
                              (s3, fs, e) = server_handleMsg C P now tx c s2
                          in (case e of
                                Done \<Rightarrow> (s3, fs, Done)
                              | TimedOut \<Rightarrow> (s3, fs, Done)
                              | Thrown \<Rightarrow> (leave c s3, fs, Done)
                              | Crashed \<Rightarrow> (s3, fs, Crashed))
                     else (s1, [], Done))"

section \<open>The address pool\<close>

lemma dhcp_loop_unfold:
  "dhcp_loop used start a =
     (if a_host (Next a) = start then Some None
      else if \<not> isValid (Next a) \<and> used (a_host (Next a)) then dhcp_loop used start (Next a)
      else Some (Some (Next a)))"
  by (subst dhcp_loop.simps) (simp add: Let_def)

lemma Next_same_host:
  assumes "is_prefix_mask (a_mask a)" and "Net b = Net a" and "a_mask b = a_mask a"
    and "(host_index b + 1) mod 2 ^ host_bits a = host_index a"
  shows "a_host (Next b) = a_host a"
  using assms same_net_same_index [of a "Next b"] host_index_Next [of b]
  by (simp add: Net_Next host_bits_def)

lemma dhcp_loop_returns:
  assumes m: "is_prefix_mask (a_mask p)"
  shows "\<exists>r. dhcp_loop used (a_host p) p = Some r"
proof -
  let ?K = "2 ^ host_bits p :: nat"
  let ?p1 = "Next p" and ?p2 = "Next (Next p)" and ?p3 = "Next (Next (Next p))"
  have i0: "host_index p < ?K" using host_index_less [OF m] .
  have i1: "host_index ?p1 = (host_index p + 1) mod ?K" using host_index_Next m by simp
  have i2: "host_index ?p2 = (host_index ?p1 + 1) mod ?K" using host_index_Next [of ?p1] m by simp
  have i3: "host_index ?p3 = (host_index ?p2 + 1) mod ?K" using host_index_Next [of ?p2] m by simp
  have "a_host ?p1 = a_host p" if "?K = 1"
    using that i0 i1 m by (intro Next_same_host) auto
  moreover have "a_host ?p2 = a_host p" if "?K = 2"
    using that i0 i1 m by (intro Next_same_host) (auto simp: Net_Next mod_Suc)
  moreover have "isValid ?p1 \<or> isValid ?p2 \<or> isValid ?p3" if "?K > 2"
    using that i1 i2 i3 m by (auto simp: isValid_iff mod_Suc split: if_splits)
  moreover have "?K = 1 \<or> ?K = 2 \<or> ?K > 2"
    using i0 by linarith
  ultimately show ?thesis
    by (subst dhcp_loop_unfold, subst dhcp_loop_unfold, subst dhcp_loop_unfold) auto
qed

definition dhcp_found :: "(ip4 \<Rightarrow> bool) \<Rightarrow> ip4 \<Rightarrow> address \<Rightarrow> address option \<Rightarrow> bool" where
  "dhcp_found used start a r \<longleftrightarrow>
     (case r of None \<Rightarrow> True
      | Some b \<Rightarrow> a_mask b = a_mask a \<and> Net b = Net a \<and> a_host b \<noteq> start \<and>
                  (isValid b \<or> \<not> used (a_host b)))"

lemma dhcp_loop_result: "dhcp_loop used start a = Some r \<Longrightarrow> dhcp_found used start a r"
proof (erule dhcp_loop.raw_induct [where P = dhcp_found, rotated])
  fix f used start a r
  assume "\<And>used start a y. f used start a = Some y \<Longrightarrow> dhcp_found used start a y"
    and "(let a' = Next a
          in if a_host a' = start then Some None
             else if \<not> isValid a' \<and> used (a_host a') then f used start a' else Some (Some a')) = Some r"
  then show "dhcp_found used start a r"
    by (fastforce simp: dhcp_found_def Let_def Net_Next split: if_splits option.splits)
qed


definition pool_24 :: address where
  "pool_24 = \<lparr>a_host = IP4 192 168 202 254, a_mask = IP4 255 255 255 0\<rparr>"


text \<open>The search stops at the first address after the pool's that is a host address, without
  asking whether a client uses it: with a conjunction in the loop's condition an address in
  use is handed out again.\<close>

theorem dhcp_loop_ignores_used:
  assumes "isValid (Next p)" and "a_host (Next p) \<noteq> a_host p"
  shows "dhcp_loop used (a_host p) p = Some (Some (Next p))"
  using assms by (subst dhcp_loop_unfold) simp

theorem dhcp_loop_ignores_used_witness:
  "dhcp_loop (\<lambda>ip. ip = IP4 10 0 0 2) (IP4 10 0 0 1) \<lparr>a_host = IP4 10 0 0 1, a_mask = IP4 255 255 255 0\<rparr> =
     Some (Some \<lparr>a_host = IP4 10 0 0 2, a_mask = IP4 255 255 255 0\<rparr>)"
proof -
  let ?p = "\<lparr>a_host = IP4 10 0 0 1, a_mask = IP4 255 255 255 0\<rparr>"
  have n: "Next ?p = \<lparr>a_host = IP4 10 0 0 2, a_mask = IP4 255 255 255 0\<rparr>" by code_simp
  have "isValid (Next ?p)" "a_host (Next ?p) \<noteq> a_host ?p" unfolding n by code_simp+
  then show ?thesis
    using dhcp_loop_ignores_used [of ?p "\<lambda>ip. ip = IP4 10 0 0 2"] n by simp
qed

section \<open>The registry\<close>

text \<open>
  Every registered pointer belongs to a live context, and the address it is registered
  under is the address stored in that context.
\<close>

definition registry_ok :: "WebSocketServer \<Rightarrow> bool" where
  "registry_ok s \<longleftrightarrow>
     tbl_ok (ipCtxMap s) \<and> tbl_ok (sv_ctxs s) \<and> is_prefix_mask (a_mask (sv_dhcp s)) \<and>
     (\<forall>ip c. map_of (ipCtxMap s) ip = Some c \<longrightarrow> (\<exists>x. map_of (sv_ctxs s) c = Some x \<and> ctx_ip x = ip))"

text \<open>What a handler that does not authenticate leaves alone.\<close>

definition same_registry :: "WebSocketServer \<Rightarrow> WebSocketServer \<Rightarrow> bool" where
  "same_registry s s' \<longleftrightarrow>
     ipCtxMap s' = ipCtxMap s \<and> a_mask (sv_dhcp s') = a_mask (sv_dhcp s) \<and>
     (tbl_ok (sv_ctxs s) \<longrightarrow> tbl_ok (sv_ctxs s')) \<and>
     (\<forall>c. map_option ctx_ip (map_of (sv_ctxs s') c) = map_option ctx_ip (map_of (sv_ctxs s) c))"

lemma same_registry_refl [simp]: "same_registry s s"
  by (simp add: same_registry_def)

lemma same_registry_trans: "same_registry s s' \<Longrightarrow> same_registry s' s'' \<Longrightarrow> same_registry s s''"
  by (simp add: same_registry_def)

lemma registry_ok_same:
  assumes "registry_ok s" and "same_registry s s'"
  shows "registry_ok s'"
proof -
  have "map_of (sv_ctxs s) c = Some x \<Longrightarrow> \<exists>x'. map_of (sv_ctxs s') c = Some x' \<and> ctx_ip x' = ctx_ip x" for c x
    using assms(2) unfolding same_registry_def by (metis map_option_eq_Some)
  then show ?thesis
    using assms by (fastforce simp: registry_ok_def same_registry_def)
qed

lemma live_same: "same_registry s s' \<Longrightarrow> map_of (sv_ctxs s') c = None \<longleftrightarrow> map_of (sv_ctxs s) c = None"
  unfolding same_registry_def by (metis map_option_is_None)

lemma ctxs_upd_ctx:
  "map_of (sv_ctxs (upd_ctx c f s)) c' =
     (if c' = c then map_option f (map_of (sv_ctxs s) c) else map_of (sv_ctxs s) c')"
  by (auto simp: upd_ctx_def table_simps split: option.splits)

lemma upd_ctx_fields [simp]:
  "ipCtxMap (upd_ctx c f s) = ipCtxMap s" "sv_dhcp (upd_ctx c f s) = sv_dhcp s"
  "sv_password (upd_ctx c f s) = sv_password s" "sv_routes (upd_ctx c f s) = sv_routes s"
  "sv_running (upd_ctx c f s) = sv_running s"
  by (simp_all add: upd_ctx_def split: option.splits)

lemma tbl_ok_upd_ctx: "tbl_ok (sv_ctxs s) \<Longrightarrow> tbl_ok (sv_ctxs (upd_ctx c f s))"
  by (simp add: upd_ctx_def tbl.invar_put split: option.splits)

lemma same_registry_upd_ctx [simp]:
  "(\<And>x. ctx_ip (f x) = ctx_ip x) \<Longrightarrow> same_registry s (upd_ctx c f s)"
  by (simp add: same_registry_def ctxs_upd_ctx tbl_ok_upd_ctx option.map_comp comp_def)

lemma same_registry_upd_ctx_later [intro]:
  "same_registry s s1 \<Longrightarrow> (\<And>x. ctx_ip (f x) = ctx_ip x) \<Longrightarrow> same_registry s (upd_ctx c f s1)"
  by (rule same_registry_trans [OF _ same_registry_upd_ctx])

lemma the_ctx_upd_ctx:
  "map_of (sv_ctxs s) c \<noteq> None \<Longrightarrow> the_ctx (upd_ctx c f s) c = f (the_ctx s c)"
  by (auto simp: the_ctx_def ctxs_upd_ctx)

definition calm :: "WebSocketServer \<Rightarrow> outcome \<Rightarrow> bool" where
  "calm s out \<longleftrightarrow> same_registry s (fst out) \<and> snd (snd out) \<noteq> Crashed"

lemma send_frames_not_crashed:
  "(\<And>c f. (c, f) \<in> set fs \<Longrightarrow> map_of (sv_ctxs s) c \<noteq> None) \<Longrightarrow> snd (send_frames s tx fs) \<noteq> Crashed"
proof (induction fs)
  case Nil
  then show ?case by simp
next
  case (Cons cf fs)
  obtain c f where [simp]: "cf = (c, f)" by (cases cf)
  have "map_of (sv_ctxs s) c \<noteq> None" using Cons.prems [of c f] by simp
  moreover have "snd (send_frames s tx fs) \<noteq> Crashed" using Cons.IH Cons.prems by auto
  ultimately show ?case by (auto split: sent.split prod.split)
qed

lemma calm_done: "same_registry s s1 \<Longrightarrow> calm s (s1, [], Done)"
  by (simp add: calm_def)

lemma calm_reject: "same_registry s s1 \<Longrightarrow> calm s (reject c s1)"
  by (simp add: calm_def reject_def same_registry_trans [OF _ same_registry_upd_ctx])

lemma calm_finish:
  assumes "same_registry s s1" and "\<And>c f. (c, f) \<in> set fs \<Longrightarrow> map_of (sv_ctxs s) c \<noteq> None"
  shows "calm s (finish s1 tx fs)"
proof -
  have "snd (send_frames s1 tx fs) \<noteq> Crashed"
    using assms by (intro send_frames_not_crashed) (simp add: live_same)
  then show ?thesis
    using assms(1) by (auto simp: calm_def finish_def split: prod.split)
qed

lemma registered_live: "registry_ok s \<Longrightarrow> map_of (ipCtxMap s) ip = Some c \<Longrightarrow> map_of (sv_ctxs s) c \<noteq> None"
  by (auto simp: registry_ok_def)

lemma registered_live_in_set:
  assumes "registry_ok s" and "(ip, c) \<in> set (ipCtxMap s)"
  shows "\<exists>x. map_of (sv_ctxs s) c = Some x \<and> ctx_ip x = ip"
  using assms tbl_ok_in_set [of "ipCtxMap s" ip c] by (simp add: registry_ok_def)

lemma broadcast_not_crashed:
  "(\<And>ip c. (ip, c) \<in> set t \<Longrightarrow> map_of (sv_ctxs s) c \<noteq> None) \<Longrightarrow>
   snd (broadcast_to_others s tx own f t) \<noteq> Crashed"
proof (induction t)
  case Nil
  then show ?case by simp
next
  case (Cons e t)
  obtain ip c where [simp]: "e = (ip, c)" by (cases e)
  obtain x where "map_of (sv_ctxs s) c = Some x" using Cons.prems [of ip c] by auto
  moreover have "snd (broadcast_to_others s tx own f t) \<noteq> Crashed" using Cons.IH Cons.prems by auto
  ultimately show ?case by (auto split: sent.split prod.split)
qed

lemma handleForwardMsg_calm:
  assumes "registry_ok s"
  shows "calm s (handleForwardMsg tx c s)"
proof -
  have "snd (broadcast_to_others s tx own f (ipCtxMap s)) \<noteq> Crashed" for own f
    using registered_live_in_set [OF assms] by (intro broadcast_not_crashed) fastforce
  then have b: "calm s (s, broadcast_to_others s tx own f (ipCtxMap s))" for own f
    by (simp add: calm_def)
  show ?thesis
    using registered_live [OF assms]
    by (auto simp: handleForwardMsg_def Let_def calm_reject calm_done b intro!: calm_finish
        split: option.split)
qed

lemma others_by_key_live:
  assumes "registry_ok s" and "(c, f) \<in> set (others_by_key src buf (ipCtxMap s))"
  shows "map_of (sv_ctxs s) c \<noteq> None"
  using assms(2) registered_live_in_set [OF assms(1)] by (fastforce simp: others_by_key_def)

lemma handleUdp4ConnMsg_calm: "registry_ok s \<Longrightarrow> calm s (handleUdp4ConnMsg tx c s)"
  using registered_live [of s]
  by (auto simp: handleUdp4ConnMsg_def Let_def calm_reject calm_done intro!: calm_finish split: option.split)

lemma handleDiscoveryMsg_calm: "registry_ok s \<Longrightarrow> calm s (handleDiscoveryMsg tx c s)"
  using registered_live [of s] others_by_key_live [of s]
  by (auto simp: handleDiscoveryMsg_def Let_def calm_reject calm_done intro!: calm_finish split: option.split)

lemma HandleGeneralMsg_calm: "registry_ok s \<Longrightarrow> calm s (HandleGeneralMsg tx c s)"
  using registered_live [of s] others_by_key_live [of s]
  by (auto simp: HandleGeneralMsg_def Let_def calm_reject calm_done intro!: calm_finish split: option.split)

lemma handleVMacMsg_calm: "calm s (handleVMacMsg C now c s)"
  by (auto simp: handleVMacMsg_def Let_def intro!: calm_reject calm_done same_registry_upd_ctx_later
      split: prod.split)


text \<open>
  What is asked of a request for an address: its text either parses or fails to parse, but
  does not run \<^verbatim>\<open>fromPrefix\<close> over the end of the mask.
\<close>

definition cidr_in_bounds :: "poco \<Rightarrow> bytes \<Rightarrow> bool" where
  "cidr_in_bounds P buf \<longleftrightarrow> fromCidr P (c_str 9 buf) Address0 \<noteq> Undef"

lemma fromCidr_never_throws: "fromCidr P t a \<noteq> Throw"
  by (auto simp: fromCidr_def fromPrefix_def split: prod.split option.split)

lemma length_expt_buffer:
  assumes "sizeof_ExptTun \<le> length buf"
  shows "length (splice 0 (ExptTun_bytes (snd (snd (ExptTun_check C now pw (ExptTun_at buf))))) buf) \<ge> 41"
proof -
  have "41 \<le> length (ExptTun_bytes (snd (snd (ExptTun_check C now pw (ExptTun_at buf)))))"
    using assms by (simp add: ExptTun_check_def ExptTun_updateHash_def Let_def ExptTun_bytes_def ExptTun_at_def
        sizeof_ExptTun_def length_slice)
  then show ?thesis by (simp add: splice_def)
qed

lemma expt_reply_calm:
  assumes P: "poco_ok P" and s: "same_registry s s1" and c: "map_of (sv_ctxs s) c \<noteq> None"
    and l: "41 \<le> length (ctx_buffer (the_ctx s1 c))"
  shows "calm s (expt_reply C P now tx c a s1)"
proof -
  have "\<not> length (ctx_buffer (the_ctx s1 c)) \<le> 9 + length (toCidr P a)"
    using length_toCidr [OF P, of a] l by linarith
  then show ?thesis
    using s c by (auto simp: expt_reply_def Let_def intro!: calm_finish same_registry_upd_ctx_later)
qed

lemma same_registry_dhcp:
  "same_registry s s1 \<Longrightarrow> a_mask a = a_mask (sv_dhcp s1) \<Longrightarrow> same_registry s (s1\<lparr>sv_dhcp := a\<rparr>)"
  by (simp add: same_registry_def)

lemma expt_direct_safe: "registry_ok s \<Longrightarrow> (expt_direct s c a = None) = False"
  using registered_live [of s "a_host a"] by (auto simp: expt_direct_def split: option.split)

lemma handleExptTunMsg_calm:
  assumes P: "poco_ok P" and r: "registry_ok s" and c: "map_of (sv_ctxs s) c \<noteq> None"
    and b: "cidr_in_bounds P (ctx_buffer (the_ctx s c))"
  shows "calm s (handleExptTunMsg C P now tx c s)"
proof (cases "length (ctx_buffer (the_ctx s c)) < sizeof_ExptTun")
  case True
  then show ?thesis by (simp add: handleExptTunMsg_def calm_reject)
next
  case False
  let ?buf = "ctx_buffer (the_ctx s c)"
  obtain w valid h where chk: "ExptTun_check C now (sv_password s) (ExptTun_at ?buf) = (w, valid, h)"
    by (metis prod_cases3)
  define s1 where "s1 = upd_ctx c (\<lambda>x. x\<lparr>ctx_buffer := splice 0 (ExptTun_bytes h) ?buf\<rparr>) s"
  have s1: "same_registry s s1" by (simp add: s1_def)
  have r1: "registry_ok s1" using registry_ok_same [OF r s1] .
  have l: "41 \<le> length (ctx_buffer (the_ctx s1 c))"
    using length_expt_buffer [of ?buf C now "sv_password s"] False c chk
    by (simp add: s1_def the_ctx_upd_ctx)
  have l': "41 \<le> length (ctx_buffer (the_ctx (s1\<lparr>sv_dhcp := a\<rparr>) c))" for a
    using l by (simp add: the_ctx_def)
  obtain q where q: "dhcp_loop (\<lambda>ip. map_of (ipCtxMap s1) ip \<noteq> None) (a_host (sv_dhcp s1)) (sv_dhcp s1) = Some q"
    using dhcp_loop_returns r1 unfolding registry_ok_def by blast
  have m: "q = Some a \<Longrightarrow> a_mask a = a_mask (sv_dhcp s1)" for a
    using dhcp_loop_result [OF q] by (simp add: dhcp_found_def)
  have reply: "calm s (expt_reply C P now tx c a s1)"
    "q = Some a \<Longrightarrow> calm s (expt_reply C P now tx c a (s1\<lparr>sv_dhcp := a\<rparr>))" for a
    using expt_reply_calm [OF P s1 c l] expt_reply_calm [OF P same_registry_dhcp [OF s1 m] c l'] by auto
  show ?thesis
    using False b fromCidr_never_throws [of P "c_str 9 ?buf" Address0] reply s1 q
    by (auto simp: expt_direct_safe [OF r1] handleExptTunMsg_def Let_def chk cidr_in_bounds_def calm_reject simp flip: s1_def
        split: res.split option.split bool.split)
qed


subsection \<open>Authentication and the end of a connection\<close>

text \<open>
  An accepted \<^verbatim>\<open>AUTH\<close> that does not move a registered context to another address. The code
  does not ask for it; without it the registry keeps the old entry.
\<close>

definition keeps_address :: "WebSocketServer \<Rightarrow> nat \<Rightarrow> ip4 \<Rightarrow> bool" where
  "keeps_address s c ip \<longleftrightarrow> map_of (ipCtxMap s) (ctx_ip (the_ctx s c)) = Some c \<longrightarrow> ip = ctx_ip (the_ctx s c)"

lemma registry_ok_register:
  assumes r: "registry_ok s" and x: "map_of (sv_ctxs s) c = Some x" and k: "keeps_address s c ip"
    and s': "ipCtxMap s' = tbl_put ip c (ipCtxMap s)" "sv_dhcp s' = sv_dhcp s" "tbl_ok (sv_ctxs s')"
      "\<And>c'. map_option ctx_ip (map_of (sv_ctxs s') c') =
         (if c' = c then Some ip else map_option ctx_ip (map_of (sv_ctxs s) c'))"
  shows "registry_ok s'"
proof -
  have "\<exists>x'. map_of (sv_ctxs s') c' = Some x' \<and> ctx_ip x' = ip'"
    if "map_of (ipCtxMap s') ip' = Some c'" for ip' c'
  proof (cases "ip' = ip")
    case True
    then show ?thesis using that s'(4) [of c] by (auto simp: s'(1) table_simps)
  next
    case False
    then have old: "map_of (ipCtxMap s) ip' = Some c'" using that by (simp add: s'(1) table_simps)
    then obtain y where y: "map_of (sv_ctxs s) c' = Some y" "ctx_ip y = ip'"
      using r by (auto simp: registry_ok_def)
    have "c' \<noteq> c"
      using y old x k False by (auto simp: keeps_address_def the_ctx_def)
    then show ?thesis using s'(4) [of c'] y by auto
  qed
  then show ?thesis
    using r s'(1-3) by (simp add: registry_ok_def tbl.invar_put)
qed

lemma updateSysRoute_calm:
  assumes "map_of (sv_ctxs s) c \<noteq> None"
  shows "calm s (updateSysRoute tx c s)"
  using assms by (auto simp: updateSysRoute_def intro!: calm_finish split: prod.split)

lemma the_ctx_same_ip:
  "same_registry s s1 \<Longrightarrow> map_of (sv_ctxs s) c \<noteq> None \<Longrightarrow> ctx_ip (the_ctx s1 c) = ctx_ip (the_ctx s c)"
  unfolding same_registry_def the_ctx_def
  by (auto split: option.split) (metis option.distinct(1) option.inject option.map(1,2))+

definition fine :: "outcome \<Rightarrow> bool" where
  "fine out \<longleftrightarrow> registry_ok (fst out) \<and> snd (snd out) \<noteq> Crashed"

lemma calm_fine: "calm s out \<Longrightarrow> registry_ok s \<Longrightarrow> fine out"
  by (auto simp: calm_def fine_def dest: registry_ok_same)

lemma handleAuthMsg_fine:
  assumes r: "registry_ok s" and x: "map_of (sv_ctxs s) c = Some x"
    and k: "keeps_address s c (au_ip (Auth_at (ctx_buffer x)))"
  shows "fine (handleAuthMsg C now tx c s)"
proof (cases "length (ctx_buffer x) < sizeof_Auth")
  case True
  then show ?thesis using x r calm_fine [OF calm_reject [OF same_registry_refl]]
    by (simp add: handleAuthMsg_def the_ctx_def)
next
  case False
  let ?h = "Auth_at (ctx_buffer x)"
  obtain w valid h where chk: "Auth_check C now (sv_password s) ?h = (w, valid, h)"
    by (metis prod_cases3)
  define s1 where "s1 = upd_ctx c (\<lambda>y. y\<lparr>ctx_buffer := splice 0 (Auth_bytes h) (ctx_buffer x)\<rparr>) s"
  define s2 where "s2 = upd_ctx c (\<lambda>y. y\<lparr>ctx_ip := au_ip ?h\<rparr>) s1"
  have s1: "same_registry s s1" by (simp add: s1_def)
  have ctxs2: "map_option ctx_ip (map_of (sv_ctxs s2) c') =
      (if c' = c then Some (au_ip ?h) else map_option ctx_ip (map_of (sv_ctxs s) c'))" for c'
    using x by (auto simp: s2_def s1_def ctxs_upd_ctx)
  have ok2: "tbl_ok (sv_ctxs s2)" "ipCtxMap s2 = ipCtxMap s" "sv_dhcp s2 = sv_dhcp s"
    using r by (simp_all add: s2_def s1_def registry_ok_def tbl_ok_upd_ctx)
  have live2: "map_of (sv_ctxs s2) c' = None \<longleftrightarrow> map_of (sv_ctxs s) c' = None" for c'
    using x by (auto simp: s2_def s1_def ctxs_upd_ctx)
  have reg: "fine (updateSysRoute tx c (s3\<lparr>ipCtxMap := tbl_put (au_ip ?h) c (ipCtxMap s3)\<rparr>))"
    if "s3 = s2 \<or> s3 = upd_ctx old (\<lambda>y. y\<lparr>ctx_status := -1\<rparr>) s2" for s3 old
  proof -
    have s3: "same_registry s2 s3" using that by auto
    have "registry_ok (s3\<lparr>ipCtxMap := tbl_put (au_ip ?h) c (ipCtxMap s3)\<rparr>)"
      using that ok2 ctxs2 s3 by (intro registry_ok_register [OF r x k]) (auto simp: same_registry_def)
    moreover have "map_of (sv_ctxs (s3\<lparr>ipCtxMap := tbl_put (au_ip ?h) c (ipCtxMap s3)\<rparr>)) c \<noteq> None"
      using live_same [OF s3, of c] live2 [of c] x by simp
    ultimately show ?thesis using calm_fine [OF updateSysRoute_calm] by blast
  qed
  have old: "map_of (sv_ctxs s2) old \<noteq> None" if "map_of (ipCtxMap s2) (au_ip ?h) = Some old" for old
    using registered_live [OF r] that ok2(2) live2 by metis
  show ?thesis
    using False x old reg [OF disjI1 [OF refl]] reg [OF disjI2 [OF refl], simplified]
      calm_fine [OF calm_reject [OF s1] r]
    by (auto simp: handleAuthMsg_def Let_def the_ctx_def chk simp flip: s1_def s2_def split: option.split)
qed


lemma registry_ok_leave:
  assumes r: "registry_ok s"
  shows "registry_ok (leave c s)"
proof -
  have "\<exists>y. map_of (sv_ctxs (leave c s)) c' = Some y \<and> ctx_ip y = ip"
    if m: "map_of (ipCtxMap (leave c s)) ip = Some c'" for ip c'
  proof -
    have old: "map_of (ipCtxMap s) ip = Some c'"
      using m by (auto simp: leave_def table_simps split: option.splits if_splits)
    then obtain y where y: "map_of (sv_ctxs s) c' = Some y" "ctx_ip y = ip"
      using r by (auto simp: registry_ok_def)
    then have "c' \<noteq> c"
      using m old by (auto simp: leave_def the_ctx_def table_simps split: option.splits if_splits)
    then show ?thesis using y by (simp add: leave_def table_simps)
  qed
  then show ?thesis
    using r by (auto simp: registry_ok_def leave_def tbl.invar_erase split: option.split)
qed

lemma fine_leave: "registry_ok s \<Longrightarrow> fine (leave c s, fs, Done)"
  by (simp add: fine_def registry_ok_leave)

text \<open>What a received message may ask for, given the connection it comes on.\<close>

definition safe_msg :: "poco \<Rightarrow> WebSocketServer \<Rightarrow> nat \<Rightarrow> bytes \<Rightarrow> bool" where
  "safe_msg P s c buf \<longleftrightarrow>
     (rd8 buf 0 = WS_AUTH \<longrightarrow> keeps_address s c (au_ip (Auth_at buf))) \<and>
     (rd8 buf 0 = WS_EXPTTUN \<longrightarrow> cidr_in_bounds P buf)"

lemma server_handleMsg_fine:
  assumes P: "poco_ok P" and r: "registry_ok s" and x: "map_of (sv_ctxs s) c = Some x"
    and m: "safe_msg P s c (ctx_buffer x)"
  shows "fine (server_handleMsg C P now tx c s)"
proof -
  have "the_ctx s c = x" "map_of (sv_ctxs s) c \<noteq> None" using x by (simp_all add: the_ctx_def)
  then show ?thesis
    using m handleAuthMsg_fine [OF r x] calm_fine [OF handleForwardMsg_calm [OF r] r]
      calm_fine [OF handleExptTunMsg_calm [OF P r] r] calm_fine [OF handleUdp4ConnMsg_calm [OF r] r]
      calm_fine [OF handleVMacMsg_calm r] calm_fine [OF handleDiscoveryMsg_calm [OF r] r]
      calm_fine [OF HandleGeneralMsg_calm [OF r] r] calm_fine [OF calm_done [OF same_registry_refl] r]
    by (auto simp: server_handleMsg_def safe_msg_def Let_def)
qed

lemma resize_received: "resize (length payload) (splice 0 payload b) = payload"
  by (simp add: resize_def splice_def)

definition safe_event :: "poco \<Rightarrow> WebSocketServer \<Rightarrow> nat \<Rightarrow> ws_event \<Rightarrow> bool" where
  "safe_event P s c ev =
     (case ev of RecvFrame payload flags \<Rightarrow> safe_msg P s c payload | _ \<Rightarrow> True)"

lemma keeps_address_upd_ctx:
  "map_of (sv_ctxs s) c \<noteq> None \<Longrightarrow> (\<And>x. ctx_ip (f x) = ctx_ip x) \<Longrightarrow>
   keeps_address (upd_ctx c f s) c ip = keeps_address s c ip"
  by (simp add: keeps_address_def the_ctx_upd_ctx)

lemma safe_msg_upd_ctx:
  "map_of (sv_ctxs s) c \<noteq> None \<Longrightarrow> (\<And>x. ctx_ip (f x) = ctx_ip x) \<Longrightarrow>
   safe_msg P (upd_ctx c f s) c b = safe_msg P s c b"
  by (simp add: safe_msg_def keeps_address_upd_ctx)

lemma registry_ok_upd_ctx:
  "registry_ok s \<Longrightarrow> (\<And>x. ctx_ip (f x) = ctx_ip x) \<Longrightarrow> registry_ok (upd_ctx c f s)"
  by (rule registry_ok_same [OF _ same_registry_upd_ctx])

lemma handleWebsocket_pass_fine:
  assumes P: "poco_ok P" and r: "registry_ok s" and c: "map_of (sv_ctxs s) c \<noteq> None"
    and e: "safe_event P s c ev"
  shows "fine (handleWebsocket_pass C P now tx c ev s)"
proof (cases ev)
  case (RecvFrame payload flags)
  let ?received = "splice 0 payload (resize 1500 (loop_buffer (the_ctx s c)))"
  define s1 where "s1 = upd_ctx c (\<lambda>x. x\<lparr>loop_buffer := ?received\<rparr>) s"
  define s2 where "s2 = upd_ctx c (\<lambda>x. x\<lparr>ctx_buffer := payload, loop_buffer := []\<rparr>) s1"
  have r1: "registry_ok s1" and c1: "map_of (sv_ctxs s1) c \<noteq> None"
    using r c by (simp_all add: s1_def registry_ok_upd_ctx ctxs_upd_ctx)
  have r2: "registry_ok s2" using r1 by (simp add: s2_def registry_ok_upd_ctx)
  obtain x where x: "map_of (sv_ctxs s2) c = Some x" "ctx_buffer x = payload"
    using c1 by (auto simp: s2_def ctxs_upd_ctx)
  have "safe_msg P s2 c (ctx_buffer x)"
    using e c c1 x(2) by (simp add: s2_def s1_def safe_msg_upd_ctx safe_event_def RecvFrame)
  then have "fine (server_handleMsg C P now tx c s2)"
    by (rule server_handleMsg_fine [OF P r2 x(1)])
  moreover obtain s3 fs e where h: "server_handleMsg C P now tx c s2 = (s3, fs, e)"
    by (metis prod_cases3)
  ultimately have "registry_ok s3" "e \<noteq> Crashed" by (simp_all add: fine_def)
  then show ?thesis
    using r h [unfolded s2_def s1_def]
    by (auto simp: handleWebsocket_pass_def RecvFrame Let_def resize_received fine_def registry_ok_leave
        registry_ok_upd_ctx split: sent.split ending.split)
qed (use r in \<open>auto simp: handleWebsocket_pass_def fine_def Let_def registry_ok_leave registry_ok_upd_ctx\<close>)

section \<open>Runs of the server\<close>

text \<open>
  The states a server reaches when connections come and go, passes of their loops alternate
  in any order, and every message is one \<open>allowed\<close>.
\<close>

inductive sv_reach ::
  "crypto \<Rightarrow> poco \<Rightarrow> (WebSocketServer \<Rightarrow> nat \<Rightarrow> ws_event \<Rightarrow> bool) \<Rightarrow> WebSocketServer \<Rightarrow> bool"
  for C P allowed where
  start: "ipCtxMap s = [] \<Longrightarrow> sv_ctxs s = [] \<Longrightarrow> is_prefix_mask (a_mask (sv_dhcp s)) \<Longrightarrow> sv_reach C P allowed s"
| connect: "sv_reach C P allowed s \<Longrightarrow> map_of (sv_ctxs s) c = None \<Longrightarrow> sv_reach C P allowed (connect_ctx c s)"
| pass: "sv_reach C P allowed s \<Longrightarrow> map_of (sv_ctxs s) c \<noteq> None \<Longrightarrow> allowed s c ev \<Longrightarrow>
    handleWebsocket_pass C P now tx c ev s = (s', fs, e) \<Longrightarrow> sv_reach C P allowed s'"
| stop: "sv_reach C P allowed s \<Longrightarrow> sv_reach C P allowed (server_shutdown s)"

lemma registry_ok_connect:
  assumes "registry_ok s" and "map_of (sv_ctxs s) c = None"
  shows "registry_ok (connect_ctx c s)"
  using assms by (fastforce simp: registry_ok_def connect_ctx_def table_simps tbl.invar_put)

lemma sv_reach_registry_ok:
  assumes "sv_reach C P allowed s" and "poco_ok P" and "\<And>s c ev. allowed s c ev \<Longrightarrow> safe_event P s c ev"
  shows "registry_ok s"
  using assms(1)
proof (induction rule: sv_reach.induct)
  case (start s)
  then show ?case by (simp add: registry_ok_def tbl_ok_def)
next
  case (connect s c)
  then show ?case by (simp add: registry_ok_connect)
next
  case (pass s c ev now tx s' fs e)
  have "fine (handleWebsocket_pass C P now tx c ev s)"
    by (rule handleWebsocket_pass_fine [OF assms(2) pass.IH pass.hyps(2) assms(3) [OF pass.hyps(3)]])
  then show ?case using pass.hyps(4) by (simp add: fine_def)
next
  case (stop s)
  then show ?case by (simp add: registry_ok_def server_shutdown_def)
qed

text \<open>On every run in which no registered connection authenticates a second address and no
  request carries a prefix beyond the mask, the registry stays consistent (each entry points
  to a live connection that holds the entry's address) and no message, of any kind and any
  length, sends the server through a dangling pointer or past the end of a buffer.\<close>

theorem server_never_crashes:
  assumes "poco_ok P" and "sv_reach C P (safe_event P) s" and "map_of (sv_ctxs s) c \<noteq> None"
    and "safe_event P s c ev"
  shows "registry_ok s \<and> snd (snd (handleWebsocket_pass C P now tx c ev s)) \<noteq> Crashed"
  using handleWebsocket_pass_fine [OF assms(1) sv_reach_registry_ok [OF assms(2,1)] assms(3,4)]
    sv_reach_registry_ok [OF assms(2,1)] by (simp add: fine_def)

definition demo_server :: WebSocketServer where
  "demo_server = \<lparr>sv_host = [], sv_port = 80, sv_password = str ''pw'', sv_dhcp = Address0, sv_routes = [],
     sv_running = True, ipCtxMap = [], sv_ctxs = []\<rparr>"

lemma demo_server_reach: "sv_reach C P allowed demo_server"
  by (rule sv_reach.start) (code_simp, code_simp, code_simp)

theorem server_never_crashes_witness:
  "registry_ok (connect_ctx 0 demo_server) \<and>
   snd (snd (handleWebsocket_pass toy_crypto dotted_poco 0 (\<lambda>_ _. Sent) 0
     (RecvFrame (Auth_bytes (Auth_updateHash toy_crypto (str ''pw'') (Auth_new 0 (IP4 10 0 0 1)))) 130)
     (connect_ctx 0 demo_server))) \<noteq> Crashed"
proof (rule server_never_crashes [OF dotted_poco_ok])
  show "sv_reach toy_crypto dotted_poco (safe_event dotted_poco) (connect_ctx 0 demo_server)"
    by (rule sv_reach.connect [OF demo_server_reach]) code_simp
  show "map_of (sv_ctxs (connect_ctx 0 demo_server)) 0 \<noteq> None" by code_simp
  show "safe_event dotted_poco (connect_ctx 0 demo_server) 0
     (RecvFrame (Auth_bytes (Auth_updateHash toy_crypto (str ''pw'') (Auth_new 0 (IP4 10 0 0 1)))) 130)"
    by code_simp
qed

text \<open>A run written out: \<open>None\<close> opens the connection, an event is one pass of its loop.\<close>

fun sv_run ::
  "crypto \<Rightarrow> poco \<Rightarrow> u64 \<Rightarrow> (nat \<Rightarrow> bytes \<Rightarrow> sent) \<Rightarrow> (nat \<times> ws_event option) list \<Rightarrow> WebSocketServer \<Rightarrow>
   WebSocketServer \<times> ending" where
  "sv_run C P now tx [] s = (s, Done)"
| "sv_run C P now tx ((c, None) # es) s = sv_run C P now tx es (connect_ctx c s)"
| "sv_run C P now tx ((c, Some ev) # es) s =
     (case handleWebsocket_pass C P now tx c ev s of
        (s', fs, Done) \<Rightarrow> sv_run C P now tx es s'
      | (s', fs, e) \<Rightarrow> (s', e))"

definition auth_frame :: "bytes \<Rightarrow> ip4 \<Rightarrow> ws_event" where
  "auth_frame password ip = RecvFrame (Auth_bytes (Auth_updateHash toy_crypto password (Auth_new 0 ip))) 130"

text \<open>\<^verbatim>\<open>IP4Header\<close> with the given destination, behind the type byte of a \<^verbatim>\<open>FORWARD\<close>.\<close>

definition forward_frame :: "ip4 \<Rightarrow> ws_event" where
  "forward_frame d = RecvFrame (WS_FORWARD # replicate 16 0 @ raw d) 130"

text \<open>The address condition is needed. A connection that authenticates one address and then
  a second one leaves, when it closes, its first entry behind: the entry points to a
  connection that is gone, and the next packet another client sends to that address makes
  the server follow the dangling pointer.\<close>

theorem second_address_dangles:
  "let closed = sv_run toy_crypto dotted_poco 0 (\<lambda>_ _. Sent)
         [(0, None), (0, Some (auth_frame (str ''pw'') (IP4 10 0 0 1))),
          (0, Some (auth_frame (str ''pw'') (IP4 10 0 0 2))), (0, Some (RecvFrame [] 136))] demo_server
   in snd closed = Done \<and> map_of (ipCtxMap (fst closed)) (IP4 10 0 0 1) = Some 0 \<and>
      map_of (sv_ctxs (fst closed)) 0 = None \<and>
      snd (sv_run toy_crypto dotted_poco 0 (\<lambda>_ _. Sent)
         [(1, None), (1, Some (auth_frame (str ''pw'') (IP4 10 0 0 3))),
          (1, Some (forward_frame (IP4 10 0 0 1)))] (fst closed)) = Crashed"
  by code_simp

section \<open>Who may send what to whom\<close>

text \<open>A message that the server may relay for the owner of the address.\<close>

definition relay_for :: "ip4 \<Rightarrow> bytes \<Rightarrow> bool" where
  "relay_for ip f \<longleftrightarrow> ip \<noteq> ip4_zero \<and>
     (rd8 f 0 = WS_FORWARD \<or>
      rd8 f 0 = WS_UDP4CONN \<and> cn_src (Conn_at f) = ip \<or>
      rd8 f 0 = WS_DISCOVERY \<and> dc_src (Discovery_at f) = ip \<or>
      rd8 f 0 = WS_GENERAL \<and> ge_src (General_at f) = ip)"

definition confined :: "nat \<Rightarrow> ip4 \<Rightarrow> bytes \<Rightarrow> frames \<Rightarrow> bool" where
  "confined c ip payload fs \<longleftrightarrow> (\<forall>(c', f) \<in> set fs. c' = c \<or> f = payload \<and> relay_for ip payload)"

lemma confined_Nil [simp]: "confined c ip payload []"
  by (simp add: confined_def)

lemma set_send_frames: "set (fst (send_frames s tx fs)) \<subseteq> set fs"
  by (induction s tx fs rule: send_frames.induct) (auto split: sent.split prod.split)

lemma confined_finish:
  "confined c ip payload fs \<Longrightarrow> confined c ip payload (fst (snd (finish s tx fs)))"
  using set_send_frames [of s tx fs] by (auto simp: confined_def finish_def split: prod.split)

lemma set_broadcast: "(c, f') \<in> set (fst (broadcast_to_others s tx ip f t)) \<Longrightarrow> f' = f"
  by (induction s tx ip f t rule: broadcast_to_others.induct)
    (auto split: sent.splits prod.splits option.splits if_splits)

lemma confined_own: "(\<And>c' f. (c', f) \<in> set fs \<Longrightarrow> c' = c) \<Longrightarrow> confined c ip payload fs"
  by (auto simp: confined_def)

lemmas confined_finish_own = confined_finish [OF confined_own]

lemma confined_relay:
  "relay_for ip payload \<Longrightarrow> (\<And>c' f. (c', f) \<in> set fs \<Longrightarrow> f = payload) \<Longrightarrow> confined c ip payload fs"
  by (auto simp: confined_def)

lemmas confined_finish_relay = confined_finish [OF confined_relay]

lemma confined_broadcast:
  "relay_for ip payload \<Longrightarrow> confined c ip payload (fst (broadcast_to_others s tx own payload t))"
  using set_broadcast by (intro confined_relay) auto

lemma confined_updateSysRoute: "confined c ip payload (fst (snd (updateSysRoute tx c s)))"
  by (auto simp: updateSysRoute_def intro!: confined_finish_own split: prod.split)

lemma confined_reject [simp]: "confined c ip payload (fst (snd (reject c' s)))"
  by (simp add: reject_def)

lemma confined_handleAuthMsg: "confined c ip payload (fst (snd (handleAuthMsg C now tx c s)))"
  by (auto simp: handleAuthMsg_def Let_def confined_updateSysRoute split: prod.split option.split)

lemma confined_expt_reply: "confined c ip payload (fst (snd (expt_reply C P now tx c a s)))"
  by (auto simp: expt_reply_def Let_def intro!: confined_finish_own)

lemma confined_handleExptTunMsg: "confined c ip payload (fst (snd (handleExptTunMsg C P now tx c s)))"
  by (auto simp: handleExptTunMsg_def Let_def confined_expt_reply
      split: prod.split option.split res.split bool.split)

lemma confined_handleVMacMsg: "confined c ip payload (fst (snd (handleVMacMsg C now c s)))"
  by (auto simp: handleVMacMsg_def Let_def split: prod.split)

lemma others_by_key_frame: "(c, f) \<in> set (others_by_key src buf t) \<Longrightarrow> f = buf"
  by (auto simp: others_by_key_def)

lemma confined_server_handleMsg:
  assumes ip: "ip = ctx_ip (the_ctx s c)" and b: "payload = ctx_buffer (the_ctx s c)"
  shows "confined c ip payload (fst (snd (server_handleMsg C P now tx c s)))"
proof -
  have fwd: "confined c ip payload (fst (snd (handleForwardMsg tx c s)))" if "rd8 payload 0 = WS_FORWARD"
    using that by (auto simp: handleForwardMsg_def Let_def ip4_empty_iff relay_for_def ip b
        intro!: confined_finish_relay confined_broadcast split: option.split)
  have conn: "confined c ip payload (fst (snd (handleUdp4ConnMsg tx c s)))" if "rd8 payload 0 = WS_UDP4CONN"
    using that by (auto simp: handleUdp4ConnMsg_def Let_def ip4_empty_iff relay_for_def ip b
        intro!: confined_finish_relay split: option.split)
  have disc: "confined c ip payload (fst (snd (handleDiscoveryMsg tx c s)))" if "rd8 payload 0 = WS_DISCOVERY"
    using that by (auto simp: handleDiscoveryMsg_def Let_def ip4_empty_iff relay_for_def ip b
        intro!: confined_finish_relay dest: others_by_key_frame split: option.split)
  have gen: "confined c ip payload (fst (snd (HandleGeneralMsg tx c s)))" if "rd8 payload 0 = WS_GENERAL"
    using that by (auto simp: HandleGeneralMsg_def Let_def ip4_empty_iff relay_for_def ip b
        intro!: confined_finish_relay dest: others_by_key_frame split: option.split)
  show ?thesis
    using fwd conn disc gen
    by (auto simp: server_handleMsg_def Let_def confined_handleAuthMsg confined_handleExptTunMsg
        confined_handleVMacMsg simp flip: b)
qed


text \<open>Two connected clients, 10.0.0.1 on connection 0 and 10.0.0.2 on connection 1.\<close>

definition demo_two :: WebSocketServer where
  "demo_two = demo_server\<lparr>ipCtxMap := [(IP4 10 0 0 1, 0), (IP4 10 0 0 2, 1)],
     sv_ctxs := [(0, WsCtx_new\<lparr>ctx_ip := IP4 10 0 0 1\<rparr>), (1, WsCtx_new\<lparr>ctx_ip := IP4 10 0 0 2\<rparr>)]\<rparr>"


section \<open>Forwarding\<close>

lemma send_frames_all:
  "(\<And>c f. (c, f) \<in> set fs \<Longrightarrow> map_of (sv_ctxs s) c \<noteq> None) \<Longrightarrow>
   send_frames s (\<lambda>_ _. Sent) fs = (fs, Done)"
  by (induction fs) force+

lemma broadcast_all:
  "(\<And>ip c. (ip, c) \<in> set t \<Longrightarrow> \<exists>x. map_of (sv_ctxs s) c = Some x \<and> ctx_ip x = ip) \<Longrightarrow>
   broadcast_to_others s (\<lambda>_ _. Sent) own f t = (others_by_key own f t, Done)"
  by (induction t) (force simp: others_by_key_def)+

lemma xor_as_or: "ip4_xor (ip4_and d (ip4_not m)) m = ip4_or m d"
proof -
  have "ip4_num (ip4_xor (ip4_and d (ip4_not m)) m) = ip4_num (ip4_or m d)"
    by (simp add: ip4_num_ops) (rule bit_word_eqI, auto simp: bit_and_iff bit_or_iff bit_xor_iff bit_not_iff)
  then show ?thesis by (simp add: ip4_num_inject)
qed

lemma forward_broadcast_iff:
  assumes "is_prefix_mask (a_mask dhcp)"
  shows "forward_broadcast dhcp d \<longleftrightarrow>
     ip4_and d (IP4 240 0 0 0) = IP4 224 0 0 0 \<or> d = IP4 255 255 255 255 \<or>
     \<not> address_empty dhcp \<and> Net (dhcp\<lparr>a_host := d\<rparr>) = Net dhcp \<and>
       host_index (dhcp\<lparr>a_host := d\<rparr>) = 2 ^ host_bits dhcp - 1"
proof -
  have "ip4_and (a_mask dhcp) d = Net (dhcp\<lparr>a_host := d\<rparr>)"
    by (cases d; cases "a_mask dhcp") (simp add: Net_def and.commute)
  then show ?thesis
    using assms all_ones_iff [of "dhcp\<lparr>a_host := d\<rparr>"]
    by (auto simp: forward_broadcast_def xor_as_or host_bits_def)
qed

text \<open>A packet an authenticated client forwards goes to the one client registered under its
  destination, byte for byte. If there is none it goes to every other client exactly when the
  destination is a multicast address, the limited broadcast address, or the address of the
  server's own network whose host bits are all ones; any other packet is dropped. The server's
  state does not change.\<close>

theorem forward_delivers:
  assumes "registry_ok s" and "map_of (sv_ctxs s) c = Some x" and "ctx_ip x \<noteq> ip4_zero"
    and "sizeof_Forward \<le> length (ctx_buffer x)" and "d = daddr (fw_iph (Forward_at (ctx_buffer x)))"
  shows "handleForwardMsg (\<lambda>_ _. Sent) c s =
     (s, case map_of (ipCtxMap s) d of
           Some c' \<Rightarrow> [(c', ctx_buffer x)]
         | None \<Rightarrow>
             if ip4_and d (IP4 240 0 0 0) = IP4 224 0 0 0 \<or> d = IP4 255 255 255 255 \<or>
                \<not> address_empty (sv_dhcp s) \<and> Net ((sv_dhcp s)\<lparr>a_host := d\<rparr>) = Net (sv_dhcp s) \<and>
                host_index ((sv_dhcp s)\<lparr>a_host := d\<rparr>) = 2 ^ host_bits (sv_dhcp s) - 1
             then others_by_key (ctx_ip x) (ctx_buffer x) (ipCtxMap s)
             else [], Done)"
proof -
  have m: "is_prefix_mask (a_mask (sv_dhcp s))" using assms(1) by (simp add: registry_ok_def)
  have b: "broadcast_to_others s (\<lambda>_ _. Sent) (ctx_ip x) (ctx_buffer x) (ipCtxMap s) =
      (others_by_key (ctx_ip x) (ctx_buffer x) (ipCtxMap s), Done)"
    by (rule broadcast_all) (rule registered_live_in_set [OF assms(1)])
  have u: "send_frames s (\<lambda>_ _. Sent) [(c', ctx_buffer x)] = ([(c', ctx_buffer x)], Done)"
    if "map_of (ipCtxMap s) d = Some c'" for c'
    using registered_live [OF assms(1) that] by auto
  show ?thesis
    using assms(2-5) u b
    by (auto simp: handleForwardMsg_def the_ctx_def ip4_empty_iff Let_def finish_def
        forward_broadcast_iff [OF m] split: option.split)
qed

definition demo_forward :: "bytes \<Rightarrow> WebSocketServer" where
  "demo_forward f = upd_ctx 0 (\<lambda>x. x\<lparr>ctx_buffer := f\<rparr>) demo_two"

lemma demo_two_registry:
  "ipCtxMap demo_two = [(IP4 10 0 0 1, 0), (IP4 10 0 0 2, 1)]"
  "map_option ctx_ip (map_of (sv_ctxs demo_two) 0) = Some (IP4 10 0 0 1)"
  "map_option ctx_ip (map_of (sv_ctxs demo_two) 1) = Some (IP4 10 0 0 2)"
  "tbl_ok (sv_ctxs demo_two)" "tbl_ok (ipCtxMap demo_two)" "is_prefix_mask (a_mask (sv_dhcp demo_two))"
  by code_simp+

lemma registry_ok_demo_two: "registry_ok demo_two"
  using demo_two_registry by (auto simp: registry_ok_def split: if_splits)

theorem forward_delivers_witness:
  "handleForwardMsg (\<lambda>_ _. Sent) 0 (demo_forward (WS_FORWARD # replicate 16 0 @ raw (IP4 10 0 0 2))) =
     (demo_forward (WS_FORWARD # replicate 16 0 @ raw (IP4 10 0 0 2)),
      [(1, WS_FORWARD # replicate 16 0 @ raw (IP4 10 0 0 2))], Done) \<and>
   handleForwardMsg (\<lambda>_ _. Sent) 0 (demo_forward (WS_FORWARD # replicate 16 0 @ raw (IP4 224 0 0 251))) =
     (demo_forward (WS_FORWARD # replicate 16 0 @ raw (IP4 224 0 0 251)),
      [(1, WS_FORWARD # replicate 16 0 @ raw (IP4 224 0 0 251))], Done)"
proof -
  have r: "registry_ok (demo_forward f)" for f
    by (simp add: demo_forward_def registry_ok_upd_ctx registry_ok_demo_two)
  obtain y where y: "map_of (sv_ctxs demo_two) 0 = Some y" "ctx_ip y = IP4 10 0 0 1"
    using demo_two_registry(2) by auto
  have x: "map_of (sv_ctxs (demo_forward f)) 0 = Some (y\<lparr>ctx_buffer := f\<rparr>)" for f
    using y by (simp add: demo_forward_def ctxs_upd_ctx)
  have m: "ipCtxMap (demo_forward f) = [(IP4 10 0 0 1, 0), (IP4 10 0 0 2, 1)]" for f
    by (simp add: demo_forward_def demo_two_registry)
  let ?f = "\<lambda>ip. WS_FORWARD # replicate 16 0 @ raw ip"
  have d: "ip = daddr (fw_iph (Forward_at (ctx_buffer (y\<lparr>ctx_buffer := ?f ip\<rparr>))))" for ip
    by (simp add: Forward_at_def IP4Header_at_def slice_def numeral_eq_Suc del: raw.simps)
  have i: "ctx_ip (y\<lparr>ctx_buffer := ?f ip\<rparr>) \<noteq> ip4_zero"
    "sizeof_Forward \<le> length (ctx_buffer (y\<lparr>ctx_buffer := ?f ip\<rparr>))" for ip
    by (simp_all add: y(2) ip4_zero_def sizeof_Forward_def del: raw.simps)
  have z: "ip4_and (IP4 224 0 0 251) (IP4 240 0 0 0) = IP4 224 0 0 0" by code_simp
  show ?thesis
    using forward_delivers [where s = "demo_forward (?f (IP4 10 0 0 2))", OF r x i(1) i(2) d]
      forward_delivers [where s = "demo_forward (?f (IP4 224 0 0 251))", OF r x i(1) i(2) d]
    by (simp add: y(2) z m others_by_key_def del: raw.simps)
qed

section \<open>Route frames\<close>

definition route_frame :: "SysRoute list \<Rightarrow> bytes" where
  "route_frame rs = [WS_ROUTE, of_nat (length rs), 0, 0] @ concat (map (SysRouteEntry_bytes \<circ> route_item) rs)"

function route_chunks :: "'a list \<Rightarrow> 'a list list" where
  "route_chunks xs = (if xs = [] then [] else take 101 xs # route_chunks (drop 101 xs))"
  by pat_completeness auto
termination
  by (relation "measure length") (auto simp: diff_less)

declare route_chunks.simps [simp del]

lemma route_chunks_Nil [simp]: "route_chunks [] = []"
  by (subst route_chunks.simps) simp

lemma route_chunks_full: "length xs = 101 \<Longrightarrow> route_chunks (xs @ ys) = xs # route_chunks ys"
  by (subst route_chunks.simps) auto

lemma route_chunks_short: "length xs \<le> 100 \<Longrightarrow> route_chunks xs = (if xs = [] then [] else [xs])"
  by (subst route_chunks.simps) simp

lemma concat_route_chunks: "concat (route_chunks xs) = xs"
  by (induction xs rule: route_chunks.induct) (subst route_chunks.simps, simp)

lemma route_chunks_size: "ch \<in> set (route_chunks xs) \<Longrightarrow> 0 < length ch \<and> length ch \<le> 101"
proof (induction xs rule: route_chunks.induct)
  case (1 xs)
  then show ?case
    by (cases "xs = []") (simp, auto simp: route_chunks.simps [of xs])
qed

lemma length_SysRouteEntry_bytes [simp]: "length (SysRouteEntry_bytes e) = 12"
  by (simp add: SysRouteEntry_bytes_def)

lemma route_frame_snoc:
  "route_frame (rs @ [rt]) =
     splice 1 [rd8 (route_frame rs) 1 + 1] (route_frame rs @ SysRouteEntry_bytes (route_item rt))"
  by (simp add: route_frame_def splice_def rd8_def numeral_eq_Suc)

lemma route_frame_reset: "splice (Suc 0) [0] (resize sizeof_SysRoute (route_frame rs)) = route_frame []"
  by (simp add: route_frame_def splice_def sizeof_SysRoute_def resize_shorter numeral_eq_Suc)

lemma route_frame_count: "length rs \<le> 101 \<Longrightarrow> rd8 (route_frame rs) (Suc 0) > 100 \<longleftrightarrow> length rs = 101"
  by (auto simp: route_frame_def rd8_def word_less_nat_alt unat_of_nat)

lemma route_frame_count_byte: "length rs \<le> 101 \<Longrightarrow> unat (rd8 (route_frame rs) (Suc 0)) = length rs"
  by (simp add: route_frame_def rd8_def unat_of_nat)

lemma length_route_frame: "length (route_frame rs) = 4 + 12 * length rs"
  by (induction rs) (auto simp: route_frame_def)

lemma route_frame_nonempty: "length rs \<le> 100 \<Longrightarrow> rd8 (route_frame rs) (Suc 0) > 0 \<longleftrightarrow> rs \<noteq> []"
  by (auto simp: route_frame_def rd8_def word_less_nat_alt unat_of_nat)

lemma sysroute_loop_spec:
  "length acc \<le> 100 \<Longrightarrow>
   \<exists>rest fs. sysroute_loop ip rts (route_frame acc) = (route_frame rest, fs) \<and> length rest \<le> 100 \<and>
     fs @ (if rest = [] then [] else [route_frame rest]) =
       map route_frame (route_chunks (acc @ filter (route_matches ip) rts))"
proof (induction rts arbitrary: acc)
  case Nil
  then show ?case by (auto simp: route_chunks_short)
next
  case (Cons rt rts)
  define acc' where "acc' = (if route_matches ip rt then acc @ [rt] else acc)"
  have l: "length acc' \<le> 101" using Cons.prems by (simp add: acc'_def)
  have b: "(if route_matches ip rt
        then splice 1 [rd8 (route_frame acc) 1 + 1] (route_frame acc @ SysRouteEntry_bytes (route_item rt))
        else route_frame acc) = route_frame acc'"
    by (simp add: acc'_def route_frame_snoc)
  have f: "acc @ filter (route_matches ip) (rt # rts) = acc' @ filter (route_matches ip) rts"
    by (simp add: acc'_def)
  show ?case
  proof (cases "length acc' = 101")
    case True
    obtain rest fs where i: "sysroute_loop ip rts (route_frame []) = (route_frame rest, fs)" "length rest \<le> 100"
        "fs @ (if rest = [] then [] else [route_frame rest]) =
           map route_frame (route_chunks ([] @ filter (route_matches ip) rts))"
      using Cons.IH [of "[]"] by auto
    have "sysroute_loop ip (rt # rts) (route_frame acc) = (route_frame rest, route_frame acc' # fs)"
      using True by (simp only: sysroute_loop.simps b Let_def) (simp add: route_frame_count route_frame_reset i)
    moreover have "(route_frame acc' # fs) @ (if rest = [] then [] else [route_frame rest]) =
        map route_frame (route_chunks (acc' @ filter (route_matches ip) rts))"
      using i(3) by (simp add: route_chunks_full [OF True])
    ultimately show ?thesis
      using i(2) unfolding f by blast
  next
    case False
    obtain rest fs where i: "sysroute_loop ip rts (route_frame acc') = (route_frame rest, fs)"
        "length rest \<le> 100"
        "fs @ (if rest = [] then [] else [route_frame rest]) =
           map route_frame (route_chunks (acc' @ filter (route_matches ip) rts))"
      using Cons.IH [of acc'] l False by auto
    moreover have "sysroute_loop ip (rt # rts) (route_frame acc) = (route_frame rest, fs)"
      using False l by (simp only: sysroute_loop.simps b Let_def) (simp add: route_frame_count i)
    ultimately show ?thesis unfolding f by blast
  qed
qed

text \<open>After authentication a client receives the configured routes whose device network
  contains its address, all of them and in the configured order, in frames of at most 101
  entries (1216 bytes) whose size byte is the number of entries; no frame is empty.\<close>

theorem sysroute_frames_complete:
  "snd (sysroute_frames ip rts) = map route_frame (route_chunks (filter (route_matches ip) rts)) \<and>
   concat (route_chunks (filter (route_matches ip) rts)) = filter (route_matches ip) rts \<and>
   list_all (\<lambda>ch. 0 < length ch \<and> length ch \<le> 101 \<and> length (route_frame ch) = 4 + 12 * length ch \<and>
       unat (rd8 (route_frame ch) 1) = length ch) (route_chunks (filter (route_matches ip) rts))"
proof (intro conjI)
  have e: "[WS_ROUTE, 0, 0, 0] = route_frame []" by (simp add: route_frame_def)
  show "snd (sysroute_frames ip rts) = map route_frame (route_chunks (filter (route_matches ip) rts))"
    using sysroute_loop_spec [of "[]" ip rts] route_frame_nonempty
    by (auto simp: sysroute_frames_def e split: if_splits)
  show "list_all (\<lambda>ch. 0 < length ch \<and> length ch \<le> 101 \<and> length (route_frame ch) = 4 + 12 * length ch \<and>
       unat (rd8 (route_frame ch) 1) = length ch) (route_chunks (filter (route_matches ip) rts))"
    using route_chunks_size [of _ "filter (route_matches ip) rts"]
    by (auto simp: list_all_iff route_frame_count_byte length_route_frame)
qed (rule concat_route_chunks)

end
