(* ===== verification/Message.thy ===== *)
theory Message
  imports Net
begin

text \<open>
  \<^verbatim>\<open>core/message.h\<close>, \<^verbatim>\<open>message.cc\<close>: the messages that the modules of a client send each
  other, and \<^verbatim>\<open>MsgQueue\<close> of \<^verbatim>\<open>core/client.cc\<close>, the FIFO every module reads from. What a
  handler does to the world besides changing its own state is a list of \<open>effect\<close>s in the
  order the code performs them.
\<close>

section \<open>Messages\<close>

datatype MsgKind = TIMEOUT | PACKET | TUNADDR | SYSRT | TRYP2P | PUBINFO | DISCOVERY | NETSTACK

record msg =
  msg_kind :: MsgKind
  msg_data :: bytes

definition Msg :: "MsgKind \<Rightarrow> bytes \<Rightarrow> msg" where
  "Msg k d = \<lparr>msg_kind = k, msg_data = d\<rparr>"

lemma Msg_simps [simp]: "msg_kind (Msg k d) = k" "msg_data (Msg k d) = d"
  by (simp_all add: Msg_def)

text \<open>
  \<^verbatim>\<open>CoreMsg::PubInfo\<close> travels between the modules of one process as its raw memory:
  three addresses, a host-order port, the flag and a byte of padding.
\<close>

record PubInfo =
  pi_src :: ip4
  pi_dst :: ip4
  pi_ip :: ip4
  pi_port :: u16
  pi_local :: bool

definition PubInfo_bytes :: "PubInfo \<Rightarrow> bytes" where
  "PubInfo_bytes i =
     raw (pi_src i) @ raw (pi_dst i) @ raw (pi_ip i) @ le_bytes 2 (pi_port i) @
     [if pi_local i then 1 else 0, 0]"

definition PubInfo_at :: "bytes \<Rightarrow> PubInfo" where
  "PubInfo_at b =
     \<lparr>pi_src = ip4_of_raw (slice 0 4 b), pi_dst = ip4_of_raw (slice 4 4 b),
      pi_ip = ip4_of_raw (slice 8 4 b), pi_port = le_word (slice 12 2 b), pi_local = (rd8 b 14 \<noteq> 0)\<rparr>"

lemma PubInfo_at_bytes [simp]: "PubInfo_at (PubInfo_bytes i) = i"
  by (cases i) (simp add: PubInfo_at_def PubInfo_bytes_def bytes_simps slice_def le_word_le_bytes
      ip4_of_raw_slice rd8_def nth_append)

section \<open>MsgQueue\<close>

type_synonym MsgQueue = "msg list"

text \<open>\<^verbatim>\<open>read\<close> waits up to a second; when the queue is still empty it returns a timeout message.\<close>

fun MsgQueue_read :: "MsgQueue \<Rightarrow> msg \<times> MsgQueue" where
  "MsgQueue_read [] = (Msg TIMEOUT [], [])"
| "MsgQueue_read (m # ms) = (m, ms)"

definition MsgQueue_write :: "msg \<Rightarrow> MsgQueue \<Rightarrow> MsgQueue" where
  "MsgQueue_write m q = q @ [m]"

definition MsgQueue_clear :: "MsgQueue \<Rightarrow> MsgQueue" where
  "MsgQueue_clear q = []"

fun drain :: "('q \<Rightarrow> 'm \<times> 'q) \<Rightarrow> nat \<Rightarrow> 'q \<Rightarrow> 'm list \<times> 'q" where
  "drain rd 0 q = ([], q)"
| "drain rd (Suc n) q = (let (m, q') = rd q; (ms, q'') = drain rd n q' in (m # ms, q''))"

locale message_queue =
  fixes pop :: "'q \<Rightarrow> 'm \<times> 'q"
    and push :: "'m \<Rightarrow> 'q \<Rightarrow> 'q"
    and clear :: "'q \<Rightarrow> 'q"
    and contents :: "'q \<Rightarrow> 'm list"
    and timeout :: 'm
  assumes read_empty: "contents q = [] \<Longrightarrow> fst (pop q) = timeout \<and> contents (snd (pop q)) = []"
    and read_front: "contents q = m # ms \<Longrightarrow> fst (pop q) = m \<and> contents (snd (pop q)) = ms"
    and contents_write: "contents (push m q) = contents q @ [m]"
    and contents_clear: "contents (clear q) = []"
begin

lemma contents_writes: "contents (fold push ms q) = contents q @ ms"
  by (induction ms arbitrary: q) (simp_all add: contents_write)

lemma drain_contents:
  "n \<le> length (contents q) \<Longrightarrow>
   fst (drain pop n q) = take n (contents q) \<and> contents (snd (drain pop n q)) = drop n (contents q)"
proof (induction n arbitrary: q)
  case 0
  then show ?case by simp
next
  case (Suc n)
  then obtain m ms where c: "contents q = m # ms"
    by (cases "contents q") auto
  have r: "fst (pop q) = m" "contents (snd (pop q)) = ms"
    using read_front [OF c] by auto
  show ?case
    using Suc.IH [of "snd (pop q)"] Suc.prems c r
    by (simp add: case_prod_unfold Let_def)
qed

lemma read_after_clear: "fst (pop (clear q)) = timeout"
  using read_empty [OF contents_clear] by simp

end

interpretation msgq: message_queue MsgQueue_read MsgQueue_write MsgQueue_clear "\<lambda>q. q" "Msg TIMEOUT []"
  by unfold_locales (auto simp: MsgQueue_write_def MsgQueue_clear_def)

text \<open>A queue that was empty delivers any sequence of writes in the order they were made,
  one per read, and a read after that times out: no message is lost, duplicated or reordered.\<close>

theorem MsgQueue_fifo:
  "drain MsgQueue_read (length ms) (fold MsgQueue_write ms []) = (ms, []) \<and>
   fst (MsgQueue_read (snd (drain MsgQueue_read (length ms) (fold MsgQueue_write ms [])))) = Msg TIMEOUT []"
proof -
  have "fst (drain MsgQueue_read (length ms) (fold MsgQueue_write ms [])) = ms"
    "snd (drain MsgQueue_read (length ms) (fold MsgQueue_write ms [])) = []"
    using msgq.drain_contents [of "length ms" "fold MsgQueue_write ms []"] msgq.contents_writes [of ms "[]"]
    by simp_all
  then show ?thesis by (simp add: prod_eq_iff)
qed

section \<open>Effects\<close>

type_synonym sockaddr = "ip4 \<times> u16"

datatype effect =
    ToTun msg | ToPeer msg | ToWs msg | ToNetStack msg
  | WsSend bytes int
  | UdpSend bytes sockaddr
  | TunWrite bytes
  | SetRoute ip4 ip4 ip4
  | ClientShutdown

record queues =
  q_tun :: MsgQueue
  q_peer :: MsgQueue
  q_ws :: MsgQueue
  q_netstack :: MsgQueue

text \<open>The effects that are queue writes, applied to the four queues of a client.\<close>

fun deliver :: "effect \<Rightarrow> queues \<Rightarrow> queues" where
  "deliver (ToTun m) q = q\<lparr>q_tun := MsgQueue_write m (q_tun q)\<rparr>"
| "deliver (ToPeer m) q = q\<lparr>q_peer := MsgQueue_write m (q_peer q)\<rparr>"
| "deliver (ToWs m) q = q\<lparr>q_ws := MsgQueue_write m (q_ws q)\<rparr>"
| "deliver (ToNetStack m) q = q\<lparr>q_netstack := MsgQueue_write m (q_netstack q)\<rparr>"
| "deliver _ q = q"

end
