(* ===== verification/WsClient.thy ===== *)
theory WsClient
  imports Message WsMessage
begin

text \<open>
  \<^verbatim>\<open>websocket/client.h\<close>, \<^verbatim>\<open>client.cc\<close>: the client's connection to the server. Two threads
  work on it: one takes messages of the other modules from the queue and turns them into
  frames (\<open>handleWsQueue\<close>), the other takes frames from the socket and turns them into messages
  (\<open>handleWsConn\<close>). An operation returns the module and its effects; it is \<open>Undef\<close> where the
  code reads outside a string. \<^verbatim>\<open>sendFrame\<close> swallows every exception, so an effect
  \<open>WsSend\<close> is an attempt. The clock is an argument in milliseconds.
\<close>

section \<open>State\<close>

record WebSocketClient =
  wc_ws :: bool
  pingMessage :: bytes
  ws_timestamp :: int
  wsServerUri :: bytes
  exptTunCidr :: bytes
  tunCidr :: bytes
  wc_vmac :: bytes
  wc_name :: bytes
  wc_password :: bytes

type_synonym ws_result = "(WebSocketClient \<times> effect list) res"

text \<open>What the handlers read besides the module: \<^verbatim>\<open>Client\<close>'s flag and the clocks.\<close>

record ws_env =
  env_crypto :: crypto
  env_poco :: poco
  env_p2pOnly :: bool
  env_boot :: int
  env_unix :: u64

definition wsc_setName :: "bytes \<Rightarrow> WebSocketClient \<Rightarrow> WebSocketClient \<times> int" where
  "wsc_setName name w = (w\<lparr>wc_name := name\<rparr>, 0)"

definition wsc_setPassword :: "bytes \<Rightarrow> WebSocketClient \<Rightarrow> WebSocketClient \<times> int" where
  "wsc_setPassword password w = (w\<lparr>wc_password := password\<rparr>, 0)"

definition setWsServerUri :: "bytes \<Rightarrow> WebSocketClient \<Rightarrow> WebSocketClient \<times> int" where
  "setWsServerUri u w = (w\<lparr>wsServerUri := u\<rparr>, 0)"

definition setExptTunAddress :: "bytes \<Rightarrow> WebSocketClient \<Rightarrow> WebSocketClient \<times> int" where
  "setExptTunAddress cidr w = (w\<lparr>exptTunCidr := cidr\<rparr>, 0)"

definition wsc_setAddress :: "bytes \<Rightarrow> WebSocketClient \<Rightarrow> WebSocketClient \<times> int" where
  "wsc_setAddress cidr w = (w\<lparr>tunCidr := cidr\<rparr>, 0)"

definition wsc_setVirtualMac :: "bytes \<Rightarrow> WebSocketClient \<Rightarrow> WebSocketClient \<times> int" where
  "wsc_setVirtualMac vmac w = (w\<lparr>wc_vmac := vmac\<rparr>, 0)"

section \<open>Sending\<close>

definition WS_FRAME_BINARY :: int where "WS_FRAME_BINARY = 130"
definition WS_FRAME_PING :: int where "WS_FRAME_PING = 137"
definition WS_FRAME_PONG :: int where "WS_FRAME_PONG = 138"

definition sendFrame :: "WebSocketClient \<Rightarrow> bytes \<Rightarrow> int \<Rightarrow> effect list" where
  "sendFrame w buffer flags = (if wc_ws w then [WsSend buffer flags] else [])"

definition sendVirtualMacMsg :: "ws_env \<Rightarrow> WebSocketClient \<Rightarrow> effect list" where
  "sendVirtualMacMsg E w =
     (let buffer = VMac_updateHash (env_crypto E) (wc_password w) (VMac_new (env_unix E) (wc_vmac w))
      in sendFrame w (VMac_bytes buffer) WS_FRAME_BINARY)"

definition sendExptTunMsg :: "ws_env \<Rightarrow> WebSocketClient \<Rightarrow> effect list res" where
  "sendExptTunMsg E w =
     bind_res (Address_of (env_poco E) (exptTunCidr w)) (\<lambda>exptTun.
       bind_res (ExptTun_new (env_unix E) (toCidr (env_poco E) exptTun)) (\<lambda>buffer.
         Ok (sendFrame w (ExptTun_bytes (ExptTun_updateHash (env_crypto E) (wc_password w) buffer))
               WS_FRAME_BINARY)))"

definition sendPingMessage :: "WebSocketClient \<Rightarrow> effect list" where
  "sendPingMessage w = sendFrame w (pingMessage w) WS_FRAME_PING"

definition sendAuthMsg :: "ws_env \<Rightarrow> WebSocketClient \<Rightarrow> effect list res" where
  "sendAuthMsg E w =
     bind_res (Address_of (env_poco E) (tunCidr w)) (\<lambda>address.
       let buffer = Auth_updateHash (env_crypto E) (wc_password w) (Auth_new (env_unix E) (a_host address))
       in Ok (sendFrame w (Auth_bytes buffer) WS_FRAME_BINARY @
              [ToTun (Msg TUNADDR (toCidr (env_poco E) address)),
               ToPeer (Msg TUNADDR (toCidr (env_poco E) address))] @
              sendPingMessage w))"

definition sendDiscoveryMsg :: "ws_env \<Rightarrow> ip4 \<Rightarrow> WebSocketClient \<Rightarrow> effect list res" where
  "sendDiscoveryMsg E dst w =
     bind_res (Address_of (env_poco E) (tunCidr w)) (\<lambda>address.
       Ok (sendFrame w (Discovery_bytes (Discovery_new\<lparr>dc_dst := dst, dc_src := a_host address\<rparr>))
             WS_FRAME_BINARY))"

section \<open>The message thread\<close>

definition wsc_handlePacket :: "msg \<Rightarrow> WebSocketClient \<Rightarrow> effect list" where
  "wsc_handlePacket m w = sendFrame w (WS_FORWARD # msg_data m) WS_FRAME_BINARY"

definition wsc_handlePubInfo :: "msg \<Rightarrow> WebSocketClient \<Rightarrow> effect list" where
  "wsc_handlePubInfo m w =
     (let info = PubInfo_at (msg_data m)
      in if pi_local info
         then sendFrame w
           (ConnLocal_bytes
             (ConnLocal_new\<lparr>cl_ge := (cl_ge ConnLocal_new)\<lparr>ge_src := pi_src info, ge_dst := pi_dst info\<rparr>,
                            cl_ip := pi_ip info, cl_port := hton (pi_port info)\<rparr>)) WS_FRAME_BINARY
         else sendFrame w
           (Conn_bytes
             (Conn_new\<lparr>cn_src := pi_src info, cn_dst := pi_dst info,
                       cn_ip := pi_ip info, cn_port := hton (pi_port info)\<rparr>)) WS_FRAME_BINARY)"

definition wsc_handleDiscovery :: "ws_env \<Rightarrow> msg \<Rightarrow> WebSocketClient \<Rightarrow> effect list res" where
  "wsc_handleDiscovery E m w = sendDiscoveryMsg E (IP4 255 255 255 255) w"

definition handleWsQueue :: "ws_env \<Rightarrow> MsgQueue \<Rightarrow> WebSocketClient \<Rightarrow> (MsgQueue \<times> effect list) res" where
  "handleWsQueue E q w =
     (let (m, q') = MsgQueue_read q
      in case msg_kind m of
           PACKET \<Rightarrow> Ok (q', wsc_handlePacket m w)
         | PUBINFO \<Rightarrow> Ok (q', wsc_handlePubInfo m w)
         | DISCOVERY \<Rightarrow> bind_res (wsc_handleDiscovery E m w) (\<lambda>fx. Ok (q', fx))
         | _ \<Rightarrow> Ok (q', []))"

section \<open>The websocket thread\<close>

definition wsc_handleForwardMsg :: "ws_env \<Rightarrow> bytes \<Rightarrow> effect list" where
  "wsc_handleForwardMsg E buffer =
     (if length buffer < sizeof_Forward then []
      else let packet = drop 1 buffer;
               header = IP4Header_at packet 0
           in ToPeer (Msg TRYP2P (ip_show (env_poco E) (saddr header))) #
              (if env_p2pOnly E then [] else [ToTun (Msg PACKET packet)]))"

definition wsc_handleExptTunMsg :: "ws_env \<Rightarrow> bytes \<Rightarrow> WebSocketClient \<Rightarrow> ws_result" where
  "wsc_handleExptTunMsg E buffer w =
     (if length buffer < sizeof_ExptTun then Ok (w, [])
      else bind_res (Address_of (env_poco E) (takeWhile (\<lambda>c. c \<noteq> 0) (drop 9 buffer))) (\<lambda>exptTun.
             let w' = w\<lparr>tunCidr := toCidr (env_poco E) exptTun\<rparr>
             in bind_res (sendAuthMsg E w') (\<lambda>fx. Ok (w', fx))))"

definition wsc_handleUdp4ConnMsg :: "bytes \<Rightarrow> effect list" where
  "wsc_handleUdp4ConnMsg buffer =
     (if length buffer < sizeof_Conn then []
      else let header = Conn_at buffer;
               info = \<lparr>pi_src = cn_src header, pi_dst = cn_dst header, pi_ip = cn_ip header,
                       pi_port = ntoh (cn_port header), pi_local = False\<rparr>
           in [ToPeer (Msg PUBINFO (PubInfo_bytes info))])"

definition wsc_handleDiscoveryMsg :: "ws_env \<Rightarrow> bytes \<Rightarrow> WebSocketClient \<Rightarrow> effect list res" where
  "wsc_handleDiscoveryMsg E buffer w =
     (if length buffer < sizeof_Discovery then Ok []
      else let header = Discovery_at buffer
           in bind_res (if dc_dst header = IP4 255 255 255 255 then sendDiscoveryMsg E (dc_src header) w else Ok [])
                (\<lambda>fx. Ok (fx @ [ToPeer (Msg TRYP2P (ip_show (env_poco E) (dc_src header)))])))"

text \<open>
  The entries are read without a test that the string holds them; its terminator is the
  last byte that may be read.
\<close>

fun route_entries :: "bytes \<Rightarrow> nat \<Rightarrow> nat \<Rightarrow> effect list res" where
  "route_entries buffer 0 idx = Ok []"
| "route_entries buffer (Suc n) idx =
     (if 4 + 12 * idx + 12 > length buffer + 1 then Undef
      else bind_res (route_entries buffer n (idx + 1)) (\<lambda>fx.
        Ok ([ToTun (Msg SYSRT (slice (4 + 12 * idx) 12 (buffer @ [0]))), ToPeer (Msg SYSRT [])] @ fx)))"

definition handleRouteMsg :: "bytes \<Rightarrow> effect list res" where
  "handleRouteMsg buffer =
     (if length buffer < sizeof_SysRoute then Ok []
      else route_entries buffer (unat (rd8 buffer 1)) 0)"

definition handleGeneralMsg :: "bytes \<Rightarrow> effect list" where
  "handleGeneralMsg buffer =
     (if length buffer < sizeof_ConnLocal then []
      else let header = ConnLocal_at buffer;
               info = \<lparr>pi_src = ge_src (cl_ge header), pi_dst = ge_dst (cl_ge header), pi_ip = cl_ip header,
                       pi_port = ntoh (cl_port header), pi_local = True\<rparr>
           in [ToPeer (Msg PUBINFO (PubInfo_bytes info))])"

definition handleWsMsg :: "ws_env \<Rightarrow> bytes \<Rightarrow> WebSocketClient \<Rightarrow> ws_result" where
  "handleWsMsg E buffer w =
     (let msgKind = rd8 buffer 0
      in if msgKind = WS_FORWARD then Ok (w, wsc_handleForwardMsg E buffer)
         else if msgKind = WS_EXPTTUN then wsc_handleExptTunMsg E buffer w
         else if msgKind = WS_UDP4CONN then Ok (w, wsc_handleUdp4ConnMsg buffer)
         else if msgKind = WS_DISCOVERY
         then bind_res (wsc_handleDiscoveryMsg E buffer w) (\<lambda>fx. Ok (w, fx))
         else if msgKind = WS_ROUTE then bind_res (handleRouteMsg buffer) (\<lambda>fx. Ok (w, fx))
         else if msgKind = WS_GENERAL then Ok (w, handleGeneralMsg buffer)
         else Ok (w, []))"

text \<open>
  What the socket does in one call of \<open>handleWsConn\<close>: nothing for a second, an error flagged,
  an exception, or a frame (payload and flags) of at most 1500 bytes.
\<close>

datatype conn_event = PollTimeout | PollError | ConnThrows | ConnFrame bytes int

definition handleWsConn :: "ws_env \<Rightarrow> conn_event \<Rightarrow> WebSocketClient \<Rightarrow> (WebSocketClient \<times> effect list \<times> int) res" where
  "handleWsConn E ev w =
     (case ev of
        PollTimeout \<Rightarrow>
          if env_boot E - ws_timestamp w > 30000 then Ok (w, [], -1)
          else if env_boot E - ws_timestamp w > 15000 then Ok (w, sendPingMessage w, 0)
          else Ok (w, [], 0)
      | PollError \<Rightarrow> Ok (w, [], -1)
      | ConnThrows \<Rightarrow> Ok (w, [], -1)
      | ConnFrame payload flags \<Rightarrow>
          let op = flags mod 16; touched = w\<lparr>ws_timestamp := env_boot E\<rparr>
          in if payload = [] \<and> flags = 0 then Ok (w, [], -1)
             else if op = 9 then Ok (touched, sendFrame touched payload WS_FRAME_PONG, 0)
             else if op = 10 then Ok (touched, [], 0)
             else if op = 8 then Ok (w, [], -1)
             else if payload \<noteq> []
             then (case handleWsMsg E payload touched of
                     Ok (w', fx) \<Rightarrow> Ok (w', fx, 0)
                   | Throw \<Rightarrow> Ok (touched, [], -1)
                   | Undef \<Rightarrow> Undef)
             else Ok (w, [], 0))"

text \<open>One turn of the websocket thread: when it ends, it shuts the client down.\<close>

definition wsThread_turn ::
  "ws_env \<Rightarrow> bool \<Rightarrow> conn_event \<Rightarrow> WebSocketClient \<Rightarrow> (WebSocketClient \<times> effect list \<times> bool) res" where
  "wsThread_turn E running ev w =
     (if \<not> running then Ok (w, [ClientShutdown], False)
      else bind_res (handleWsConn E ev w) (\<lambda>(w', fx, r).
             if r \<noteq> 0 then Ok (w', fx @ [ClientShutdown], False) else Ok (w', fx, True)))"

section \<open>Connecting\<close>

text \<open>
  \<open>handshake\<close>: whether the HTTP upgrade with the host and port succeeds; \<open>ping\<close> is the text
  \<^verbatim>\<open>candy::<system>::<version>::<host name>\<close>, built from the platform and \<^verbatim>\<open>gethostname\<close>.
\<close>

definition wsc_connect ::
  "ws_env \<Rightarrow> (bytes \<Rightarrow> bytes \<Rightarrow> u16 \<Rightarrow> bool) \<Rightarrow> bytes \<Rightarrow> WebSocketClient \<Rightarrow> WebSocketClient \<times> int" where
  "wsc_connect E handshake ping w =
     (case uri_parse (env_poco E) (wsServerUri w) of
        None \<Rightarrow> (w, -1)
      | Some u \<Rightarrow>
          if uri_scheme u \<noteq> str ''wss'' \<and> uri_scheme u \<noteq> str ''ws'' then (w, -1)
          else if \<not> handshake (uri_scheme u) (uri_host u) (uri_port u) then (w, -1)
          else (w\<lparr>wc_ws := True, ws_timestamp := env_boot E, pingMessage := ping\<rparr>, 0))"

text \<open>\<open>closes\<close>: closing the socket does not throw.\<close>

definition wsc_disconnect :: "bool \<Rightarrow> WebSocketClient \<Rightarrow> WebSocketClient \<times> int" where
  "wsc_disconnect closes w = (if wc_ws w \<and> closes then w\<lparr>wc_ws := False\<rparr> else w, 0)"

definition wsc_run ::
  "ws_env \<Rightarrow> (bytes \<Rightarrow> bytes \<Rightarrow> u16 \<Rightarrow> bool) \<Rightarrow> bytes \<Rightarrow> WebSocketClient \<Rightarrow>
   (WebSocketClient \<times> effect list \<times> int) res" where
  "wsc_run E handshake ping w =
     (let (w1, r) = wsc_connect E handshake ping w
      in if r \<noteq> 0 then Ok (w1, [], -1)
         else bind_res (if tunCidr w1 = [] then sendExptTunMsg E w1 else sendAuthMsg E w1) (\<lambda>fx.
                Ok (w1, sendVirtualMacMsg E w1 @ fx, 0)))"

end
