(* ===== verification/Relay.thy ===== *)
theory Relay
  imports WsServer WsClient
begin

text \<open>
  Properties that span the two ends of the websocket: what the server writes is what the
  client reads, and the other way round.
\<close>

section \<open>Routes\<close>

lemma route_entries_append:
  assumes "length pre = 4 + 12 * idx"
  shows "route_entries (pre @ concat (map (SysRouteEntry_bytes \<circ> route_item) rs)) (length rs) idx =
    Ok (concat (map (\<lambda>rt. [ToTun (Msg SYSRT (SysRouteEntry_bytes (route_item rt))), ToPeer (Msg SYSRT [])]) rs))"
  using assms
proof (induction rs arbitrary: pre idx)
  case Nil
  then show ?case by simp
next
  case (Cons rt rs)
  have "slice (4 + 12 * idx) 12 ((pre @ concat (map (SysRouteEntry_bytes \<circ> route_item) (rt # rs))) @ [0]) =
      SysRouteEntry_bytes (route_item rt)"
    using Cons.prems by (simp add: slice_def)
  then show ?case
    using Cons.prems Cons.IH [of "pre @ SysRouteEntry_bytes (route_item rt)" "idx + 1"] by (simp add: comp_def)
qed

lemma handleRouteMsg_route_frame:
  assumes "length rs \<le> 101"
  shows "handleRouteMsg (route_frame rs) =
    Ok (concat (map (\<lambda>rt. [ToTun (Msg SYSRT (SysRouteEntry_bytes (route_item rt))), ToPeer (Msg SYSRT [])]) rs))"
  using route_entries_append [of "[WS_ROUTE, of_nat (length rs), 0, 0]" 0 rs] assms
  by (simp add: handleRouteMsg_def route_frame_count_byte length_route_frame sizeof_SysRoute_def)
    (simp add: route_frame_def)

fun client_frames :: "ws_env \<Rightarrow> bytes list \<Rightarrow> WebSocketClient \<Rightarrow> ws_result" where
  "client_frames E [] w = Ok (w, [])"
| "client_frames E (f # fs) w =
     bind_res (handleWsMsg E f w) (\<lambda>(w', fx).
       bind_res (client_frames E fs w') (\<lambda>(w'', fx'). Ok (w'', fx @ fx')))"

lemma handleWsMsg_route_frame:
  "length rs \<le> 101 \<Longrightarrow> handleWsMsg E (route_frame rs) w =
     Ok (w, concat (map (\<lambda>rt. [ToTun (Msg SYSRT (SysRouteEntry_bytes (route_item rt))), ToPeer (Msg SYSRT [])]) rs))"
  using handleRouteMsg_route_frame [of rs]
  by (simp add: handleWsMsg_def) (simp add: route_frame_def WsMsgKind_defs)

lemma client_route_chunks:
  "(\<And>ch. ch \<in> set chs \<Longrightarrow> length ch \<le> 101) \<Longrightarrow>
   client_frames E (map route_frame chs) w =
     Ok (w, concat (map (\<lambda>rt. [ToTun (Msg SYSRT (SysRouteEntry_bytes (route_item rt))), ToPeer (Msg SYSRT [])])
              (concat chs)))"
  by (induction chs) (auto simp: handleWsMsg_route_frame)

text \<open>The client reads the route frames of the server without leaving the received string,
  and hands to its tunnel module exactly the routes configured for its address, in the order
  of the configuration, however many frames they took.\<close>

theorem routes_reach_the_tun:
  "client_frames E (snd (sysroute_frames ip rts)) w =
     Ok (w, concat (map (\<lambda>rt. [ToTun (Msg SYSRT (SysRouteEntry_bytes (route_item rt))), ToPeer (Msg SYSRT [])])
              (filter (route_matches ip) rts)))"
proof -
  have e: "[WS_ROUTE, 0, 0, 0] = route_frame []" by (simp add: route_frame_def)
  have "snd (sysroute_frames ip rts) = map route_frame (route_chunks (filter (route_matches ip) rts))"
    using sysroute_loop_spec [of "[]" ip rts] route_frame_nonempty
    by (auto simp: sysroute_frames_def e split: if_splits)
  then show ?thesis
    using client_route_chunks [of "route_chunks (filter (route_matches ip) rts)" E w]
      route_chunks_size [of _ "filter (route_matches ip) rts"]
    by (simp add: concat_route_chunks)
qed

section \<open>Packets and endpoints\<close>

text \<open>A packet that one client's tunnel hands to its websocket module arrives in the tunnel of
  the client that receives the frame, byte for byte, together with a request to try a direct
  connection to the packet's source; with p2p-only set the packet is dropped and only the
  request remains. Packets shorter than a header vanish.\<close>

theorem packet_through_server:
  assumes "wc_ws a"
  shows "wsc_handlePacket (Msg PACKET packet) a = [WsSend (WS_FORWARD # packet) WS_FRAME_BINARY] \<and>
    handleWsMsg E (WS_FORWARD # packet) b =
      Ok (b, if length packet < sizeof_IP4Header then []
             else if env_p2pOnly E then [ToPeer (Msg TRYP2P (ip_show (env_poco E) (saddr (IP4Header_at packet 0))))]
             else [ToPeer (Msg TRYP2P (ip_show (env_poco E) (saddr (IP4Header_at packet 0)))),
                   ToTun (Msg PACKET packet)])"
  using assms
  by (simp add: wsc_handlePacket_def sendFrame_def handleWsMsg_def wsc_handleForwardMsg_def
      sizeof_Forward_def sizeof_IP4Header_def)

definition demo_wsc :: WebSocketClient where
  "demo_wsc = \<lparr>wc_ws = True, pingMessage = [], ws_timestamp = 0, wsServerUri = [], exptTunCidr = [],
     tunCidr = [], wc_vmac = [], wc_name = [], wc_password = str ''pw''\<rparr>"

definition demo_env :: ws_env where
  "demo_env = \<lparr>env_crypto = toy_crypto, env_poco = dotted_poco, env_p2pOnly = False, env_boot = 0, env_unix = 0\<rparr>"

theorem packet_through_server_witness:
  "wsc_handlePacket (Msg PACKET (replicate 20 0)) demo_wsc =
     [WsSend (WS_FORWARD # replicate 20 0) WS_FRAME_BINARY] \<and>
   handleWsMsg demo_env (WS_FORWARD # replicate 20 0) demo_wsc =
     Ok (demo_wsc, [ToPeer (Msg TRYP2P (str ''0.0.0.0'')), ToTun (Msg PACKET (replicate 20 0))])"
proof -
  have "wc_ws demo_wsc" by (simp add: demo_wsc_def)
  moreover have "ip_show (env_poco demo_env) (saddr (IP4Header_at (replicate 20 0) 0)) = str ''0.0.0.0''"
    by code_simp
  ultimately show ?thesis
    using packet_through_server [of demo_wsc "replicate 20 0" demo_env demo_wsc]
    by (simp add: demo_env_def sizeof_IP4Header_def)
qed

text \<open>The endpoint a peer module publishes, public or local, reaches the peer module of the
  receiving client as the same record, ports in host order at both ends; the frame names the
  publisher as its source, so the server relays it (for the address it authenticated).\<close>

theorem pubinfo_through_server:
  assumes "wc_ws a" and "pi_src info \<noteq> ip4_zero"
  shows "\<exists>frame. wsc_handlePubInfo (Msg PUBINFO (PubInfo_bytes info)) a = [WsSend frame WS_FRAME_BINARY] \<and>
     relay_for (pi_src info) frame \<and>
     handleWsMsg E frame b = Ok (b, [ToPeer (Msg PUBINFO (PubInfo_bytes info))])"
proof (cases "pi_local info")
  case True
  define h where "h = ConnLocal_new\<lparr>cl_ge := (cl_ge ConnLocal_new)\<lparr>ge_src := pi_src info, ge_dst := pi_dst info\<rparr>,
      cl_ip := pi_ip info, cl_port := hton (pi_port info)\<rparr>"
  have k: "rd8 (ConnLocal_bytes h) 0 = WS_GENERAL" "length (ConnLocal_bytes h) = sizeof_ConnLocal"
    by (simp_all add: h_def ConnLocal_new_def ConnLocal_bytes_def General_bytes_def sizeof_ConnLocal_def)
  have d: "ConnLocal_at (ConnLocal_bytes h) = h" using connlocal.dec_enc_exact by simp
  have g: "ge_src (General_at (ConnLocal_bytes h)) = pi_src info"
    using d by (metis ConnLocal.select_convs(1) ConnLocal.ext_inject ConnLocal_at_def ConnLocal.surjective h_def
        ConnLocal.update_convs General.select_convs(4) General.update_convs General.surjective)
  have i: "\<lparr>pi_src = pi_src info, pi_dst = pi_dst info, pi_ip = pi_ip info, pi_port = pi_port info,
      pi_local = True\<rparr> = info"
    using True by (cases info) simp
  show ?thesis
    using True assms k d g
    by (intro exI [of _ "ConnLocal_bytes h"])
      (simp add: wsc_handlePubInfo_def sendFrame_def handleWsMsg_def handleGeneralMsg_def WsMsgKind_defs relay_for_def h_def i)
next
  case False
  define h where "h = Conn_new\<lparr>cn_src := pi_src info, cn_dst := pi_dst info,
      cn_ip := pi_ip info, cn_port := hton (pi_port info)\<rparr>"
  have k: "rd8 (Conn_bytes h) 0 = WS_UDP4CONN" "length (Conn_bytes h) = sizeof_Conn"
    by (simp_all add: h_def Conn_new_def Conn_bytes_def sizeof_Conn_def)
  have d: "Conn_at (Conn_bytes h) = h" using conn.dec_enc_exact by simp
  have i: "\<lparr>pi_src = pi_src info, pi_dst = pi_dst info, pi_ip = pi_ip info, pi_port = pi_port info,
      pi_local = False\<rparr> = info"
    using False by (cases info) simp
  show ?thesis
    using False assms k d
    by (intro exI [of _ "Conn_bytes h"])
      (simp add: wsc_handlePubInfo_def sendFrame_def handleWsMsg_def wsc_handleUdp4ConnMsg_def WsMsgKind_defs relay_for_def h_def i)
qed

theorem pubinfo_through_server_witness:
  "\<exists>frame. wsc_handlePubInfo (Msg PUBINFO (PubInfo_bytes \<lparr>pi_src = IP4 10 0 0 1, pi_dst = IP4 10 0 0 2,
       pi_ip = IP4 1 2 3 4, pi_port = 5000, pi_local = True\<rparr>)) demo_wsc = [WsSend frame WS_FRAME_BINARY] \<and>
     relay_for (IP4 10 0 0 1) frame \<and>
     handleWsMsg demo_env frame demo_wsc =
       Ok (demo_wsc, [ToPeer (Msg PUBINFO (PubInfo_bytes \<lparr>pi_src = IP4 10 0 0 1, pi_dst = IP4 10 0 0 2,
         pi_ip = IP4 1 2 3 4, pi_port = 5000, pi_local = True\<rparr>))])"
proof -
  let ?i = "\<lparr>pi_src = IP4 10 0 0 1, pi_dst = IP4 10 0 0 2, pi_ip = IP4 1 2 3 4, pi_port = 5000, pi_local = True\<rparr>"
  have "wc_ws demo_wsc" "pi_src ?i \<noteq> ip4_zero" by (simp_all add: demo_wsc_def ip4_zero_def)
  then show ?thesis using pubinfo_through_server [of demo_wsc ?i demo_env demo_wsc] by simp
qed

section \<open>Asking for an address and logging in\<close>

lemma takeWhile_cidr:
  assumes "poco_ok P"
  shows "takeWhile (\<lambda>c. c \<noteq> 0) (toCidr P a @ 0 # r) = toCidr P a"
proof -
  have "\<forall>c \<in> set (toCidr P a). c \<noteq> 0"
    using assms show_nat_digits [of "toPrefix (a_mask a)"]
    by (fastforce simp: toCidr_def poco_ok_def to_string_def is_digit_def)
  then show ?thesis by (simp add: takeWhile_append2)
qed

lemma ExptTun_bytes_hash:
  assumes "sizeof_ExptTun \<le> length b"
  shows "ExptTun_bytes (ExptTun_updateHash C pw (ExptTun_at b)) =
    take 41 b @ et_hash (ExptTun_updateHash C pw (ExptTun_at b))"
proof -
  have "ExptTun_bytes (ExptTun_at b) = take 73 b"
    using assms by (simp add: WsMsg_layout glue_simps)
  then have "take 41 (ExptTun_bytes (ExptTun_at b)) = take 41 b"
    by (simp add: min_def)
  moreover have "take 41 (ExptTun_bytes (ExptTun_at b)) = et_type (ExptTun_at b) # le_bytes 8 (et_timestamp (ExptTun_at b)) @ et_cidr (ExptTun_at b)"
    using assms by (simp add: WsMsg_layout length_slice)
  ultimately show ?thesis
    by (simp add: ExptTun_bytes_def ExptTun_updateHash_def)
qed

text \<open>The frame that answers a request for an address.\<close>

lemma expt_reply_frame:
  assumes P: "poco_ok P" and C: "crypto_ok C" and x: "map_of (sv_ctxs s) c = Some x"
    and l: "length (ctx_buffer x) = sizeof_ExptTun" and k: "rd8 (ctx_buffer x) 0 = WS_EXPTTUN"
  shows "\<exists>f. expt_reply C P now (\<lambda>_ _. Sent) c a s = (upd_ctx c (\<lambda>x. x\<lparr>ctx_buffer := f\<rparr>) s, [(c, f)], Done) \<and>
    length f = sizeof_ExptTun \<and> rd8 f 0 = WS_EXPTTUN \<and> takeWhile (\<lambda>c. c \<noteq> 0) (drop 9 f) = toCidr P a"
proof -
  let ?t = "toCidr P a"
  define b1 where "b1 = splice 9 (?t @ [0]) (splice 1 (le_bytes 8 (hton now)) (ctx_buffer x))"
  define f where "f = splice 0 (ExptTun_bytes (ExptTun_updateHash C (sv_password s) (ExptTun_at b1))) b1"
  have t: "length ?t \<le> 18" by (rule length_toCidr [OF P])
  have l1: "length b1 = sizeof_ExptTun"
    using l t by (simp add: b1_def length_splice sizeof_ExptTun_def)
  have h: "length (et_hash (ExptTun_updateHash C (sv_password s) (ExptTun_at b1))) = 32"
    using C by (simp add: ExptTun_updateHash_def crypto_ok_def)
  have f: "f = take 41 b1 @ et_hash (ExptTun_updateHash C (sv_password s) (ExptTun_at b1))"
    using l1 h ExptTun_bytes_hash [of b1 C "sv_password s"] by (simp add: f_def splice_def sizeof_ExptTun_def)
  obtain y ys where y: "ctx_buffer x = y # ys" using l by (cases "ctx_buffer x") (auto simp: sizeof_ExptTun_def)
  have "take 41 b1 = y # le_bytes 8 (hton now) @ ?t @ 0 # take (31 - length ?t) (drop (9 + length ?t) ys)"
    using l t y by (simp add: b1_def splice_def sizeof_ExptTun_def take_Cons' drop_Cons')
  then have f': "f = y # le_bytes 8 (hton now) @ ?t @ 0 # take (31 - length ?t) (drop (9 + length ?t) ys) @
      et_hash (ExptTun_updateHash C (sv_password s) (ExptTun_at b1))"
    by (simp add: f)
  have "length f = sizeof_ExptTun"
    using l1 h by (simp add: f sizeof_ExptTun_def)
  moreover have "rd8 f 0 = WS_EXPTTUN" using k y by (simp add: f')
  moreover have "takeWhile (\<lambda>c. c \<noteq> 0) (drop 9 f) = ?t"
    using takeWhile_cidr [OF P] by (simp add: f')
  moreover have "expt_reply C P now (\<lambda>_ _. Sent) c a s = (upd_ctx c (\<lambda>x. x\<lparr>ctx_buffer := f\<rparr>) s, [(c, f)], Done)"
    using x t l by (simp add: expt_reply_def the_ctx_def finish_def ctxs_upd_ctx f_def b1_def sizeof_ExptTun_def Let_def)
  ultimately show ?thesis by blast
qed

lemma updateSysRoute_state:
  "fst (updateSysRoute tx c s) =
     upd_ctx c (\<lambda>x. x\<lparr>ctx_buffer := fst (sysroute_frames (ctx_ip (the_ctx s c)) (sv_routes s))\<rparr>) s"
  by (simp add: updateSysRoute_def finish_def split: prod.split)

lemma auth_registers:
  assumes C: "crypto_ok C" and r: "registry_ok s" and x: "map_of (sv_ctxs s) c = Some x"
    and b: "ctx_buffer x = Auth_bytes (Auth_updateHash C (sv_password s) (Auth_new t ip))"
  shows "map_of (ipCtxMap (fst (handleAuthMsg C now tx c s))) ip = Some c \<and>
    map_option ctx_ip (map_of (sv_ctxs (fst (handleAuthMsg C now tx c s))) c) = Some ip"
proof -
  let ?a = "Auth_updateHash C (sv_password s) (Auth_new t ip)"
  have at: "Auth_at (Auth_bytes ?a) = ?a"
    using auth.dec_enc_exact Auth_wf_new [OF C] by simp
  obtain w where chk: "Auth_check C now (sv_password s) ?a = (w, True, ?a)"
    using Auth_own_accepted [OF C, of now "sv_password s" t ip "[]"] at
    by (cases "Auth_check C now (sv_password s) ?a") auto
  have l: "\<not> length (ctx_buffer x) < sizeof_Auth"
    using b auth.length_enc Auth_wf_new [OF C] by simp
  have ip: "au_ip ?a = ip" by (simp add: Auth_updateHash_def Auth_new_def)
  have live: "map_of (ipCtxMap s) ip = Some old \<Longrightarrow> \<exists>y. map_of (sv_ctxs s) old = Some y" for old
    using registered_live [OF r] by auto
  show ?thesis
    using x l live
    by (auto simp: handleAuthMsg_def Let_def the_ctx_def b at chk ip updateSysRoute_state table_simps ctxs_upd_ctx
        split: option.split)
qed

lemma Address_of_reply:
  assumes "poco_ok P" and "is_prefix_mask (a_mask a)" and "takeWhile (\<lambda>c. c \<noteq> 0) (drop 9 f) = toCidr P a"
  shows "Address_of P (takeWhile (\<lambda>c. c \<noteq> 0) (drop 9 f)) = Ok a"
  using assms by (simp add: Address_of_toCidr)

lemma client_takes_address:
  assumes P: "poco_ok (env_poco E)" and m: "is_prefix_mask (a_mask a)" and w: "wc_ws w"
    and f: "length f = sizeof_ExptTun" "rd8 f 0 = WS_EXPTTUN"
      "takeWhile (\<lambda>c. c \<noteq> 0) (drop 9 f) = toCidr (env_poco E) a"
  shows "handleWsMsg E f w =
    Ok (w\<lparr>tunCidr := toCidr (env_poco E) a\<rparr>,
        [WsSend (Auth_bytes (Auth_updateHash (env_crypto E) (wc_password w) (Auth_new (env_unix E) (a_host a))))
           WS_FRAME_BINARY,
         ToTun (Msg TUNADDR (toCidr (env_poco E) a)), ToPeer (Msg TUNADDR (toCidr (env_poco E) a)),
         WsSend (pingMessage w) WS_FRAME_PING])"
  using f w Address_of_reply [OF P m f(3)] Address_of_toCidr [OF P m]
  by (simp add: handleWsMsg_def wsc_handleExptTunMsg_def sendAuthMsg_def sendFrame_def sendPingMessage_def
      WsMsgKind_defs Let_def)

text \<open>The reply of the server to a request, when it replies.\<close>

lemma expttun_reply_source:
  assumes r: "registry_ok s" and h: "handleExptTunMsg C P now tx c s = (s1, fs, Done)" and "fs \<noteq> []"
    and chk: "ExptTun_check C now (sv_password s) (ExptTun_at (ctx_buffer (the_ctx s c))) = (w, valid, e)"
    and s': "s' = upd_ctx c (\<lambda>x. x\<lparr>ctx_buffer := splice 0 (ExptTun_bytes e) (ctx_buffer (the_ctx s c))\<rparr>) s"
  shows "\<exists>a s0. is_prefix_mask (a_mask a) \<and> Net a = Net (sv_dhcp s) \<and> (s0 = s' \<or> s0 = s'\<lparr>sv_dhcp := a\<rparr>) \<and>
      expt_reply C P now tx c a s0 = (s1, fs, Done)"
proof -
  have m: "is_prefix_mask (a_mask a)" "Net a = Net (sv_dhcp s)"
    if "dhcp_loop used start (sv_dhcp s) = Some (Some a)" for used start a
    using dhcp_loop_result [OF that] r by (auto simp: dhcp_found_def registry_ok_def)
  have d: "Net a = Net (sv_dhcp s)" if "expt_direct s' c a = Some True" for a
    using that by (auto simp: expt_direct_def s' split: if_splits)
  have dh: "sv_dhcp s' = sv_dhcp s" by (simp add: s')
  show ?thesis
    using h \<open>fs \<noteq> []\<close> m d
    by (auto simp: handleExptTunMsg_def Let_def chk reject_def dh simp flip: s'
        split: if_splits res.splits option.splits bool.splits prod.splits dest: fromCidr_Ok_prefix_mask) blast
qed

lemma expttun_reply:
  assumes P: "poco_ok P" and C: "crypto_ok C" and r: "registry_ok s" and x: "map_of (sv_ctxs s) c = Some x"
    and l: "length (ctx_buffer x) = sizeof_ExptTun" and k: "rd8 (ctx_buffer x) 0 = WS_EXPTTUN"
    and h: "handleExptTunMsg C P now (\<lambda>_ _. Sent) c s = (s1, [(c', f)], Done)"
  shows "\<exists>a. c' = c \<and> is_prefix_mask (a_mask a) \<and> Net a = Net (sv_dhcp s) \<and>
    length f = sizeof_ExptTun \<and> rd8 f 0 = WS_EXPTTUN \<and> takeWhile (\<lambda>c. c \<noteq> 0) (drop 9 f) = toCidr P a"
proof -
  let ?buf = "ctx_buffer x"
  obtain w valid e where chk: "ExptTun_check C now (sv_password s) (ExptTun_at ?buf) = (w, valid, e)"
    by (metis prod_cases3)
  have chk': "ExptTun_check C now (sv_password s) (ExptTun_at (ctx_buffer (the_ctx s c))) = (w, valid, e)"
    using chk x by (simp add: the_ctx_def)
  have ew: "e = ExptTun_updateHash C (sv_password s) (ExptTun_at ?buf)"
    using chk by (auto simp: ExptTun_check_def Let_def split: if_splits)
  define b1 where "b1 = splice 0 (ExptTun_bytes e) ?buf"
  define s' where "s' = upd_ctx c (\<lambda>x. x\<lparr>ctx_buffer := b1\<rparr>) s"
  have b1: "b1 = take 41 ?buf @ et_hash e" "length (et_hash e) = 32"
    using ExptTun_bytes_hash [of ?buf C "sv_password s"] l C
    by (simp_all add: b1_def ew splice_def sizeof_ExptTun_def ExptTun_updateHash_def crypto_ok_def)
  have lb: "length b1 = sizeof_ExptTun" "rd8 b1 0 = WS_EXPTTUN"
    using b1 l k by (simp_all add: sizeof_ExptTun_def rd8_def nth_append)
  have ctx: "map_of (sv_ctxs (s'\<lparr>sv_dhcp := a\<rparr>)) c = Some (x\<lparr>ctx_buffer := b1\<rparr>)"
    "map_of (sv_ctxs s') c = Some (x\<lparr>ctx_buffer := b1\<rparr>)" for a
    using x by (simp_all add: s'_def ctxs_upd_ctx)
  have "\<exists>a s0. is_prefix_mask (a_mask a) \<and> Net a = Net (sv_dhcp s) \<and> (s0 = s' \<or> s0 = s'\<lparr>sv_dhcp := a\<rparr>) \<and>
      expt_reply C P now (\<lambda>_ _. Sent) c a s0 = (s1, [(c', f)], Done)"
    using x by (intro expttun_reply_source [OF r h _ chk']) (simp_all add: s'_def b1_def the_ctx_def)
  then obtain a s0 where a: "is_prefix_mask (a_mask a)" "Net a = Net (sv_dhcp s)"
      "s0 = s' \<or> s0 = s'\<lparr>sv_dhcp := a\<rparr>" "expt_reply C P now (\<lambda>_ _. Sent) c a s0 = (s1, [(c', f)], Done)"
    by blast
  have s0: "map_of (sv_ctxs s0) c = Some (x\<lparr>ctx_buffer := b1\<rparr>)" using a(3) ctx by auto
  show ?thesis
    using expt_reply_frame [OF P C s0, of now a] lb a by auto
qed


text \<open>A server with a pool and a connection that has just sent its request.\<close>

definition demo_request :: bytes where
  "demo_request = (case ExptTun_new 0 (str ''0.0.0.0/0'') of
       Ok e \<Rightarrow> ExptTun_bytes (ExptTun_updateHash toy_crypto (str ''pw'') e) | _ \<Rightarrow> [])"

definition demo_asking :: WebSocketServer where
  "demo_asking = demo_server\<lparr>sv_dhcp := pool_24, sv_ctxs := [(0, WsCtx_new\<lparr>ctx_buffer := demo_request\<rparr>)]\<rparr>"


end
