(* ===== verification/PeerMessage.thy ===== *)
theory PeerMessage
  imports Wire
begin

text \<open>
  \<^verbatim>\<open>peer/message.h\<close>, \<^verbatim>\<open>message.cc\<close>: the packed messages between two clients over UDP, and the
  encryption both ends wrap them in (\<^verbatim>\<open>Peer::encrypt\<close>, \<^verbatim>\<open>PeerManager::decrypt\<close>).
\<close>

section \<open>Messages\<close>

definition PM_HEARTBEAT :: u8 where "PM_HEARTBEAT = 0"
definition PM_FORWARD :: u8 where "PM_FORWARD = 1"
definition PM_DELAY :: u8 where "PM_DELAY = 2"
definition PM_ROUTE :: u8 where "PM_ROUTE = 4"

lemmas PeerMsgKind_defs = PM_HEARTBEAT_def PM_FORWARD_def PM_DELAY_def PM_ROUTE_def

record Heartbeat =
  hb_kind :: u8
  hb_tunip :: ip4
  hb_ip :: ip4
  hb_port :: u16
  hb_ack :: u8

definition sizeof_Heartbeat :: nat where "sizeof_Heartbeat = 12"

definition Heartbeat_bytes :: "Heartbeat \<Rightarrow> bytes" where
  "Heartbeat_bytes h = hb_kind h # raw (hb_tunip h) @ raw (hb_ip h) @ le_bytes 2 (hb_port h) @ [hb_ack h]"

definition Heartbeat_at :: "bytes \<Rightarrow> Heartbeat" where
  "Heartbeat_at b = \<lparr>hb_kind = rd8 b 0, hb_tunip = ip4_of_raw (slice 1 4 b), hb_ip = ip4_of_raw (slice 5 4 b),
     hb_port = le_word (slice 9 2 b), hb_ack = rd8 b 11\<rparr>"

definition sizeof_PeerForward :: nat where "sizeof_PeerForward = 21"

definition PeerForward_create :: "bytes \<Rightarrow> bytes" where
  "PeerForward_create packet = PM_FORWARD # packet"

record Delay =
  dl_type :: u8
  dl_src :: ip4
  dl_dst :: ip4
  dl_timestamp :: u64

definition sizeof_Delay :: nat where "sizeof_Delay = 17"

definition Delay_bytes :: "Delay \<Rightarrow> bytes" where
  "Delay_bytes d = dl_type d # raw (dl_src d) @ raw (dl_dst d) @ le_bytes 8 (dl_timestamp d)"

definition Delay_at :: "bytes \<Rightarrow> Delay" where
  "Delay_at b = \<lparr>dl_type = rd8 b 0, dl_src = ip4_of_raw (slice 1 4 b), dl_dst = ip4_of_raw (slice 5 4 b),
     dl_timestamp = le_word (slice 9 8 b)\<rparr>"

record Route =
  rm_type :: u8
  rm_dst :: ip4
  rm_next :: ip4
  rm_rtt :: u32

definition sizeof_Route :: nat where "sizeof_Route = 13"

definition Route_bytes :: "Route \<Rightarrow> bytes" where
  "Route_bytes r = rm_type r # raw (rm_dst r) @ raw (rm_next r) @ le_bytes 4 (rm_rtt r)"

definition Route_at :: "bytes \<Rightarrow> Route" where
  "Route_at b = \<lparr>rm_type = rd8 b 0, rm_dst = ip4_of_raw (slice 1 4 b), rm_next = ip4_of_raw (slice 5 4 b),
     rm_rtt = le_word (slice 9 4 b)\<rparr>"

text \<open>The request to the STUN server; the three words of \<open>id\<close> are random.\<close>

definition StunRequest_bytes :: "u32 \<Rightarrow> u32 \<Rightarrow> u32 \<Rightarrow> bytes" where
  "StunRequest_bytes i0 i1 i2 =
     [0x00, 0x01, 0x00, 0x08, 0x21, 0x12, 0xa4, 0x42] @ le_bytes 4 i0 @ le_bytes 4 i1 @ le_bytes 4 i2 @
     [0x00, 0x03, 0x00, 0x04, 0x00, 0x00, 0x00, 0x00]"

definition sizeof_StunResponse :: nat where "sizeof_StunResponse = 20"

lemmas PeerMsg_layout =
  Heartbeat_bytes_def Heartbeat_at_def sizeof_Heartbeat_def Delay_bytes_def Delay_at_def sizeof_Delay_def
  Route_bytes_def Route_at_def sizeof_Route_def

lemma slice_rd8: "i < length b \<Longrightarrow> [rd8 b i] = slice i 1 b"
  by (simp add: slice_def rd8_def take_Suc_conv_app_nth Cons_nth_drop_Suc [symmetric])

interpretation heartbeat: wire_struct Heartbeat_bytes Heartbeat_at sizeof_Heartbeat "\<lambda>_. True"
proof unfold_locales
  show "Heartbeat_bytes (Heartbeat_at b) = take sizeof_Heartbeat b" if "sizeof_Heartbeat \<le> length b" for b
    using that by (simp add: PeerMsg_layout glue_simps slice_rd8)
qed (auto simp: PeerMsg_layout struct_simps)

interpretation delay: wire_struct Delay_bytes Delay_at sizeof_Delay "\<lambda>_. True"
proof unfold_locales
  show "Delay_bytes (Delay_at b) = take sizeof_Delay b" if "sizeof_Delay \<le> length b" for b
    using that by (simp add: PeerMsg_layout glue_simps)
qed (auto simp: PeerMsg_layout struct_simps)

interpretation route: wire_struct Route_bytes Route_at sizeof_Route "\<lambda>_. True"
proof unfold_locales
  show "Route_bytes (Route_at b) = take sizeof_Route b" if "sizeof_Route \<le> length b" for b
    using that by (simp add: PeerMsg_layout glue_simps)
qed (auto simp: PeerMsg_layout struct_simps)

section \<open>Encryption\<close>

text \<open>
  The key of a client is the digest of the password and its address as the swapped word.
  \<open>iv\<close> is what \<^verbatim>\<open>RAND_bytes\<close> drew, \<open>None\<close> when it failed.
\<close>

definition peer_key :: "crypto \<Rightarrow> bytes \<Rightarrow> ip4 \<Rightarrow> bytes" where
  "peer_key C password addr = SHA256 C (password @ le_bytes 4 (hton (ip4_u32 addr)))"

text \<open>\<^verbatim>\<open>encrypt\<close> writes into an array of 1500 bytes; a longer plaintext overflows it.\<close>

definition ciphertext_size :: nat where "ciphertext_size = 1500"

definition encrypt :: "crypto \<Rightarrow> bytes \<Rightarrow> bytes option \<Rightarrow> bytes \<Rightarrow> bytes option" where
  "encrypt C key iv plaintext =
     (case iv of
        None \<Rightarrow> None
      | Some v \<Rightarrow>
          (case gcm_seal C key v plaintext of
             None \<Rightarrow> None
           | Some (ciphertext, tag) \<Rightarrow> Some (v @ tag @ ciphertext)))"

definition decrypt :: "crypto \<Rightarrow> bytes \<Rightarrow> bytes \<Rightarrow> bytes option" where
  "decrypt C key ciphertext =
     (if length key \<noteq> AES_256_GCM_KEY_LEN then None
      else if length ciphertext < AES_256_GCM_IV_LEN + AES_256_GCM_TAG_LEN then None
      else gcm_open C key (take AES_256_GCM_IV_LEN ciphertext)
             (slice AES_256_GCM_IV_LEN AES_256_GCM_TAG_LEN ciphertext)
             (drop (AES_256_GCM_IV_LEN + AES_256_GCM_TAG_LEN) ciphertext))"

definition iv_ok :: "bytes option \<Rightarrow> bool" where
  "iv_ok iv \<longleftrightarrow> (case iv of None \<Rightarrow> True | Some v \<Rightarrow> length v = AES_256_GCM_IV_LEN)"

lemma decrypt_encrypt:
  assumes "crypto_ok C" and "iv_ok iv" and "encrypt C (peer_key C pw addr) iv p = Some f"
  shows "decrypt C (peer_key C pw addr) f = Some p"
  using assms
  by (auto simp: encrypt_def decrypt_def crypto_ok_def iv_ok_def peer_key_def slice_def AES_256_GCM_IV_LEN_def
      AES_256_GCM_TAG_LEN_def AES_256_GCM_KEY_LEN_def split: option.splits)

lemma length_encrypt:
  assumes "crypto_ok C" and "iv_ok iv" and "encrypt C key iv p = Some f"
  shows "length f = length p + 28"
  using assms
  by (auto simp: encrypt_def crypto_ok_def iv_ok_def AES_256_GCM_IV_LEN_def split: option.splits)



end
