(* ===== verification/Peer.thy ===== *)
theory Peer
  imports Message PeerMessage
begin

text \<open>
  \<^verbatim>\<open>peer/peer.h\<close>, \<^verbatim>\<open>peer.cc\<close>: one remote client as seen by this client, a state machine that
  exchanges addresses through the server, punches a hole with heartbeats and then carries
  packets. An operation returns the peer and what it asks of its manager, in order. The
  clock counts nanoseconds.
\<close>

section \<open>State\<close>

datatype PeerState = INIT | PREPARING | SYNCHRONIZING | CONNECTING | CONNECTED | WAITING | FAILED

text \<open>The names of the states in the log.\<close>

definition stateString :: "PeerState \<Rightarrow> bytes" where
  "stateString state =
     str (case state of
            INIT \<Rightarrow> ''INIT'' | PREPARING \<Rightarrow> ''PREPARING'' | SYNCHRONIZING \<Rightarrow> ''SYNCHRONIZING''
          | CONNECTING \<Rightarrow> ''CONNECTING'' | CONNECTED \<Rightarrow> ''CONNECTED'' | WAITING \<Rightarrow> ''WAITING'' | FAILED \<Rightarrow> ''FAILED'')"

definition RTT_LIMIT :: int where "RTT_LIMIT = 2147483647"
definition RETRY_MIN :: int where "RETRY_MIN = 30"
definition RETRY_MAX :: int where "RETRY_MAX = 3600"

text \<open>\<open>p_draws\<close> counts the initialisation vectors drawn so far; it only indexes \<open>pe_iv\<close>.\<close>

record peer =
  p_addr :: ip4
  p_key :: bytes
  p_state :: PeerState
  p_ack :: u8
  p_retry :: int
  p_lastActive :: int
  p_rtt :: int
  p_tickCount :: u32
  p_wide :: "sockaddr option"
  p_local :: "sockaddr option"
  p_real :: "sockaddr option"
  p_draws :: nat

text \<open>
  What a peer sees of its surroundings: the libraries, the manager's fields, the clocks, the
  initialisation vectors it draws, the uninitialised port of a heartbeat, and the value
  \<^verbatim>\<open>sendTo\<close> returns for a datagram (-1 for an exception).
\<close>

record peer_env =
  pe_crypto :: crypto
  pe_poco :: poco
  pe_tunip :: ip4
  pe_now :: int
  pe_boot :: int
  pe_stun_enabled :: bool
  pe_relay :: bool
  pe_localDisabled :: bool
  pe_iv :: "ip4 \<Rightarrow> nat \<Rightarrow> bytes option"
  pe_junk :: u16
  pe_sendTo :: "bytes \<Rightarrow> sockaddr \<Rightarrow> int"

datatype peer_req =
    ReqSend bytes sockaddr
  | ReqPubInfo PubInfo
  | ReqStun
  | ReqRoute ip4 ip4 int

definition seconds :: "int \<Rightarrow> int" where
  "seconds n = n * 1000000000"

definition Peer_new :: "crypto \<Rightarrow> bytes \<Rightarrow> u32 \<Rightarrow> ip4 \<Rightarrow> peer" where
  "Peer_new C password random addr =
     \<lparr>p_addr = addr, p_key = peer_key C password addr, p_state = INIT, p_ack = 0, p_retry = RETRY_MIN,
      p_lastActive = 0, p_rtt = RTT_LIMIT, p_tickCount = random, p_wide = None, p_local = None,
      p_real = None, p_draws = 0\<rparr>"

definition isLocalNetwork :: "poco \<Rightarrow> sockaddr \<Rightarrow> bool" where
  "isLocalNetwork P a \<longleftrightarrow> isSiteLocal P (fst a) \<or> isLinkLocal P (fst a) \<or> isSiteLocalMC P (fst a)"

section \<open>Changing state\<close>

definition resetState :: "peer \<Rightarrow> peer" where
  "resetState p = p\<lparr>p_wide := None, p_local := None, p_real := None, p_ack := 0, p_rtt := RTT_LIMIT\<rparr>"

definition updateState :: "peer_env \<Rightarrow> PeerState \<Rightarrow> peer \<Rightarrow> peer \<times> bool" where
  "updateState E st p =
     (let p = p\<lparr>p_lastActive := pe_now E\<rparr>
      in if p_state p = st then (p, False)
         else let p1 = (if st = INIT \<or> st = WAITING \<or> st = FAILED then resetState p else p);
                  p2 = (if p_state p1 = WAITING \<and> st = INIT then p1\<lparr>p_retry := min (p_retry p1 * 2) RETRY_MAX\<rparr>
                        else if st = INIT \<or> st = FAILED then p1\<lparr>p_retry := RETRY_MIN\<rparr>
                        else p1)
              in (p2\<lparr>p_state := st\<rparr>, True))"

definition checkActivityWithin :: "peer_env \<Rightarrow> int \<Rightarrow> peer \<Rightarrow> bool" where
  "checkActivityWithin E duration p \<longleftrightarrow> pe_now E - p_lastActive p < duration"

definition isConnected :: "peer \<Rightarrow> int option" where
  "isConnected p = (if p_state p = CONNECTED then Some (p_rtt p) else None)"

definition tryConnecct :: "peer_env \<Rightarrow> bool \<Rightarrow> peer \<Rightarrow> peer" where
  "tryConnecct E retryFailed p =
     (if p_state p = INIT \<or> retryFailed \<and> p_state p = FAILED then fst (updateState E PREPARING p) else p)"

section \<open>Sending\<close>

definition peer_send :: "peer_env \<Rightarrow> bytes \<Rightarrow> peer \<Rightarrow> peer_req list \<times> int" where
  "peer_send E buffer p =
     (case p_real p of
        None \<Rightarrow> ([], -1)
      | Some a \<Rightarrow> ([ReqSend buffer a], if pe_sendTo E buffer a = int (length buffer) then 0 else -1))"

text \<open>One encryption draws one initialisation vector.\<close>

definition peer_encrypt :: "peer_env \<Rightarrow> bytes \<Rightarrow> peer \<Rightarrow> peer \<times> bytes option" where
  "peer_encrypt E plaintext p =
     (p\<lparr>p_draws := Suc (p_draws p)\<rparr>,
      encrypt (pe_crypto E) (p_key p) (pe_iv E (p_addr p) (p_draws p)) plaintext)"

definition sendEncrypted_fits :: "peer_env \<Rightarrow> bytes \<Rightarrow> peer \<Rightarrow> peer \<times> peer_req list \<times> int" where
  "sendEncrypted_fits E data p =
     (let (p', buffer) = peer_encrypt E data p
      in case buffer of None \<Rightarrow> (p', [], -1) | Some b \<Rightarrow> (p', peer_send E b p'))"

definition sendEncrypted :: "peer_env \<Rightarrow> bytes \<Rightarrow> peer \<Rightarrow> (peer \<times> peer_req list \<times> int) res" where
  "sendEncrypted E data p =
     (if length data > ciphertext_size then Undef else Ok (sendEncrypted_fits E data p))"

definition sendHeartbeatMessage :: "peer_env \<Rightarrow> peer \<Rightarrow> peer \<times> peer_req list" where
  "sendHeartbeatMessage E p =
     (let heartbeat = \<lparr>hb_kind = PM_HEARTBEAT, hb_tunip = pe_tunip E, hb_ip = ip4_zero, hb_port = pe_junk E,
                       hb_ack = p_ack p\<rparr>;
          (p', buffer) = peer_encrypt E (Heartbeat_bytes heartbeat) p
      in case buffer of
           None \<Rightarrow> (p', [])
         | Some b \<Rightarrow>
             (p',
              (case p_real p of None \<Rightarrow> [] | Some a \<Rightarrow> if p_state p = CONNECTED then [ReqSend b a] else []) @
              (case p_wide p of None \<Rightarrow> [] | Some a \<Rightarrow> if p_state p = CONNECTING then [ReqSend b a] else []) @
              (case p_local p of None \<Rightarrow> []
               | Some a \<Rightarrow> if p_state p = PREPARING \<or> p_state p = SYNCHRONIZING \<or> p_state p = CONNECTING
                           then [ReqSend b a] else [])))"

definition sendDelayMessage :: "peer_env \<Rightarrow> peer \<Rightarrow> peer \<times> peer_req list" where
  "sendDelayMessage E p =
     (let delay = \<lparr>dl_type = PM_DELAY, dl_src = pe_tunip E, dl_dst = p_addr p,
                   dl_timestamp = hton (word_of_int (pe_boot E))\<rparr>;
          (p', rs, _) = sendEncrypted_fits E (Delay_bytes delay) p
      in (p', rs))"

section \<open>The handlers\<close>

definition pubinfo_of :: "ip4 \<Rightarrow> bool \<Rightarrow> PubInfo" where
  "pubinfo_of dst loc = \<lparr>pi_src = ip4_zero, pi_dst = dst, pi_ip = ip4_zero, pi_port = 0, pi_local = loc\<rparr>"

definition peer_handlePubInfo :: "peer_env \<Rightarrow> ip4 \<Rightarrow> u16 \<Rightarrow> bool \<Rightarrow> peer \<Rightarrow> peer \<times> peer_req list" where
  "peer_handlePubInfo E ip port loc p =
     (case resolve (pe_poco E) (ip_show (pe_poco E) ip) port of
        None \<Rightarrow> (p, [])
      | Some a \<Rightarrow>
          if loc then (p\<lparr>p_local := Some a\<rparr>, [])
          else let p = p\<lparr>p_wide := Some a\<rparr>
               in if p_state p = CONNECTED then (p, [])
                  else if p_state p = SYNCHRONIZING then (fst (updateState E CONNECTING p), [])
                  else if p_state p \<noteq> CONNECTING
                  then (fst (updateState E PREPARING p), [ReqPubInfo (pubinfo_of (p_addr p) True)])
                  else (p, []))"

definition peer_handleStunResponse :: "peer_env \<Rightarrow> peer \<Rightarrow> peer \<times> peer_req list" where
  "peer_handleStunResponse E p =
     (if p_state p \<noteq> PREPARING then (p, [])
      else (fst (updateState E (if p_wide p = None then SYNCHRONIZING else CONNECTING) p),
            [ReqPubInfo (pubinfo_of (p_addr p) False)]))"

definition peer_tick_state :: "peer_env \<Rightarrow> peer \<Rightarrow> peer \<times> peer_req list" where
  "peer_tick_state E p =
     (case p_state p of
        INIT \<Rightarrow> (p, [])
      | PREPARING \<Rightarrow>
          if pe_stun_enabled E \<and> checkActivityWithin E (seconds 10) p then (p, [ReqStun])
          else (fst (updateState E FAILED p), [])
      | SYNCHRONIZING \<Rightarrow>
          if checkActivityWithin E (seconds 10) p then sendHeartbeatMessage E p
          else (fst (updateState E FAILED p), [])
      | CONNECTING \<Rightarrow>
          if checkActivityWithin E (seconds 10) p then sendHeartbeatMessage E p
          else (fst (updateState E WAITING p), [])
      | CONNECTED \<Rightarrow>
          if checkActivityWithin E (seconds 3) p
          then (let (p1, rs1) = sendHeartbeatMessage E p
                in if pe_relay E \<and> p_tickCount p1 mod 60 = 0
                   then (let (p2, rs2) = sendDelayMessage E p1 in (p2, rs1 @ rs2))
                   else (p1, rs1))
          else (fst (updateState E INIT p),
                if pe_relay E then [ReqRoute (p_addr p) (p_addr p) RTT_LIMIT] else [])
      | WAITING \<Rightarrow>
          if \<not> checkActivityWithin E (seconds (p_retry p)) p then (fst (updateState E INIT p), []) else (p, [])
      | FAILED \<Rightarrow> (p, []))"

definition peer_tick :: "peer_env \<Rightarrow> peer \<Rightarrow> peer \<times> peer_req list" where
  "peer_tick E p = (let (p', rs) = peer_tick_state E p in (p'\<lparr>p_tickCount := p_tickCount p' + 1\<rparr>, rs))"

text \<open>The middle part of \<^verbatim>\<open>handleHeartbeatMessage\<close>: the addresses and the flag it stores.\<close>

definition heard :: "peer_env \<Rightarrow> sockaddr \<Rightarrow> peer \<Rightarrow> peer" where
  "heard E address p =
     (let p1 = (if \<not> isLocalNetwork (pe_poco E) address then p\<lparr>p_wide := Some address\<rparr>
                else p\<lparr>p_local := Some address\<rparr>);
          p2 = (if (case p_real p1 of None \<Rightarrow> True
                    | Some r \<Rightarrow> isLocalNetwork (pe_poco E) address \<or> \<not> isLocalNetwork (pe_poco E) r)
                then p1\<lparr>p_real := Some address\<rparr> else p1)
      in if p_ack p2 = 0 then p2\<lparr>p_ack := 1\<rparr> else p2)"

definition peer_handleHeartbeat :: "peer_env \<Rightarrow> sockaddr \<Rightarrow> u8 \<Rightarrow> peer \<Rightarrow> peer \<times> peer_req list" where
  "peer_handleHeartbeat E address heartbeatAck p =
     (if p_state p = INIT \<or> p_state p = WAITING \<or> p_state p = FAILED then (p, [])
      else if isLocalNetwork (pe_poco E) address \<and> pe_localDisabled E then (p, [])
      else let p3 = heard E address p
           in if heartbeatAck \<noteq> 0
              then (let (p4, changed) = updateState E CONNECTED p3
                    in if changed then sendDelayMessage E p4 else (p4, []))
              else (p3, []))"

section \<open>Every peer a client can hold\<close>

text \<open>
  One step of a peer, in any surroundings. The manager stores a measured delay directly into
  the peer (\<open>rtt\<close>).
\<close>

inductive peer_step :: "peer \<Rightarrow> peer \<Rightarrow> bool" where
  tick: "peer_step p (fst (peer_tick E p))"
| connect: "peer_step p (tryConnecct E f p)"
| pubinfo: "peer_step p (fst (peer_handlePubInfo E ip port loc p))"
| stun: "peer_step p (fst (peer_handleStunResponse E p))"
| heartbeat: "peer_step p (fst (peer_handleHeartbeat E a ack p))"
| send: "sendEncrypted E data p = Ok (p', rs, r) \<Longrightarrow> peer_step p p'"
| rtt: "peer_step p (p\<lparr>p_rtt := r\<rparr>)"

inductive peer_reach :: "crypto \<Rightarrow> bytes \<Rightarrow> ip4 \<Rightarrow> peer \<Rightarrow> bool" for C password addr where
  new: "peer_reach C password addr (Peer_new C password random addr)"
| step: "peer_reach C password addr p \<Longrightarrow> peer_step p p' \<Longrightarrow> peer_reach C password addr p'"

definition peer_ok :: "peer \<Rightarrow> bool" where
  "peer_ok p \<longleftrightarrow>
     p_ack p = (if p_real p = None then 0 else 1) \<and>
     (p_state p \<in> {INIT, WAITING, FAILED} \<longrightarrow> p_real p = None \<and> p_wide p = None) \<and>
     (p_state p = CONNECTED \<longrightarrow> p_real p \<noteq> None) \<and>
     (p_state p = CONNECTING \<longrightarrow> p_wide p \<noteq> None) \<and>
     RETRY_MIN \<le> p_retry p \<and> p_retry p \<le> RETRY_MAX"

lemmas retry_defs = RETRY_MIN_def RETRY_MAX_def

lemma updateState_same: "p_state p = st \<Longrightarrow> updateState E st p = (p\<lparr>p_lastActive := pe_now E\<rparr>, False)"
  by (simp add: updateState_def)

lemma p_state_updateState [simp]: "p_state (fst (updateState E st p)) = st"
  by (simp add: updateState_def Let_def)

lemma p_addr_updateState [simp]:
  "p_addr (fst (updateState E st p)) = p_addr p" "p_key (fst (updateState E st p)) = p_key p"
  by (simp_all add: updateState_def Let_def resetState_def)

lemma peer_ok_updateState:
  assumes "peer_ok p" and "st = CONNECTED \<Longrightarrow> p_real p \<noteq> None" and "st = CONNECTING \<Longrightarrow> p_wide p \<noteq> None"
  shows "peer_ok (fst (updateState E st p))"
proof (cases "p_state p = st")
  case True
  then show ?thesis using assms by (simp add: updateState_same peer_ok_def)
next
  case False
  then show ?thesis using assms
    by (cases st) (auto simp: updateState_def Let_def peer_ok_def resetState_def retry_defs)
qed

lemma peer_encrypt_fst: "fst (peer_encrypt E d p) = p\<lparr>p_draws := Suc (p_draws p)\<rparr>"
  by (simp add: peer_encrypt_def)

lemma sendEncrypted_fits_fst: "fst (sendEncrypted_fits E d p) = p\<lparr>p_draws := Suc (p_draws p)\<rparr>"
  by (simp add: sendEncrypted_fits_def peer_encrypt_def split: option.split)

lemma sendHeartbeatMessage_fst: "fst (sendHeartbeatMessage E p) = p\<lparr>p_draws := Suc (p_draws p)\<rparr>"
  by (simp add: sendHeartbeatMessage_def peer_encrypt_def Let_def split: option.split)

lemma sendDelayMessage_fst: "fst (sendDelayMessage E p) = p\<lparr>p_draws := Suc (p_draws p)\<rparr>"
  using sendEncrypted_fits_fst by (simp add: sendDelayMessage_def Let_def split: prod.split) (metis fst_conv)

lemmas sends_fst = sendEncrypted_fits_fst sendHeartbeatMessage_fst sendDelayMessage_fst

lemma peer_ok_draws [simp]: "peer_ok (p\<lparr>p_draws := n\<rparr>) = peer_ok p" "peer_ok (p\<lparr>p_rtt := r\<rparr>) = peer_ok p"
  "peer_ok (p\<lparr>p_tickCount := t\<rparr>) = peer_ok p" "peer_ok (p\<lparr>p_local := l\<rparr>) = peer_ok p"
  by (simp_all add: peer_ok_def)

lemma peer_tick_state_fst:
  "fst (peer_tick_state E p) \<in>
     {p, fst (updateState E FAILED p), fst (updateState E WAITING p), fst (updateState E INIT p),
      p\<lparr>p_draws := Suc (p_draws p)\<rparr>, p\<lparr>p_draws := Suc (Suc (p_draws p))\<rparr>}"
  using sendHeartbeatMessage_fst [of E p] sendDelayMessage_fst [of E "p\<lparr>p_draws := Suc (p_draws p)\<rparr>"]
  by (auto simp: peer_tick_state_def Let_def split: PeerState.split prod.split)

lemma peer_ok_tick: "peer_ok p \<Longrightarrow> peer_ok (fst (peer_tick E p))"
  using peer_tick_state_fst [of E p] peer_ok_updateState [of p FAILED E] peer_ok_updateState [of p WAITING E]
    peer_ok_updateState [of p INIT E]
  by (auto simp: peer_tick_def split: prod.split)

lemma peer_ok_handlePubInfo:
  assumes "peer_ok p"
  shows "peer_ok (fst (peer_handlePubInfo E ip port loc p))"
proof -
  have "peer_ok (fst (updateState E st (p\<lparr>p_wide := Some a\<rparr>)))"
    if "st = CONNECTING \<or> st = PREPARING" "p_state p \<noteq> CONNECTED" for st a
  proof -
    have "p_ack p = (if p_real p = None then 0 else 1)" "RETRY_MIN \<le> p_retry p" "p_retry p \<le> RETRY_MAX"
      using assms by (simp_all add: peer_ok_def)
    then show ?thesis using that by (auto simp: updateState_def Let_def peer_ok_def)
  qed
  moreover have "p_state p = CONNECTED \<or> p_state p = CONNECTING \<Longrightarrow> peer_ok (p\<lparr>p_wide := Some a\<rparr>)" for a
    using assms by (auto simp: peer_ok_def)
  ultimately show ?thesis
    using assms by (auto simp: peer_handlePubInfo_def Let_def split: option.split)
qed

lemma peer_ok_handleStunResponse: "peer_ok p \<Longrightarrow> peer_ok (fst (peer_handleStunResponse E p))"
  by (auto simp: peer_handleStunResponse_def intro: peer_ok_updateState)

lemma peer_ok_tryConnecct: "peer_ok p \<Longrightarrow> peer_ok (tryConnecct E f p)"
  by (auto simp: tryConnecct_def intro: peer_ok_updateState)

lemma heard_fields:
  "p_state (heard E a p) = p_state p" "p_real (heard E a p) \<noteq> None" "p_retry (heard E a p) = p_retry p"
  "p_wide p \<noteq> None \<Longrightarrow> p_wide (heard E a p) \<noteq> None" "p_key (heard E a p) = p_key p"
  "p_addr (heard E a p) = p_addr p" "p_ack p = 0 \<Longrightarrow> p_ack (heard E a p) = 1"
  "p_ack p \<noteq> 0 \<Longrightarrow> p_ack (heard E a p) = p_ack p" "p_real p = None \<Longrightarrow> p_real (heard E a p) = Some a"
  by (auto simp: heard_def Let_def split: option.split)

lemma peer_ok_heard:
  assumes "peer_ok p" and "p_state p \<notin> {INIT, WAITING, FAILED}"
  shows "peer_ok (heard E a p)"
  using assms unfolding peer_ok_def
  by (cases "p_real p") (simp_all add: heard_fields del: not_None_eq)

lemma handleHeartbeat_alt:
  "peer_handleHeartbeat E a ack p =
     (if p_state p \<in> {INIT, WAITING, FAILED} \<or> isLocalNetwork (pe_poco E) a \<and> pe_localDisabled E then (p, [])
      else if ack \<noteq> 0
      then if snd (updateState E CONNECTED (heard E a p))
           then sendDelayMessage E (fst (updateState E CONNECTED (heard E a p)))
           else (fst (updateState E CONNECTED (heard E a p)), [])
      else (heard E a p, []))"
  by (auto simp: peer_handleHeartbeat_def Let_def split: prod.split)

lemma peer_ok_handleHeartbeat:
  assumes "peer_ok p"
  shows "peer_ok (fst (peer_handleHeartbeat E a ack p))"
proof (cases "p_state p \<in> {INIT, WAITING, FAILED}")
  case True
  then show ?thesis using assms by (simp add: handleHeartbeat_alt)
next
  case False
  have "peer_ok (fst (updateState E CONNECTED (heard E a p)))"
    using peer_ok_heard [OF assms False] heard_fields(2) by (intro peer_ok_updateState) auto
  then show ?thesis
    using assms peer_ok_heard [OF assms False] by (auto simp: handleHeartbeat_alt sends_fst)
qed

lemma peer_ok_sendEncrypted: "sendEncrypted E d p = Ok (p', rs, r) \<Longrightarrow> peer_ok p \<Longrightarrow> peer_ok p'"
  using sendEncrypted_fits_fst [of E d p] by (auto simp: sendEncrypted_def split: if_splits)

lemma peer_ok_step:
  assumes "peer_step p p'" and "peer_ok p"
  shows "peer_ok p'"
  using assms(1)
proof (cases rule: peer_step.cases)
  case (send E data rs r)
  then show ?thesis using assms(2) by (rule peer_ok_sendEncrypted)
qed (use assms(2) in \<open>simp_all add: peer_ok_tick peer_ok_handlePubInfo peer_ok_handleStunResponse
  peer_ok_tryConnecct peer_ok_handleHeartbeat\<close>)

lemma peer_ok_reach: "peer_reach C pw addr p \<Longrightarrow> peer_ok p"
proof (induction rule: peer_reach.induct)
  case (new random)
  show ?case by (simp add: peer_ok_def Peer_new_def retry_defs)
qed (rule peer_ok_step)

text \<open>C7: however messages, ticks, address exchanges and packets interleave, a peer keeps its
  promises: its acknowledgement flag is set exactly when it has heard the remote side, a
  connected peer has an address to send to, a connecting peer one to probe, a peer that is
  idle, waiting or failed holds no address it could send to, and the retry interval stays
  between 30 seconds and an hour.\<close>

theorem peer_invariant:
  assumes "peer_reach C password addr p"
  shows "p_ack p = (if p_real p = None then 0 else 1) \<and>
     (p_state p \<in> {INIT, WAITING, FAILED} \<longrightarrow> p_real p = None \<and> p_wide p = None) \<and>
     (p_state p = CONNECTED \<longrightarrow> p_real p \<noteq> None) \<and>
     (p_state p = CONNECTING \<longrightarrow> p_wide p \<noteq> None) \<and>
     30 \<le> p_retry p \<and> p_retry p \<le> 3600"
  using peer_ok_reach [OF assms] by (auto simp: peer_ok_def retry_defs)

definition demo_peer_env :: peer_env where
  "demo_peer_env = \<lparr>pe_crypto = toy_crypto, pe_poco = dotted_poco, pe_tunip = IP4 10 0 0 1, pe_now = 0, pe_boot = 0,
     pe_stun_enabled = True, pe_relay = False, pe_localDisabled = False, pe_iv = (\<lambda>_ _. Some (replicate 12 0)),
     pe_junk = 0, pe_sendTo = (\<lambda>b _. int (length b))\<rparr>"

text \<open>A peer that was asked to connect, learnt its remote address and heard an acknowledgement.\<close>

definition demo_connecting :: peer where
  "demo_connecting = fst (peer_handleStunResponse demo_peer_env
     (fst (peer_handlePubInfo demo_peer_env (IP4 1 2 3 4) 5000 False
       (Peer_new toy_crypto (str ''pw'') 0 (IP4 10 0 0 2)))))"

definition demo_connected :: peer where
  "demo_connected = fst (peer_handleHeartbeat demo_peer_env (IP4 1 2 3 4, 5000) 1 demo_connecting)"

lemma demo_connecting_reach: "peer_reach toy_crypto (str ''pw'') (IP4 10 0 0 2) demo_connecting"
  unfolding demo_connecting_def
  by (intro peer_reach.step [OF _ peer_step.stun] peer_reach.step [OF _ peer_step.pubinfo] peer_reach.new)

lemma demo_connected_reach: "peer_reach toy_crypto (str ''pw'') (IP4 10 0 0 2) demo_connected"
  unfolding demo_connected_def by (rule peer_reach.step [OF demo_connecting_reach peer_step.heartbeat])

theorem peer_invariant_witness:
  "p_state demo_connected = CONNECTED \<and> p_real demo_connected \<noteq> None \<and> p_ack demo_connected = 1"
proof -
  have c: "p_state demo_connected = CONNECTED" by code_simp
  then show ?thesis
    using peer_invariant [OF demo_connected_reach] by simp
qed

lemma tick_not_connected:
  "p_state (fst (peer_tick E p)) = CONNECTED \<Longrightarrow> p_state p = CONNECTED"
  using peer_tick_state_fst [of E p] by (auto simp: peer_tick_def split: prod.splits)

text \<open>A peer becomes connected only by receiving a heartbeat whose sender acknowledges having
  heard this client, and only from a state in which it was looking for the peer; it then
  sends to the address it heard from, or to the local address it had already heard.\<close>

theorem connected_only_by_acknowledgement:
  assumes "peer_step p p'" and "p_state p' = CONNECTED" and "p_state p \<noteq> CONNECTED"
  shows "\<exists>E a ack. p' = fst (peer_handleHeartbeat E a ack p) \<and> ack \<noteq> 0 \<and>
     p_state p \<in> {PREPARING, SYNCHRONIZING, CONNECTING} \<and>
     (p_real p' = Some a \<or> p_real p' = p_real p \<and> p_real p \<noteq> None)"
  using assms(1)
proof (cases rule: peer_step.cases)
  case (heartbeat E a ack)
  have st: "p_state p \<notin> {INIT, WAITING, FAILED}" and ack: "ack \<noteq> 0"
    using assms(2,3) heartbeat
    by (auto simp: handleHeartbeat_alt heard_fields split: if_splits)
  have r: "p_real (fst (peer_handleHeartbeat E a ack p)) = p_real (heard E a p)"
    if "\<not> (isLocalNetwork (pe_poco E) a \<and> pe_localDisabled E)"
    using that st ack
    by (auto simp: handleHeartbeat_alt sends_fst updateState_def Let_def)
  have h: "p_real (heard E a p) = Some a \<or> p_real (heard E a p) = p_real p \<and> p_real p \<noteq> None"
    by (auto simp: heard_def Let_def split: option.split)
  have n: "\<not> (isLocalNetwork (pe_poco E) a \<and> pe_localDisabled E)"
    using assms(2,3) heartbeat by (auto simp: handleHeartbeat_alt)
  have "p_state p \<in> {PREPARING, SYNCHRONIZING, CONNECTING}"
    using st assms(3) by (cases "p_state p") auto
  then show ?thesis
    using heartbeat(1) ack r [OF n] h
    by (intro exI [of _ E] exI [of _ a] exI [of _ ack]) (simp del: not_None_eq)
next
  case (send E data rs r)
  then show ?thesis
    using assms(2,3) sendEncrypted_fits_fst [of E data p] by (auto simp: sendEncrypted_def split: if_splits)
qed (use assms(2,3) in \<open>auto simp: tryConnecct_def peer_handlePubInfo_def peer_handleStunResponse_def Let_def
  dest: tick_not_connected split: if_splits option.splits\<close>)

theorem connected_only_by_acknowledgement_witness:
  "\<exists>E a ack. demo_connected = fst (peer_handleHeartbeat E a ack demo_connecting) \<and> ack \<noteq> 0 \<and>
     p_state demo_connecting \<in> {PREPARING, SYNCHRONIZING, CONNECTING} \<and>
     (p_real demo_connected = Some a \<or> p_real demo_connected = p_real demo_connecting \<and> p_real demo_connecting \<noteq> None)"
proof (rule connected_only_by_acknowledgement)
  show "peer_step demo_connecting demo_connected"
    unfolding demo_connected_def by (rule peer_step.heartbeat)
qed code_simp+

section \<open>Backing off\<close>

text \<open>
  One failed attempt of a waiting peer: the wait is over, the remote address arrives, the
  STUN server answers, ten seconds pass in vain. \<open>failed n p\<close>: a peer that has been made to
  wait for the first time and then failed \<open>n\<close> more attempts.
\<close>

inductive failed :: "nat \<Rightarrow> peer \<Rightarrow> bool" where
  first: "p_state p = WAITING \<Longrightarrow> p_retry p = RETRY_MIN \<Longrightarrow> failed 0 p"
| again: "failed n p \<Longrightarrow> seconds (p_retry p) \<le> pe_now E1 - p_lastActive p \<Longrightarrow>
    resolve (pe_poco E2) (ip_show (pe_poco E2) ip) port \<noteq> None \<Longrightarrow>
    seconds 10 \<le> pe_now E4 - pe_now E3 \<Longrightarrow>
    p' = fst (peer_tick E4 (fst (peer_handleStunResponse E3
           (fst (peer_handlePubInfo E2 ip port False (fst (peer_tick E1 p))))))) \<Longrightarrow>
    failed (Suc n) p'"

lemma attempt_fails:
  assumes "p_state p = WAITING" and "seconds (p_retry p) \<le> pe_now E1 - p_lastActive p"
    and "resolve (pe_poco E2) (ip_show (pe_poco E2) ip) port \<noteq> None"
    and "seconds 10 \<le> pe_now E4 - pe_now E3"
    and "p' = fst (peer_tick E4 (fst (peer_handleStunResponse E3
           (fst (peer_handlePubInfo E2 ip port False (fst (peer_tick E1 p)))))))"
  shows "p_state p' = WAITING \<and> p_retry p' = min (2 * p_retry p) RETRY_MAX"
proof -
  obtain a where a: "resolve (pe_poco E2) (ip_show (pe_poco E2) ip) port = Some a" using assms(3) by auto
  have "p_state (fst (peer_tick E1 p)) = INIT \<and> p_retry (fst (peer_tick E1 p)) = min (2 * p_retry p) RETRY_MAX"
    using assms(1,2)
    by (simp add: peer_tick_def peer_tick_state_def checkActivityWithin_def updateState_def resetState_def
        Let_def mult.commute)
  then show ?thesis
    using a assms(4,5)
    by (simp add: peer_handlePubInfo_def peer_handleStunResponse_def peer_tick_def peer_tick_state_def
        checkActivityWithin_def updateState_def resetState_def Let_def)
qed

text \<open>A peer that cannot be reached is tried again after 30 seconds, then after twice as long
  each time, and never more than an hour apart.\<close>

theorem retry_backs_off:
  assumes "failed n p"
  shows "p_state p = WAITING \<and> p_retry p = min (30 * 2 ^ n) 3600"
  using assms
proof (induction rule: failed.induct)
  case (first p)
  then show ?case by (simp add: retry_defs)
next
  case (again n p E1 E2 ip port E4 E3 p')
  have "p_state p' = WAITING \<and> p_retry p' = min (2 * p_retry p) RETRY_MAX"
    using attempt_fails again by blast
  then show ?case using again.IH by (auto simp: retry_defs min_def)
qed

theorem retry_backs_off_witness:
  "p_state (demo_connecting\<lparr>p_state := WAITING\<rparr>) = WAITING \<and> p_retry (demo_connecting\<lparr>p_state := WAITING\<rparr>) = 30"
proof -
  have "p_retry demo_connecting = RETRY_MIN" by code_simp
  then have "failed 0 (demo_connecting\<lparr>p_state := WAITING\<rparr>)"
    by (intro failed.first) simp_all
  from retry_backs_off [OF this] show ?thesis by simp
qed

end
