(* ===== verification/PeerManager.thy ===== *)
theory PeerManager
  imports Peer
begin

text \<open>
  \<^verbatim>\<open>peer/manager.h\<close>, \<^verbatim>\<open>manager.cc\<close>: the peers of a client and the table of routes through
  them. Three threads enter it: the message thread (\<open>handlePeerQueue\<close>), the tick thread
  (\<open>pm_tick\<close>) and the poll thread that receives datagrams (\<open>pm_poll\<close>); the model takes each of
  their turns as one step. An operation returns the manager and its effects. \<open>Undef\<close> marks a
  read or write outside a buffer, or a thread object overwritten while it runs.
\<close>

section \<open>State\<close>

record Stun =
  st_uri :: bytes
  st_address :: sockaddr
  st_needed :: bool
  st_ip :: ip4
  st_port :: u16

record PeerRouteEntry =
  re_dst :: ip4
  re_next :: ip4
  re_rtt :: int

record PeerManager =
  pm_password :: bytes
  pm_localhost :: ip4
  pm_tunAddr :: address
  tickTick :: u64
  ipPeerMap :: "(ip4, peer) table"
  rtTableMap :: "(ip4, PeerRouteEntry) table"
  pm_stun :: Stun
  localP2PDisabled :: bool
  pm_key :: bytes
  listenPort :: u16
  discoveryInterval :: int
  routeCost :: int
  p2pOnlyDropCount :: u64
  lastP2POnlyDropWarn :: int
  pm_threads :: bool

text \<open>
  The surroundings: libraries, the client, clocks, randomness, and the socket. \<open>me_bind\<close> is
  whether binding the socket succeeds, \<open>me_iface\<close> the first address of a suitable network
  interface, \<open>me_stun_id\<close> the random words of a STUN request.
\<close>

record pm_env =
  me_crypto :: crypto
  me_poco :: poco
  me_p2pOnly :: bool
  me_address :: ip4
  me_now :: int
  me_steady :: int
  me_boot :: int
  me_iv :: "ip4 \<Rightarrow> nat \<Rightarrow> bytes option"
  me_junk :: u16
  me_sendTo :: "bytes \<Rightarrow> sockaddr \<Rightarrow> int"
  me_random :: u32
  me_stun_id :: "u32 \<times> u32 \<times> u32"
  me_port :: u16
  me_bind :: bool
  me_iface :: "ip4 option"

type_synonym pm_out = "PeerManager \<times> effect list"

definition stun_enabled :: "PeerManager \<Rightarrow> bool" where
  "stun_enabled m \<longleftrightarrow> fst (st_address (pm_stun m)) \<noteq> ip4_zero"

definition clientRelayEnabled :: "PeerManager \<Rightarrow> bool" where
  "clientRelayEnabled m \<longleftrightarrow> routeCost m > 0"

definition getTunIp :: "PeerManager \<Rightarrow> ip4" where
  "getTunIp m = a_host (pm_tunAddr m)"

definition peer_env_of :: "pm_env \<Rightarrow> PeerManager \<Rightarrow> peer_env" where
  "peer_env_of E m =
     \<lparr>pe_crypto = me_crypto E, pe_poco = me_poco E, pe_tunip = getTunIp m, pe_now = me_now E, pe_boot = me_boot E,
      pe_stun_enabled = stun_enabled m, pe_relay = clientRelayEnabled m, pe_localDisabled = localP2PDisabled m,
      pe_iv = me_iv E, pe_junk = me_junk E, pe_sendTo = me_sendTo E\<rparr>"

section \<open>Configuration\<close>

definition pm_setPassword :: "bytes \<Rightarrow> PeerManager \<Rightarrow> PeerManager \<times> int" where
  "pm_setPassword password m = (m\<lparr>pm_password := password\<rparr>, 0)"

definition setStun :: "bytes \<Rightarrow> PeerManager \<Rightarrow> PeerManager \<times> int" where
  "setStun u m = (m\<lparr>pm_stun := (pm_stun m)\<lparr>st_uri := u\<rparr>\<rparr>, 0)"

definition setDiscoveryInterval :: "int \<Rightarrow> PeerManager \<Rightarrow> PeerManager \<times> int" where
  "setDiscoveryInterval interval m = (m\<lparr>discoveryInterval := interval\<rparr>, 0)"

definition setRouteCost :: "int \<Rightarrow> PeerManager \<Rightarrow> PeerManager \<times> int" where
  "setRouteCost cost m =
     ((if cost < 0 then m\<lparr>routeCost := 0\<rparr>
       else if cost > 1000 then m\<lparr>routeCost := 1000\<rparr>
       else m\<lparr>routeCost := cost\<rparr>), 0)"

definition setPort :: "int \<Rightarrow> PeerManager \<Rightarrow> PeerManager \<times> int" where
  "setPort port m = ((if port > 0 \<and> port \<le> 65535 then m\<lparr>listenPort := word_of_int port\<rparr> else m), 0)"

definition setLocalhost :: "poco \<Rightarrow> bytes \<Rightarrow> PeerManager \<Rightarrow> (PeerManager \<times> int) res" where
  "setLocalhost P ip m =
     (case ip_parse P ip of None \<Rightarrow> Throw | Some a \<Rightarrow> Ok (m\<lparr>pm_localhost := a\<rparr>, 0))"

definition stun_update :: "poco \<Rightarrow> Stun \<Rightarrow> Stun \<times> int" where
  "stun_update P st =
     (if st_uri st = [] then (st, 0)
      else case uri_parse P (st_uri st) of
             None \<Rightarrow> (st, -1)
           | Some u \<Rightarrow>
               (case resolve P (uri_host u) (if uri_port u = 0 then 3478 else uri_port u) of
                  None \<Rightarrow> (st, -1)
                | Some a \<Rightarrow> (st\<lparr>st_address := a\<rparr>, 0)))"

definition pm_run :: "poco \<Rightarrow> PeerManager \<Rightarrow> PeerManager \<times> int" where
  "pm_run P m =
     (let (st, r) = stun_update P (pm_stun m)
      in (m\<lparr>localP2PDisabled := False, p2pOnlyDropCount := 0, lastP2POnlyDropWarn := 0, pm_stun := st\<rparr>,
          if r \<noteq> 0 then -1 else 0))"

definition pm_wait :: "PeerManager \<Rightarrow> PeerManager \<times> int" where
  "pm_wait m = (m\<lparr>pm_threads := False, rtTableMap := [], ipPeerMap := []\<rparr>, 0)"

section \<open>Requests of a peer\<close>

definition pm_sendPubInfo :: "pm_env \<Rightarrow> PubInfo \<Rightarrow> PeerManager \<Rightarrow> effect list" where
  "pm_sendPubInfo E info m =
     (let info = info\<lparr>pi_src := me_address E\<rparr>;
          info = (if pi_local info then info\<lparr>pi_ip := pm_localhost m, pi_port := me_port E\<rparr>
                  else info\<lparr>pi_ip := st_ip (pm_stun m), pi_port := st_port (pm_stun m)\<rparr>)
      in [ToWs (Msg PUBINFO (PubInfo_bytes info))])"

text \<open>A pass over the peers whose requests are datagrams only.\<close>

fun sends_of :: "peer_req list \<Rightarrow> effect list" where
  "sends_of [] = []"
| "sends_of (ReqSend b a # rs) = UdpSend b a # sends_of rs"
| "sends_of (_ # rs) = sends_of rs"

fun peers_map :: "(peer \<Rightarrow> peer \<times> peer_req list) \<Rightarrow> (ip4, peer) table \<Rightarrow> (ip4, peer) table \<times> peer_req list" where
  "peers_map f [] = ([], [])"
| "peers_map f ((k, p) # t) =
     (let (p', rs) = f p; (t', rs') = peers_map f t in ((k, p') # t', rs @ rs'))"

definition rt_tell :: "peer_env \<Rightarrow> bytes \<Rightarrow> peer \<Rightarrow> peer \<times> peer_req list" where
  "rt_tell PE message p =
     (if isConnected p \<noteq> None
      then (let (p', rs, _) = sendEncrypted_fits PE message p in (p', rs))
      else (p, []))"

definition sendRtMessage :: "pm_env \<Rightarrow> ip4 \<Rightarrow> int \<Rightarrow> PeerManager \<Rightarrow> pm_out" where
  "sendRtMessage E dst rtt m =
     (let message = \<lparr>rm_type = PM_ROUTE, rm_dst = dst, rm_next = getTunIp m,
                     rm_rtt = ntoh (word_of_int (if rtt \<noteq> RTT_LIMIT then rtt + routeCost m else rtt))\<rparr>;
          told = peers_map (rt_tell (peer_env_of E m) (Route_bytes message)) (ipPeerMap m)
      in (m\<lparr>ipPeerMap := fst told\<rparr>, sends_of (snd told)))"

fun rt_announce_deleted :: "pm_env \<Rightarrow> ip4 list \<Rightarrow> PeerManager \<Rightarrow> pm_out" where
  "rt_announce_deleted E [] m = (m, [])"
| "rt_announce_deleted E (d # ds) m =
     (let (m1, fx1) = sendRtMessage E d RTT_LIMIT m; (m2, fx2) = rt_announce_deleted E ds m1 in (m2, fx1 @ fx2))"

definition rt_store :: "pm_env \<Rightarrow> PeerRouteEntry \<Rightarrow> PeerManager \<Rightarrow> pm_out" where
  "rt_store E entry m =
     sendRtMessage E (re_dst entry) (re_rtt entry) (m\<lparr>rtTableMap := tbl_put (re_dst entry) entry (rtTableMap m)\<rparr>)"

definition updateRtTable :: "pm_env \<Rightarrow> PeerRouteEntry \<Rightarrow> PeerManager \<Rightarrow> pm_out" where
  "updateRtTable E entry m =
     (let isDirect = (re_dst entry = re_next entry);
          isDelete = (re_rtt entry < 0 \<or> re_rtt entry > 1000);
          oldEntry = map_of (rtTableMap m) (re_dst entry)
      in if isDirect \<and> isDelete
         then (let gone = filter (\<lambda>(_, r). re_next r = re_next entry) (rtTableMap m)
               in rt_announce_deleted E (map (\<lambda>(_, r). re_dst r) gone)
                    (m\<lparr>rtTableMap := tbl_keep (\<lambda>_ r. re_next r \<noteq> re_next entry) (rtTableMap m)\<rparr>))
         else if isDirect
         then (if (case oldEntry of None \<Rightarrow> True
                   | Some old \<Rightarrow> re_next old = re_next entry \<or> re_rtt old > re_rtt entry)
               then rt_store E entry m else (m, []))
         else if isDelete
         then (case oldEntry of
                 None \<Rightarrow> (m, [])
               | Some old \<Rightarrow>
                   if re_next old = re_next entry
                   then sendRtMessage E (re_dst old) RTT_LIMIT
                          (m\<lparr>rtTableMap := tbl_erase (re_dst entry) (rtTableMap m)\<rparr>)
                   else (m, []))
         else (case map_of (rtTableMap m) (re_next entry) of
                 None \<Rightarrow> (m, [])
               | Some directEntry \<Rightarrow>
                   let rttNow = re_rtt directEntry + re_rtt entry
                   in if (case oldEntry of None \<Rightarrow> True
                          | Some old \<Rightarrow> re_next old = re_next entry \<or> re_rtt old > rttNow)
                      then rt_store E (entry\<lparr>re_rtt := rttNow\<rparr>) m else (m, [])))"

text \<open>What a peer asked for, done in order.\<close>

fun run_reqs :: "pm_env \<Rightarrow> peer_req list \<Rightarrow> PeerManager \<Rightarrow> pm_out" where
  "run_reqs E [] m = (m, [])"
| "run_reqs E (r # rs) m =
     (let (m1, fx1) = (case r of
            ReqSend b a \<Rightarrow> (m, [UdpSend b a])
          | ReqPubInfo info \<Rightarrow> (m, pm_sendPubInfo E info m)
          | ReqStun \<Rightarrow> (m\<lparr>pm_stun := (pm_stun m)\<lparr>st_needed := True\<rparr>\<rparr>, [])
          | ReqRoute d n rtt \<Rightarrow> updateRtTable E \<lparr>re_dst = d, re_next = n, re_rtt = rtt\<rparr> m);
          (m2, fx2) = run_reqs E rs m1
      in (m2, fx1 @ fx2))"

definition put_peer :: "ip4 \<Rightarrow> peer \<Rightarrow> PeerManager \<Rightarrow> PeerManager" where
  "put_peer k p m = m\<lparr>ipPeerMap := tbl_put k p (ipPeerMap m)\<rparr>"

definition with_peer ::
  "pm_env \<Rightarrow> ip4 \<Rightarrow> (peer_env \<Rightarrow> peer \<Rightarrow> peer \<times> peer_req list) \<Rightarrow> peer \<Rightarrow> PeerManager \<Rightarrow> pm_out" where
  "with_peer E k f p m = (let (p', rs) = f (peer_env_of E m) p in run_reqs E rs (put_peer k p' m))"

definition new_peer :: "pm_env \<Rightarrow> ip4 \<Rightarrow> PeerManager \<Rightarrow> peer" where
  "new_peer E k m = Peer_new (me_crypto E) (pm_password m) (me_random E) k"

section \<open>The message thread\<close>

text \<open>Sending through one peer: 0 when the whole datagram went out, -1 otherwise.\<close>

definition sendPacketDirect :: "pm_env \<Rightarrow> ip4 \<Rightarrow> bytes \<Rightarrow> PeerManager \<Rightarrow> (PeerManager \<times> effect list \<times> int) res" where
  "sendPacketDirect E dst data m =
     (case map_of (ipPeerMap m) dst of
        None \<Rightarrow> Ok (m, [], -1)
      | Some p \<Rightarrow>
          if isConnected p \<noteq> None
          then bind_res (sendEncrypted (peer_env_of E m) (PeerForward_create data) p) (\<lambda>(p', rs, r).
                 Ok (put_peer dst p' m, sends_of rs, r))
          else Ok (m, [], -1))"

definition sendPacketRelay :: "pm_env \<Rightarrow> ip4 \<Rightarrow> bytes \<Rightarrow> PeerManager \<Rightarrow> (PeerManager \<times> effect list \<times> int) res" where
  "sendPacketRelay E dst data m =
     (case map_of (rtTableMap m) dst of
        None \<Rightarrow> Ok (m, [], -1)
      | Some r \<Rightarrow> sendPacketDirect E (re_next r) data m)"

definition sendPacket :: "pm_env \<Rightarrow> ip4 \<Rightarrow> bytes \<Rightarrow> PeerManager \<Rightarrow> (PeerManager \<times> effect list \<times> int) res" where
  "sendPacket E dst data m =
     bind_res (sendPacketRelay E dst data m) (\<lambda>(m1, fx1, r1).
       if r1 = 0 then Ok (m1, fx1, 0)
       else bind_res (sendPacketDirect E dst data m1) (\<lambda>(m2, fx2, r2).
              Ok (m2, fx1 @ fx2, if r2 = 0 then 0 else -1)))"

definition resolvePeerTarget :: "ip4 \<Rightarrow> PeerManager \<Rightarrow> ip4" where
  "resolvePeerTarget dst m = (case map_of (rtTableMap m) dst of None \<Rightarrow> dst | Some r \<Rightarrow> re_next r)"

definition warnP2POnlyDrop :: "pm_env \<Rightarrow> PeerManager \<Rightarrow> PeerManager" where
  "warnP2POnlyDrop E m =
     (let m = m\<lparr>p2pOnlyDropCount := p2pOnlyDropCount m + 1\<rparr>
      in if me_steady E - lastP2POnlyDropWarn m < seconds 5 then m
         else m\<lparr>lastP2POnlyDropWarn := me_steady E\<rparr>)"

text \<open>\<open>False\<close>: the text is no address and \<^verbatim>\<open>IP4\<close>'s constructor throws.\<close>

definition handleTryP2P :: "pm_env \<Rightarrow> bytes \<Rightarrow> PeerManager \<Rightarrow> PeerManager \<times> bool" where
  "handleTryP2P E text m =
     (case ip_parse (me_poco E) text of
        None \<Rightarrow> (m, False)
      | Some src \<Rightarrow>
          (case map_of (ipPeerMap m) src of
             Some p \<Rightarrow> (put_peer src (tryConnecct (peer_env_of E m) (me_p2pOnly E) p) m, True)
           | None \<Rightarrow> (put_peer src (tryConnecct (peer_env_of E m) False (new_peer E src m)) m, True)))"

definition pm_handlePacket :: "pm_env \<Rightarrow> msg \<Rightarrow> PeerManager \<Rightarrow> pm_out res" where
  "pm_handlePacket E msg m =
     (if length (msg_data msg) < sizeof_IP4Header then Undef
      else let d = daddr (IP4Header_at (msg_data msg) 0)
           in bind_res (sendPacket E d (msg_data msg) m) (\<lambda>(m1, fx, r).
                if r = 0 then Ok (m1, fx)
                else if me_p2pOnly E
                then (let peer = resolvePeerTarget d m1;
                          (m2, returned) = handleTryP2P E (ip_show (me_poco E) peer) m1
                      in Ok (if returned then warnP2POnlyDrop E m2 else m2, fx))
                else Ok (m1, fx @ [ToWs msg])))"

definition handleTunAddr :: "pm_env \<Rightarrow> bytes \<Rightarrow> PeerManager \<Rightarrow> (PeerManager \<times> int) res" where
  "handleTunAddr E cidr m =
     bind_res (fromCidr (me_poco E) cidr (pm_tunAddr m)) (\<lambda>(a, r).
       if r \<noteq> 0 then Ok (m\<lparr>pm_tunAddr := a\<rparr>, -1)
       else Ok (m\<lparr>pm_tunAddr := a, pm_key := peer_key (me_crypto E) (pm_password m) (a_host a)\<rparr>, 0))"

definition pm_handlePubInfo :: "pm_env \<Rightarrow> msg \<Rightarrow> PeerManager \<Rightarrow> pm_out res" where
  "pm_handlePubInfo E msg m =
     (if length (msg_data msg) < 16 then Undef
      else let info = PubInfo_at (msg_data msg);
               f = (\<lambda>PE. peer_handlePubInfo PE (pi_ip info) (pi_port info) (pi_local info))
           in if pi_src info = me_address E \<or> pi_dst info \<noteq> me_address E then Ok (m, [])
              else case map_of (ipPeerMap m) (pi_src info) of
                     Some p \<Rightarrow> Ok (with_peer E (pi_src info) f p m)
                   | None \<Rightarrow> Ok (with_peer E (pi_src info) f (new_peer E (pi_src info) m) m))"

definition startTickThread :: "pm_env \<Rightarrow> PeerManager \<Rightarrow> (PeerManager \<times> int) res" where
  "startTickThread E m =
     (let m = (if ip4_empty (pm_localhost m)
               then (case me_iface E of None \<Rightarrow> m | Some a \<Rightarrow> m\<lparr>pm_localhost := a\<rparr>) else m)
      in if \<not> me_bind E then Ok (m, -1)
         else if pm_threads m then Undef
         else Ok (m\<lparr>pm_threads := True\<rparr>, 0))"

definition handlePeerQueue :: "pm_env \<Rightarrow> msg \<Rightarrow> PeerManager \<Rightarrow> (PeerManager \<times> effect list \<times> int) res" where
  "handlePeerQueue E msg m =
     (case msg_kind msg of
        TIMEOUT \<Rightarrow> Ok (m, [], 0)
      | PACKET \<Rightarrow> bind_res (pm_handlePacket E msg m) (\<lambda>(m', fx). Ok (m', fx, 0))
      | TUNADDR \<Rightarrow>
          bind_res (startTickThread E m) (\<lambda>(m1, r1).
            if r1 \<noteq> 0 then Ok (m1, [], -1)
            else bind_res (handleTunAddr E (msg_data msg) m1) (\<lambda>(m2, r2).
                   Ok (m2, [], if r2 \<noteq> 0 then -1 else 0)))
      | SYSRT \<Rightarrow> Ok (m\<lparr>localP2PDisabled := True\<rparr>, [], 0)
      | TRYP2P \<Rightarrow> Ok (fst (handleTryP2P E (msg_data msg) m), [], 0)
      | PUBINFO \<Rightarrow> bind_res (pm_handlePubInfo E msg m) (\<lambda>(m', fx). Ok (m', fx, 0))
      | _ \<Rightarrow> Ok (m, [], 0))"

section \<open>The tick thread\<close>

fun tick_peers :: "pm_env \<Rightarrow> ip4 list \<Rightarrow> PeerManager \<Rightarrow> pm_out" where
  "tick_peers E [] m = (m, [])"
| "tick_peers E (k # ks) m =
     (let (m1, fx1) = (case map_of (ipPeerMap m) k of None \<Rightarrow> (m, []) | Some p \<Rightarrow> with_peer E k peer_tick p m);
          (m2, fx2) = tick_peers E ks m1
      in (m2, fx1 @ fx2))"

definition sendStunRequest :: "pm_env \<Rightarrow> PeerManager \<Rightarrow> effect list" where
  "sendStunRequest E m =
     (let (i0, i1, i2) = me_stun_id E in [UdpSend (StunRequest_bytes i0 i1 i2) (st_address (pm_stun m))])"

definition pm_tick :: "pm_env \<Rightarrow> PeerManager \<Rightarrow> pm_out" where
  "pm_tick E m =
     (let (m1, fx1) =
            (if discoveryInterval m \<noteq> 0 \<and> stun_enabled m
             then (m\<lparr>tickTick := tickTick m + 1\<rparr>,
                   if (tickTick m + 1) mod word_of_int (discoveryInterval m) = 0
                   then [ToWs (Msg DISCOVERY [])] else [])
             else (m, []));
          (m2, fx2) = tick_peers E (map fst (ipPeerMap m1)) m1
      in if st_needed (pm_stun m2)
         then (m2\<lparr>pm_stun := (pm_stun m2)\<lparr>st_needed := False\<rparr>\<rparr>, fx1 @ fx2 @ sendStunRequest E m2)
         else (m2, fx1 @ fx2))"

section \<open>The poll thread\<close>

text \<open>
  The attributes of a STUN response are read without asking whether they are still inside
  the datagram. \<open>b\<close> is the received string with its terminator; the result is the address
  word and the port, 0 when none was found.
\<close>

definition rd16 :: "bytes \<Rightarrow> nat \<Rightarrow> u16" where
  "rd16 b i = ntoh (le_word (slice i 2 b))"

function stun_attrs :: "bytes \<Rightarrow> nat \<Rightarrow> nat \<Rightarrow> (u32 \<times> u16) res" where
  "stun_attrs b n pos =
     (if \<not> pos < n then Ok (0, 0)
      else if 20 + pos + 2 > length b then Undef
      else if rd16 b (20 + pos) = 0x0001
      then (if 20 + pos + 12 > length b then Undef
            else Ok (le_word (slice (20 + pos + 8) 4 b), rd16 b (20 + pos + 6)))
      else if rd16 b (20 + pos) = 0x0020
      then (if 20 + pos + 12 > length b then Undef
            else Ok (le_word (slice (20 + pos + 8) 4 b) XOR hton 0x2112a442, rd16 b (20 + pos + 6) XOR 0x2112))
      else if 20 + pos + 4 > length b then Undef
      else stun_attrs b n (pos + 4 + unat (rd16 b (20 + pos + 2))))"
  by pat_completeness auto
termination
  by (relation "measure (\<lambda>(b, n, pos). n - pos)") auto

declare stun_attrs.simps [simp del]

definition stun_parse_response :: "bytes \<Rightarrow> (u32 \<times> u16) option res" where
  "stun_parse_response buffer =
     (if length buffer < sizeof_StunResponse then Ok None
      else if rd16 buffer 0 \<noteq> 0x0101 then Ok None
      else bind_res (stun_attrs (buffer @ [0]) (unat (rd16 buffer 2)) 0) (\<lambda>(ip, port).
             if ip = 0 \<or> port = 0 then Ok None else Ok (Some (ip, port))))"

definition pm_handleStunResponse :: "pm_env \<Rightarrow> bytes \<Rightarrow> PeerManager \<Rightarrow> pm_out res" where
  "pm_handleStunResponse E buffer m =
     bind_res (stun_parse_response buffer) (\<lambda>r. case r of
         None \<Rightarrow> Ok (m, [])
       | Some (ip, port) \<Rightarrow>
           let m1 = m\<lparr>pm_stun := (pm_stun m)\<lparr>st_ip := ip4_of_raw (le_bytes 4 ip), st_port := port\<rparr>\<rparr>;
               (t, rs) = peers_map (peer_handleStunResponse (peer_env_of E m1)) (ipPeerMap m1)
           in Ok (run_reqs E rs (m1\<lparr>ipPeerMap := t\<rparr>)))"

definition pm_handleHeartbeatMessage :: "pm_env \<Rightarrow> bytes \<Rightarrow> sockaddr \<Rightarrow> PeerManager \<Rightarrow> pm_out" where
  "pm_handleHeartbeatMessage E buffer address m =
     (if length buffer < sizeof_Heartbeat then (m, [])
      else let heartbeat = Heartbeat_at buffer
           in case map_of (ipPeerMap m) (hb_tunip heartbeat) of
                None \<Rightarrow> (m, [])
              | Some p \<Rightarrow> with_peer E (hb_tunip heartbeat)
                  (\<lambda>PE. peer_handleHeartbeat PE address (hb_ack heartbeat)) p m)"

definition handleForwardMessage :: "bytes \<Rightarrow> PeerManager \<Rightarrow> effect list" where
  "handleForwardMessage buffer m =
     (if length buffer < sizeof_PeerForward then []
      else let packet = drop 1 buffer
           in if daddr (IP4Header_at packet 0) = getTunIp m then [ToTun (Msg PACKET packet)]
              else [ToPeer (Msg PACKET packet)])"

text \<open>The conversion of a 64-bit difference to \<^verbatim>\<open>int32_t\<close>.\<close>

definition to_int32 :: "int \<Rightarrow> int" where
  "to_int32 i = sint (word_of_int i :: u32)"

definition handleDelayMessage :: "pm_env \<Rightarrow> bytes \<Rightarrow> PeerManager \<Rightarrow> pm_out" where
  "handleDelayMessage E buffer m =
     (if length buffer < sizeof_Delay then (m, [])
      else let header = Delay_at buffer
           in if dl_dst header = getTunIp m
              then (case map_of (ipPeerMap m) (dl_src header) of
                      None \<Rightarrow> (m, [])
                    | Some p \<Rightarrow>
                        if isConnected p \<noteq> None
                        then with_peer E (dl_src header)
                               (\<lambda>PE p. let (p', rs, _) = sendEncrypted_fits PE buffer p in (p', rs)) p m
                        else (m, []))
              else if dl_src header = getTunIp m
              then (case map_of (ipPeerMap m) (dl_dst header) of
                      None \<Rightarrow> (m, [])
                    | Some p \<Rightarrow>
                        let rtt = to_int32 (me_boot E - sint (ntoh (dl_timestamp header)))
                        in updateRtTable E \<lparr>re_dst = dl_dst header, re_next = dl_dst header, re_rtt = rtt\<rparr>
                             (put_peer (dl_dst header) (p\<lparr>p_rtt := rtt\<rparr>) m))
              else (m, []))"

definition handleRouteMessage :: "pm_env \<Rightarrow> bytes \<Rightarrow> PeerManager \<Rightarrow> pm_out" where
  "handleRouteMessage E buffer m =
     (if routeCost m = 0 then (m, [])
      else if length buffer < sizeof_Route then (m, [])
      else let header = Route_at buffer
           in if rm_dst header \<noteq> getTunIp m
              then updateRtTable E
                     \<lparr>re_dst = rm_dst header, re_next = rm_next header, re_rtt = sint (ntoh (rm_rtt header))\<rparr> m
              else (m, []))"

definition pm_handleMessage :: "pm_env \<Rightarrow> bytes \<Rightarrow> sockaddr \<Rightarrow> PeerManager \<Rightarrow> pm_out res" where
  "pm_handleMessage E buffer address m =
     (if buffer = [] then Undef
      else let kind = rd8 buffer 0
           in if kind = PM_HEARTBEAT then Ok (pm_handleHeartbeatMessage E buffer address m)
              else if kind = PM_FORWARD then Ok (m, handleForwardMessage buffer m)
              else if kind = PM_DELAY
              then Ok (if clientRelayEnabled m then handleDelayMessage E buffer m else (m, []))
              else if kind = PM_ROUTE
              then Ok (if clientRelayEnabled m then handleRouteMessage E buffer m else (m, []))
              else Ok (m, []))"

text \<open>
  A turn of the poll thread: nothing arrives, receiving throws (a reset is ignored), or a
  datagram arrives, of which the 1500 bytes are read that the buffer has room for.
\<close>

datatype udp_event = NoDatagram | ConnectionReset | SocketThrows | Datagram bytes sockaddr

definition pm_poll :: "pm_env \<Rightarrow> udp_event \<Rightarrow> PeerManager \<Rightarrow> (PeerManager \<times> effect list \<times> int) res" where
  "pm_poll E ev m =
     (case ev of
        NoDatagram \<Rightarrow> Ok (m, [], 0)
      | ConnectionReset \<Rightarrow> Ok (m, [], 0)
      | SocketThrows \<Rightarrow> Ok (m, [], -1)
      | Datagram datagram address \<Rightarrow>
          let buffer = take 1500 datagram
          in if buffer = [] then Ok (m, [], 0)
          else if st_address (pm_stun m) = address
          then bind_res (pm_handleStunResponse E buffer m) (\<lambda>(m', fx). Ok (m', fx, 0))
          else case decrypt (me_crypto E) (pm_key m) buffer of
                 None \<Rightarrow> Ok (m, [], 0)
               | Some plaintext \<Rightarrow>
                   bind_res (pm_handleMessage E plaintext address m) (\<lambda>(m', fx). Ok (m', fx, 0)))"

section \<open>The invariant of the manager\<close>

lemma peer_step_identity: "peer_step p p' \<Longrightarrow> p_addr p' = p_addr p \<and> p_key p' = p_key p"
proof (induction rule: peer_step.induct)
  case (tick p E)
  show ?case using peer_tick_state_fst [of E p] by (auto simp: peer_tick_def split: prod.split)
next
  case (pubinfo p E ip port loc)
  show ?case by (auto simp: peer_handlePubInfo_def Let_def split: option.split)
next
  case (heartbeat p E a ack)
  show ?case by (auto simp: handleHeartbeat_alt heard_fields sends_fst)
next
  case (send E data p p' rs r)
  then show ?case using sendEncrypted_fits_fst [of E data p] by (auto simp: sendEncrypted_def split: if_splits)
qed (simp_all add: tryConnecct_def peer_handleStunResponse_def)

definition good_peer :: "crypto \<Rightarrow> bytes \<Rightarrow> ip4 \<Rightarrow> peer \<Rightarrow> bool" where
  "good_peer C pw k p \<longleftrightarrow> peer_ok p \<and> p_addr p = k \<and> p_key p = peer_key C pw k"

lemma good_peer_step: "good_peer C pw k p \<Longrightarrow> peer_step p p' \<Longrightarrow> good_peer C pw k p'"
  using peer_ok_step peer_step_identity by (simp add: good_peer_def)

lemma good_peer_new: "good_peer C pw k (Peer_new C pw r k)"
  using peer_ok_reach [OF peer_reach.new] by (simp add: good_peer_def Peer_new_def)

lemma good_peer_draws [simp]: "good_peer C pw k (p\<lparr>p_draws := n\<rparr>) = good_peer C pw k p"
  by (simp add: good_peer_def)

definition pm_ok :: "crypto \<Rightarrow> PeerManager \<Rightarrow> bool" where
  "pm_ok C m \<longleftrightarrow>
     tbl_ok (ipPeerMap m) \<and> tbl_ok (rtTableMap m) \<and>
     (\<forall>k p. map_of (ipPeerMap m) k = Some p \<longrightarrow> good_peer C (pm_password m) k p) \<and>
     (\<forall>k r. map_of (rtTableMap m) k = Some r \<longrightarrow> re_dst r = k \<and> 0 \<le> re_rtt r)"

lemma pm_ok_put_peer: "pm_ok C m \<Longrightarrow> good_peer C (pm_password m) k p \<Longrightarrow> pm_ok C (put_peer k p m)"
  by (auto simp: pm_ok_def put_peer_def table_simps tbl.invar_put split: if_splits)

lemma fst_peers_map: "fst (peers_map f t) = map (\<lambda>(k, p). (k, fst (f p))) t"
  by (induction t) (auto split: prod.split simp: Let_def)

lemma peers_map_find: "map_of (fst (peers_map f t)) k = map_option (\<lambda>p. fst (f p)) (map_of t k)"
  by (induction t) (auto simp: Let_def split: prod.split)

lemma peers_map_ok: "tbl_ok t \<Longrightarrow> tbl_ok (fst (peers_map f t))"
  by (simp add: fst_peers_map tbl_ok_def comp_def case_prod_unfold)

lemma pm_ok_peers_map:
  assumes "pm_ok C m" and "\<And>k p. good_peer C (pm_password m) k p \<Longrightarrow> good_peer C (pm_password m) k (fst (f p))"
  shows "pm_ok C (m\<lparr>ipPeerMap := fst (peers_map f (ipPeerMap m))\<rparr>)"
  using assms by (auto simp: pm_ok_def peers_map_find peers_map_ok)

lemma rt_tell_fst: "fst (rt_tell PE b p) = (if isConnected p \<noteq> None then p\<lparr>p_draws := Suc (p_draws p)\<rparr> else p)"
  using sendEncrypted_fits_fst [of PE b p] by (auto simp: rt_tell_def split: prod.split)

text \<open>Announcing a route changes nothing but the counters of drawn vectors.\<close>

lemma sendRtMessage_fields:
  "fst (sendRtMessage E d r m) = m\<lparr>ipPeerMap := ipPeerMap (fst (sendRtMessage E d r m))\<rparr>"
  "map_of (ipPeerMap (fst (sendRtMessage E d r m))) k =
     map_option (\<lambda>p. if isConnected p \<noteq> None then p\<lparr>p_draws := Suc (p_draws p)\<rparr> else p) (map_of (ipPeerMap m) k)"
  by (simp_all add: sendRtMessage_def Let_def peers_map_find rt_tell_fst)

lemma pm_ok_sendRtMessage: "pm_ok C m \<Longrightarrow> pm_ok C (fst (sendRtMessage E d r m))"
  by (simp add: sendRtMessage_def Let_def pm_ok_peers_map rt_tell_fst)

lemma sendRtMessage_keeps [simp]:
  "rtTableMap (fst (sendRtMessage E d r m)) = rtTableMap m"
  "pm_password (fst (sendRtMessage E d r m)) = pm_password m"
  "pm_key (fst (sendRtMessage E d r m)) = pm_key m"
  "pm_tunAddr (fst (sendRtMessage E d r m)) = pm_tunAddr m"
  by (simp_all add: sendRtMessage_def Let_def)

lemma rt_announce_deleted_keeps:
  "rtTableMap (fst (rt_announce_deleted E ds m)) = rtTableMap m \<and>
   pm_password (fst (rt_announce_deleted E ds m)) = pm_password m \<and>
   pm_key (fst (rt_announce_deleted E ds m)) = pm_key m \<and>
   pm_tunAddr (fst (rt_announce_deleted E ds m)) = pm_tunAddr m"
proof (induction ds arbitrary: m)
  case Nil
  then show ?case by simp
next
  case (Cons d ds)
  then show ?case
    by (simp add: Let_def case_prod_unfold)
qed

lemma pm_ok_rt_announce_deleted: "pm_ok C m \<Longrightarrow> pm_ok C (fst (rt_announce_deleted E ds m))"
proof (induction ds arbitrary: m)
  case Nil
  then show ?case by simp
next
  case (Cons d ds)
  then show ?case
    by (simp add: Let_def case_prod_unfold pm_ok_sendRtMessage)
qed

lemma pm_ok_rtTable:
  assumes "pm_ok C m" and "tbl_ok t" and "\<And>k r. map_of t k = Some r \<Longrightarrow> re_dst r = k \<and> 0 \<le> re_rtt r"
  shows "pm_ok C (m\<lparr>rtTableMap := t\<rparr>)"
  using assms by (simp add: pm_ok_def)

lemma pm_ok_rt_store:
  assumes "pm_ok C m" and "0 \<le> re_rtt entry"
  shows "pm_ok C (fst (rt_store E entry m))"
  unfolding rt_store_def using assms
  by (intro pm_ok_sendRtMessage pm_ok_rtTable)
    (auto simp: pm_ok_def tbl.invar_put table_simps split: if_splits)

lemma pm_ok_updateRtTable:
  assumes m: "pm_ok C m"
  shows "pm_ok C (fst (updateRtTable E entry m))"
proof -
  have t: "tbl_ok (rtTableMap m)" and r: "\<And>k r. map_of (rtTableMap m) k = Some r \<Longrightarrow> re_dst r = k \<and> 0 \<le> re_rtt r"
    using m by (auto simp: pm_ok_def)
  have d: "pm_ok C (m\<lparr>rtTableMap := tbl_keep P (rtTableMap m)\<rparr>)" for P
    by (rule pm_ok_rtTable [OF m]) (auto simp: t tbl.invar_keep tbl.keep_Some_iff r)
  have e: "pm_ok C (m\<lparr>rtTableMap := tbl_erase k (rtTableMap m)\<rparr>)" for k
    by (rule pm_ok_rtTable [OF m]) (auto simp: t tbl.invar_erase table_simps r split: if_splits)
  have s: "re_rtt entry \<ge> 0 \<Longrightarrow> map_of (rtTableMap m) n = Some x \<Longrightarrow>
      pm_ok C (fst (rt_store E (entry\<lparr>re_rtt := re_rtt x + re_rtt entry\<rparr>) m))" for n x
    using pm_ok_rt_store [OF m, of "entry\<lparr>re_rtt := re_rtt x + re_rtt entry\<rparr>" E] r [of n x] by simp
  show ?thesis
    using m s pm_ok_rt_store [OF m, of entry E]
    by (auto simp: updateRtTable_def Let_def intro!: pm_ok_rt_announce_deleted pm_ok_sendRtMessage d e
        split: option.split)
qed

lemma updateRtTable_keeps:
  "pm_password (fst (updateRtTable E entry m)) = pm_password m"
  "pm_key (fst (updateRtTable E entry m)) = pm_key m"
  "pm_tunAddr (fst (updateRtTable E entry m)) = pm_tunAddr m"
  by (simp_all add: updateRtTable_def Let_def rt_store_def rt_announce_deleted_keeps split: option.split)

lemma run_reqs_keeps:
  "pm_password (fst (run_reqs E rs m)) = pm_password m \<and> pm_key (fst (run_reqs E rs m)) = pm_key m \<and>
   pm_tunAddr (fst (run_reqs E rs m)) = pm_tunAddr m"
proof (induction rs arbitrary: m)
  case (Cons r rs)
  then show ?case by (cases r) (simp_all add: Let_def case_prod_unfold updateRtTable_keeps)
qed simp

lemma pm_ok_stun [simp]: "pm_ok C (m\<lparr>pm_stun := st\<rparr>) = pm_ok C m"
  by (simp add: pm_ok_def)

lemma pm_ok_run_reqs: "pm_ok C m \<Longrightarrow> pm_ok C (fst (run_reqs E rs m))"
proof (induction rs arbitrary: m)
  case (Cons r rs)
  then show ?case by (cases r) (simp_all add: Let_def case_prod_unfold pm_ok_updateRtTable)
qed simp

lemma pm_ok_with_peer:
  "pm_ok C m \<Longrightarrow> good_peer C (pm_password m) k (fst (f (peer_env_of E m) p)) \<Longrightarrow>
   pm_ok C (fst (with_peer E k f p m))"
  by (simp add: with_peer_def Let_def case_prod_unfold pm_ok_run_reqs pm_ok_put_peer)

lemma pm_ok_peer: "pm_ok C m \<Longrightarrow> map_of (ipPeerMap m) k = Some p \<Longrightarrow> good_peer C (pm_password m) k p"
  by (simp add: pm_ok_def)

lemma good_new_peer: "me_crypto E = C \<Longrightarrow> good_peer C (pm_password m) k (new_peer E k m)"
  using good_peer_new by (simp add: new_peer_def)

lemma pm_ok_sendPacketDirect:
  assumes "pm_ok C m" and "sendPacketDirect E d b m = Ok (m', fx, r)"
  shows "pm_ok C m'"
proof (cases "map_of (ipPeerMap m) d")
  case (Some p)
  have "good_peer C (pm_password m) d (p\<lparr>p_draws := Suc (p_draws p)\<rparr>)"
    using pm_ok_peer [OF assms(1) Some] by simp
  then show ?thesis
    using assms Some sendEncrypted_fits_fst [of "peer_env_of E m" "PeerForward_create b" p]
    by (auto simp: sendPacketDirect_def sendEncrypted_def pm_ok_put_peer split: if_splits prod.splits)
qed (use assms in \<open>simp add: sendPacketDirect_def\<close>)

lemma pm_ok_sendPacket:
  assumes "pm_ok C m" and "sendPacket E d b m = Ok (m', fx, r)"
  shows "pm_ok C m'"
proof -
  have "pm_ok C m1" if "sendPacketRelay E d b m = Ok (m1, fx1, r1)" for m1 fx1 r1
    using that assms(1) by (auto simp: sendPacketRelay_def intro: pm_ok_sendPacketDirect split: option.splits)
  then show ?thesis
    using assms(2) by (auto simp: sendPacket_def bind_res_Ok_iff intro: pm_ok_sendPacketDirect split: if_splits)
qed

lemma pm_ok_handleTryP2P:
  assumes "pm_ok C m" and "me_crypto E = C"
  shows "pm_ok C (fst (handleTryP2P E t m))"
  using assms good_peer_step [OF pm_ok_peer [OF assms(1)] peer_step.connect]
    good_peer_step [OF good_new_peer [OF assms(2)] peer_step.connect]
  by (auto simp: handleTryP2P_def intro: pm_ok_put_peer split: option.split)

lemma pm_ok_warn [simp]: "pm_ok C (warnP2POnlyDrop E m) = pm_ok C m"
  by (simp add: warnP2POnlyDrop_def Let_def pm_ok_def)

lemma pm_ok_handlePacket:
  assumes "pm_ok C m" and "me_crypto E = C" and "pm_handlePacket E msg m = Ok (m', fx)"
  shows "pm_ok C m'"
  using assms(3) pm_ok_sendPacket [OF assms(1)] pm_ok_handleTryP2P [OF _ assms(2)]
  by (auto simp: pm_handlePacket_def bind_res_Ok_iff Let_def case_prod_unfold split: if_splits)

lemma pm_ok_handlePubInfo:
  assumes "pm_ok C m" and "me_crypto E = C" and "pm_handlePubInfo E msg m = Ok (m', fx)"
  shows "pm_ok C m'"
proof -
  let ?i = "PubInfo_at (msg_data msg)"
  let ?f = "\<lambda>PE. peer_handlePubInfo PE (pi_ip ?i) (pi_port ?i) (pi_local ?i)"
  have w: "pm_ok C (fst (with_peer E (pi_src ?i) ?f p m))" if "good_peer C (pm_password m) (pi_src ?i) p" for p
    by (rule pm_ok_with_peer [OF assms(1)]) (rule good_peer_step [OF that peer_step.pubinfo])
  show ?thesis
    using assms w [OF pm_ok_peer [OF assms(1)]] w [OF good_new_peer [OF assms(2)]]
    by (auto simp: pm_handlePubInfo_def Let_def dest!: arg_cong [where f = fst] split: if_splits option.splits)
qed

lemma pm_ok_fields:
  "pm_ok C (m\<lparr>localP2PDisabled := b\<rparr>) = pm_ok C m" "pm_ok C (m\<lparr>pm_tunAddr := a\<rparr>) = pm_ok C m"
  "pm_ok C (m\<lparr>pm_localhost := h\<rparr>) = pm_ok C m" "pm_ok C (m\<lparr>pm_threads := b\<rparr>) = pm_ok C m"
  "pm_ok C (m\<lparr>pm_key := k\<rparr>) = pm_ok C m" "pm_ok C (m\<lparr>tickTick := t\<rparr>) = pm_ok C m"
  by (simp_all add: pm_ok_def)

lemma pm_ok_handlePeerQueue:
  assumes "pm_ok C m" and "me_crypto E = C" and "handlePeerQueue E msg m = Ok (m', fx, r)"
  shows "pm_ok C m'"
proof (cases "msg_kind msg")
  case PACKET
  then show ?thesis
    using assms pm_ok_handlePacket by (auto simp: handlePeerQueue_def bind_res_Ok_iff)
next
  case TUNADDR
  then show ?thesis
    using assms by (auto simp: handlePeerQueue_def bind_res_Ok_iff startTickThread_def handleTunAddr_def Let_def
        pm_ok_fields split: if_splits option.splits)
next
  case PUBINFO
  then show ?thesis
    using assms pm_ok_handlePubInfo by (auto simp: handlePeerQueue_def bind_res_Ok_iff)
qed (use assms pm_ok_handleTryP2P in \<open>auto simp: handlePeerQueue_def pm_ok_fields\<close>)

lemma pm_ok_tick_peers: "pm_ok C m \<Longrightarrow> pm_ok C (fst (tick_peers E ks m))"
proof (induction ks arbitrary: m)
  case (Cons k ks)
  have "pm_ok C (fst (with_peer E k peer_tick p m))" if "map_of (ipPeerMap m) k = Some p" for p
    by (rule pm_ok_with_peer [OF Cons.prems])
      (rule good_peer_step [OF pm_ok_peer [OF Cons.prems that] peer_step.tick])
  then show ?case
    using Cons by (simp add: Let_def case_prod_unfold split: option.split)
qed simp

lemma pm_ok_tick: "pm_ok C m \<Longrightarrow> pm_ok C (fst (pm_tick E m))"
  by (auto simp: pm_tick_def Let_def case_prod_unfold pm_ok_tick_peers pm_ok_fields)

lemma pm_ok_handleMessage:
  assumes m: "pm_ok C m" and "pm_handleMessage E b a m = Ok (m', fx)"
  shows "pm_ok C m'"
proof -
  have h: "pm_ok C (fst (pm_handleHeartbeatMessage E b a m))"
    using m pm_ok_with_peer [OF m good_peer_step [OF pm_ok_peer [OF m] peer_step.heartbeat]]
    by (auto simp: pm_handleHeartbeatMessage_def Let_def split: option.split)
  have e: "good_peer C (pm_password m) k (fst (case sendEncrypted_fits PE b p of (p', rs, x) \<Rightarrow> (p', rs)))"
    if "map_of (ipPeerMap m) k = Some p" for k p PE
    using pm_ok_peer [OF m that] sendEncrypted_fits_fst [of PE b p] by (simp add: case_prod_unfold)
  have r: "good_peer C (pm_password m) k (p\<lparr>p_rtt := x\<rparr>)" if "map_of (ipPeerMap m) k = Some p" for k p x
    by (rule good_peer_step [OF pm_ok_peer [OF m that] peer_step.rtt])
  have d: "pm_ok C (fst (handleDelayMessage E b m))"
    using m by (auto simp: handleDelayMessage_def Let_def intro!: pm_ok_with_peer [OF m] e pm_ok_updateRtTable
        pm_ok_put_peer [OF m] r split: option.split)
  have "pm_ok C (fst (handleRouteMessage E b m))"
    using m by (simp add: handleRouteMessage_def Let_def pm_ok_updateRtTable)
  then show ?thesis
    using assms h d by (auto simp: pm_handleMessage_def Let_def dest!: arg_cong [where f = fst] split: if_splits)
qed

lemma pm_ok_poll:
  assumes m: "pm_ok C m" and "pm_poll E ev m = Ok (m', fx, r)"
  shows "pm_ok C m'"
proof -
  have "pm_ok C (fst (run_reqs E rs (m\<lparr>pm_stun := st,
      ipPeerMap := fst (peers_map (peer_handleStunResponse PE) (ipPeerMap m))\<rparr>)))" for rs PE st
    using pm_ok_peers_map [of C "m\<lparr>pm_stun := st\<rparr>" "peer_handleStunResponse PE"] m
    by (auto intro!: pm_ok_run_reqs good_peer_step [OF _ peer_step.stun])
  then have "pm_ok C m'" if "pm_handleStunResponse E b m = Ok (m', fx)" for b m' fx
    using that m by (auto simp: pm_handleStunResponse_def bind_res_Ok_iff Let_def case_prod_unfold
        dest!: arg_cong [where f = fst] split: option.splits)
  then show ?thesis
    using assms pm_ok_handleMessage [OF m]
    by (auto simp: pm_poll_def Let_def bind_res_Ok_iff split: udp_event.splits if_splits option.splits)
qed

text \<open>
  Everything a manager does while it runs, whatever the socket, the clocks, the server and
  the other modules do. \<open>C\<close> is the one OpenSSL it is linked against.
\<close>

inductive pm_step :: "crypto \<Rightarrow> PeerManager \<Rightarrow> effect list \<Rightarrow> PeerManager \<Rightarrow> bool" for C where
  queue: "me_crypto E = C \<Longrightarrow> handlePeerQueue E msg m = Ok (m', fx, r) \<Longrightarrow> pm_step C m fx m'"
| tick: "me_crypto E = C \<Longrightarrow> pm_tick E m = (m', fx) \<Longrightarrow> pm_step C m fx m'"
| poll: "me_crypto E = C \<Longrightarrow> pm_poll E ev m = Ok (m', fx, r) \<Longrightarrow> pm_step C m fx m'"

inductive pm_reach :: "crypto \<Rightarrow> PeerManager \<Rightarrow> bool" for C where
  start: "ipPeerMap m = [] \<Longrightarrow> rtTableMap m = [] \<Longrightarrow> pm_reach C m"
| step: "pm_reach C m \<Longrightarrow> pm_step C m fx m' \<Longrightarrow> pm_reach C m'"

lemma pm_ok_reach: "pm_reach C m \<Longrightarrow> pm_ok C m"
proof (induction rule: pm_reach.induct)
  case (start m)
  then show ?case by (simp add: pm_ok_def tbl_ok_def)
next
  case (step m fx m')
  from step.hyps(2) show ?case
  proof (cases rule: pm_step.cases)
    case (queue E msg r)
    then show ?thesis using pm_ok_handlePeerQueue step.IH by blast
  next
    case (tick E)
    then show ?thesis using pm_ok_tick [OF step.IH, of E] by simp
  next
    case (poll E ev r)
    then show ?thesis using pm_ok_poll step.IH by blast
  qed
qed


definition demo_env_pm :: "bool \<Rightarrow> pm_env" where
  "demo_env_pm only = \<lparr>me_crypto = toy_crypto, me_poco = dotted_poco, me_p2pOnly = only, me_address = IP4 10 0 0 1,
     me_now = 0, me_steady = 0, me_boot = 0, me_iv = (\<lambda>_ _. Some (replicate 12 0)), me_junk = 0,
     me_sendTo = (\<lambda>b _. int (length b)), me_random = 0, me_stun_id = (0, 0, 0), me_port = 9000, me_bind = True,
     me_iface = None\<rparr>"

definition demo_pm :: PeerManager where
  "demo_pm = \<lparr>pm_password = str ''pw'', pm_localhost = IP4 192 168 1 2,
     pm_tunAddr = \<lparr>a_host = IP4 10 0 0 1, a_mask = IP4 255 255 255 0\<rparr>, tickTick = 0, ipPeerMap = [], rtTableMap = [],
     pm_stun = \<lparr>st_uri = [], st_address = (IP4 9 9 9 9, 3478), st_needed = False, st_ip = ip4_zero, st_port = 0\<rparr>,
     localP2PDisabled = False, pm_key = peer_key toy_crypto (str ''pw'') (IP4 10 0 0 1), listenPort = 0,
     discoveryInterval = 0, routeCost = 5, p2pOnlyDropCount = 0, lastP2POnlyDropWarn = 0, pm_threads = True\<rparr>"

lemma demo_pm_step: "pm_step toy_crypto demo_pm [] (fst (handleTryP2P (demo_env_pm False) (str ''10.0.0.2'') demo_pm))"
  by (rule pm_step.queue [where E = "demo_env_pm False" and msg = "Msg TRYP2P (str ''10.0.0.2'')" and r = 0])
    (simp_all add: demo_env_pm_def handlePeerQueue_def)

lemma demo_pm_reach: "pm_reach toy_crypto (fst (handleTryP2P (demo_env_pm False) (str ''10.0.0.2'') demo_pm))"
  by (rule pm_reach.step [OF pm_reach.start demo_pm_step]) (simp_all add: demo_pm_def)


section \<open>What leaves through the server\<close>

definition ws_packet :: "effect \<Rightarrow> bool" where
  "ws_packet e \<longleftrightarrow> (case e of ToWs m \<Rightarrow> msg_kind m = PACKET | _ \<Rightarrow> False)"

lemma ws_packet_simps [simp]:
  "ws_packet (ToWs m) \<longleftrightarrow> msg_kind m = PACKET" "\<not> ws_packet (UdpSend b a)" "\<not> ws_packet (ToTun m)"
  "\<not> ws_packet (ToPeer m)"
  by (simp_all add: ws_packet_def)

text \<open>
  Effects of the manager that a property may disregard: all but the packets for the websocket
  module. What holds of those holds of everything the manager does, the packet of the message
  thread apart.
\<close>

locale harmless_effects =
  fixes harmless :: "effect \<Rightarrow> bool"
  assumes udp [simp]: "harmless (UdpSend b a)"
    and to_peer [simp]: "harmless (ToPeer m)"
    and to_tun [simp]: "harmless (ToTun m)"
    and to_ws [simp]: "msg_kind m \<noteq> PACKET \<Longrightarrow> harmless (ToWs m)"
begin

lemma sends_of_harmless: "e \<in> set (sends_of rs) \<Longrightarrow> harmless e"
  by (induction rs rule: sends_of.induct) auto

lemma sendRtMessage_harmless: "e \<in> set (snd (sendRtMessage E d r m)) \<Longrightarrow> harmless e"
  by (auto simp: sendRtMessage_def Let_def dest: sends_of_harmless)

lemma rt_announce_deleted_harmless: "e \<in> set (snd (rt_announce_deleted E ds m)) \<Longrightarrow> harmless e"
  by (induction ds arbitrary: m) (auto simp: Let_def case_prod_unfold dest: sendRtMessage_harmless)

lemma updateRtTable_harmless: "e \<in> set (snd (updateRtTable E entry m)) \<Longrightarrow> harmless e"
  by (auto simp: updateRtTable_def rt_store_def Let_def dest: sendRtMessage_harmless rt_announce_deleted_harmless
      split: if_splits option.splits)

lemma run_reqs_harmless: "e \<in> set (snd (run_reqs E rs m)) \<Longrightarrow> harmless e"
proof (induction rs arbitrary: m)
  case (Cons r rs)
  then show ?case
    by (cases r) (auto simp: Let_def case_prod_unfold pm_sendPubInfo_def dest: updateRtTable_harmless)
qed simp

lemma with_peer_harmless: "e \<in> set (snd (with_peer E k f p m)) \<Longrightarrow> harmless e"
  by (auto simp: with_peer_def Let_def case_prod_unfold dest: run_reqs_harmless)

lemma tick_peers_harmless: "e \<in> set (snd (tick_peers E ks m)) \<Longrightarrow> harmless e"
  by (induction ks arbitrary: m) (auto simp: Let_def case_prod_unfold dest: with_peer_harmless split: option.splits)

lemma sendPacket_harmless: "sendPacket E d b m = Ok (m', fx, r) \<Longrightarrow> e \<in> set fx \<Longrightarrow> harmless e"
proof -
  have d: "sendPacketDirect E d b m = Ok (m', fx, r) \<Longrightarrow> e \<in> set fx \<Longrightarrow> harmless e" for d m m' fx r
    by (auto simp: sendPacketDirect_def bind_res_Ok_iff dest: sends_of_harmless split: option.splits if_splits)
  have "sendPacketRelay E d b m = Ok (m', fx, r) \<Longrightarrow> e \<in> set fx \<Longrightarrow> harmless e" for d m m' fx r
    by (auto simp: sendPacketRelay_def dest: d split: option.splits)
  then show "sendPacket E d b m = Ok (m', fx, r) \<Longrightarrow> e \<in> set fx \<Longrightarrow> harmless e"
    using d by (auto simp: sendPacket_def bind_res_Ok_iff split: if_splits)
qed

lemma handleMessage_harmless: "pm_handleMessage E b a m = Ok (m', fx) \<Longrightarrow> e \<in> set fx \<Longrightarrow> harmless e"
  using with_peer_harmless updateRtTable_harmless
  by (auto simp: pm_handleMessage_def Let_def pm_handleHeartbeatMessage_def handleForwardMessage_def
      handleDelayMessage_def handleRouteMessage_def dest!: arg_cong [where f = snd]
      split: if_splits option.splits)

lemma handleStunResponse_harmless: "pm_handleStunResponse E b m = Ok (m', fx) \<Longrightarrow> e \<in> set fx \<Longrightarrow> harmless e"
  using run_reqs_harmless
  by (auto simp: pm_handleStunResponse_def bind_res_Ok_iff Let_def case_prod_unfold
      dest!: arg_cong [where f = snd] split: option.splits)

lemma handlePubInfo_harmless: "pm_handlePubInfo E msg m = Ok (m', fx) \<Longrightarrow> e \<in> set fx \<Longrightarrow> harmless e"
  using with_peer_harmless
  by (auto simp: pm_handlePubInfo_def Let_def dest!: arg_cong [where f = snd] split: if_splits option.splits)

lemma handlePacket_harmless:
  "pm_handlePacket E msg m = Ok (m', fx) \<Longrightarrow> e \<in> set fx \<Longrightarrow> harmless e \<or> e = ToWs msg"
  using sendPacket_harmless
  by (fastforce simp: pm_handlePacket_def bind_res_Ok_iff Let_def case_prod_unfold split: if_splits)

lemma handlePeerQueue_harmless:
  assumes "handlePeerQueue E msg m = Ok (m', fx, r)" and "e \<in> set fx"
  shows "harmless e \<or> e = ToWs msg"
  using assms
  by (cases "msg_kind msg")
    (auto simp: handlePeerQueue_def bind_res_Ok_iff dest: handlePacket_harmless handlePubInfo_harmless split: if_splits)

lemma poll_harmless: "pm_poll E ev m = Ok (m', fx, r) \<Longrightarrow> e \<in> set fx \<Longrightarrow> harmless e"
  using handleMessage_harmless handleStunResponse_harmless
  by (auto simp: pm_poll_def Let_def bind_res_Ok_iff split: udp_event.splits if_splits option.splits)

lemma tick_harmless: "e \<in> set (snd (pm_tick E m)) \<Longrightarrow> harmless e"
  using tick_peers_harmless
  by (auto simp: pm_tick_def Let_def case_prod_unfold sendStunRequest_def split: if_splits)

end

interpretation not_packet: harmless_effects "\<lambda>e. \<not> ws_packet e"
  by unfold_locales simp_all

lemmas sendPacket_ws = not_packet.sendPacket_harmless

lemma sendPacket_filter: "sendPacket E d b m = Ok (m', fx, r) \<Longrightarrow> filter ws_packet fx = []"
  using sendPacket_ws by (auto simp: filter_empty_conv)

lemma sendPacket_code: "sendPacket E d b m = Ok (m', fx, r) \<Longrightarrow> r \<noteq> 0 \<Longrightarrow> r = -1"
  by (auto simp: sendPacket_def bind_res_Ok_iff split: if_splits)

text \<open>The only way out through the server: the message's own packet, all direct ways having failed.\<close>

definition left_to_server :: "pm_env \<Rightarrow> msg \<Rightarrow> PeerManager \<Rightarrow> effect list \<Rightarrow> bool" where
  "left_to_server E msg m fx \<longleftrightarrow>
     filter ws_packet fx = [ToWs msg] \<and> msg_kind msg = PACKET \<and> \<not> me_p2pOnly E \<and>
     (\<exists>m1 fx1. sendPacket E (daddr (IP4Header_at (msg_data msg) 0)) (msg_data msg) m = Ok (m1, fx1, -1))"

lemma handlePacket_ws:
  assumes "pm_handlePacket E msg m = Ok (m', fx)" and "msg_kind msg = PACKET"
  shows "filter ws_packet fx = [] \<or> left_to_server E msg m fx"
  using assms sendPacket_filter sendPacket_code
  by (fastforce simp: left_to_server_def pm_handlePacket_def bind_res_Ok_iff Let_def case_prod_unfold split: if_splits)

lemma handlePubInfo_ws: "pm_handlePubInfo E msg m = Ok (m', fx) \<Longrightarrow> filter ws_packet fx = []"
  using not_packet.handlePubInfo_harmless by (auto simp: filter_empty_conv)

lemma handlePeerQueue_ws:
  assumes "handlePeerQueue E msg m = Ok (m', fx, r)"
  shows "filter ws_packet fx = [] \<or> left_to_server E msg m fx"
  using assms handlePacket_ws handlePubInfo_ws
  by (cases "msg_kind msg") (auto simp: handlePeerQueue_def bind_res_Ok_iff split: if_splits)

lemma poll_ws: "pm_poll E ev m = Ok (m', fx, r) \<Longrightarrow> \<not> list_ex ws_packet fx"
  using not_packet.poll_harmless by (auto simp: list_ex_iff)

lemma tick_ws: "\<not> list_ex ws_packet (snd (pm_tick E m))"
  using not_packet.tick_harmless by (auto simp: list_ex_iff)

text \<open>With p2p-only set, nothing the peer manager does, in any of its threads, hands a packet
  to the websocket module; without it only the message thread does, and only the very packet
  it was given, after every direct way has failed.\<close>

theorem packets_to_server:
  assumes "handlePeerQueue E msg m = Ok (m', fx, r)" and "pm_poll E ev m = Ok (m2, fx2, r2)"
  shows "(if me_p2pOnly E then \<not> list_ex ws_packet fx
          else filter ws_packet fx = [] \<or> left_to_server E msg m fx) \<and>
    \<not> list_ex ws_packet fx2 \<and> \<not> list_ex ws_packet (snd (pm_tick E m))"
  using handlePeerQueue_ws [OF assms(1)] poll_ws [OF assms(2)] tick_ws
  by (auto simp: left_to_server_def list_ex_iff filter_empty_conv)

theorem packets_to_server_witness:
  "\<not> list_ex ws_packet (case handlePeerQueue (demo_env_pm True) (Msg PACKET (replicate 20 0)) demo_pm of
       Ok (m, fx, r) \<Rightarrow> fx | _ \<Rightarrow> [ToWs (Msg PACKET [])])"
proof -
  have "case handlePeerQueue (demo_env_pm True) (Msg PACKET (replicate 20 0)) demo_pm of Ok _ \<Rightarrow> True | _ \<Rightarrow> False"
    by code_simp
  then obtain m' fx r where h: "handlePeerQueue (demo_env_pm True) (Msg PACKET (replicate 20 0)) demo_pm = Ok (m', fx, r)"
    by (auto split: res.splits)
  have "pm_poll (demo_env_pm True) NoDatagram demo_pm = Ok (demo_pm, [], 0)" by (simp add: pm_poll_def)
  moreover have "me_p2pOnly (demo_env_pm True)" by (simp add: demo_env_pm_def)
  ultimately show ?thesis using packets_to_server [OF h] by (simp add: h)
qed

section \<open>A packet between two clients\<close>

lemma sendPacket_direct:
  assumes "map_of (rtTableMap m) d = None" and "map_of (ipPeerMap m) d = Some p" and "p_state p = CONNECTED"
    and "p_real p = Some addr" and "length packet < ciphertext_size"
    and "encrypt (me_crypto E) (p_key p) (me_iv E (p_addr p) (p_draws p)) (PeerForward_create packet) = Some f"
    and "me_sendTo E f addr = int (length f)"
  shows "sendPacket E d packet m = Ok (put_peer d (p\<lparr>p_draws := Suc (p_draws p)\<rparr>) m, [UdpSend f addr], 0)"
  using assms
  by (simp add: sendPacket_def sendPacketRelay_def sendPacketDirect_def isConnected_def sendEncrypted_def
      sendEncrypted_fits_def peer_encrypt_def peer_env_of_def peer_send_def PeerForward_create_def)

text \<open>A packet of at most 1471 bytes for a connected peer leaves the message thread as one
  datagram to the peer's address and as nothing else; and the client that receives this datagram, from whatever
  address, and has the same password and the packet's destination as its address, hands the
  packet to its tunnel byte for byte.\<close>

theorem packet_reaches_peer:
  assumes C: "crypto_ok C" "me_crypto E1 = C" "me_crypto E2 = C" and m: "pm_reach C m1"
    and p: "map_of (ipPeerMap m1) d = Some p" "p_state p = CONNECTED" "map_of (rtTableMap m1) d = None"
    and k: "sizeof_IP4Header \<le> length packet" "length packet \<le> 1471" "daddr (IP4Header_at packet 0) = d"
    and f: "iv_ok (me_iv E1 d (p_draws p))"
      "encrypt C (p_key p) (me_iv E1 d (p_draws p)) (PeerForward_create packet) = Some f"
    and s: "\<And>a. me_sendTo E1 f a = int (length f)"
    and m2: "getTunIp m2 = d" "pm_key m2 = peer_key C (pm_password m1) d" "st_address (pm_stun m2) \<noteq> from"
  shows "\<exists>addr m1'. p_real p = Some addr \<and>
    handlePeerQueue E1 (Msg PACKET packet) m1 = Ok (m1', [UdpSend f addr], 0) \<and>
    pm_poll E2 (Datagram f from) m2 = Ok (m2, [ToTun (Msg PACKET packet)], 0)"
proof -
  have g: "good_peer C (pm_password m1) d p" using pm_ok_peer [OF pm_ok_reach [OF m] p(1)] .
  then obtain addr where a: "p_real p = Some addr"
    using p(2) by (auto simp: good_peer_def peer_ok_def)
  have pk: "p_addr p = d" "p_key p = peer_key C (pm_password m1) d" using g by (simp_all add: good_peer_def)
  have "sendPacket E1 d packet m1 = Ok (put_peer d (p\<lparr>p_draws := Suc (p_draws p)\<rparr>) m1, [UdpSend f addr], 0)"
    using sendPacket_direct [OF p(3) p(1) p(2) a] k(2) f(2) s C(2) pk by (simp add: ciphertext_size_def)
  then have q: "handlePeerQueue E1 (Msg PACKET packet) m1 =
      Ok (put_peer d (p\<lparr>p_draws := Suc (p_draws p)\<rparr>) m1, [UdpSend f addr], 0)"
    using k by (simp add: handlePeerQueue_def pm_handlePacket_def)
  have dec: "decrypt C (pm_key m2) f = Some (PM_FORWARD # packet)"
    using decrypt_encrypt [OF C(1) f(1)] f(2) m2(2) pk by (simp add: PeerForward_create_def)
  have "length f = length packet + 29" using length_encrypt [OF C(1) f] by (simp add: PeerForward_create_def)
  then have "f \<noteq> []" "take 1500 f = f" using k(2) by auto
  then have "pm_poll E2 (Datagram f from) m2 = Ok (m2, [ToTun (Msg PACKET packet)], 0)"
    using dec m2 k C(3)
    by (simp add: pm_poll_def pm_handleMessage_def handleForwardMessage_def PeerMsgKind_defs
        sizeof_PeerForward_def sizeof_IP4Header_def)
  then show ?thesis using a q by blast
qed

text \<open>The other end, 10.0.0.2, and a manager that has heard from it.\<close>

definition demo_other :: PeerManager where
  "demo_other = demo_pm\<lparr>pm_tunAddr := \<lparr>a_host = IP4 10 0 0 2, a_mask = IP4 255 255 255 0\<rparr>,
     pm_key := peer_key toy_crypto (str ''pw'') (IP4 10 0 0 2)\<rparr>"

definition demo_heartbeat :: bytes where
  "demo_heartbeat =
     (case encrypt toy_crypto (peer_key toy_crypto (str ''pw'') (IP4 10 0 0 1)) (Some (replicate 12 0))
        (Heartbeat_bytes \<lparr>hb_kind = PM_HEARTBEAT, hb_tunip = IP4 10 0 0 2, hb_ip = ip4_zero, hb_port = 0, hb_ack = 1\<rparr>)
      of Some f \<Rightarrow> f | None \<Rightarrow> [])"

definition demo_pm_connected :: PeerManager where
  "demo_pm_connected =
     (case pm_poll (demo_env_pm False) (Datagram demo_heartbeat (IP4 1 2 3 4, 5000))
        (fst (handleTryP2P (demo_env_pm False) (str ''10.0.0.2'') demo_pm))
      of Ok (m, _, _) \<Rightarrow> m | _ \<Rightarrow> demo_pm)"

lemma demo_pm_connected_reach: "pm_reach toy_crypto demo_pm_connected"
proof -
  let ?r = "pm_poll (demo_env_pm False) (Datagram demo_heartbeat (IP4 1 2 3 4, 5000))
        (fst (handleTryP2P (demo_env_pm False) (str ''10.0.0.2'') demo_pm))"
  have "case ?r of Ok _ \<Rightarrow> True | _ \<Rightarrow> False" by code_simp
  then obtain m fx r where r: "?r = Ok (m, fx, r)" by (auto split: res.splits)
  have "pm_step toy_crypto (fst (handleTryP2P (demo_env_pm False) (str ''10.0.0.2'') demo_pm)) fx m"
    by (rule pm_step.poll [OF _ r]) (simp add: demo_env_pm_def)
  then show ?thesis
    using pm_reach.step [OF demo_pm_reach] r by (simp add: demo_pm_connected_def)
qed

definition demo_packet :: bytes where
  "demo_packet = replicate 16 0 @ [10, 0, 0, 2]"

lemma demo_connected_peer:
  "(case map_of (ipPeerMap demo_pm_connected) (IP4 10 0 0 2) of
      None \<Rightarrow> False
    | Some p \<Rightarrow> p_state p = CONNECTED \<and>
        encrypt toy_crypto (p_key p) (Some (replicate 12 0)) (PeerForward_create demo_packet) \<noteq> None) \<and>
   map_of (rtTableMap demo_pm_connected) (IP4 10 0 0 2) = None"
  by code_simp

lemma demo_packet_ok:
  "sizeof_IP4Header \<le> length demo_packet" "length demo_packet \<le> 1471"
  "daddr (IP4Header_at demo_packet 0) = IP4 10 0 0 2"
  by code_simp+

lemma demo_other_ok:
  "getTunIp demo_other = IP4 10 0 0 2"
  "pm_key demo_other = peer_key toy_crypto (pm_password demo_pm_connected) (IP4 10 0 0 2)"
  "st_address (pm_stun demo_other) \<noteq> (IP4 7 7 7 7, 7000)"
  by code_simp+

theorem packet_reaches_peer_witness:
  "\<exists>f addr m. handlePeerQueue (demo_env_pm False) (Msg PACKET demo_packet) demo_pm_connected = Ok (m, [UdpSend f addr], 0) \<and>
     pm_poll (demo_env_pm False) (Datagram f (IP4 7 7 7 7, 7000)) demo_other =
       Ok (demo_other, [ToTun (Msg PACKET demo_packet)], 0)"
proof -
  obtain p f where p: "map_of (ipPeerMap demo_pm_connected) (IP4 10 0 0 2) = Some p" "p_state p = CONNECTED"
      "map_of (rtTableMap demo_pm_connected) (IP4 10 0 0 2) = None"
    and f: "encrypt toy_crypto (p_key p) (me_iv (demo_env_pm False) (IP4 10 0 0 2) (p_draws p))
       (PeerForward_create demo_packet) = Some f"
    using demo_connected_peer by (auto simp: demo_env_pm_def split: option.splits)
  have e: "me_crypto (demo_env_pm False) = toy_crypto" "me_sendTo (demo_env_pm False) f a = int (length f)"
    "iv_ok (me_iv (demo_env_pm False) (IP4 10 0 0 2) (p_draws p))" for a
    by (simp_all add: demo_env_pm_def iv_ok_def AES_256_GCM_IV_LEN_def)
  show ?thesis
    using packet_reaches_peer [OF toy_crypto_ok e(1) e(1) demo_pm_connected_reach p demo_packet_ok e(3) f e(2) demo_other_ok]
    by blast
qed

section \<open>The route table\<close>

text \<open>The table as a map, and what an update does to it.\<close>

definition rt_better :: "(ip4 \<rightharpoonup> PeerRouteEntry) \<Rightarrow> PeerRouteEntry \<Rightarrow> bool" where
  "rt_better t e \<longleftrightarrow>
     (case t (re_dst e) of None \<Rightarrow> True | Some old \<Rightarrow> re_next old = re_next e \<or> re_rtt old > re_rtt e)"

definition rt_learn :: "PeerRouteEntry \<Rightarrow> (ip4 \<rightharpoonup> PeerRouteEntry) \<Rightarrow> (ip4 \<rightharpoonup> PeerRouteEntry)" where
  "rt_learn e t = (if rt_better t e then t(re_dst e \<mapsto> e) else t)"

definition rt_spec :: "PeerRouteEntry \<Rightarrow> (ip4 \<rightharpoonup> PeerRouteEntry) \<Rightarrow> (ip4 \<rightharpoonup> PeerRouteEntry)" where
  "rt_spec e t =
     (if 0 \<le> re_rtt e \<and> re_rtt e \<le> 1000
      then (if re_dst e = re_next e then rt_learn e t
            else case t (re_next e) of None \<Rightarrow> t
                 | Some hop \<Rightarrow> rt_learn (e\<lparr>re_rtt := re_rtt hop + re_rtt e\<rparr>) t)
      else if re_dst e = re_next e
      then (\<lambda>d. case t d of Some r \<Rightarrow> if re_next r = re_next e then None else Some r | None \<Rightarrow> None)
      else if map_option re_next (t (re_dst e)) = Some (re_next e) then t(re_dst e := None)
      else t)"



section \<open>A peer that falls silent\<close>

text \<open>
  What a tick of one peer does to the rest of the manager: routes may disappear, other peers
  may have drawn initialisation vectors.
\<close>

definition quiet :: "PeerManager \<Rightarrow> PeerManager \<Rightarrow> bool" where
  "quiet m m' \<longleftrightarrow>
     (\<forall>d r. map_of (rtTableMap m') d = Some r \<longrightarrow> map_of (rtTableMap m) d = Some r) \<and>
     (\<forall>k. \<exists>n. map_of (ipPeerMap m') k = map_option (\<lambda>p. p\<lparr>p_draws := n\<rparr>) (map_of (ipPeerMap m) k)) \<and>
     (tbl_ok (rtTableMap m) \<longrightarrow> tbl_ok (rtTableMap m')) \<and> routeCost m' = routeCost m"

lemma draws_id: "\<exists>n. t = map_option (\<lambda>p. p\<lparr>p_draws := n\<rparr>) t"
proof (cases t)
  case (Some p)
  then show ?thesis by (intro exI [of _ "p_draws p"]) simp
qed simp

lemma quiet_routes:
  "(\<And>d r. map_of (rtTableMap m') d = Some r \<Longrightarrow> map_of (rtTableMap m) d = Some r) \<Longrightarrow>
   ipPeerMap m' = ipPeerMap m \<Longrightarrow> (tbl_ok (rtTableMap m) \<Longrightarrow> tbl_ok (rtTableMap m')) \<Longrightarrow>
   routeCost m' = routeCost m \<Longrightarrow> quiet m m'"
  unfolding quiet_def by (simp add: draws_id)

lemma quiet_refl [simp]: "quiet m m"
  by (rule quiet_routes) simp_all

lemma quiet_trans:
  assumes "quiet m1 m2" and "quiet m2 m3"
  shows "quiet m1 m3"
  unfolding quiet_def
proof (intro conjI allI impI)
  fix k
  obtain a b where "map_of (ipPeerMap m2) k = map_option (\<lambda>p. p\<lparr>p_draws := a\<rparr>) (map_of (ipPeerMap m1) k)"
    "map_of (ipPeerMap m3) k = map_option (\<lambda>p. p\<lparr>p_draws := b\<rparr>) (map_of (ipPeerMap m2) k)"
    using assms unfolding quiet_def by blast
  then show "\<exists>n. map_of (ipPeerMap m3) k = map_option (\<lambda>p. p\<lparr>p_draws := n\<rparr>) (map_of (ipPeerMap m1) k)"
    by (auto simp: option.map_comp comp_def)
qed (use assms in \<open>auto simp: quiet_def\<close>)

lemma quiet_sendRtMessage: "quiet m (fst (sendRtMessage E d r m))"
  unfolding quiet_def
proof (intro conjI allI impI)
  fix k
  show "\<exists>n. map_of (ipPeerMap (fst (sendRtMessage E d r m))) k =
      map_option (\<lambda>p. p\<lparr>p_draws := n\<rparr>) (map_of (ipPeerMap m) k)"
  proof (cases "map_of (ipPeerMap m) k")
    case (Some p)
    then show ?thesis
      by (cases "isConnected p \<noteq> None")
        (auto simp: sendRtMessage_fields(2) intro: exI [of _ "Suc (p_draws p)"] exI [of _ "p_draws p"])
  qed (simp add: sendRtMessage_fields(2))
qed (simp_all add: sendRtMessage_def Let_def)

lemma quiet_rt_announce_deleted: "quiet m (fst (rt_announce_deleted E ds m))"
proof (induction ds arbitrary: m)
  case (Cons d ds)
  then show ?case
    using quiet_trans [OF quiet_sendRtMessage Cons.IH] by (simp add: Let_def case_prod_unfold)
qed simp

lemma quiet_keep: "quiet m (m\<lparr>rtTableMap := tbl_keep P (rtTableMap m)\<rparr>)" if "tbl_ok (rtTableMap m)"
  by (rule quiet_routes) (use that in \<open>auto simp: tbl.keep_Some_iff tbl.invar_keep\<close>)

text \<open>The requests of a tick.\<close>

definition tick_req :: "peer_req \<Rightarrow> bool" where
  "tick_req r \<longleftrightarrow> (case r of ReqRoute d n x \<Rightarrow> d = n \<and> x = RTT_LIMIT | ReqPubInfo _ \<Rightarrow> False | _ \<Rightarrow> True)"

lemma sends_tick_req:
  "r \<in> set (snd (sendHeartbeatMessage E p)) \<Longrightarrow> tick_req r"
  "r \<in> set (snd (sendDelayMessage E p)) \<Longrightarrow> tick_req r"
  by (auto simp: sendHeartbeatMessage_def sendDelayMessage_def sendEncrypted_fits_def peer_encrypt_def peer_send_def
      tick_req_def Let_def split: option.splits if_splits prod.splits)

lemma peer_tick_req: "r \<in> set (snd (peer_tick E p)) \<Longrightarrow> tick_req r"
  by (auto simp: peer_tick_def peer_tick_state_def Let_def case_prod_unfold tick_req_def
      dest: sends_tick_req [unfolded tick_req_def] split: PeerState.splits if_splits)

lemma updateRtTable_lost:
  assumes "tbl_ok (rtTableMap m)"
  shows "quiet m (fst (updateRtTable E \<lparr>re_dst = k, re_next = k, re_rtt = RTT_LIMIT\<rparr> m)) \<and>
    (\<forall>d r. map_of (rtTableMap (fst (updateRtTable E \<lparr>re_dst = k, re_next = k, re_rtt = RTT_LIMIT\<rparr> m))) d = Some r \<longrightarrow>
       re_next r \<noteq> k)"
  using quiet_trans [OF quiet_keep [OF assms] quiet_rt_announce_deleted] assms
  by (simp add: updateRtTable_def RTT_LIMIT_def Let_def rt_announce_deleted_keeps tbl.keep_Some_iff)

lemma quiet_run_reqs:
  assumes "tbl_ok (rtTableMap m)" and "\<And>r. r \<in> set rs \<Longrightarrow> tick_req r"
  shows "quiet m (fst (run_reqs E rs m))"
  using assms
proof (induction rs arbitrary: m)
  case (Cons r rs)
  define m1 where "m1 = fst (case r of
            ReqSend b a \<Rightarrow> (m, [UdpSend b a])
          | ReqPubInfo info \<Rightarrow> (m, pm_sendPubInfo E info m)
          | ReqStun \<Rightarrow> (m\<lparr>pm_stun := (pm_stun m)\<lparr>st_needed := True\<rparr>\<rparr>, [])
          | ReqRoute d n rtt \<Rightarrow> updateRtTable E \<lparr>re_dst = d, re_next = n, re_rtt = rtt\<rparr> m)"
  have q: "quiet m m1"
    using Cons.prems(2) [of r] updateRtTable_lost [OF Cons.prems(1)]
    by (cases r) (auto simp: m1_def tick_req_def intro: quiet_routes)
  then have "tbl_ok (rtTableMap m1)" using Cons.prems by (simp add: quiet_def)
  then have "quiet m1 (fst (run_reqs E rs m1))" using Cons by simp
  then show ?case
    using quiet_trans [OF q] by (simp add: Let_def case_prod_unfold m1_def)
qed simp

lemma quiet_with_peer:
  assumes "tbl_ok (rtTableMap m)" and "map_of (ipPeerMap m) k = Some p"
  shows "quiet (put_peer k (fst (peer_tick (peer_env_of E m) p)) m) (fst (with_peer E k peer_tick p m))"
  using quiet_run_reqs peer_tick_req assms
  by (simp add: with_peer_def Let_def case_prod_unfold put_peer_def)

text \<open>A peer that the client has forgotten: idle, and on no route.\<close>

definition forgotten :: "ip4 \<Rightarrow> PeerManager \<Rightarrow> bool" where
  "forgotten k m \<longleftrightarrow>
     (\<exists>p. map_of (ipPeerMap m) k = Some p \<and> p_state p = INIT \<and> p_real p = None) \<and>
     (\<forall>d r. map_of (rtTableMap m) d = Some r \<longrightarrow> re_next r \<noteq> k)"

lemma forgotten_quiet: "quiet m m' \<Longrightarrow> forgotten k m \<Longrightarrow> forgotten k m'"
  unfolding quiet_def forgotten_def by (metis (no_types, lifting) option.simps(9) peer.select_convs(3,11) peer.surjective
      peer.update_convs(12))

definition silent :: "pm_env \<Rightarrow> ip4 \<Rightarrow> PeerManager \<Rightarrow> bool" where
  "silent E k m \<longleftrightarrow>
     (\<exists>p. map_of (ipPeerMap m) k = Some p \<and> p_state p = CONNECTED \<and> seconds 3 \<le> me_now E - p_lastActive p)"

lemma silent_quiet: "quiet m m' \<Longrightarrow> silent E k m \<Longrightarrow> silent E k m'"
  unfolding quiet_def silent_def by (metis (no_types, lifting) option.simps(9) peer.select_convs(3,6) peer.surjective
      peer.update_convs(12))

lemma tick_forgets:
  assumes ok: "pm_ok C m" and "silent E k m" and rel: "0 < routeCost m" and p: "map_of (ipPeerMap m) k = Some p"
  shows "forgotten k (fst (with_peer E k peer_tick p m))"
proof -
  let ?E = "peer_env_of E m"
  have st: "p_state p = CONNECTED" "seconds 3 \<le> me_now E - p_lastActive p"
    using assms(2) p by (auto simp: silent_def)
  have ad: "p_addr p = k" using pm_ok_peer [OF ok p] by (simp add: good_peer_def)
  define p' where "p' = (fst (updateState ?E INIT p))\<lparr>p_tickCount := p_tickCount (fst (updateState ?E INIT p)) + 1\<rparr>"
  define m0 where "m0 = put_peer k p' m"
  have t: "peer_tick ?E p = (p', [ReqRoute k k RTT_LIMIT])"
    using st ad rel
    by (simp add: peer_tick_def peer_tick_state_def checkActivityWithin_def peer_env_of_def clientRelayEnabled_def p'_def)
  let ?u = "fst (updateRtTable E \<lparr>re_dst = k, re_next = k, re_rtt = RTT_LIMIT\<rparr> m0)"
  have i: "p_state p' = INIT \<and> p_real p' = None"
    using st by (simp add: p'_def updateState_def resetState_def Let_def)
  have "tbl_ok (rtTableMap m0)" using ok by (simp add: m0_def put_peer_def pm_ok_def)
  then have u: "quiet m0 ?u" "\<forall>d r. map_of (rtTableMap ?u) d = Some r \<longrightarrow> re_next r \<noteq> k"
    using updateRtTable_lost by blast+
  obtain n where "map_of (ipPeerMap ?u) k = map_option (\<lambda>p. p\<lparr>p_draws := n\<rparr>) (map_of (ipPeerMap m0) k)"
    using u(1) unfolding quiet_def by blast
  moreover have "map_of (ipPeerMap m0) k = Some p'" by (simp add: m0_def put_peer_def table_simps)
  moreover have "fst (with_peer E k peer_tick p m) = ?u"
    by (simp add: with_peer_def t m0_def Let_def case_prod_unfold)
  ultimately show ?thesis
    using u(2) i by (simp add: forgotten_def)
qed

lemma pm_ok_with_tick: "pm_ok C m \<Longrightarrow> map_of (ipPeerMap m) k = Some p \<Longrightarrow> pm_ok C (fst (with_peer E k peer_tick p m))"
  by (rule pm_ok_with_peer) (auto intro: good_peer_step [OF pm_ok_peer peer_step.tick])

lemma with_peer_other:
  assumes "tbl_ok (rtTableMap m)" and "map_of (ipPeerMap m) j = Some p" and "j \<noteq> k"
  shows "silent E k m \<Longrightarrow> silent E k (fst (with_peer E j peer_tick p m))"
    "forgotten k m \<Longrightarrow> forgotten k (fst (with_peer E j peer_tick p m))"
    "tbl_ok (rtTableMap (fst (with_peer E j peer_tick p m)))"
    "routeCost (fst (with_peer E j peer_tick p m)) = routeCost m"
proof -
  let ?m = "put_peer j (fst (peer_tick (peer_env_of E m) p)) m"
  have q: "quiet ?m (fst (with_peer E j peer_tick p m))"
    by (rule quiet_with_peer [OF assms(1,2)])
  show "silent E k m \<Longrightarrow> silent E k (fst (with_peer E j peer_tick p m))"
    using silent_quiet [OF q] assms(3) by (simp add: silent_def put_peer_def table_simps)
  show "forgotten k m \<Longrightarrow> forgotten k (fst (with_peer E j peer_tick p m))"
    using forgotten_quiet [OF q] assms(3) by (simp add: forgotten_def put_peer_def table_simps)
  show "tbl_ok (rtTableMap (fst (with_peer E j peer_tick p m)))"
    "routeCost (fst (with_peer E j peer_tick p m)) = routeCost m"
    using q assms(1) by (simp_all add: quiet_def put_peer_def)
qed

lemma tick_peers_forgets:
  "pm_ok C m \<Longrightarrow> 0 < routeCost m \<Longrightarrow> distinct ks \<Longrightarrow>
   silent E k m \<and> k \<in> set ks \<or> forgotten k m \<and> k \<notin> set ks \<Longrightarrow> forgotten k (fst (tick_peers E ks m))"
proof (induction ks arbitrary: m)
  case Nil
  then show ?case by simp
next
  case (Cons j ks)
  define m1 where "m1 = fst (case map_of (ipPeerMap m) j of None \<Rightarrow> (m, []) | Some p \<Rightarrow> with_peer E j peer_tick p m)"
  have t: "tbl_ok (rtTableMap m)" using Cons.prems(1) by (simp add: pm_ok_def)
  have ok1: "pm_ok C m1"
    using Cons.prems(1) by (auto simp: m1_def pm_ok_with_tick split: option.split)
  have "0 < routeCost m1 \<and> (silent E k m1 \<and> k \<in> set ks \<or> forgotten k m1 \<and> k \<notin> set ks)"
  proof (cases "map_of (ipPeerMap m) j")
    case None
    then show ?thesis using Cons.prems by (auto simp: m1_def silent_def forgotten_def)
  next
    case (Some p)
    have m1: "m1 = fst (with_peer E j peer_tick p m)" using Some by (simp add: m1_def)
    have c: "routeCost m1 = routeCost m"
      using quiet_with_peer [OF t Some, of E] by (simp add: m1 quiet_def put_peer_def)
    show ?thesis
    proof (cases "j = k")
      case True
      then show ?thesis using Cons.prems tick_forgets [OF Cons.prems(1) _ Cons.prems(2)] Some c by (auto simp: m1)
    next
      case False
      then show ?thesis using Cons.prems with_peer_other [OF t Some False] c by (auto simp: m1)
    qed
  qed
  then show ?case
    using Cons.IH [OF ok1] Cons.prems(3) by (simp add: m1_def Let_def case_prod_unfold)
qed

text \<open>C10: a connected peer that has not acknowledged a heartbeat for three seconds is given up at
  the next tick: it is idle again, without an address to send to, and no route leads through
  it any more, its own included. (Relaying through clients is enabled.)\<close>

theorem silent_peer_forgotten:
  assumes "pm_reach C m" and "0 < routeCost m" and "map_of (ipPeerMap m) k = Some p" and "p_state p = CONNECTED"
    and "seconds 3 \<le> me_now E - p_lastActive p"
  shows "forgotten k (fst (pm_tick E m))"
proof -
  have ok: "pm_ok C m" by (rule pm_ok_reach [OF assms(1)])
  define m1 where "m1 = fst (if discoveryInterval m \<noteq> 0 \<and> stun_enabled m
             then (m\<lparr>tickTick := tickTick m + 1\<rparr>,
                   if (tickTick m + 1) mod word_of_int (discoveryInterval m) = 0
                   then [ToWs (Msg DISCOVERY [])] else [])
             else (m, []))"
  have ok1: "pm_ok C m1" "0 < routeCost m1" "silent E k m1" "distinct (map fst (ipPeerMap m1))" "ipPeerMap m1 = ipPeerMap m"
    using ok assms(2-5) by (auto simp: m1_def pm_ok_def silent_def tbl_ok_def)
  have "k \<in> set (map fst (ipPeerMap m1))"
    using assms(3) ok1(5) map_of_SomeD by force
  then have "forgotten k (fst (tick_peers E (map fst (ipPeerMap m1)) m1))"
    using tick_peers_forgets ok1 by blast
  then show ?thesis
    by (simp add: pm_tick_def Let_def case_prod_unfold forgotten_def flip: m1_def)
qed

theorem silent_peer_forgotten_witness:
  "forgotten (IP4 10 0 0 2) (fst (pm_tick ((demo_env_pm False)\<lparr>me_now := 4000000000\<rparr>) demo_pm_connected))"
proof -
  have "(case map_of (ipPeerMap demo_pm_connected) (IP4 10 0 0 2) of
      None \<Rightarrow> False | Some p \<Rightarrow> p_state p = CONNECTED \<and> p_lastActive p = 0) \<and> 0 < routeCost demo_pm_connected"
    by code_simp
  then obtain p where p: "map_of (ipPeerMap demo_pm_connected) (IP4 10 0 0 2) = Some p" "p_state p = CONNECTED"
      "p_lastActive p = 0" "0 < routeCost demo_pm_connected"
    by (auto split: option.splits)
  have "seconds 3 \<le> me_now ((demo_env_pm False)\<lparr>me_now := 4000000000\<rparr>) - p_lastActive p"
    using p(3) by (simp add: seconds_def)
  then show ?thesis
    using silent_peer_forgotten [OF demo_pm_connected_reach p(4) p(1) p(2)] by blast
qed

section \<open>STUN responses\<close>

text \<open>An attribute: type, length of the value and the value, numbers in network order.\<close>

definition be16 :: "u16 \<Rightarrow> bytes" where
  "be16 w = le_bytes 2 (hton w)"

definition stun_attr :: "u16 \<Rightarrow> bytes \<Rightarrow> bytes" where
  "stun_attr t v = be16 t @ be16 (of_nat (length v)) @ v"

text \<open>The value of a mapped address and of a xor-ed mapped address, as a server writes them.\<close>

definition mapped_value :: "ip4 \<Rightarrow> u16 \<Rightarrow> bytes" where
  "mapped_value ip port = [0, 1] @ be16 port @ raw ip"

definition xor_mapped_value :: "ip4 \<Rightarrow> u16 \<Rightarrow> bytes" where
  "xor_mapped_value ip port =
     [0, 1] @ be16 (port XOR 0x2112) @ le_bytes 4 (ip4_u32 ip XOR hton 0x2112a442)"

definition stun_success :: "bytes \<Rightarrow> bytes \<Rightarrow> bytes" where
  "stun_success id_cookie attrs = be16 0x0101 @ be16 (of_nat (length attrs)) @ id_cookie @ attrs"

lemma rd16_be16: "rd16 (p @ be16 w @ q) (length p) = w"
  by (simp add: rd16_def be16_def slice_def le_word_le_bytes)

lemma rd16_at: "b = p @ be16 w @ q \<Longrightarrow> i = length p \<Longrightarrow> rd16 b i = w"
  by (simp add: rd16_be16)

lemma length_be16 [simp]: "length (be16 w) = 2"
  by (simp add: be16_def)

lemma stun_attrs_skip:
  assumes "length p = 20 + pos" and "pos < n" and "t \<noteq> 1" and "t \<noteq> 0x20" and "length v < 65536"
  shows "stun_attrs (p @ stun_attr t v @ q) n pos = stun_attrs (p @ stun_attr t v @ q) n (pos + (4 + length v))"
proof -
  let ?b = "p @ stun_attr t v @ q"
  have t: "rd16 ?b (20 + pos) = t"
    by (rule rd16_at [where p = p]) (simp_all add: stun_attr_def assms(1))
  have l: "rd16 ?b (20 + pos + 2) = of_nat (length v)"
    by (rule rd16_at [where p = "p @ be16 t"]) (simp_all add: stun_attr_def assms(1))
  have u: "unat (of_nat (length v) :: u16) = length v"
    using assms(5) by (simp add: unat_of_nat)
  show ?thesis
    using assms t l u by (subst stun_attrs.simps) (simp add: stun_attr_def add.commute add.left_commute)
qed

lemma le_word_raw: "ip4_of_raw (le_bytes 4 (le_word (raw ip) :: u32)) = ip"
  by (simp add: le_bytes_le_word)

lemma stun_attrs_mapped:
  assumes "length p = 20 + pos" and "pos < n"
  shows "stun_attrs (p @ stun_attr 1 (mapped_value ip port) @ q) n pos = Ok (ip4_u32 ip, port)"
proof -
  let ?b = "p @ stun_attr 1 (mapped_value ip port) @ q"
  have t: "rd16 ?b (20 + pos) = 1"
    by (rule rd16_at [where p = p]) (simp_all add: stun_attr_def assms(1))
  have l: "rd16 ?b (20 + pos + 6) = port"
    by (rule rd16_at [where p = "p @ be16 1 @ be16 8 @ [0, 1]"])
      (simp_all add: stun_attr_def mapped_value_def assms(1))
  have a: "slice (20 + pos + 8) 4 ?b = raw ip"
    using assms(1) by (simp add: slice_def stun_attr_def mapped_value_def)
  show ?thesis
    using assms t l a by (subst stun_attrs.simps) (simp add: stun_attr_def mapped_value_def ip4_u32_def)
qed

lemma stun_attrs_xor_mapped:
  assumes "length p = 20 + pos" and "pos < n"
  shows "stun_attrs (p @ stun_attr 0x20 (xor_mapped_value ip port) @ q) n pos = Ok (ip4_u32 ip, port)"
proof -
  let ?b = "p @ stun_attr 0x20 (xor_mapped_value ip port) @ q"
  have t: "rd16 ?b (20 + pos) = 0x20"
    by (rule rd16_at [where p = p]) (simp_all add: stun_attr_def assms(1))
  have l: "rd16 ?b (20 + pos + 6) = port XOR 0x2112"
    by (rule rd16_at [where p = "p @ be16 0x20 @ be16 8 @ [0, 1]"])
      (simp_all add: stun_attr_def xor_mapped_value_def assms(1))
  have a: "slice (20 + pos + 8) 4 ?b = le_bytes 4 (ip4_u32 ip XOR hton 0x2112a442)"
    using assms(1) by (simp add: slice_def stun_attr_def xor_mapped_value_def)
  show ?thesis
    using assms t l a
    by (subst stun_attrs.simps) (simp add: stun_attr_def xor_mapped_value_def le_word_le_bytes xor.assoc)
qed

definition plain_attrs :: "(u16 \<times> bytes) list \<Rightarrow> bytes" where
  "plain_attrs us = concat (map (\<lambda>(t, v). stun_attr t v) us)"

lemma stun_attrs_skip_all:
  assumes "list_all (\<lambda>(t, v). t \<noteq> 1 \<and> t \<noteq> 0x20 \<and> length v < 65536) us"
    and "length p = 20 + pos" and "pos + length (plain_attrs us) < n"
  shows "stun_attrs (p @ plain_attrs us @ q) n pos =
    stun_attrs (p @ plain_attrs us @ q) n (pos + length (plain_attrs us))"
  using assms
proof (induction us arbitrary: p pos)
  case Nil
  then show ?case by (simp add: plain_attrs_def)
next
  case (Cons u us)
  obtain t v where u: "u = (t, v)" by (cases u)
  have l: "length (stun_attr t v) = 4 + length v" by (simp add: stun_attr_def)
  have e: "plain_attrs (u # us) = stun_attr t v @ plain_attrs us" by (simp add: plain_attrs_def u)
  have "stun_attrs (p @ stun_attr t v @ plain_attrs us @ q) n pos =
      stun_attrs (p @ stun_attr t v @ plain_attrs us @ q) n (pos + (4 + length v))"
    by (rule stun_attrs_skip) (use Cons.prems u e l in auto)
  moreover have "stun_attrs ((p @ stun_attr t v) @ plain_attrs us @ q) n (pos + (4 + length v)) =
      stun_attrs ((p @ stun_attr t v) @ plain_attrs us @ q) n (pos + (4 + length v) + length (plain_attrs us))"
    by (rule Cons.IH) (use Cons.prems u e l in auto)
  ultimately show ?case by (simp add: e l ac_simps)
qed

lemma unat_of_nat16: "n < 65536 \<Longrightarrow> unat (of_nat n :: u16) = n"
  by (simp add: unat_of_nat)

lemma ip4_of_u32_0: "ip4_of_u32 0 = ip4_zero"
  by code_simp

text \<open>From any successful STUN response, with attributes of any other kind and length before
  the address, the manager reads the public address and port that the server put into it,
  plain or xor-ed, and reads nothing beyond the datagram.\<close>

theorem stun_response_read:
  assumes "length id_cookie = 16" and "ip \<noteq> ip4_zero" and "port \<noteq> 0"
    and "list_all (\<lambda>(t, v). t \<noteq> 1 \<and> t \<noteq> 0x20 \<and> length v < 65536) us"
    and "main = stun_attr 1 (mapped_value ip port) \<or> main = stun_attr 0x20 (xor_mapped_value ip port)"
    and "length (plain_attrs us @ main @ rest) < 65536"
  shows "stun_parse_response (stun_success id_cookie (plain_attrs us @ main @ rest)) = Ok (Some (ip4_u32 ip, port)) \<and>
    ip4_of_raw (le_bytes 4 (ip4_u32 ip)) = ip"
proof -
  let ?attrs = "plain_attrs us @ main @ rest"
  let ?h = "be16 0x0101 @ be16 (of_nat (length ?attrs)) @ id_cookie"
  let ?n = "length ?attrs"
  have t: "rd16 (stun_success id_cookie ?attrs) 0 = 0x0101"
    by (rule rd16_at [where p = "[]"]) (simp_all add: stun_success_def)
  have n: "rd16 (stun_success id_cookie ?attrs) 2 = of_nat ?n"
    by (rule rd16_at [where p = "be16 0x0101"]) (simp_all add: stun_success_def)
  have u: "unat (of_nat ?n :: u16) = ?n" by (rule unat_of_nat16 [OF assms(6)])
  have m: "0 < length main" using assms(5) by (elim disjE) (simp_all add: stun_attr_def del: length_greater_0_conv)
  have skip: "stun_attrs (?h @ plain_attrs us @ main @ rest @ [0]) ?n 0 =
      stun_attrs (?h @ plain_attrs us @ main @ rest @ [0]) ?n (length (plain_attrs us))"
    using stun_attrs_skip_all [OF assms(4), of ?h 0 ?n "main @ rest @ [0]"] assms(1) m by simp
  have pos: "length (?h @ plain_attrs us) = 20 + length (plain_attrs us)" "length (plain_attrs us) < ?n"
    using assms(1) m by simp_all
  have "stun_attrs ((?h @ plain_attrs us) @ main @ (rest @ [0])) ?n (length (plain_attrs us)) = Ok (ip4_u32 ip, port)"
    using assms(5) stun_attrs_mapped [OF pos, of ip port "rest @ [0]"]
      stun_attrs_xor_mapped [OF pos, of ip port "rest @ [0]"] by fast
  then have a: "stun_attrs (stun_success id_cookie ?attrs @ [0]) ?n 0 = Ok (ip4_u32 ip, port)"
    using skip by (simp add: stun_success_def)
  have z: "ip4_u32 ip \<noteq> 0"
    using assms(2) ip4_of_u32_u32 [of ip] ip4_of_u32_0 by metis
  show ?thesis
    using t n u a z assms(1,3)
    by (simp add: stun_parse_response_def ip4_u32_def le_word_raw) (simp add: stun_success_def sizeof_StunResponse_def)
qed

theorem stun_response_read_witness:
  "stun_parse_response (stun_success (replicate 16 0)
     (plain_attrs [(0x8022, [1, 2, 3])] @ stun_attr 0x20 (xor_mapped_value (IP4 1 2 3 4) 5000) @ [])) =
     Ok (Some (ip4_u32 (IP4 1 2 3 4), 5000))"
proof -
  have "length (plain_attrs [(0x8022, [1, 2, 3])] @ stun_attr 0x20 (xor_mapped_value (IP4 1 2 3 4) 5000) @ []) < 65536"
    by (simp add: plain_attrs_def stun_attr_def xor_mapped_value_def)
  then show ?thesis
    by (intro stun_response_read [THEN conjunct1]) (simp_all add: ip4_zero_def)
qed

text \<open>The response of a STUN server is trusted about its lengths: a response that ends inside an
  attribute makes the manager read behind the datagram, already with twenty-two bytes.\<close>

theorem stun_response_overread:
  "stun_parse_response (be16 0x0101 @ be16 4 @ replicate 16 0 @ be16 0x20) = Undef"
  by code_simp

section \<open>Bounds of the configuration\<close>

lemma setRouteCost_bounds: "0 \<le> routeCost (fst (setRouteCost cost m)) \<and> routeCost (fst (setRouteCost cost m)) \<le> 1000"
  by (simp add: setRouteCost_def)

end
