(* ===== verification/Tun.thy ===== *)
theory Tun
  imports Message
begin

text \<open>
  \<^verbatim>\<open>tun/tun.h\<close>, \<^verbatim>\<open>tun.cc\<close> and, of \<^verbatim>\<open>tun/linux.cc\<close>, what \<^verbatim>\<open>LinuxTun\<close> keeps: the virtual
  network card. One thread reads packets from the device (\<open>handleTunDevice\<close>), one reads the
  messages of the other modules (\<open>handleTunQueue\<close>). Packets for a routed network travel inside
  an outer header (IP in IP) to the client that is the next hop; packets that arrive that way
  are stripped and written to the device, or handed to the userspace stack when they open a
  flow that did not start here. The system calls on the device and the routing table are
  outcomes in the environment. The steady clock counts nanoseconds.
\<close>

section \<open>State\<close>

text \<open>Addresses and ports are kept as they stand in the packet.\<close>

record FlowKey =
  fk_proto :: u8
  fk_srcIP :: u32
  fk_srcPort :: u16
  fk_dstIP :: u32
  fk_dstPort :: u16

record tun =
  tn_name :: bytes
  tn_ip :: ip4
  tn_mask :: ip4
  tn_mtu :: int
  tunAddress :: bytes
  sysRtTable :: "SysRouteEntry list"
  initiatedFlows :: "(FlowKey, int) table"
  lastFlowReap :: int
  tun_thread :: bool

record tun_env =
  te_poco :: poco
  te_userspace :: bool
  te_now :: int
  te_up :: bool
  te_route :: "SysRouteEntry \<Rightarrow> bool"

type_synonym tun_out = "tun \<times> effect list"

definition tun_secs :: "int \<Rightarrow> int" where
  "tun_secs n = n * 1000000000"

section \<open>The device\<close>

definition tun_setName :: "bytes \<Rightarrow> tun \<Rightarrow> tun \<times> int" where
  "tun_setName name t = (t\<lparr>tn_name := (if name = [] then str ''candy'' else str ''candy-'' @ name)\<rparr>, 0)"

definition tun_setMTU :: "int \<Rightarrow> tun \<Rightarrow> tun \<times> int" where
  "tun_setMTU mtu t = (t\<lparr>tn_mtu := mtu\<rparr>, 0)"

definition tun_getIP :: "tun \<Rightarrow> ip4" where
  "tun_getIP t = tn_ip t"

definition tun_getMTU :: "tun \<Rightarrow> int" where
  "tun_getMTU t = tn_mtu t"

definition tun_setAddress :: "poco \<Rightarrow> bytes \<Rightarrow> tun \<Rightarrow> (tun \<times> int) res" where
  "tun_setAddress P cidr t =
     bind_res (fromCidr P cidr Address0) (\<lambda>(a, r).
       if r \<noteq> 0 then Ok (t, -1)
       else Ok (t\<lparr>tn_ip := a_host a, tn_mask := a_mask a, tunAddress := cidr\<rparr>, 0))"

section \<open>Flows that started here\<close>

definition parseInnerL4 :: "bytes \<Rightarrow> FlowKey option" where
  "parseInnerL4 ipPkt =
     (if length ipPkt < sizeof_IP4Header then None
      else let ip = IP4Header_at ipPkt 0
           in if drop_bit 4 (version_ihl ip) \<noteq> 4 then None
              else if protocol ip \<noteq> 0x06 \<and> protocol ip \<noteq> 0x11 then None
              else if ntoh (frag_off ip) AND 0x1FFF \<noteq> 0 then None
              else let ihl = unat (version_ihl ip AND 0x0F) * 4
                   in if ihl < sizeof_IP4Header then None
                      else if length ipPkt < ihl + 4 then None
                      else Some \<lparr>fk_proto = protocol ip, fk_srcIP = ip4_u32 (saddr ip),
                                 fk_srcPort = le_word (slice ihl 2 ipPkt), fk_dstIP = ip4_u32 (daddr ip),
                                 fk_dstPort = le_word (slice (ihl + 2) 2 ipPkt)\<rparr>)"

fun oldest_flow :: "FlowKey \<times> int \<Rightarrow> (FlowKey, int) table \<Rightarrow> FlowKey \<times> int" where
  "oldest_flow o1 [] = o1"
| "oldest_flow o1 (e # es) = oldest_flow (if snd e < snd o1 then e else o1) es"

lemma oldest_flow_in: "oldest_flow e es \<in> set (e # es)"
  by (induction es arbitrary: e) auto

definition max_flows :: nat where "max_flows = 4096"

function evict_flows :: "(FlowKey, int) table \<Rightarrow> (FlowKey, int) table" where
  "evict_flows t =
     (if length t \<le> max_flows then t
      else evict_flows (tbl_erase (fst (oldest_flow (hd t) (tl t))) t))"
  by pat_completeness auto
termination
proof (relation "measure length")
  fix t :: "(FlowKey, int) table"
  assume "\<not> length t \<le> max_flows"
  then have "oldest_flow (hd t) (tl t) \<in> set t"
    using oldest_flow_in [of "hd t" "tl t"] by (cases t) auto
  then have "length (filter (\<lambda>(k', v). k' \<noteq> fst (oldest_flow (hd t) (tl t))) t) < length t"
    by (intro length_filter_less) auto
  then show "(tbl_erase (fst (oldest_flow (hd t) (tl t))) t, t) \<in> measure length"
    by (simp add: tbl_erase_def)
qed simp

declare evict_flows.simps [simp del]

definition tun_reapIdleFlows :: "int \<Rightarrow> tun \<Rightarrow> tun" where
  "tun_reapIdleFlows now t =
     (let overCapacity = (length (initiatedFlows t) > max_flows)
      in if \<not> overCapacity \<and> now - lastFlowReap t < tun_secs 10 then t
         else t\<lparr>lastFlowReap := now,
                initiatedFlows := evict_flows (tbl_keep (\<lambda>_ seen. \<not> (now - seen > tun_secs 300)) (initiatedFlows t))\<rparr>)"

definition recordInitiatedFlow :: "int \<Rightarrow> bytes \<Rightarrow> tun \<Rightarrow> tun" where
  "recordInitiatedFlow now origPacket t =
     (case parseInnerL4 origPacket of
        None \<Rightarrow> t
      | Some key \<Rightarrow> tun_reapIdleFlows now (t\<lparr>initiatedFlows := tbl_put key now (initiatedFlows t)\<rparr>))"

definition route_hit :: "ip4 \<Rightarrow> SysRouteEntry \<Rightarrow> bool" where
  "route_hit a rt \<longleftrightarrow> ip4_and a (rt_mask rt) = rt_dst rt"

definition isReturnTraffic :: "bytes \<Rightarrow> tun \<Rightarrow> bool" where
  "isReturnTraffic packet t \<longleftrightarrow>
     \<not> length packet < sizeof_IP4Header * 2 \<and>
     list_ex (route_hit (saddr (IP4Header_at packet sizeof_IP4Header))) (sysRtTable t)"

definition reverse_flow :: "FlowKey \<Rightarrow> FlowKey" where
  "reverse_flow k = \<lparr>fk_proto = fk_proto k, fk_srcIP = fk_dstIP k, fk_srcPort = fk_dstPort k,
     fk_dstIP = fk_srcIP k, fk_dstPort = fk_srcPort k\<rparr>"

definition isReturnByFlow :: "int \<Rightarrow> bytes \<Rightarrow> tun \<Rightarrow> tun \<times> bool" where
  "isReturnByFlow now packet t =
     (if length packet < sizeof_IP4Header * 2 then (t, False)
      else case parseInnerL4 (drop sizeof_IP4Header packet) of
             None \<Rightarrow> (t, isReturnTraffic packet t)
           | Some fwd \<Rightarrow>
               (case map_of (initiatedFlows t) (reverse_flow fwd) of
                  Some _ \<Rightarrow> (t\<lparr>initiatedFlows := tbl_put (reverse_flow fwd) now (initiatedFlows t)\<rparr>, True)
                | None \<Rightarrow> (t, False)))"

section \<open>The device thread\<close>

fun next_hop :: "ip4 \<Rightarrow> SysRouteEntry list \<Rightarrow> ip4" where
  "next_hop d [] = ip4_zero"
| "next_hop d (rt # rts) = (if route_hit d rt then rt_nexthop rt else next_hop d rts)"

text \<open>The outer header: twenty zero bytes in which protocol, source and destination are set.\<close>

definition outer_header :: "ip4 \<Rightarrow> ip4 \<Rightarrow> bytes" where
  "outer_header src dst =
     splice 16 (raw dst) (splice 12 (raw src) (splice 9 [0x04] (replicate sizeof_IP4Header 0)))"

text \<open>\<open>None\<close>: nothing was read from the device, or reading failed.\<close>

definition handleTunDevice :: "tun_env \<Rightarrow> bytes option \<Rightarrow> tun \<Rightarrow> tun_out" where
  "handleTunDevice E input t =
     (case input of
        None \<Rightarrow> (t, [])
      | Some buffer \<Rightarrow>
          if length buffer < sizeof_IP4Header then (t, [])
          else if \<not> isIPv4 (IP4Header_at buffer 0) then (t, [])
          else let nextHop = next_hop (daddr (IP4Header_at buffer 0)) (sysRtTable t);
                   t1 = (if \<not> ip4_empty nextHop \<and> te_userspace E then recordInitiatedFlow (te_now E) buffer t else t);
                   packet = (if \<not> ip4_empty nextHop then outer_header (tun_getIP t) nextHop @ buffer else buffer)
               in if daddr (IP4Header_at packet 0) = tun_getIP t1 then (t1, [TunWrite packet])
                  else (t1, [ToPeer (Msg PACKET packet)]))"

section \<open>The message thread\<close>

definition tun_handlePacket :: "tun_env \<Rightarrow> msg \<Rightarrow> tun \<Rightarrow> tun_out" where
  "tun_handlePacket E m t =
     (if length (msg_data m) < sizeof_IP4Header then (t, [])
      else let header = IP4Header_at (msg_data m) 0;
               (t1, ret) = (if isIPIP header then isReturnByFlow (te_now E) (msg_data m) t else (t, True))
           in if isIPIP header \<and> \<not> ret \<and> te_userspace E
              then (t1, [ToNetStack (Msg NETSTACK (msg_data m))])
              else if isIPIP header then (t1, [TunWrite (drop sizeof_IP4Header (msg_data m))])
              else (t1, [TunWrite (msg_data m)]))"

text \<open>A second address would overwrite the thread object of the first.\<close>

definition tun_handleTunAddr :: "tun_env \<Rightarrow> msg \<Rightarrow> tun \<Rightarrow> (tun \<times> int) res" where
  "tun_handleTunAddr E m t =
     bind_res (tun_setAddress (te_poco E) (msg_data m) t) (\<lambda>(t1, r).
       if r \<noteq> 0 then Ok (t1, -1)
       else if \<not> te_up E then Ok (t1, -1)
       else if tun_thread t1 then Undef
       else Ok (t1\<lparr>tun_thread := True\<rparr>, 0))"

definition handleSysRt :: "tun_env \<Rightarrow> msg \<Rightarrow> tun \<Rightarrow> (tun \<times> effect list \<times> int) res" where
  "handleSysRt E m t =
     (if length (msg_data m) < 12 then Undef
      else let rt = SysRouteEntry_at (msg_data m) 0
           in if rt_nexthop rt \<noteq> tun_getIP t
              then Ok (t\<lparr>sysRtTable := sysRtTable t @ [rt]\<rparr>,
                       [SetRoute (rt_dst rt) (rt_mask rt) (rt_nexthop rt)], if te_route E rt then 0 else -1)
              else Ok (t, [], 0))"

definition handleTunQueue :: "tun_env \<Rightarrow> msg \<Rightarrow> tun \<Rightarrow> (tun \<times> effect list \<times> int) res" where
  "handleTunQueue E m t =
     (case msg_kind m of
        PACKET \<Rightarrow> (let (t', fx) = tun_handlePacket E m t in Ok (t', fx, 0))
      | TUNADDR \<Rightarrow> bind_res (tun_handleTunAddr E m t) (\<lambda>(t', r). Ok (t', [], if r \<noteq> 0 then -1 else 0))
      | SYSRT \<Rightarrow> bind_res (handleSysRt E m t) (\<lambda>(t', fx, _). Ok (t', fx, 0))
      | _ \<Rightarrow> Ok (t, [], 0))"

definition tun_wait :: "tun \<Rightarrow> tun \<times> int" where
  "tun_wait t = (t\<lparr>tun_thread := False, sysRtTable := []\<rparr>, 0)"

section \<open>The outer header\<close>

lemma length_outer_header [simp]: "length (outer_header a b) = sizeof_IP4Header"
  by (simp add: outer_header_def splice_def sizeof_IP4Header_def)

lemma raw4: "raw ip = [rd8 (raw ip) 0, rd8 (raw ip) 1, rd8 (raw ip) 2, rd8 (raw ip) 3]"
  by (cases ip) (simp add: rd8_def)

lemma outer_header_fields:
  "saddr (IP4Header_at (outer_header a b @ q) 0) = a" "daddr (IP4Header_at (outer_header a b @ q) 0) = b"
  "protocol (IP4Header_at (outer_header a b @ q) 0) = 4"
  by (simp_all add: IP4Header_at_def outer_header_def splice_def slice_def rd8_def nth_append sizeof_IP4Header_def
      numeral_eq_Suc)

lemma inner_header:
  "IP4Header_at (outer_header a b @ q) sizeof_IP4Header = IP4Header_at q 0"
  using slice_append_right [of "outer_header a b"] rd8_append_right [of "outer_header a b"]
  by (simp add: IP4Header_at_def sizeof_IP4Header_def numeral_2_eq_2)

lemma reverse_reverse [simp]: "reverse_flow (reverse_flow k) = k"
  by (simp add: reverse_flow_def)

section \<open>Bounds of the flow table\<close>

lemma length_evict_flows: "length (evict_flows t) \<le> max_flows"
proof (induction t rule: evict_flows.induct)
  case (1 t)
  then show ?case by (subst evict_flows.simps) simp
qed

lemma evict_flows_small: "length t \<le> max_flows \<Longrightarrow> evict_flows t = t"
  by (simp add: evict_flows.simps [of t])

lemma tbl_ok_evict: "tbl_ok t \<Longrightarrow> tbl_ok (evict_flows t)"
proof (induction t rule: evict_flows.induct)
  case (1 t)
  then show ?case by (subst evict_flows.simps) (simp add: tbl.invar_erase)
qed

definition flows_ok :: "tun \<Rightarrow> bool" where
  "flows_ok t \<longleftrightarrow> tbl_ok (initiatedFlows t) \<and> length (initiatedFlows t) \<le> max_flows"

lemma flows_ok_record: "flows_ok t \<Longrightarrow> flows_ok (recordInitiatedFlow now p t)"
  using length_evict_flows
  by (auto simp: recordInitiatedFlow_def tun_reapIdleFlows_def flows_ok_def Let_def tbl.invar_put tbl.invar_keep
      tbl_ok_evict split: option.split)

lemma flows_ok_device: "flows_ok t \<Longrightarrow> flows_ok (fst (handleTunDevice E b t))"
  by (auto simp: handleTunDevice_def Let_def flows_ok_record split: option.split)

lemma flows_ok_handlePacket: "flows_ok t \<Longrightarrow> flows_ok (fst (tun_handlePacket E m t))"
  by (auto simp: tun_handlePacket_def isReturnByFlow_def Let_def flows_ok_def tbl.invar_put tbl.size_put
      split: option.split)

lemma flows_ok_handleTunQueue: "flows_ok t \<Longrightarrow> handleTunQueue E m t = Ok (t', fx, r) \<Longrightarrow> flows_ok t'"
  using flows_ok_handlePacket [of t E m]
  by (cases "msg_kind m")
    (auto simp: handleTunQueue_def bind_res_Ok_iff tun_handleTunAddr_def tun_setAddress_def handleSysRt_def
      flows_ok_def Let_def split: if_splits prod.splits)

text \<open>All states of the module: packets from the device and messages in any order.\<close>

inductive tun_reach :: "tun \<Rightarrow> bool" where
  start: "initiatedFlows t = [] \<Longrightarrow> tun_reach t"
| device: "tun_reach t \<Longrightarrow> handleTunDevice E b t = (t', fx) \<Longrightarrow> tun_reach t'"
| queue: "tun_reach t \<Longrightarrow> handleTunQueue E m t = Ok (t', fx, r) \<Longrightarrow> tun_reach t'"
| wait: "tun_reach t \<Longrightarrow> tun_reach (fst (tun_wait t))"

lemma tun_reach_flows: "tun_reach t \<Longrightarrow> flows_ok t"
proof (induction rule: tun_reach.induct)
  case (start t)
  then show ?case by (simp add: flows_ok_def tbl_ok_def)
next
  case (device t E b t' fx)
  then show ?case using flows_ok_device [of t E b] by simp
next
  case (queue t E m t' fx r)
  then show ?case using flows_ok_handleTunQueue by blast
next
  case (wait t)
  then show ?case by (simp add: flows_ok_def tun_wait_def)
qed

text \<open>C39: however many flows the local network opens, and whatever arrives, the table of
  initiated flows never holds more than 4096 entries, one per flow.\<close>

theorem flow_table_bounded:
  assumes "tun_reach t"
  shows "length (initiatedFlows t) \<le> 4096 \<and> distinct (map fst (initiatedFlows t))"
  using tun_reach_flows [OF assms] by (simp add: flows_ok_def max_flows_def tbl_ok_def)

definition demo_tun :: tun where
  "demo_tun = \<lparr>tn_name = str ''candy'', tn_ip = IP4 10 0 0 1, tn_mask = IP4 255 255 255 0, tn_mtu = 1400, tunAddress = [],
     sysRtTable = [\<lparr>rt_dst = IP4 172 16 0 0, rt_mask = IP4 255 255 0 0, rt_nexthop = IP4 10 0 0 2\<rparr>],
     initiatedFlows = [], lastFlowReap = 0, tun_thread = True\<rparr>"

definition demo_tun_env :: tun_env where
  "demo_tun_env = \<lparr>te_poco = dotted_poco, te_userspace = True, te_now = 100, te_up = True, te_route = (\<lambda>_. True)\<rparr>"

text \<open>A UDP packet from 192.168.1.5:4660 to 172.16.0.9:22136 and its answer.\<close>

definition udp_packet :: "ip4 \<Rightarrow> bytes \<Rightarrow> ip4 \<Rightarrow> bytes \<Rightarrow> bytes" where
  "udp_packet src sport dst dport = [0x45, 0, 0, 28, 0, 0, 0, 0, 64, 17, 0, 0] @ raw src @ raw dst @ sport @ dport @ [0, 8, 0, 0]"

definition demo_out :: bytes where
  "demo_out = udp_packet (IP4 192 168 1 5) [0x12, 0x34] (IP4 172 16 0 9) [0x56, 0x78]"

definition demo_back :: bytes where
  "demo_back = udp_packet (IP4 172 16 0 9) [0x56, 0x78] (IP4 192 168 1 5) [0x12, 0x34]"

theorem flow_table_bounded_witness:
  "length (initiatedFlows (fst (handleTunDevice demo_tun_env (Some demo_out) demo_tun))) \<le> 4096 \<and>
   map fst (initiatedFlows (fst (handleTunDevice demo_tun_env (Some demo_out) demo_tun))) \<noteq> []"
proof
  have "tun_reach demo_tun" by (rule tun_reach.start) (simp add: demo_tun_def)
  then have "tun_reach (fst (handleTunDevice demo_tun_env (Some demo_out) demo_tun))"
    by (rule tun_reach.device [of _ demo_tun_env "Some demo_out" _ "snd (handleTunDevice demo_tun_env (Some demo_out) demo_tun)"]) simp
  then show "length (initiatedFlows (fst (handleTunDevice demo_tun_env (Some demo_out) demo_tun))) \<le> 4096"
    using flow_table_bounded by blast
  show "map fst (initiatedFlows (fst (handleTunDevice demo_tun_env (Some demo_out) demo_tun))) \<noteq> []"
    by code_simp
qed

section \<open>Tunnelling\<close>

text \<open>A packet for a routed network leaves the device thread inside an outer header that names
  this client as source and the next hop as destination; the client that receives it writes
  the inner packet to its device byte for byte, unless it runs the userspace stack and the
  packet does not belong to a flow that started there: then the stack gets it whole.\<close>

theorem tunnel_roundtrip:
  assumes "sizeof_IP4Header \<le> length p" and "isIPv4 (IP4Header_at p 0)"
    and "next_hop (daddr (IP4Header_at p 0)) (sysRtTable a) = nh" and "nh \<noteq> ip4_zero" and "nh \<noteq> tn_ip a"
  shows "\<exists>outer. snd (handleTunDevice Ea (Some p) a) = [ToPeer (Msg PACKET (outer @ p))] \<and>
    length outer = sizeof_IP4Header \<and> saddr (IP4Header_at (outer @ p) 0) = tn_ip a \<and>
    daddr (IP4Header_at (outer @ p) 0) = nh \<and>
    snd (tun_handlePacket Eb (Msg PACKET (outer @ p)) b) =
      (if te_userspace Eb \<and> \<not> snd (isReturnByFlow (te_now Eb) (outer @ p) b)
       then [ToNetStack (Msg NETSTACK (outer @ p))] else [TunWrite p])"
proof -
  let ?o = "outer_header (tn_ip a) nh"
  have ip: "tn_ip (recordInitiatedFlow now p a) = tn_ip a" for now
    by (simp add: recordInitiatedFlow_def tun_reapIdleFlows_def Let_def split: option.split)
  have "snd (handleTunDevice Ea (Some p) a) = [ToPeer (Msg PACKET (?o @ p))]"
    using assms ip by (auto simp: handleTunDevice_def ip4_empty_iff outer_header_fields tun_getIP_def Let_def)
  moreover have "snd (tun_handlePacket Eb (Msg PACKET (?o @ p)) b) =
      (if te_userspace Eb \<and> \<not> snd (isReturnByFlow (te_now Eb) (?o @ p) b)
       then [ToNetStack (Msg NETSTACK (?o @ p))] else [TunWrite p])"
    by (auto simp: tun_handlePacket_def isIPIP_def outer_header_fields Let_def split: prod.split)
  ultimately show ?thesis
    by (intro exI [of _ ?o]) (simp add: outer_header_fields)
qed

theorem tunnel_roundtrip_witness:
  "\<exists>outer. snd (handleTunDevice demo_tun_env (Some demo_out) demo_tun) = [ToPeer (Msg PACKET (outer @ demo_out))] \<and>
     snd (tun_handlePacket (demo_tun_env\<lparr>te_userspace := False\<rparr>) (Msg PACKET (outer @ demo_out)) demo_tun) =
       [TunWrite demo_out]"
proof -
  have "sizeof_IP4Header \<le> length demo_out" "isIPv4 (IP4Header_at demo_out 0)"
    "next_hop (daddr (IP4Header_at demo_out 0)) (sysRtTable demo_tun) = IP4 10 0 0 2"
    "IP4 10 0 0 2 \<noteq> ip4_zero" "IP4 10 0 0 2 \<noteq> tn_ip demo_tun"
    by code_simp+
  from tunnel_roundtrip [OF this, of demo_tun_env "demo_tun_env\<lparr>te_userspace := False\<rparr>" demo_tun]
  show ?thesis by auto
qed

lemma record_finds:
  assumes "flows_ok t" and "length (initiatedFlows t) < max_flows" and "parseInnerL4 p = Some k"
  shows "map_of (initiatedFlows (recordInitiatedFlow now p t)) k = Some now"
proof -
  let ?f = "tbl_put k now (initiatedFlows t)"
  have l: "length ?f \<le> max_flows" using assms(2) tbl.size_put_le [of k now "initiatedFlows t"] by linarith
  have ok: "tbl_ok ?f" using assms(1) by (simp add: flows_ok_def tbl.invar_put)
  have "length (tbl_keep P ?f) \<le> max_flows" for P using tbl.size_keep [of P ?f] l by linarith
  then have "evict_flows (tbl_keep P ?f) = tbl_keep P ?f" for P by (rule evict_flows_small)
  then show ?thesis
    using assms(3) l ok
    by (simp add: recordInitiatedFlow_def tun_reapIdleFlows_def Let_def tbl.find_keep table_simps tun_secs_def)
qed

lemma handlePacket_inner:
  assumes "sizeof_IP4Header \<le> length q" and "parseInnerL4 q = Some k"
  shows "snd (tun_handlePacket E (Msg PACKET (outer_header a b @ q)) t) =
    (if te_userspace E \<and> map_of (initiatedFlows t) (reverse_flow k) = None
     then [ToNetStack (Msg NETSTACK (outer_header a b @ q))] else [TunWrite q])"
  using assms
  by (auto simp: tun_handlePacket_def isReturnByFlow_def isIPIP_def outer_header_fields Let_def split: option.split)



end
