(* ===== verification/Stun.thy ===== *)
theory Stun
  imports PeerMessage
begin

text \<open>
  \<^verbatim>\<open>netstack/stun.h\<close>: recognising a STUN message (RFC 5389, with the magic cookie) in a UDP
  payload and reading its class and its transaction id. The single-port multiplexer routes
  responses by that id.
\<close>

datatype StunClass = Request | Indication | SuccessResp | ErrorResp

definition StunClass_of :: "u16 \<Rightarrow> StunClass" where
  "StunClass_of c =
     (if c = 0 then Request else if c = 1 then Indication else if c = 2 then SuccessResp else ErrorResp)"

record StunInfo =
  klass :: StunClass
  stun_txid :: bytes

definition kStunMagicCookie :: u32 where
  "kStunMagicCookie = 0x2112A442"

text \<open>A 16-bit and a 32-bit field in network order, built by shifts as the code does.\<close>

definition stun_be16 :: "bytes \<Rightarrow> nat \<Rightarrow> u16" where
  "stun_be16 b i = push_bit 8 (ucast (rd8 b i)) OR ucast (rd8 b (i + 1))"

definition stun_be32 :: "bytes \<Rightarrow> nat \<Rightarrow> u32" where
  "stun_be32 b i = push_bit 24 (ucast (rd8 b i)) OR push_bit 16 (ucast (rd8 b (i + 1))) OR
     push_bit 8 (ucast (rd8 b (i + 2))) OR ucast (rd8 b (i + 3))"

definition stunParse :: "bytes \<Rightarrow> StunInfo option" where
  "stunParse b =
     (if length b < 20 then None
      else if rd8 b 0 AND 0xC0 \<noteq> 0 then None
      else if stun_be32 b 4 \<noteq> kStunMagicCookie then None
      else let msgLen = stun_be16 b 2
           in if msgLen AND 0x3 \<noteq> 0 then None
              else if unat msgLen + 20 \<noteq> length b then None
              else let type = stun_be16 b 0;
                       c1 = drop_bit 8 type AND 0x1;
                       c0 = drop_bit 4 type AND 0x1
                   in Some \<lparr>klass = StunClass_of (push_bit 1 c1 OR c0), stun_txid = slice 8 12 b\<rparr>)"

definition is_response :: "StunInfo \<Rightarrow> bool" where
  "is_response i \<longleftrightarrow> klass i = SuccessResp \<or> klass i = ErrorResp"

text \<open>The responses that answer a request: same transaction id.\<close>

definition answers :: "bytes \<Rightarrow> bytes \<Rightarrow> bool" where
  "answers x data \<longleftrightarrow> (case stunParse data of None \<Rightarrow> False | Some i \<Rightarrow> is_response i \<and> stun_txid i = x)"

definition requests :: "bytes \<Rightarrow> bytes \<Rightarrow> bool" where
  "requests x data \<longleftrightarrow> (case stunParse data of None \<Rightarrow> False | Some i \<Rightarrow> klass i = Request \<and> stun_txid i = x)"

lemma length_stun_txid: "stunParse b = Some i \<Longrightarrow> length (stun_txid i) = 12"
  by (auto simp: stunParse_def Let_def length_slice split: if_splits)

text \<open>The request the peer manager builds is one.\<close>

lemma StunRequest_is_request:
  "stunParse (StunRequest_bytes i0 i1 i2) =
     Some \<lparr>klass = Request, stun_txid = le_bytes 4 i0 @ le_bytes 4 i1 @ le_bytes 4 i2\<rparr>"
proof -
  let ?b = "StunRequest_bytes i0 i1 i2"
  have r: "rd8 ?b 0 = 0" "rd8 ?b (Suc 0) = 1" "rd8 ?b 2 = 0" "rd8 ?b 3 = 8" "rd8 ?b 4 = 0x21" "rd8 ?b 5 = 0x12"
    "rd8 ?b 6 = 0xa4" "rd8 ?b 7 = 0x42"
    by (simp_all add: StunRequest_bytes_def rd8_def nth_append)
  have l: "length ?b = 28" by (simp add: StunRequest_bytes_def)
  have x: "slice 8 12 ?b = le_bytes 4 i0 @ le_bytes 4 i1 @ le_bytes 4 i2"
    by (simp add: StunRequest_bytes_def slice_def numeral_eq_Suc)
  show ?thesis
    by (simp add: stunParse_def l x r stun_be16_def stun_be32_def kStunMagicCookie_def StunClass_of_def Let_def)
qed

end
