(* ===== verification/UdpMux.thy ===== *)
theory UdpMux
  imports Stun
begin

text \<open>
  \<^verbatim>\<open>netstack/udpmux.h\<close>, \<^verbatim>\<open>udpmux.cc\<close>: all UDP sources behind the gateway share one socket.
  Who gets an incoming datagram is decided by three tables: the remote endpoints, each owned
  by the source that sent to it first, the open STUN transactions, and the endpoints of every
  source. All operations run on the stack thread. The steady clock counts nanoseconds; an
  internal source is the byte string of its address and port.
\<close>

section \<open>State\<close>

record OwnerEntry =
  oe_owner :: bytes
  oe_lastActive :: int

record TxnEntry =
  tx_innerSrc :: bytes
  tx_createdAt :: int

text \<open>The inner sets of \<open>ownerEndpoints\<close> are duplicate-free lists.\<close>

record UdpMux =
  endpointOwner :: "(u64, OwnerEntry) table"
  stunTxn :: "(bytes, TxnEntry) table"
  ownerEndpoints :: "(bytes, u64 list) table"
  dropCollision :: u64
  dropTxidMiss :: u64
  dropEndpointMiss :: u64
  lastLoggedDrops :: u64
  lastDropWarn :: int
  mux_fd :: bool
  mux_closing :: bool

text \<open>
  What an operation hands on: a datagram for the shared socket, posted to the reactor thread,
  or a datagram for an internal source (\<^verbatim>\<open>NetStack::injectUdpReply\<close>).
\<close>

datatype mux_out = MuxSendTo u32 u16 bytes | InjectReply bytes u32 u16 bytes

definition mux_secs :: "int \<Rightarrow> int" where "mux_secs n = n * 1000000000"
definition kEndpointIdle :: int where "kEndpointIdle = mux_secs 30"
definition kStunTxnIdle :: int where "kStunTxnIdle = mux_secs 40"
definition kDropWarnInterval :: int where "kDropWarnInterval = mux_secs 1"

definition UdpMux_new :: UdpMux where
  "UdpMux_new = \<lparr>endpointOwner = [], stunTxn = [], ownerEndpoints = [], dropCollision = 0, dropTxidMiss = 0,
     dropEndpointMiss = 0, lastLoggedDrops = 0, lastDropWarn = 0, mux_fd = False, mux_closing = False\<rparr>"

definition endpointKey :: "u32 \<Rightarrow> u16 \<Rightarrow> u64" where
  "endpointKey ipBe portHost = push_bit 16 (ucast ipBe) OR ucast portHost"

section \<open>Operations\<close>

text \<open>\<open>dial\<close>: whether \<^verbatim>\<open>dialUdp\<close> got a socket.\<close>

definition mux_start :: "bool \<Rightarrow> UdpMux \<Rightarrow> UdpMux \<times> int" where
  "mux_start dial m = (if \<not> dial then (m, -1) else (m\<lparr>mux_fd := True\<rparr>, 0))"

text \<open>The task that \<open>shutdown\<close> posts closes the socket.\<close>

definition mux_shutdown :: "UdpMux \<Rightarrow> UdpMux" where
  "mux_shutdown m =
     (let m1 = m\<lparr>endpointOwner := [], stunTxn := [], ownerEndpoints := []\<rparr>
      in if \<not> mux_closing m1 then m1\<lparr>mux_closing := True, mux_fd := False\<rparr> else m1)"

definition index_insert :: "bytes \<Rightarrow> u64 \<Rightarrow> (bytes, u64 list) table \<Rightarrow> (bytes, u64 list) table" where
  "index_insert s k oe = tbl_put s (List.insert k (case map_of oe s of None \<Rightarrow> [] | Some S \<Rightarrow> S)) oe"

definition sendFromSource :: "int \<Rightarrow> bytes \<Rightarrow> u32 \<Rightarrow> u16 \<Rightarrow> bytes \<Rightarrow> UdpMux \<Rightarrow> UdpMux \<times> mux_out list" where
  "sendFromSource now innerSrc dstIpBe dstPortHost data m =
     (let k = endpointKey dstIpBe dstPortHost
      in case stunParse data of
           Some info \<Rightarrow>
             let m1 = (if klass info = Request
                       then m\<lparr>stunTxn := tbl_put (stun_txid info) \<lparr>tx_innerSrc = innerSrc, tx_createdAt = now\<rparr> (stunTxn m)\<rparr>
                       else m);
                 m2 = (case map_of (endpointOwner m1) k of
                         Some e \<Rightarrow> if oe_owner e = innerSrc
                                   then m1\<lparr>endpointOwner := tbl_put k (e\<lparr>oe_lastActive := now\<rparr>) (endpointOwner m1)\<rparr>
                                   else m1
                       | None \<Rightarrow> m1)
             in (m2, [MuxSendTo dstIpBe dstPortHost data])
         | None \<Rightarrow>
             (case map_of (endpointOwner m) k of
                None \<Rightarrow>
                  (m\<lparr>endpointOwner := tbl_put k \<lparr>oe_owner = innerSrc, oe_lastActive = now\<rparr> (endpointOwner m),
                     ownerEndpoints := index_insert innerSrc k (ownerEndpoints m)\<rparr>,
                   [MuxSendTo dstIpBe dstPortHost data])
              | Some e \<Rightarrow>
                  if oe_owner e \<noteq> innerSrc then (m\<lparr>dropCollision := dropCollision m + 1\<rparr>, [])
                  else (m\<lparr>endpointOwner := tbl_put k (e\<lparr>oe_lastActive := now\<rparr>) (endpointOwner m)\<rparr>,
                        [MuxSendTo dstIpBe dstPortHost data])))"

text \<open>The posted task: nothing is sent once the socket is closing.\<close>

definition mux_landing :: "UdpMux \<Rightarrow> mux_out \<Rightarrow> mux_out list" where
  "mux_landing m out =
     (case out of
        MuxSendTo ip port data \<Rightarrow> if mux_closing m \<or> \<not> mux_fd m then [] else [MuxSendTo ip port data]
      | InjectReply s ip port data \<Rightarrow> [InjectReply s ip port data])"

definition release_endpoint :: "bytes \<Rightarrow> u64 \<Rightarrow> (u64, OwnerEntry) table \<Rightarrow> (u64, OwnerEntry) table" where
  "release_endpoint innerSrc k eo =
     (case map_of eo k of
        Some e \<Rightarrow> if oe_owner e = innerSrc then tbl_erase k eo else eo
      | None \<Rightarrow> eo)"

definition onSourceGone :: "bytes \<Rightarrow> UdpMux \<Rightarrow> UdpMux" where
  "onSourceGone innerSrc m =
     (case map_of (ownerEndpoints m) innerSrc of
        None \<Rightarrow> m
      | Some S \<Rightarrow> m\<lparr>endpointOwner := fold (release_endpoint innerSrc) S (endpointOwner m),
                    ownerEndpoints := tbl_erase innerSrc (ownerEndpoints m)\<rparr>)"

definition warnDrop :: "int \<Rightarrow> UdpMux \<Rightarrow> UdpMux" where
  "warnDrop now m = (if now - lastDropWarn m < kDropWarnInterval then m else m\<lparr>lastDropWarn := now\<rparr>)"

definition index_remove :: "bytes \<Rightarrow> u64 \<Rightarrow> (bytes, u64 list) table \<Rightarrow> (bytes, u64 list) table" where
  "index_remove s k oe =
     (case map_of oe s of
        None \<Rightarrow> oe
      | Some S \<Rightarrow> if removeAll k S = [] then tbl_erase s oe else tbl_put s (removeAll k S) oe)"

definition endpoint_idle :: "int \<Rightarrow> OwnerEntry \<Rightarrow> bool" where
  "endpoint_idle now e \<longleftrightarrow> now - oe_lastActive e > kEndpointIdle"

text \<open>The pass over \<open>endpointOwner\<close>: what stays, and the reverse index.\<close>

fun reap_endpoints :: "int \<Rightarrow> (u64, OwnerEntry) table \<Rightarrow> (bytes, u64 list) table \<Rightarrow>
    (u64, OwnerEntry) table \<times> (bytes, u64 list) table" where
  "reap_endpoints now [] oe = ([], oe)"
| "reap_endpoints now ((k, e) # es) oe =
     (if endpoint_idle now e then reap_endpoints now es (index_remove (oe_owner e) k oe)
      else (let (es', oe') = reap_endpoints now es oe in ((k, e) # es', oe')))"

definition mux_reap :: "int \<Rightarrow> UdpMux \<Rightarrow> UdpMux" where
  "mux_reap now m =
     (let (eo, oe) = reap_endpoints now (endpointOwner m) (ownerEndpoints m);
          txn = tbl_keep (\<lambda>_ t. \<not> (now - tx_createdAt t > kStunTxnIdle)) (stunTxn m);
          total = dropCollision m + dropTxidMiss m + dropEndpointMiss m
      in m\<lparr>endpointOwner := eo, ownerEndpoints := oe, stunTxn := txn, lastLoggedDrops := total\<rparr>)"

definition demux :: "int \<Rightarrow> u32 \<Rightarrow> u16 \<Rightarrow> bytes \<Rightarrow> UdpMux \<Rightarrow> UdpMux \<times> mux_out list" where
  "demux now rIpBe rPortHost data m =
     (let k = endpointKey rIpBe rPortHost;
          by_endpoint = (case map_of (endpointOwner m) k of
             Some e \<Rightarrow> (m\<lparr>endpointOwner := tbl_put k (e\<lparr>oe_lastActive := now\<rparr>) (endpointOwner m)\<rparr>,
                        [InjectReply (oe_owner e) rIpBe rPortHost data])
           | None \<Rightarrow> (warnDrop now (m\<lparr>dropEndpointMiss := dropEndpointMiss m + 1\<rparr>), []))
      in case stunParse data of
           Some info \<Rightarrow>
             if klass info = SuccessResp \<or> klass info = ErrorResp
             then (case map_of (stunTxn m) (stun_txid info) of
                     Some t \<Rightarrow> (m\<lparr>stunTxn := tbl_erase (stun_txid info) (stunTxn m)\<rparr>,
                                [InjectReply (tx_innerSrc t) rIpBe rPortHost data])
                   | None \<Rightarrow> (warnDrop now (m\<lparr>dropTxidMiss := dropTxidMiss m + 1\<rparr>), []))
             else by_endpoint
         | None \<Rightarrow> by_endpoint)"

section \<open>Histories\<close>

text \<open>What the stack thread does with the multiplexer, each operation at its time.\<close>

datatype mux_op =
    OpSend bytes u32 u16 bytes
  | OpReceive u32 u16 bytes
  | OpGone bytes
  | OpReap
  | OpShutdown

definition mux_step :: "int \<Rightarrow> mux_op \<Rightarrow> UdpMux \<Rightarrow> UdpMux \<times> mux_out list" where
  "mux_step now op m =
     (case op of
        OpSend s ip port data \<Rightarrow> sendFromSource now s ip port data m
      | OpReceive ip port data \<Rightarrow> demux now ip port data m
      | OpGone s \<Rightarrow> (onSourceGone s m, [])
      | OpReap \<Rightarrow> (mux_reap now m, [])
      | OpShutdown \<Rightarrow> (mux_shutdown m, []))"

fun mux_run :: "(int \<times> mux_op) list \<Rightarrow> UdpMux \<Rightarrow> UdpMux" where
  "mux_run [] m = m"
| "mux_run ((now, op) # ops) m = mux_run ops (fst (mux_step now op m))"

fun mux_outs :: "(int \<times> mux_op) list \<Rightarrow> UdpMux \<Rightarrow> (mux_op \<times> mux_out list) list" where
  "mux_outs [] m = []"
| "mux_outs ((now, op) # ops) m = (op, snd (mux_step now op m)) # mux_outs ops (fst (mux_step now op m))"

lemma mux_run_append: "mux_run (p @ q) m = mux_run q (mux_run p m)"
  by (induction p m rule: mux_run.induct) auto

section \<open>The reverse index is exact\<close>

definition indexed :: "(bytes, u64 list) table \<Rightarrow> bytes \<Rightarrow> u64 set" where
  "indexed oe s = (case map_of oe s of None \<Rightarrow> {} | Some S \<Rightarrow> set S)"

definition owned :: "(u64, OwnerEntry) table \<Rightarrow> bytes \<Rightarrow> u64 set" where
  "owned eo s = {k. \<exists>e. map_of eo k = Some e \<and> oe_owner e = s}"

definition mux_inv :: "UdpMux \<Rightarrow> bool" where
  "mux_inv m \<longleftrightarrow> tbl_ok (endpointOwner m) \<and> tbl_ok (stunTxn m) \<and>
     (\<forall>s. indexed (ownerEndpoints m) s = owned (endpointOwner m) s)"

lemma indexed_insert: "indexed (index_insert s k oe) s' = (if s' = s then insert k (indexed oe s) else indexed oe s')"
  by (auto simp: indexed_def index_insert_def table_simps split: option.splits)

lemma indexed_remove: "indexed (index_remove s k oe) s' = (if s' = s then indexed oe s - {k} else indexed oe s')"
  by (auto simp: indexed_def index_remove_def table_simps removeAll_filter_not_eq filter_empty_conv
      split: option.splits if_splits)

lemma indexed_erase: "indexed (tbl_erase s oe) s' = (if s' = s then {} else indexed oe s')"
  by (simp add: indexed_def table_simps)

lemma owned_put: "owned (tbl_put k e eo) s = (if oe_owner e = s then insert k (owned eo s) else owned eo s - {k})"
  by (auto simp: owned_def table_simps)

lemma owned_touch:
  "map_of eo k = Some e \<Longrightarrow> owned (tbl_put k (e\<lparr>oe_lastActive := now\<rparr>) eo) s = owned eo s"
  by (auto simp: owned_def table_simps)

lemma map_of_release:
  "map_of (fold (release_endpoint s) S eo) k =
     (if k \<in> set S \<and> k \<in> owned eo s then None else map_of eo k)"
proof (induction S arbitrary: eo)
  case Nil
  then show ?case by simp
next
  case (Cons j S)
  have "map_of (release_endpoint s j eo) k = (if k = j \<and> k \<in> owned eo s then None else map_of eo k)"
    and "k \<in> owned (release_endpoint s j eo) s \<longleftrightarrow> k \<noteq> j \<and> k \<in> owned eo s"
    by (auto simp: release_endpoint_def owned_def table_simps split: option.splits)
  then show ?case using Cons.IH [of "release_endpoint s j eo"] by auto
qed

lemma tbl_ok_release: "tbl_ok eo \<Longrightarrow> tbl_ok (fold (release_endpoint s) S eo)"
  by (induction S arbitrary: eo) (simp_all add: release_endpoint_def tbl.invar_erase split: option.split)

lemma reap_endpoints_fst: "fst (reap_endpoints now es oe) = tbl_keep (\<lambda>_ e. \<not> endpoint_idle now e) es"
  by (induction now es oe rule: reap_endpoints.induct) (auto simp: tbl_keep_def case_prod_unfold Let_def)

lemma reap_endpoints_snd:
  "indexed (snd (reap_endpoints now es oe)) s =
     indexed oe s - {k. \<exists>e. (k, e) \<in> set es \<and> endpoint_idle now e \<and> oe_owner e = s}"
  by (induction now es oe rule: reap_endpoints.induct)
    (auto simp: case_prod_unfold Let_def indexed_remove)

lemma map_of_reaped:
  "tbl_ok eo \<Longrightarrow> map_of (fst (reap_endpoints now eo oe)) k =
     (case map_of eo k of None \<Rightarrow> None | Some e \<Rightarrow> if endpoint_idle now e then None else Some e)"
  by (auto simp: reap_endpoints_fst tbl.find_keep split: option.split)

lemma mux_inv_new: "mux_inv UdpMux_new"
  by (simp add: mux_inv_def UdpMux_new_def tbl_ok_def indexed_def owned_def)

lemma mux_inv_send: "mux_inv m \<Longrightarrow> mux_inv (fst (sendFromSource now s ip port data m))"
  by (auto simp: mux_inv_def sendFromSource_def Let_def tbl.invar_put owned_touch owned_put indexed_insert
      split: option.split)
    (auto simp: owned_def)

lemma mux_inv_demux: "mux_inv m \<Longrightarrow> mux_inv (fst (demux now ip port data m))"
  by (auto simp: mux_inv_def demux_def warnDrop_def Let_def tbl.invar_put tbl.invar_erase owned_touch
      split: option.split)

lemma mux_inv_gone:
  assumes "mux_inv m"
  shows "mux_inv (onSourceGone s m) \<and> owned (endpointOwner (onSourceGone s m)) s = {}"
proof (cases "map_of (ownerEndpoints m) s")
  case None
  moreover have "owned (endpointOwner m) s = indexed (ownerEndpoints m) s"
    using assms by (simp add: mux_inv_def)
  ultimately have "owned (endpointOwner m) s = {}" by (simp add: indexed_def)
  then show ?thesis using None assms by (simp add: onSourceGone_def)
next
  case (Some S)
  moreover have "owned (endpointOwner m) s = indexed (ownerEndpoints m) s"
    using assms by (simp add: mux_inv_def)
  ultimately have S: "owned (endpointOwner m) s = set S" by (simp add: indexed_def)
  have "owned (fold (release_endpoint s) S (endpointOwner m)) s' = (if s' = s then {} else owned (endpointOwner m) s')" for s'
  proof -
    have "j \<in> set S \<longleftrightarrow> (\<exists>e. map_of (endpointOwner m) j = Some e \<and> oe_owner e = s)" for j
      using S [symmetric] by (simp add: owned_def)
    then show ?thesis by (auto simp: owned_def map_of_release)
  qed
  then show ?thesis
    using Some assms by (simp add: onSourceGone_def mux_inv_def indexed_erase tbl_ok_release)
qed

lemma mux_inv_reap:
  assumes "mux_inv m"
  shows "mux_inv (mux_reap now m)"
proof -
  let ?r = "reap_endpoints now (endpointOwner m) (ownerEndpoints m)"
  have ok: "tbl_ok (endpointOwner m)" using assms by (simp add: mux_inv_def)
  have "indexed (snd ?r) s = owned (fst ?r) s" for s
  proof -
    have i: "indexed (ownerEndpoints m) s = owned (endpointOwner m) s"
      using assms by (simp add: mux_inv_def)
    have "k \<in> indexed (snd ?r) s \<longleftrightarrow> k \<in> owned (fst ?r) s" for k
      by (cases "map_of (endpointOwner m) k")
        (auto simp: reap_endpoints_snd tbl_ok_in_set [OF ok] i owned_def map_of_reaped [OF ok])
    then show ?thesis by blast
  qed
  then show ?thesis
    using assms
    by (simp add: mux_inv_def mux_reap_def case_prod_unfold Let_def reap_endpoints_fst tbl.invar_keep)
qed

lemma mux_inv_step: "mux_inv m \<Longrightarrow> mux_inv (fst (mux_step now op m))"
  using mux_inv_gone [of m]
  by (cases op)
    (simp_all add: mux_step_def mux_inv_send mux_inv_demux mux_inv_reap,
     simp_all add: mux_shutdown_def mux_inv_def tbl_ok_def indexed_def owned_def Let_def)

lemma mux_inv_run: "mux_inv m \<Longrightarrow> mux_inv (mux_run ops m)"
  by (induction ops m rule: mux_run.induct) (simp_all add: mux_inv_step)

text \<open>In every history of sends, datagrams, expiries and departures of sources, the set of
  endpoints listed for a source is exactly the set of endpoints it owns, so that when a source
  goes away none of its endpoints stays behind to block another source, and no endpoint of
  another source is freed with it.\<close>

theorem departing_source_frees_its_endpoints:
  "indexed (ownerEndpoints (mux_run ops UdpMux_new)) s' = owned (endpointOwner (mux_run ops UdpMux_new)) s' \<and>
   owned (endpointOwner (onSourceGone s (mux_run ops UdpMux_new))) s' =
     (if s' = s then {} else owned (endpointOwner (mux_run ops UdpMux_new)) s')"
proof -
  let ?m = "mux_run ops UdpMux_new"
  have inv: "mux_inv ?m" by (rule mux_inv_run [OF mux_inv_new])
  then have i: "indexed (ownerEndpoints ?m) s' = owned (endpointOwner ?m) s'"
    by (simp add: mux_inv_def)
  have "indexed (ownerEndpoints (onSourceGone s ?m)) s' = owned (endpointOwner (onSourceGone s ?m)) s'"
    using mux_inv_gone [OF inv, of s] by (simp add: mux_inv_def)
  moreover have "indexed (ownerEndpoints (onSourceGone s ?m)) s' = (if s' = s then {} else indexed (ownerEndpoints ?m) s')"
    by (auto simp: onSourceGone_def indexed_erase split: option.split) (auto simp: indexed_def)
  ultimately show ?thesis using i by (cases "s' = s") simp_all
qed

section \<open>First come, first served\<close>

text \<open>
  \<open>alive s k t ops\<close>: the endpoint \<open>k\<close> of \<open>s\<close>, last active at \<open>t\<close>, is kept through \<open>ops\<close>: no
  expiry pass finds it idle for more than 30 s, its owner stays, the multiplexer runs. Sends of
  \<open>s\<close> to \<open>k\<close> and datagrams from \<open>k\<close> other than STUN responses renew it.
\<close>

definition renews :: "bytes \<Rightarrow> u64 \<Rightarrow> mux_op \<Rightarrow> bool" where
  "renews s k op =
     (case op of
        OpSend s' ip port data \<Rightarrow> s' = s \<and> endpointKey ip port = k
      | OpReceive ip port data \<Rightarrow> endpointKey ip port = k \<and>
          (case stunParse data of None \<Rightarrow> True | Some i \<Rightarrow> \<not> is_response i)
      | _ \<Rightarrow> False)"

fun alive :: "bytes \<Rightarrow> u64 \<Rightarrow> int \<Rightarrow> (int \<times> mux_op) list \<Rightarrow> bool" where
  "alive s k t [] = True"
| "alive s k t ((now, op) # ops) =
     ((op = OpReap \<longrightarrow> now - t \<le> kEndpointIdle) \<and> op \<noteq> OpGone s \<and> op \<noteq> OpShutdown \<and>
      alive s k (if renews s k op then now else t) ops)"

definition holds_endpoint :: "bytes \<Rightarrow> u64 \<Rightarrow> int \<Rightarrow> UdpMux \<Rightarrow> bool" where
  "holds_endpoint s k t m \<longleftrightarrow> map_of (endpointOwner m) k = Some \<lparr>oe_owner = s, oe_lastActive = t\<rparr>"

lemma holds_send:
  "holds_endpoint s k t m \<Longrightarrow>
   holds_endpoint s k (if renews s k (OpSend s' ip port data) then now else t) (fst (sendFromSource now s' ip port data m))"
  by (auto simp: holds_endpoint_def sendFromSource_def renews_def Let_def table_simps split: option.split)

lemma holds_demux:
  "holds_endpoint s k t m \<Longrightarrow>
   holds_endpoint s k (if renews s k (OpReceive ip port data) then now else t) (fst (demux now ip port data m))"
  by (auto simp: holds_endpoint_def demux_def renews_def is_response_def warnDrop_def Let_def table_simps
      split: option.split)

lemma holds_gone: "holds_endpoint s k t m \<Longrightarrow> s' \<noteq> s \<Longrightarrow> holds_endpoint s k t (onSourceGone s' m)"
  by (auto simp: holds_endpoint_def onSourceGone_def map_of_release owned_def split: option.split)

lemma holds_reap:
  "mux_inv m \<Longrightarrow> holds_endpoint s k t m \<Longrightarrow> now - t \<le> kEndpointIdle \<Longrightarrow> holds_endpoint s k t (mux_reap now m)"
  by (simp add: holds_endpoint_def mux_reap_def mux_inv_def case_prod_unfold Let_def map_of_reaped endpoint_idle_def)

lemma holds_step:
  assumes "mux_inv m" and "holds_endpoint s k t m" and "alive s k t [(now, op)]"
  shows "holds_endpoint s k (if renews s k op then now else t) (fst (mux_step now op m))"
  using assms holds_send [OF assms(2)] holds_demux [OF assms(2)] holds_gone [OF assms(2)]
    holds_reap [OF assms(1,2), of now]
  by (cases op) (simp_all add: mux_step_def renews_def)

lemma holds_run:
  "mux_inv m \<Longrightarrow> holds_endpoint s k t m \<Longrightarrow> alive s k t ops \<Longrightarrow>
   \<exists>t'. holds_endpoint s k t' (mux_run ops m)"
proof (induction ops arbitrary: m t)
  case Nil
  then show ?case by auto
next
  case (Cons p ops)
  obtain now op where [simp]: "p = (now, op)" by (cases p)
  show ?case
    using Cons.IH [OF mux_inv_step [OF Cons.prems(1)] holds_step [OF Cons.prems(1,2)]] Cons.prems(3)
    by simp
qed

lemma alive_append: "alive s k t (p @ q) \<Longrightarrow> alive s k t p"
  by (induction s k t p rule: alive.induct) auto

lemma endpointKey_inject:
  "endpointKey ip port = endpointKey ip' port' \<longleftrightarrow> ip = ip' \<and> port = port'"
proof
  assume e: "endpointKey ip port = endpointKey ip' port'"
  have b: "bit (endpointKey i p) n \<longleftrightarrow> (if n < 16 then bit p n else n < 64 \<and> bit i (n - 16))" for i p n
    by (auto simp: endpointKey_def bit_or_iff bit_push_bit_iff bit_ucast_iff dest: bit_imp_le_length)
  have "bit port n = bit port' n" if "n < 16" for n
    using b [of ip port n] b [of ip' port' n] e that by simp
  moreover have "bit ip n = bit ip' n" if "n < 32" for n
    using b [of ip port "n + 16"] b [of ip' port' "n + 16"] e that by simp
  ultimately show "ip = ip' \<and> port = port'"
    by (auto intro!: bit_word_eqI)
qed simp

lemma first_send:
  assumes "stunParse data = None" and "map_of (endpointOwner m) (endpointKey ip port) = None"
  shows "holds_endpoint s (endpointKey ip port) now (fst (sendFromSource now s ip port data m)) \<and>
    snd (sendFromSource now s ip port data m) = [MuxSendTo ip port data]"
  using assms by (simp add: sendFromSource_def holds_endpoint_def Let_def table_simps)

lemma held_send:
  assumes "holds_endpoint s (endpointKey ip port) t m" and "stunParse data = None"
  shows "snd (sendFromSource now s' ip port data m) = (if s' = s then [MuxSendTo ip port data] else [])"
  using assms by (simp add: sendFromSource_def holds_endpoint_def Let_def)

lemma held_receive:
  assumes "holds_endpoint s (endpointKey ip port) t m" and "\<not> (\<exists>x. answers x data)"
  shows "snd (demux now ip port data m) = [InjectReply s ip port data]"
  using assms by (auto simp: demux_def holds_endpoint_def Let_def answers_def is_response_def split: option.split)

text \<open>C21: once a source has sent a data packet to a free endpoint, and as long as the endpoint is
  renewed at least every 30 s and the source stays, only that source's data packets go there
  (other sources' are dropped) and whatever comes from there, except STUN responses, goes to
  that source and to no other, whatever the other sources do meanwhile.\<close>

theorem first_come_first_served:
  assumes "stunParse first = None"
    and "map_of (endpointOwner (mux_run before UdpMux_new)) (endpointKey ip port) = None"
    and "alive s (endpointKey ip port) now ops"
  shows "let m = mux_run (before @ (now, OpSend s ip port first) # ops) UdpMux_new in
    (\<forall>data s'. stunParse data = None \<longrightarrow>
       snd (sendFromSource now' s' ip port data m) = (if s' = s then [MuxSendTo ip port data] else [])) \<and>
    (\<forall>data. (\<nexists>x. answers x data) \<longrightarrow> snd (demux now' ip port data m) = [InjectReply s ip port data])"
proof -
  let ?b = "mux_run before UdpMux_new"
  let ?m = "mux_run (before @ (now, OpSend s ip port first) # ops) UdpMux_new"
  have inv: "mux_inv ?b" by (rule mux_inv_run [OF mux_inv_new])
  have "holds_endpoint s (endpointKey ip port) now (fst (sendFromSource now s ip port first ?b))"
    using first_send [OF assms(1,2)] by blast
  from holds_run [OF mux_inv_send [OF inv] this assms(3)]
  obtain t where "holds_endpoint s (endpointKey ip port) t ?m"
    by (auto simp: mux_run_append mux_step_def)
  then show ?thesis
    using held_send held_receive by (simp add: Let_def)
qed

text \<open>Two sources behind the gateway, a remote endpoint 9.9.9.9:7000 (port in host order).\<close>

definition demo_src :: "u8 \<Rightarrow> bytes" where
  "demo_src n = [192, 168, 1, n, 16, 39]"

definition demo_history :: "(int \<times> mux_op) list" where
  "demo_history =
     [(mux_secs 10, OpReceive 0x09090909 7000 [9]), (mux_secs 25, OpSend (demo_src 6) 0x09090909 7000 [2]),
      (mux_secs 30, OpReap), (mux_secs 31, OpGone (demo_src 6))]"

theorem first_come_first_served_witness:
  "snd (sendFromSource (mux_secs 32) (demo_src 6) 0x09090909 7000 [7]
      (mux_run ([] @ (0, OpSend (demo_src 5) 0x09090909 7000 [1]) # demo_history) UdpMux_new)) = [] \<and>
   snd (demux (mux_secs 33) 0x09090909 7000 [8]
      (mux_run ([] @ (0, OpSend (demo_src 5) 0x09090909 7000 [1]) # demo_history) UdpMux_new)) =
     [InjectReply (demo_src 5) 0x09090909 7000 [8]]"
proof -
  have h: "stunParse [1] = None" "map_of (endpointOwner (mux_run [] UdpMux_new)) (endpointKey 0x09090909 7000) = None"
    "alive (demo_src 5) (endpointKey 0x09090909 7000) 0 demo_history"
    "stunParse [7] = None" "demo_src 6 \<noteq> demo_src 5"
    by code_simp+
  have "\<nexists>x. answers x [8]" by (simp add: answers_def stunParse_def)
  then show ?thesis
    using first_come_first_served [OF h(1-3), of "mux_secs 32"] first_come_first_served [OF h(1-3), of "mux_secs 33"]
      h(4,5)
    by (simp add: Let_def)
qed

section \<open>STUN transactions\<close>

text \<open>
  \<open>pending x s t ops\<close>: the transaction \<open>x\<close> that \<open>s\<close> opened at \<open>t\<close> survives \<open>ops\<close>: no other source
  sends a request with the same id, no response with it arrives, and no expiry pass comes more
  than 40 s after the last (re)transmission of the request.
\<close>

fun pending :: "bytes \<Rightarrow> bytes \<Rightarrow> int \<Rightarrow> (int \<times> mux_op) list \<Rightarrow> bool" where
  "pending x s t [] = True"
| "pending x s t ((now, op) # ops) =
     (case op of
        OpSend s' ip port data \<Rightarrow> if requests x data then s' = s \<and> pending x s now ops else pending x s t ops
      | OpReceive ip port data \<Rightarrow> \<not> answers x data \<and> pending x s t ops
      | OpReap \<Rightarrow> now - t \<le> kStunTxnIdle \<and> pending x s t ops
      | OpGone s' \<Rightarrow> pending x s t ops
      | OpShutdown \<Rightarrow> False)"

definition open_txn :: "bytes \<Rightarrow> bytes \<Rightarrow> int \<Rightarrow> UdpMux \<Rightarrow> bool" where
  "open_txn x s t m \<longleftrightarrow> map_of (stunTxn m) x = Some \<lparr>tx_innerSrc = s, tx_createdAt = t\<rparr>"

lemma txn_request:
  "requests x data \<Longrightarrow> open_txn x s now (fst (sendFromSource now s ip port data m)) \<and>
     snd (sendFromSource now s ip port data m) = [MuxSendTo ip port data]"
  by (auto simp: requests_def open_txn_def sendFromSource_def Let_def table_simps split: option.splits)

lemma txn_send:
  "open_txn x s t m \<Longrightarrow> \<not> requests x data \<Longrightarrow> open_txn x s t (fst (sendFromSource now s' ip port data m))"
  by (auto simp: requests_def open_txn_def sendFromSource_def Let_def table_simps split: option.splits)

lemma txn_demux:
  "open_txn x s t m \<Longrightarrow> \<not> answers x data \<Longrightarrow> open_txn x s t (fst (demux now ip port data m))"
  by (auto simp: answers_def is_response_def open_txn_def demux_def warnDrop_def Let_def table_simps
      split: option.splits)

lemma txn_reap:
  "mux_inv m \<Longrightarrow> open_txn x s t m \<Longrightarrow> now - t \<le> kStunTxnIdle \<Longrightarrow> open_txn x s t (mux_reap now m)"
  by (simp add: open_txn_def mux_reap_def mux_inv_def case_prod_unfold Let_def tbl.find_keep)

lemma txn_gone: "open_txn x s t m \<Longrightarrow> open_txn x s t (onSourceGone s' m)"
  by (simp add: open_txn_def onSourceGone_def split: option.split)

lemma txn_run:
  "mux_inv m \<Longrightarrow> open_txn x s t m \<Longrightarrow> pending x s t ops \<Longrightarrow> \<exists>t'. open_txn x s t' (mux_run ops m)"
proof (induction ops arbitrary: m t)
  case Nil
  then show ?case by auto
next
  case (Cons p ops)
  obtain now op where [simp]: "p = (now, op)" by (cases p)
  have "\<exists>t1. open_txn x s t1 (fst (mux_step now op m)) \<and> pending x s t1 ops"
    using Cons.prems
    by (cases op; simp add: mux_step_def split: if_splits;
        meson conjunct1 [OF txn_request] txn_send txn_demux txn_reap txn_gone)
  then obtain t1 where "open_txn x s t1 (fst (mux_step now op m))" "pending x s t1 ops"
    by blast
  from Cons.IH [OF mux_inv_step [OF Cons.prems(1)] this] show ?case by simp
qed

lemma txn_response:
  assumes "open_txn x s t m" and "answers x data"
  shows "snd (demux now ip port data m) = [InjectReply s ip port data] \<and>
    snd (demux now' ip' port' data (fst (demux now ip port data m))) = []"
proof -
  obtain i where i: "stunParse data = Some i" "klass i = SuccessResp \<or> klass i = ErrorResp" "stun_txid i = x"
    using assms(2) by (auto simp: answers_def is_response_def split: option.splits)
  have "demux now ip port data m = (m\<lparr>stunTxn := tbl_erase x (stunTxn m)\<rparr>, [InjectReply s ip port data])"
    using assms(1) i by (simp add: demux_def open_txn_def Let_def)
  moreover have "map_of (stunTxn n) x = None \<Longrightarrow> snd (demux now' ip' port' data n) = []" for n
    using i by (simp add: demux_def Let_def)
  ultimately show ?thesis by (simp add: table_simps)
qed

text \<open>A STUN request always leaves, whoever owns the endpoint it goes to; its response, from
  whatever endpoint it comes and whatever happened in between, is injected for the source that
  sent the request, exactly once: a repetition of the response is dropped.\<close>

theorem stun_response_returns:
  assumes "requests x request" and "pending x s now ops" and "answers x response"
  shows "let m0 = mux_run before UdpMux_new;
      m = mux_run ops (fst (sendFromSource now s ip port request m0)) in
    snd (sendFromSource now s ip port request m0) = [MuxSendTo ip port request] \<and>
    snd (demux now' rip rport response m) = [InjectReply s rip rport response] \<and>
    snd (demux now'' rip' rport' response (fst (demux now' rip rport response m))) = []"
proof -
  let ?b = "mux_run before UdpMux_new"
  have inv: "mux_inv ?b" by (rule mux_inv_run [OF mux_inv_new])
  obtain t where "open_txn x s t (mux_run ops (fst (sendFromSource now s ip port request ?b)))"
    using txn_run [OF mux_inv_send [OF inv] conjunct1 [OF txn_request [OF assms(1)]] assms(2)] by blast
  then show ?thesis
    using txn_request [OF assms(1)] txn_response [OF _ assms(3)] by (simp add: Let_def)
qed

definition demo_stun :: "u8 \<Rightarrow> bytes" where
  "demo_stun ty = [ty, 1, 0, 0, 0x21, 0x12, 0xa4, 0x42, 1, 2, 3, 4, 5, 6, 7, 8, 9, 10, 11, 12]"

theorem stun_response_returns_witness:
  "snd (demux (mux_secs 2) 0x08080808 3478 (demo_stun 1)
     (mux_run [(mux_secs 1, OpSend (demo_src 6) 0x08080808 3478 [1, 2])]
        (fst (sendFromSource 0 (demo_src 5) 0x08080808 3478 (demo_stun 0) (mux_run [] UdpMux_new))))) =
   [InjectReply (demo_src 5) 0x08080808 3478 (demo_stun 1)]"
proof -
  have h: "requests [1, 2, 3, 4, 5, 6, 7, 8, 9, 10, 11, 12] (demo_stun 0)"
    "pending [1, 2, 3, 4, 5, 6, 7, 8, 9, 10, 11, 12] (demo_src 5) 0
       [(mux_secs 1, OpSend (demo_src 6) 0x08080808 3478 [1, 2])]"
    "answers [1, 2, 3, 4, 5, 6, 7, 8, 9, 10, 11, 12] (demo_stun 1)"
    by code_simp+
  show ?thesis
    using stun_response_returns [OF h, of "[]"] by (simp add: Let_def)
qed

end
