(* ===== verification/NetStack.thy ===== *)
theory NetStack
  imports Tun UdpMux
begin

text \<open>
  \<^verbatim>\<open>netstack/netstack.h\<close>, \<^verbatim>\<open>netstack.cc\<close>, \<^verbatim>\<open>session_udp.h\<close>, \<^verbatim>\<open>session_udp.cc\<close>: the userspace
  stack of a gateway, as far as UDP goes. Tunnelled packets are stripped and fed to lwIP, which
  ends the flows; every UDP source behind a peer gateway gets a session, with a socket of its
  own (full cone) or, in converged mode, the shared socket of the multiplexer; packets lwIP
  produces go back through the tunnel to the gateway the source was last seen behind. lwIP and
  the sockets are not part of the sources: calls into them are effects, their callbacks and
  their results are inputs. The steady clock counts nanoseconds.
\<close>

section \<open>State\<close>

text \<open>\<open>us_pcb\<close>: the lwIP control block is held; \<open>us_fd\<close>: the session's own socket is open.\<close>

record SessionUdp =
  us_pcb :: bool
  us_fd :: bool
  us_converged :: bool
  us_origSrc :: ip4
  us_origSrcPort :: u16
  us_key :: bytes
  us_lastActive :: int
  us_closing :: bool

record PeerEntry =
  pe_peer :: ip4
  pe_lastSeen :: int

record NetStack =
  vnetPeerMap :: "(u32, PeerEntry) table"
  udpSessions :: "(bytes, SessionUdp) table"
  udpMux :: "UdpMux option"
  ns_running :: bool
  lwipNetif_mtu :: u16
  ns_lastReap :: int

record ns_env =
  ne_address :: ip4
  ne_converged :: bool
  ne_dial :: bool
  ne_alloc :: bool
  ne_mtu :: int

text \<open>
  \<open>LwipReply peer src data\<close>: the datagram goes into lwIP with the remote endpoint as source and
  the internal source as destination. \<open>Landing\<close> and \<open>MuxOut\<close> are the sends posted to the
  reactor; \<open>PcbRemove\<close> frees a control block that got no session.
\<close>

datatype ns_effect =
    LwipInput bytes
  | LwipReply "u32 \<times> u16" "ip4 \<times> u16" bytes
  | Landing bytes u32 u16 bytes
  | MuxOut mux_out
  | ToPeerQueue msg
  | PcbRemove
  | SessionShutdown bytes
  | NsClientShutdown

type_synonym ns_out = "NetStack \<times> ns_effect list"

definition NetStack_new :: NetStack where
  "NetStack_new = \<lparr>vnetPeerMap = [], udpSessions = [], udpMux = None, ns_running = False, lwipNetif_mtu = 0,
     ns_lastReap = 0\<rparr>"

section \<open>UDP sessions\<close>

definition udp_key :: "ip4 \<Rightarrow> u16 \<Rightarrow> bytes" where
  "udp_key origSrc origSrcPort = raw origSrc @ le_bytes 2 origSrcPort"

definition SessionUdp_new :: "int \<Rightarrow> ip4 \<Rightarrow> u16 \<Rightarrow> bool \<Rightarrow> SessionUdp" where
  "SessionUdp_new now origSrc origSrcPort converged =
     \<lparr>us_pcb = True, us_fd = False, us_converged = converged, us_origSrc = origSrc, us_origSrcPort = origSrcPort,
      us_key = udp_key origSrc origSrcPort, us_lastActive = now, us_closing = False\<rparr>"

definition udp_session_start :: "ns_env \<Rightarrow> SessionUdp \<Rightarrow> SessionUdp \<times> int" where
  "udp_session_start E s =
     (if us_converged s then (s, 0)
      else if \<not> ne_dial E then (s, -1)
      else (s\<lparr>us_fd := True\<rparr>, 0))"

definition put_session :: "bytes \<Rightarrow> SessionUdp \<Rightarrow> NetStack \<Rightarrow> NetStack" where
  "put_session k s ns = ns\<lparr>udpSessions := tbl_put k s (udpSessions ns)\<rparr>"

definition sendToLanding :: "int \<Rightarrow> bytes \<Rightarrow> u32 \<Rightarrow> u16 \<Rightarrow> bytes \<Rightarrow> SessionUdp \<Rightarrow> SessionUdp \<times> ns_effect list" where
  "sendToLanding now key dstIpBe dstPortHost data s =
     (s\<lparr>us_lastActive := now\<rparr>, [Landing key dstIpBe dstPortHost data])"

text \<open>The posted task.\<close>

definition udp_landing :: "SessionUdp \<Rightarrow> ns_effect \<Rightarrow> ns_effect list" where
  "udp_landing s fx = (if us_closing s \<or> \<not> us_fd s then [] else [fx])"

definition sendUdpConverged :: "int \<Rightarrow> bytes \<Rightarrow> u32 \<Rightarrow> u16 \<Rightarrow> bytes \<Rightarrow> NetStack \<Rightarrow> ns_out" where
  "sendUdpConverged now innerSrc dstIpBe dstPortHost data ns =
     (case udpMux ns of
        None \<Rightarrow> (ns, [])
      | Some m \<Rightarrow> (let (m', outs) = sendFromSource now innerSrc dstIpBe dstPortHost data m
                   in (ns\<lparr>udpMux := Some m'\<rparr>, map MuxOut outs)))"

definition onUdpSourceGone :: "bytes \<Rightarrow> NetStack \<Rightarrow> NetStack" where
  "onUdpSourceGone innerSrc ns =
     (case udpMux ns of None \<Rightarrow> ns | Some m \<Rightarrow> ns\<lparr>udpMux := Some (onSourceGone innerSrc m)\<rparr>)"

definition removeUdpSession :: "bytes \<Rightarrow> NetStack \<Rightarrow> NetStack" where
  "removeUdpSession key ns = ns\<lparr>udpSessions := tbl_erase key (udpSessions ns)\<rparr>"

text \<open>lwIP calls back only for a control block that a session registered.\<close>

definition onPcbRecv :: "int \<Rightarrow> bytes \<Rightarrow> u32 \<Rightarrow> u16 \<Rightarrow> bytes \<Rightarrow> NetStack \<Rightarrow> ns_out" where
  "onPcbRecv now key dstIpBe dstPortHost data ns =
     (case map_of (udpSessions ns) key of
        None \<Rightarrow> (ns, [])
      | Some s \<Rightarrow>
          let s1 = s\<lparr>us_lastActive := now\<rparr>
          in if us_converged s1 then sendUdpConverged now key dstIpBe dstPortHost data (put_session key s1 ns)
             else (let (s2, fx) = sendToLanding now key dstIpBe dstPortHost data s1
                   in (put_session key s2 ns, fx)))"

text \<open>The length passes through 16 bits.\<close>

definition replyToLwip :: "ns_env \<Rightarrow> int \<Rightarrow> u32 \<Rightarrow> u16 \<Rightarrow> bytes \<Rightarrow> SessionUdp \<Rightarrow> SessionUdp \<times> ns_effect list" where
  "replyToLwip E now peerIpBe peerPortHost data s =
     (if \<not> us_pcb s then (s, [])
      else (s\<lparr>us_lastActive := now\<rparr>,
            if \<not> ne_alloc E then []
            else [LwipReply (peerIpBe, peerPortHost) (us_origSrc s, us_origSrcPort s) (take (length data mod 65536) data)]))"

definition injectUdpReply :: "ns_env \<Rightarrow> int \<Rightarrow> bytes \<Rightarrow> u32 \<Rightarrow> u16 \<Rightarrow> bytes \<Rightarrow> NetStack \<Rightarrow> ns_out" where
  "injectUdpReply E now innerSrc rIpBe rPortHost data ns =
     (case map_of (udpSessions ns) innerSrc of
        None \<Rightarrow> (ns, [])
      | Some s \<Rightarrow> (let (s', fx) = replyToLwip E now rIpBe rPortHost data s in (put_session innerSrc s' ns, fx)))"

definition run_mux_out :: "ns_env \<Rightarrow> int \<Rightarrow> mux_out \<Rightarrow> NetStack \<Rightarrow> ns_out" where
  "run_mux_out E now out ns =
     (case out of
        MuxSendTo ip port data \<Rightarrow> (ns, [MuxOut out])
      | InjectReply s ip port data \<Rightarrow> injectUdpReply E now s ip port data ns)"

fun run_mux_outs :: "ns_env \<Rightarrow> int \<Rightarrow> mux_out list \<Rightarrow> NetStack \<Rightarrow> ns_out" where
  "run_mux_outs E now [] ns = (ns, [])"
| "run_mux_outs E now (out # outs) ns =
     (let (ns1, fx1) = run_mux_out E now out ns; (ns2, fx2) = run_mux_outs E now outs ns1 in (ns2, fx1 @ fx2))"

text \<open>A datagram on the shared socket, handed to the stack thread.\<close>

definition ns_demux :: "ns_env \<Rightarrow> int \<Rightarrow> u32 \<Rightarrow> u16 \<Rightarrow> bytes \<Rightarrow> NetStack \<Rightarrow> ns_out" where
  "ns_demux E now rIpBe rPortHost data ns =
     (case udpMux ns of
        None \<Rightarrow> (ns, [])
      | Some m \<Rightarrow> (let (m', outs) = demux now rIpBe rPortHost data m
                   in run_mux_outs E now outs (ns\<lparr>udpMux := Some m'\<rparr>)))"

definition shutdownFromStack :: "SessionUdp \<Rightarrow> SessionUdp" where
  "shutdownFromStack s =
     (let s1 = s\<lparr>us_pcb := False\<rparr>
      in if \<not> us_closing s1 then s1\<lparr>us_closing := True, us_fd := False\<rparr> else s1)"

text \<open>\<open>closeFromReactor\<close> tells whether it posts \<open>closeFromStack\<close>.\<close>

definition closeFromReactor :: "SessionUdp \<Rightarrow> SessionUdp \<times> bool" where
  "closeFromReactor s =
     (if us_closing s then (s, False)
      else (s\<lparr>us_closing := True, us_fd := False\<rparr>, us_pcb s))"

definition closeFromStack :: "bytes \<Rightarrow> NetStack \<Rightarrow> NetStack" where
  "closeFromStack key ns =
     (case map_of (udpSessions ns) key of
        None \<Rightarrow> ns
      | Some s \<Rightarrow> removeUdpSession key (if us_converged s then onUdpSourceGone key ns else ns))"

definition session_idle :: "int \<Rightarrow> SessionUdp \<Rightarrow> bool" where
  "session_idle now s \<longleftrightarrow> now - us_lastActive s > mux_secs 60"

definition reapIdleUdpSessions :: "int \<Rightarrow> NetStack \<Rightarrow> ns_out" where
  "reapIdleUdpSessions now ns =
     (ns\<lparr>udpSessions := tbl_keep (\<lambda>_ s. \<not> session_idle now s) (udpSessions ns)\<rparr>,
      map (\<lambda>(k, s). SessionShutdown k) (filter (\<lambda>(k, s). session_idle now s) (udpSessions ns)))"

text \<open>The first datagram of a source; \<open>origSrc\<close> is the remote end of the cloned control block.\<close>

definition onUdpRecv :: "ns_env \<Rightarrow> int \<Rightarrow> ip4 \<Rightarrow> u16 \<Rightarrow> NetStack \<Rightarrow> ns_out" where
  "onUdpRecv E now origSrc origSrcPort ns =
     (if \<not> ns_running ns then (ns, [PcbRemove])
      else let need = (ne_converged E \<and> udpMux ns = None);
               (mux, r) = mux_start (ne_dial E) UdpMux_new
           in if need \<and> r \<noteq> 0 then (ns\<lparr>udpMux := None\<rparr>, [PcbRemove, NsClientShutdown])
              else let ns1 = (if need then ns\<lparr>udpMux := Some mux\<rparr> else ns);
                       (s, r2) = udp_session_start E (SessionUdp_new now origSrc origSrcPort (ne_converged E))
                   in if r2 \<noteq> 0 then (ns1, [PcbRemove]) else (put_session (us_key s) s ns1, []))"

section \<open>Tunnelled packets\<close>

definition max_vnet_peers :: nat where "max_vnet_peers = 4096"

definition remember_peer :: "int \<Rightarrow> u32 \<Rightarrow> ip4 \<Rightarrow> (u32, PeerEntry) table \<Rightarrow> (u32, PeerEntry) table" where
  "remember_peer now src vnetPeer t =
     (let t1 = tbl_put src \<lparr>pe_peer = vnetPeer, pe_lastSeen = now\<rparr> t
      in if length t1 > max_vnet_peers then tbl_keep (\<lambda>_ e. \<not> (now - pe_lastSeen e > mux_secs 180)) t1 else t1)"

definition feedToLwip :: "ns_env \<Rightarrow> int \<Rightarrow> bytes \<Rightarrow> ip4 \<Rightarrow> NetStack \<Rightarrow> ns_out" where
  "feedToLwip E now innerPacket vnetPeer ns =
     (let ns1 = (if \<not> ip4_empty vnetPeer
                 then ns\<lparr>vnetPeerMap := remember_peer now (ip4_u32 (saddr (IP4Header_at innerPacket 0))) vnetPeer (vnetPeerMap ns)\<rparr>
                 else ns)
      in (ns1, if \<not> ne_alloc E then [] else [LwipInput innerPacket]))"

definition handleInput :: "ns_env \<Rightarrow> int \<Rightarrow> bytes \<Rightarrow> NetStack \<Rightarrow> ns_out" where
  "handleInput E now packet ns =
     (if length packet < sizeof_IP4Header then (ns, [])
      else let header = IP4Header_at packet 0;
               vnetPeer = (if isIPIP header then saddr header else ip4_zero);
               packet1 = (if isIPIP header then drop sizeof_IP4Header packet else packet)
           in if length packet1 < sizeof_IP4Header then (ns, [])
              else if protocol (IP4Header_at packet1 0) \<noteq> 0x06 \<and> protocol (IP4Header_at packet1 0) \<noteq> 0x11 then (ns, [])
              else feedToLwip E now packet1 vnetPeer ns)"

definition ns_input :: "ns_env \<Rightarrow> int \<Rightarrow> bytes \<Rightarrow> NetStack \<Rightarrow> ns_out" where
  "ns_input E now packet ns = (if \<not> ns_running ns then (ns, []) else handleInput E now packet ns)"

definition handleQueue :: "ns_env \<Rightarrow> int \<Rightarrow> msg \<Rightarrow> NetStack \<Rightarrow> ns_out" where
  "handleQueue E now m ns = (if msg_kind m = NETSTACK then ns_input E now (msg_data m) ns else (ns, []))"

text \<open>A packet lwIP sends (\<^verbatim>\<open>netif->output\<close>).\<close>

definition ns_output :: "ns_env \<Rightarrow> int \<Rightarrow> bytes \<Rightarrow> NetStack \<Rightarrow> ns_out" where
  "ns_output E now innerPacket ns =
     (if length innerPacket < sizeof_IP4Header then (ns, [])
      else let dst = ip4_u32 (daddr (IP4Header_at innerPacket 0));
               (ns1, vnetPeer) = (case map_of (vnetPeerMap ns) dst of
                  Some e \<Rightarrow> (ns\<lparr>vnetPeerMap := tbl_put dst (e\<lparr>pe_lastSeen := now\<rparr>) (vnetPeerMap ns)\<rparr>, pe_peer e)
                | None \<Rightarrow> (ns, ip4_zero))
           in if ip4_empty vnetPeer then (ns1, [])
              else (ns1, [ToPeerQueue (Msg PACKET (outer_header (ne_address E) vnetPeer @ innerPacket))]))"

section \<open>Life cycle\<close>

definition initStack_mtu :: "int \<Rightarrow> u16" where
  "initStack_mtu tunMtu =
     (let netifMtu = tunMtu - int sizeof_IP4Header
      in word_of_int (if netifMtu < 576 then 576 else netifMtu))"

definition ns_initStack :: "ns_env \<Rightarrow> int \<Rightarrow> NetStack \<Rightarrow> NetStack" where
  "ns_initStack E now ns = ns\<lparr>ns_running := True, lwipNetif_mtu := initStack_mtu (ne_mtu E), ns_lastReap := now\<rparr>"

definition ns_shutdown :: "NetStack \<Rightarrow> NetStack" where
  "ns_shutdown ns = ns\<lparr>ns_running := False\<rparr>"

definition teardownStack :: "NetStack \<Rightarrow> NetStack" where
  "teardownStack ns = ns\<lparr>udpSessions := [], udpMux := None, vnetPeerMap := [], lwipNetif_mtu := 0\<rparr>"

text \<open>The end of every turn of the loop.\<close>

definition loop_reap :: "int \<Rightarrow> NetStack \<Rightarrow> ns_out" where
  "loop_reap now ns =
     (if now - ns_lastReap ns \<ge> mux_secs 10
      then let (ns1, fx) = reapIdleUdpSessions now ns;
               ns2 = (case udpMux ns1 of None \<Rightarrow> ns1 | Some m \<Rightarrow> ns1\<lparr>udpMux := Some (mux_reap now m)\<rparr>)
           in (ns2\<lparr>ns_lastReap := now\<rparr>, fx)
      else (ns, []))"

text \<open>
  What the stack thread executes: messages of the queue, callbacks of lwIP, tasks posted by the
  reactor thread. Every turn ends with \<open>loop_reap\<close>.
\<close>

datatype ns_op =
    NsMsg msg
  | NsFirst ip4 u16
  | NsDatagram bytes u32 u16 bytes
  | NsShared u32 u16 bytes
  | NsOwn bytes u32 u16 bytes
  | NsOutput bytes
  | NsClosed bytes
  | NsIdle

definition ns_exec :: "ns_env \<Rightarrow> int \<Rightarrow> ns_op \<Rightarrow> NetStack \<Rightarrow> ns_out" where
  "ns_exec E now op ns =
     (case op of
        NsMsg m \<Rightarrow> handleQueue E now m ns
      | NsFirst a p \<Rightarrow> onUdpRecv E now a p ns
      | NsDatagram k ip port data \<Rightarrow> onPcbRecv now k ip port data ns
      | NsShared ip port data \<Rightarrow> ns_demux E now ip port data ns
      | NsOwn k ip port data \<Rightarrow> injectUdpReply E now k ip port data ns
      | NsOutput p \<Rightarrow> ns_output E now p ns
      | NsClosed k \<Rightarrow> (closeFromStack k ns, [])
      | NsIdle \<Rightarrow> (ns, []))"

definition ns_turn :: "ns_env \<Rightarrow> int \<Rightarrow> ns_op \<Rightarrow> NetStack \<Rightarrow> ns_out" where
  "ns_turn E now op ns =
     (let (ns1, fx1) = ns_exec E now op ns; (ns2, fx2) = loop_reap now ns1 in (ns2, fx1 @ fx2))"

fun ns_run :: "ns_env \<Rightarrow> (int \<times> ns_op) list \<Rightarrow> NetStack \<Rightarrow> NetStack" where
  "ns_run E [] ns = ns"
| "ns_run E ((now, op) # ops) ns = ns_run E ops (fst (ns_turn E now op ns))"

section \<open>Every owner of an endpoint has a session\<close>

definition sessions_ok :: "bool \<Rightarrow> int \<Rightarrow> (bytes, SessionUdp) table \<Rightarrow> bool" where
  "sessions_ok conv t tab \<longleftrightarrow> tbl_ok tab \<and>
     (\<forall>k s. map_of tab k = Some s \<longrightarrow> us_pcb s \<and> us_lastActive s \<le> t \<and> us_converged s = conv \<and>
        k = udp_key (us_origSrc s) (us_origSrcPort s))"

definition covered :: "UdpMux \<Rightarrow> (bytes, SessionUdp) table \<Rightarrow> bool" where
  "covered m tab \<longleftrightarrow> (\<forall>k e. map_of (endpointOwner m) k = Some e \<longrightarrow>
     (\<exists>s. map_of tab (oe_owner e) = Some s \<and> oe_lastActive e \<le> us_lastActive s))"

definition udp_inv :: "ns_env \<Rightarrow> int \<Rightarrow> NetStack \<Rightarrow> bool" where
  "udp_inv E t ns \<longleftrightarrow> sessions_ok (ne_converged E) t (udpSessions ns) \<and>
     (\<forall>m. udpMux ns = Some m \<longrightarrow> ne_converged E \<and> mux_inv m \<and> covered m (udpSessions ns))"

lemma sessions_ok_put:
  "sessions_ok c t tab \<Longrightarrow> us_pcb s \<Longrightarrow> us_converged s = c \<Longrightarrow> us_lastActive s \<le> t \<Longrightarrow>
   k = udp_key (us_origSrc s) (us_origSrcPort s) \<Longrightarrow> sessions_ok c t (tbl_put k s tab)"
  by (auto simp: sessions_ok_def table_simps tbl.invar_put)

lemma sessions_ok_later: "sessions_ok c t tab \<Longrightarrow> t \<le> t' \<Longrightarrow> sessions_ok c t' tab"
  by (fastforce simp: sessions_ok_def)

lemma covered_put:
  assumes "covered m tab" and "\<And>s0. map_of tab k = Some s0 \<Longrightarrow> us_lastActive s0 \<le> us_lastActive s"
  shows "covered m (tbl_put k s tab)"
  unfolding covered_def
proof (intro allI impI)
  fix j e assume "map_of (endpointOwner m) j = Some e"
  then obtain s0 where s0: "map_of tab (oe_owner e) = Some s0" "oe_lastActive e \<le> us_lastActive s0"
    using assms(1) by (auto simp: covered_def)
  show "\<exists>s'. map_of (tbl_put k s tab) (oe_owner e) = Some s' \<and> oe_lastActive e \<le> us_lastActive s'"
    using s0 assms(2) [of s0] by (auto simp: table_simps)
qed

lemma send_owner:
  "map_of (endpointOwner (fst (sendFromSource now s ip port data m))) k = Some e \<Longrightarrow>
   map_of (endpointOwner m) k = Some e \<or> (oe_owner e = s \<and> oe_lastActive e = now)"
  by (auto simp: sendFromSource_def Let_def table_simps split: option.splits if_splits)

lemma demux_cases:
  obtains (hit) e where "map_of (endpointOwner m) (endpointKey ip port) = Some e"
      and "demux now ip port data m =
        (m\<lparr>endpointOwner := tbl_put (endpointKey ip port) (e\<lparr>oe_lastActive := now\<rparr>) (endpointOwner m)\<rparr>,
         [InjectReply (oe_owner e) ip port data])"
  | (txn) s where "endpointOwner (fst (demux now ip port data m)) = endpointOwner m"
      and "snd (demux now ip port data m) = [InjectReply s ip port data]"
  | (miss) "endpointOwner (fst (demux now ip port data m)) = endpointOwner m"
      and "snd (demux now ip port data m) = []"
  by (cases "stunParse data"; cases "map_of (endpointOwner m) (endpointKey ip port)";
      force simp: demux_def warnDrop_def Let_def split: option.splits if_splits)

lemma covered_send:
  assumes "covered m tab" and "map_of tab s = Some us" and "us_lastActive us = now"
  shows "covered (fst (sendFromSource now s ip port data m)) tab"
  unfolding covered_def
proof (intro allI impI)
  fix k e assume "map_of (endpointOwner (fst (sendFromSource now s ip port data m))) k = Some e"
  from send_owner [OF this]
  show "\<exists>us. map_of tab (oe_owner e) = Some us \<and> oe_lastActive e \<le> us_lastActive us"
    using assms by (auto simp: covered_def)
qed

lemma udp_inv_onPcbRecv:
  assumes "udp_inv E now ns"
  shows "udp_inv E now (fst (onPcbRecv now k ip port data ns))"
proof (cases "map_of (udpSessions ns) k")
  case None
  then show ?thesis using assms by (simp add: onPcbRecv_def)
next
  case (Some s)
  let ?s = "s\<lparr>us_lastActive := now\<rparr>"
  have s: "us_pcb s" "us_lastActive s \<le> now" "us_converged s = ne_converged E"
    and key: "k = udp_key (us_origSrc s) (us_origSrcPort s)"
    using assms Some by (auto simp: udp_inv_def sessions_ok_def)
  have ok: "sessions_ok (ne_converged E) now (tbl_put k ?s (udpSessions ns))"
    using assms s key by (simp add: udp_inv_def sessions_ok_put)
  show ?thesis
  proof (cases "udpMux ns")
    case None
    then show ?thesis
      using Some ok s
      by (cases "ne_converged E")
        (simp_all add: onPcbRecv_def sendUdpConverged_def sendToLanding_def put_session_def udp_inv_def Let_def)
  next
    case (Some m)
    have m: "ne_converged E" "mux_inv m" "covered m (udpSessions ns)"
      using assms Some by (auto simp: udp_inv_def)
    have "covered m (tbl_put k ?s (udpSessions ns))"
      using \<open>map_of (udpSessions ns) k = Some s\<close> s(2) by (intro covered_put [OF m(3)]) simp
    then have "covered (fst (sendFromSource now k ip port data m)) (tbl_put k ?s (udpSessions ns))"
      by (rule covered_send [where us = ?s]) (simp_all add: table_simps)
    then show ?thesis
      using Some \<open>map_of (udpSessions ns) k = Some s\<close> ok s m mux_inv_send [OF m(2)]
      by (simp add: onPcbRecv_def sendUdpConverged_def put_session_def udp_inv_def case_prod_unfold Let_def)
  qed
qed

lemma inject_spec:
  assumes "sessions_ok c now (udpSessions ns)"
  shows "udpMux (fst (injectUdpReply E now k ip port data ns)) = udpMux ns \<and>
    sessions_ok c now (udpSessions (fst (injectUdpReply E now k ip port data ns))) \<and>
    (\<forall>m. covered m (udpSessions ns) \<longrightarrow> covered m (udpSessions (fst (injectUdpReply E now k ip port data ns)))) \<and>
    (\<forall>s. map_of (udpSessions ns) k = Some s \<longrightarrow>
       udpSessions (fst (injectUdpReply E now k ip port data ns)) = tbl_put k (s\<lparr>us_lastActive := now\<rparr>) (udpSessions ns))"
proof (cases "map_of (udpSessions ns) k")
  case None
  then show ?thesis using assms by (simp add: injectUdpReply_def)
next
  case (Some s)
  have s: "us_pcb s" "us_lastActive s \<le> now" "us_converged s = c"
    and key: "k = udp_key (us_origSrc s) (us_origSrcPort s)"
    using assms Some by (auto simp: sessions_ok_def)
  have e: "fst (injectUdpReply E now k ip port data ns) = put_session k (s\<lparr>us_lastActive := now\<rparr>) ns"
    using Some s by (simp add: injectUdpReply_def replyToLwip_def)
  have "covered m (tbl_put k (s\<lparr>us_lastActive := now\<rparr>) (udpSessions ns))" if "covered m (udpSessions ns)" for m
    using Some s(2) by (intro covered_put [OF that]) simp
  then show ?thesis
    using Some e s key assms by (simp add: put_session_def sessions_ok_put)
qed

lemma udp_inv_inject: "udp_inv E now ns \<Longrightarrow> udp_inv E now (fst (injectUdpReply E now k ip port data ns))"
  using inject_spec [of "ne_converged E" now ns E k ip port data] by (auto simp: udp_inv_def)

lemma udp_inv_demux:
  assumes "udp_inv E now ns"
  shows "udp_inv E now (fst (ns_demux E now ip port data ns))"
proof (cases "udpMux ns")
  case None
  then show ?thesis using assms by (simp add: ns_demux_def)
next
  case (Some m)
  have m: "ne_converged E" "mux_inv m" "covered m (udpSessions ns)" "sessions_ok (ne_converged E) now (udpSessions ns)"
    using assms Some by (auto simp: udp_inv_def)
  have mi: "mux_inv (fst (demux now ip port data m))" by (rule mux_inv_demux [OF m(2)])
  show ?thesis
  proof (cases rule: demux_cases [where m = m and ip = ip and port = port and now = now and data = data])
    case (hit e)
    obtain s where s: "map_of (udpSessions ns) (oe_owner e) = Some s"
      using m(3) hit(1) by (auto simp: covered_def)
    let ?ns = "ns\<lparr>udpMux := Some (fst (demux now ip port data m))\<rparr>"
    note i = inject_spec [where ns = ?ns and E = E and k = "oe_owner e" and ip = ip and port = port and data = data]
    have s': "us_pcb s" "us_converged s = ne_converged E" "us_lastActive s \<le> now"
      "oe_owner e = udp_key (us_origSrc s) (us_origSrcPort s)"
      using m(4) s by (auto simp: sessions_ok_def)
    have ok: "sessions_ok (ne_converged E) now (tbl_put (oe_owner e) (s\<lparr>us_lastActive := now\<rparr>) (udpSessions ns))"
      using s' by (simp add: sessions_ok_put [OF m(4)])
    have "covered m (tbl_put (oe_owner e) (s\<lparr>us_lastActive := now\<rparr>) (udpSessions ns))"
      using s s' by (intro covered_put [OF m(3)]) simp
    then have "covered (fst (demux now ip port data m)) (tbl_put (oe_owner e) (s\<lparr>us_lastActive := now\<rparr>) (udpSessions ns))"
      using hit s by (auto simp: covered_def table_simps)
    then show ?thesis
      using i [of "ne_converged E" now] m s hit Some mi ok
      by (simp add: ns_demux_def run_mux_out_def udp_inv_def case_prod_unfold Let_def)
  next
    case (txn s)
    then have "covered (fst (demux now ip port data m)) (udpSessions ns)"
      using m(3) by (simp add: covered_def)
    then have "udp_inv E now (ns\<lparr>udpMux := Some (fst (demux now ip port data m))\<rparr>)"
      using m mi by (simp add: udp_inv_def)
    then show ?thesis
      using txn Some udp_inv_inject by (simp add: ns_demux_def run_mux_out_def case_prod_unfold Let_def)
  next
    case miss
    then show ?thesis
      using m mi Some by (simp add: ns_demux_def udp_inv_def covered_def case_prod_unfold Let_def)
  qed
qed

lemma fresh_mux: "mux_inv (UdpMux_new\<lparr>mux_fd := True\<rparr>)" "covered (UdpMux_new\<lparr>mux_fd := True\<rparr>) tab"
  by (simp_all add: mux_inv_def UdpMux_new_def tbl_ok_def indexed_def owned_def covered_def)

lemma udp_inv_put_new:
  assumes "udp_inv E now ns" and "us_pcb s" and "us_converged s = ne_converged E" and "us_lastActive s = now"
    and "k = udp_key (us_origSrc s) (us_origSrcPort s)"
  shows "udp_inv E now (put_session k s ns)"
proof -
  have "covered m (tbl_put k s (udpSessions ns))" if "udpMux ns = Some m" for m
    using assms that by (intro covered_put) (auto simp: udp_inv_def sessions_ok_def)
  then show ?thesis
    using assms by (simp add: put_session_def udp_inv_def sessions_ok_put)
qed

lemma udp_inv_onUdpRecv:
  assumes "udp_inv E now ns"
  shows "udp_inv E now (fst (onUdpRecv E now a p ns))"
proof -
  let ?mux = "UdpMux_new\<lparr>mux_fd := True\<rparr>"
  have fresh: "udp_inv E now (ns\<lparr>udpMux := Some ?mux\<rparr>)" if "ne_converged E"
    using assms that fresh_mux by (simp add: udp_inv_def)
  have none: "udp_inv E now (ns\<lparr>udpMux := None\<rparr>)"
    using assms by (simp add: udp_inv_def)
  show ?thesis
    using assms fresh none
    by (auto simp: onUdpRecv_def mux_start_def udp_session_start_def Let_def SessionUdp_new_def
        intro!: udp_inv_put_new)
qed

lemma udp_inv_closeFromStack:
  assumes "udp_inv E now ns"
  shows "udp_inv E now (closeFromStack k ns)"
proof (cases "map_of (udpSessions ns) k")
  case None
  then show ?thesis using assms by (simp add: closeFromStack_def)
next
  case (Some s)
  have s: "us_converged s = ne_converged E" "sessions_ok (ne_converged E) now (tbl_erase k (udpSessions ns))"
    using assms Some by (auto simp: udp_inv_def sessions_ok_def table_simps tbl.invar_erase)
  have "covered (onSourceGone k m) (tbl_erase k (udpSessions ns))"
    if "mux_inv m" "covered m (udpSessions ns)" for m
  proof -
    have "owned (endpointOwner (onSourceGone k m)) k = {}" using mux_inv_gone [OF that(1)] by blast
    moreover have "map_of (endpointOwner (onSourceGone k m)) j = Some e \<Longrightarrow> map_of (endpointOwner m) j = Some e" for j e
      by (auto simp: onSourceGone_def map_of_release split: option.splits if_splits)
    ultimately show ?thesis
      using that(2) by (force simp: covered_def owned_def table_simps)
  qed
  then show ?thesis
    using assms Some s mux_inv_gone
    by (cases "udpMux ns") (auto simp: closeFromStack_def removeUdpSession_def onUdpSourceGone_def udp_inv_def)
qed

lemma udp_inv_other:
  "udp_inv E t ns \<Longrightarrow> udpSessions ns' = udpSessions ns \<Longrightarrow> udpMux ns' = udpMux ns \<Longrightarrow> udp_inv E t ns'"
  by (simp add: udp_inv_def)

lemma tunnel_keeps_udp:
  "udpSessions (fst (handleQueue E now m ns)) = udpSessions ns"
  "udpMux (fst (handleQueue E now m ns)) = udpMux ns"
  "udpSessions (fst (ns_output E now p ns)) = udpSessions ns"
  "udpMux (fst (ns_output E now p ns)) = udpMux ns"
  by (auto simp: handleQueue_def ns_input_def handleInput_def feedToLwip_def ns_output_def Let_def
      split: option.split)

lemma udp_inv_exec: "udp_inv E now ns \<Longrightarrow> udp_inv E now (fst (ns_exec E now op ns))"
  by (cases op)
    (auto simp: ns_exec_def udp_inv_onUdpRecv udp_inv_onPcbRecv udp_inv_demux udp_inv_inject udp_inv_closeFromStack
      intro: udp_inv_other simp: tunnel_keeps_udp)

lemma udp_inv_reap:
  assumes "udp_inv E now ns"
  shows "udp_inv E now (fst (loop_reap now ns))"
proof -
  let ?tab = "tbl_keep (\<lambda>_ s. \<not> session_idle now s) (udpSessions ns)"
  have tab: "tbl_ok (udpSessions ns)" using assms by (simp add: udp_inv_def sessions_ok_def)
  have ok: "sessions_ok (ne_converged E) now ?tab"
    using assms by (auto simp: udp_inv_def sessions_ok_def tbl.invar_keep tbl.keep_Some_iff)
  have "covered (mux_reap now m) ?tab" if m: "mux_inv m" "covered m (udpSessions ns)" for m
    unfolding covered_def
  proof (intro allI impI)
    fix k e assume "map_of (endpointOwner (mux_reap now m)) k = Some e"
    then have e: "map_of (endpointOwner m) k = Some e" "\<not> endpoint_idle now e"
      using m(1) by (auto simp: mux_reap_def mux_inv_def case_prod_unfold Let_def map_of_reaped split: option.splits if_splits)
    then obtain s where s: "map_of (udpSessions ns) (oe_owner e) = Some s" "oe_lastActive e \<le> us_lastActive s"
      using m(2) by (auto simp: covered_def)
    have "\<not> session_idle now s"
      using e(2) s(2) by (simp add: endpoint_idle_def session_idle_def kEndpointIdle_def mux_secs_def)
    then show "\<exists>s. map_of ?tab (oe_owner e) = Some s \<and> oe_lastActive e \<le> us_lastActive s"
      using s tab by (auto simp: tbl.keep_Some_iff)
  qed
  then show ?thesis
    using assms ok mux_inv_reap
    by (cases "udpMux ns") (auto simp: loop_reap_def reapIdleUdpSessions_def udp_inv_def Let_def)
qed

lemma udp_inv_turn: "udp_inv E now ns \<Longrightarrow> udp_inv E now (fst (ns_turn E now op ns))"
  using udp_inv_reap [OF udp_inv_exec] by (simp add: ns_turn_def case_prod_unfold Let_def)

lemma udp_inv_later: "udp_inv E t ns \<Longrightarrow> t \<le> t' \<Longrightarrow> udp_inv E t' ns"
  using sessions_ok_later by (auto simp: udp_inv_def)

lemma udp_inv_run:
  "udp_inv E t ns \<Longrightarrow> sorted (t # map fst ops) \<Longrightarrow>
   udp_inv E (last (t # map fst ops)) (ns_run E ops ns)"
proof (induction ops arbitrary: t ns)
  case Nil
  then show ?case by simp
next
  case (Cons p ops)
  obtain now op where [simp]: "p = (now, op)" by (cases p)
  have "t \<le> now" using Cons.prems(2) by simp
  then have "udp_inv E now (fst (ns_turn E now op ns))"
    by (rule udp_inv_turn [OF udp_inv_later [OF Cons.prems(1)]])
  from Cons.IH [OF this] show ?case using Cons.prems(2) by simp
qed

lemma udp_inv_init: "udp_inv E t (ns_initStack E t NetStack_new)"
  by (simp add: udp_inv_def ns_initStack_def NetStack_new_def sessions_ok_def tbl_ok_def)

text \<open>C23: in converged mode every endpoint the multiplexer has an owner for belongs to a source
  that still has a session, although the pass that drops sessions idle for 60 s does not tell
  the multiplexer; so a datagram from such an endpoint, unless it is a STUN response, is always
  handed to lwIP, for the address and port of the owner, from the endpoint it came from.\<close>

theorem owned_endpoint_is_delivered:
  assumes "sorted (t # map fst ops)" and "ns = ns_run E ops (ns_initStack E t NetStack_new)"
    and "udpMux ns = Some m" and "map_of (endpointOwner m) (endpointKey ip port) = Some e"
    and "\<nexists>x. answers x data" and "ne_alloc E" and "length data < 65536"
  shows "\<exists>a p. oe_owner e = udp_key a p \<and>
    snd (ns_demux E now ip port data ns) = [LwipReply (ip, port) (a, p) data]"
proof -
  have "udp_inv E (last (t # map fst ops)) ns"
    using udp_inv_run [OF udp_inv_init assms(1)] assms(2) by simp
  then obtain s where s: "map_of (udpSessions ns) (oe_owner e) = Some s" "us_pcb s"
    "oe_owner e = udp_key (us_origSrc s) (us_origSrcPort s)"
    using assms(3,4) by (fastforce simp: udp_inv_def covered_def sessions_ok_def)
  have "holds_endpoint (oe_owner e) (endpointKey ip port) (oe_lastActive e) m"
    using assms(4) by (simp add: holds_endpoint_def)
  from held_receive [OF this assms(5)]
  have "snd (demux now ip port data m) = [InjectReply (oe_owner e) ip port data]" .
  then have "snd (ns_demux E now ip port data ns) =
      [LwipReply (ip, port) (us_origSrc s, us_origSrcPort s) data]"
    using assms(3,6,7) s
    by (simp add: ns_demux_def run_mux_out_def injectUdpReply_def replyToLwip_def case_prod_unfold Let_def)
  then show ?thesis using s(3) by blast
qed

definition demo_ns_env :: ns_env where
  "demo_ns_env = \<lparr>ne_address = IP4 10 0 0 2, ne_converged = True, ne_dial = True, ne_alloc = True, ne_mtu = 1400\<rparr>"

definition demo_ns_ops :: "(int \<times> ns_op) list" where
  "demo_ns_ops =
     [(mux_secs 1, NsFirst (IP4 192 168 1 5) 4660),
      (mux_secs 1, NsDatagram (udp_key (IP4 192 168 1 5) 4660) 0x09090909 7000 [1])]"

theorem owned_endpoint_is_delivered_witness:
  "\<exists>a p. snd (ns_demux demo_ns_env (mux_secs 3) 0x09090909 7000 [8]
     (ns_run demo_ns_env demo_ns_ops (ns_initStack demo_ns_env 0 NetStack_new))) = [LwipReply (0x09090909, 7000) (a, p) [8]]"
proof -
  let ?ns = "ns_run demo_ns_env demo_ns_ops (ns_initStack demo_ns_env 0 NetStack_new)"
  have "sorted (0 # map fst demo_ns_ops)" "ne_alloc demo_ns_env" "length [8 :: u8] < 65536"
    by (simp_all add: demo_ns_ops_def mux_secs_def demo_ns_env_def)
  moreover have "\<nexists>x. answers x [8]" by (simp add: answers_def stunParse_def)
  moreover have "(case udpMux ?ns of None \<Rightarrow> False | Some m \<Rightarrow>
      map_of (endpointOwner m) (endpointKey 0x09090909 7000) \<noteq> None)"
    by code_simp
  then obtain m e where "udpMux ?ns = Some m" "map_of (endpointOwner m) (endpointKey 0x09090909 7000) = Some e"
    by (auto split: option.splits)
  ultimately show ?thesis
    using owned_endpoint_is_delivered [where ns = ?ns and ops = demo_ns_ops and t = 0 and E = demo_ns_env and m = m and
        ip = "0x09090909" and port = 7000 and data = "[8]" and now = "mux_secs 3"] by blast
qed

section \<open>Answers return through the gateway of the source\<close>

definition behind :: "u32 \<Rightarrow> ip4 \<Rightarrow> int \<Rightarrow> NetStack \<Rightarrow> bool" where
  "behind d g t ns \<longleftrightarrow> tbl_ok (vnetPeerMap ns) \<and>
     (\<exists>e. map_of (vnetPeerMap ns) d = Some e \<and> pe_peer e = g \<and> t \<le> pe_lastSeen e)"

text \<open>Every packet from \<open>d\<close> in \<open>ops\<close> comes through \<open>g\<close>.\<close>

definition through :: "u32 \<Rightarrow> ip4 \<Rightarrow> ns_op \<Rightarrow> bool" where
  "through d g op =
     (case op of
        NsMsg m \<Rightarrow>
          let header = IP4Header_at (msg_data m) 0; inner = IP4Header_at (msg_data m) sizeof_IP4Header
          in isIPIP header \<longrightarrow> ip4_u32 (saddr inner) = d \<longrightarrow> saddr header = g \<or> ip4_empty (saddr header)
      | _ \<Rightarrow> True)"

lemma remember_lookup:
  assumes "tbl_ok tab" and "map_of tab d = Some e" and "now - pe_lastSeen e \<le> mux_secs 180"
  shows "map_of (remember_peer now src v tab) d =
    (if src = d then Some \<lparr>pe_peer = v, pe_lastSeen = now\<rparr> else Some e)"
  using assms
  by (auto simp: remember_peer_def Let_def table_simps tbl.invar_put tbl.keep_Some_iff mux_secs_def)

lemma remember_new: "tbl_ok tab \<Longrightarrow> map_of (remember_peer now src v tab) src = Some \<lparr>pe_peer = v, pe_lastSeen = now\<rparr>"
  by (auto simp: remember_peer_def Let_def table_simps tbl.invar_put tbl.keep_Some_iff mux_secs_def)

lemma tbl_ok_remember: "tbl_ok tab \<Longrightarrow> tbl_ok (remember_peer now src v tab)"
  by (simp add: remember_peer_def Let_def tbl.invar_put tbl.invar_keep)

lemma IP4Header_drop: "IP4Header_at (drop n b) 0 = IP4Header_at b n"
proof -
  have "rd8 (drop n b) i = rd8 b (n + i)" and "slice i k (drop n b) = slice (n + i) k b" for i k
    by (auto simp: rd8_def slice_def add.commute)
  then show ?thesis by (simp only: IP4Header_at_def add_0 add_0_right)
qed

lemma handleInput_peers:
  "vnetPeerMap (fst (handleInput E now p ns)) = vnetPeerMap ns \<or>
   (isIPIP (IP4Header_at p 0) \<and> \<not> ip4_empty (saddr (IP4Header_at p 0)) \<and>
    vnetPeerMap (fst (handleInput E now p ns)) =
      remember_peer now (ip4_u32 (saddr (IP4Header_at p sizeof_IP4Header))) (saddr (IP4Header_at p 0)) (vnetPeerMap ns))"
  by (auto simp: handleInput_def feedToLwip_def Let_def IP4Header_drop ip4_empty_iff)

lemma behind_exec:
  assumes "behind d g t ns" and "now - t \<le> mux_secs 180" and "t \<le> now" and "through d g op"
  shows "behind d g t (fst (ns_exec E now op ns))"
proof -
  have same: "behind d g t ns'" if "vnetPeerMap ns' = vnetPeerMap ns" for ns'
    using assms(1) that by (simp add: behind_def)
  obtain e where e: "tbl_ok (vnetPeerMap ns)" "map_of (vnetPeerMap ns) d = Some e" "pe_peer e = g" "t \<le> pe_lastSeen e"
    using assms(1) by (auto simp: behind_def)
  then have fresh: "now - pe_lastSeen e \<le> mux_secs 180" using assms(2) by linarith
  show ?thesis
  proof (cases op)
    case (NsMsg m)
    from handleInput_peers [of E now "msg_data m" ns] assms(4) NsMsg
    show ?thesis
      using remember_lookup [OF e(1,2) fresh] tbl_ok_remember [OF e(1)] e assms(3)
      by (auto simp: ns_exec_def handleQueue_def ns_input_def behind_def through_def Let_def)
  next
    case (NsOutput p)
    then show ?thesis
      using e assms(3)
      by (auto simp: ns_exec_def ns_output_def behind_def Let_def table_simps tbl.invar_put split: option.split)
  next
    case (NsFirst a p)
    then show ?thesis
      by (intro same) (auto simp: ns_exec_def onUdpRecv_def put_session_def case_prod_unfold Let_def)
  next
    case (NsDatagram k ip port data)
    then show ?thesis
      by (intro same) (auto simp: ns_exec_def onPcbRecv_def sendUdpConverged_def put_session_def case_prod_unfold
          Let_def split: option.split)
  next
    case (NsShared ip port data)
    have "vnetPeerMap (fst (run_mux_outs E now outs ns')) = vnetPeerMap ns'" for outs ns'
      by (induction E now outs ns' rule: run_mux_outs.induct)
        (auto simp: run_mux_out_def injectUdpReply_def put_session_def case_prod_unfold Let_def
          split: mux_out.split option.split)
    then show ?thesis
      using NsShared by (intro same) (auto simp: ns_exec_def ns_demux_def case_prod_unfold Let_def split: option.split)
  next
    case (NsOwn k ip port data)
    then show ?thesis
      by (intro same) (auto simp: ns_exec_def injectUdpReply_def put_session_def case_prod_unfold Let_def
          split: option.split)
  next
    case (NsClosed k)
    then show ?thesis
      by (intro same) (auto simp: ns_exec_def closeFromStack_def removeUdpSession_def onUdpSourceGone_def
          split: option.split)
  next
    case NsIdle
    then show ?thesis by (intro same) (simp add: ns_exec_def)
  qed
qed

lemma loop_reap_peers: "vnetPeerMap (fst (loop_reap now ns)) = vnetPeerMap ns"
  by (auto simp: loop_reap_def reapIdleUdpSessions_def Let_def split: option.split)

lemma behind_run:
  "behind d g t ns \<Longrightarrow> list_all (\<lambda>(now, op). t \<le> now \<and> now - t \<le> mux_secs 180 \<and> through d g op) ops \<Longrightarrow>
   behind d g t (ns_run E ops ns)"
proof (induction ops arbitrary: ns)
  case Nil
  then show ?case by simp
next
  case (Cons p ops)
  obtain now op where [simp]: "p = (now, op)" by (cases p)
  have "behind d g t (fst (ns_exec E now op ns))"
    using Cons.prems by (intro behind_exec) auto
  then have "behind d g t (fst (ns_turn E now op ns))"
    by (simp add: ns_turn_def behind_def loop_reap_peers case_prod_unfold Let_def)
  then show ?case using Cons by simp
qed

text \<open>C26: after a TCP or UDP packet from \<open>d\<close> has come through the tunnel from the gateway \<open>g\<close>, every
  packet the stack sends to \<open>d\<close> within the next 180 s goes back to \<open>g\<close>, inside an outer header
  from this client's address to \<open>g\<close>, whatever else the stack does in between, as long as packets
  from \<open>d\<close> keep coming through \<open>g\<close>.\<close>

theorem answers_return_through_the_gateway:
  assumes "ns_running ns" and "tbl_ok (vnetPeerMap ns)" and "length p \<ge> sizeof_IP4Header"
    and "protocol (IP4Header_at p 0) = 0x06 \<or> protocol (IP4Header_at p 0) = 0x11"
    and "\<not> ip4_empty g" and "d = ip4_u32 (saddr (IP4Header_at p 0))"
    and "ns' = fst (ns_turn E t (NsMsg (Msg NETSTACK (outer_header g own @ p))) ns)"
    and "list_all (\<lambda>(now, op). t \<le> now \<and> now - t \<le> mux_secs 180 \<and> through d g op) ops"
    and "length r \<ge> sizeof_IP4Header" and "ip4_u32 (daddr (IP4Header_at r 0)) = d"
  shows "snd (ns_output E now r (ns_run E ops ns')) = [ToPeerQueue (Msg PACKET (outer_header (ne_address E) g @ r))]"
proof -
  have "behind d g t ns'"
    using assms(1-6) remember_new [OF assms(2)] tbl_ok_remember [OF assms(2)]
    unfolding assms(7)
    by (auto simp: ns_turn_def ns_exec_def handleQueue_def ns_input_def handleInput_def feedToLwip_def isIPIP_def
        outer_header_fields behind_def loop_reap_peers case_prod_unfold Let_def)
  from behind_run [OF this assms(8), of E]
  show ?thesis
    using assms(5,9,10) by (auto simp: behind_def ns_output_def Let_def)
qed

theorem answers_return_through_the_gateway_witness:
  "snd (ns_output demo_ns_env (mux_secs 9) demo_back
     (ns_run demo_ns_env [(mux_secs 8, NsIdle)]
        (fst (ns_turn demo_ns_env (mux_secs 5) (NsMsg (Msg NETSTACK (outer_header (IP4 10 0 0 1) (IP4 10 0 0 2) @ demo_out)))
           (ns_initStack demo_ns_env 0 NetStack_new))))) =
   [ToPeerQueue (Msg PACKET (outer_header (IP4 10 0 0 2) (IP4 10 0 0 1) @ demo_back))]"
proof -
  have h: "ns_running (ns_initStack demo_ns_env 0 NetStack_new)"
    "tbl_ok (vnetPeerMap (ns_initStack demo_ns_env 0 NetStack_new))"
    by (simp_all add: ns_initStack_def NetStack_new_def tbl_ok_def)
  have c: "length demo_out \<ge> sizeof_IP4Header"
    "protocol (IP4Header_at demo_out 0) = 0x06 \<or> protocol (IP4Header_at demo_out 0) = 0x11"
    "\<not> ip4_empty (IP4 10 0 0 1)" "length demo_back \<ge> sizeof_IP4Header"
    "ip4_u32 (daddr (IP4Header_at demo_back 0)) = ip4_u32 (saddr (IP4Header_at demo_out 0))"
    by code_simp+
  have o: "list_all (\<lambda>(now, op). mux_secs 5 \<le> now \<and> now - mux_secs 5 \<le> mux_secs 180 \<and>
      through (ip4_u32 (saddr (IP4Header_at demo_out 0))) (IP4 10 0 0 1) op) [(mux_secs 8, NsIdle)]"
    by (simp add: mux_secs_def through_def)
  show ?thesis
    using answers_return_through_the_gateway [OF h c(1-3) refl refl o c(4,5), where now = "mux_secs 9" and
        own = "IP4 10 0 0 2" and E = demo_ns_env]
    by (simp add: demo_ns_env_def)
qed

end
