(* ===== verification/Client.thy ===== *)
theory Client
  imports Relay PeerManager NetStack
begin

text \<open>
  \<^verbatim>\<open>core/client.h\<close>, \<^verbatim>\<open>client.cc\<close>: the object that owns the four modules of a client and the four
  queues between them. \<open>client_start\<close> is \<open>Client::run\<close> up to the point where it waits; from then
  on the threads of the modules take turns, each of them one pass of its loop (\<open>client_turn\<close>),
  in any order; \<open>client_join\<close> and \<open>client_finish\<close> are the two parts of waiting. An effect on a queue
  is performed when the turn that has it ends; the other effects leave the client.
\<close>

section \<open>State\<close>

datatype thread = ThStack | ThStackMsg | ThWsMsg | ThWs | ThTunMsg | ThTunDev | ThPeerMsg | ThPeerTick | ThPeerPoll

text \<open>
  \<open>cl_live\<close>: threads still in their loop; \<open>cl_joinable\<close>: thread objects not joined yet.
\<close>

record Client =
  cl_running :: bool
  cl_q :: queues
  cl_tun :: tun
  cl_peers :: PeerManager
  cl_ws :: WebSocketClient
  cl_netstack :: NetStack
  cl_tunName :: bytes
  cl_p2pOnly :: bool
  cl_userspaceStack :: bool
  cl_udpPortConvergence :: bool
  cl_live :: "thread list"
  cl_joinable :: "thread list"

definition empty_queues :: queues where
  "empty_queues = \<lparr>q_tun = [], q_peer = [], q_ws = [], q_netstack = []\<rparr>"

text \<open>
  A new client. The MTU of the device is indeterminate until it is set (\<open>junk\<close>); every other
  member has an initial value.
\<close>

definition Client_new :: "int \<Rightarrow> Client" where
  "Client_new junk =
     \<lparr>cl_running = False, cl_q = empty_queues,
      cl_tun = \<lparr>tn_name = [], tn_ip = ip4_zero, tn_mask = ip4_zero, tn_mtu = junk, tunAddress = [],
                sysRtTable = [], initiatedFlows = [], lastFlowReap = 0, tun_thread = False\<rparr>,
      cl_peers = \<lparr>pm_password = [], pm_localhost = ip4_zero, pm_tunAddr = Address0, tickTick = 0,
                  ipPeerMap = [], rtTableMap = [],
                  pm_stun = \<lparr>st_uri = [], st_address = (ip4_zero, 0), st_needed = False, st_ip = ip4_zero, st_port = 0\<rparr>,
                  localP2PDisabled = False, pm_key = [], listenPort = 0, discoveryInterval = 0, routeCost = 0,
                  p2pOnlyDropCount = 0, lastP2POnlyDropWarn = 0, pm_threads = False\<rparr>,
      cl_ws = \<lparr>wc_ws = False, pingMessage = [], ws_timestamp = 0, wsServerUri = [], exptTunCidr = [], tunCidr = [],
               wc_vmac = [], wc_name = [], wc_password = []\<rparr>,
      cl_netstack = NetStack_new, cl_tunName = [], cl_p2pOnly = False, cl_userspaceStack = False,
      cl_udpPortConvergence = False, cl_live = [], cl_joinable = []\<rparr>"

section \<open>Settings\<close>

definition cl_setName :: "bytes \<Rightarrow> Client \<Rightarrow> Client" where
  "cl_setName name c =
     c\<lparr>cl_tunName := name, cl_tun := fst (tun_setName name (cl_tun c)), cl_ws := fst (wsc_setName name (cl_ws c))\<rparr>"

definition cl_getTunCidr :: "Client \<Rightarrow> bytes" where
  "cl_getTunCidr c = tunCidr (cl_ws c)"

definition cl_address :: "Client \<Rightarrow> ip4" where
  "cl_address c = tun_getIP (cl_tun c)"

definition cl_getMtu :: "Client \<Rightarrow> int" where
  "cl_getMtu c = tun_getMTU (cl_tun c)"

definition cl_setPassword :: "bytes \<Rightarrow> Client \<Rightarrow> Client" where
  "cl_setPassword password c =
     c\<lparr>cl_ws := fst (wsc_setPassword password (cl_ws c)), cl_peers := fst (pm_setPassword password (cl_peers c))\<rparr>"

definition cl_setWebSocket :: "bytes \<Rightarrow> Client \<Rightarrow> Client" where
  "cl_setWebSocket u c = c\<lparr>cl_ws := fst (setWsServerUri u (cl_ws c))\<rparr>"

definition cl_setTunAddress :: "bytes \<Rightarrow> Client \<Rightarrow> Client" where
  "cl_setTunAddress cidr c = c\<lparr>cl_ws := fst (wsc_setAddress cidr (cl_ws c))\<rparr>"

definition cl_setExptTunAddress :: "bytes \<Rightarrow> Client \<Rightarrow> Client" where
  "cl_setExptTunAddress cidr c = c\<lparr>cl_ws := fst (setExptTunAddress cidr (cl_ws c))\<rparr>"

definition cl_setVirtualMac :: "bytes \<Rightarrow> Client \<Rightarrow> Client" where
  "cl_setVirtualMac vmac c = c\<lparr>cl_ws := fst (wsc_setVirtualMac vmac (cl_ws c))\<rparr>"

definition cl_setStun :: "bytes \<Rightarrow> Client \<Rightarrow> Client" where
  "cl_setStun u c = c\<lparr>cl_peers := fst (setStun u (cl_peers c))\<rparr>"

definition cl_setDiscoveryInterval :: "int \<Rightarrow> Client \<Rightarrow> Client" where
  "cl_setDiscoveryInterval interval c = c\<lparr>cl_peers := fst (setDiscoveryInterval interval (cl_peers c))\<rparr>"

definition cl_setRouteCost :: "int \<Rightarrow> Client \<Rightarrow> Client" where
  "cl_setRouteCost cost c = c\<lparr>cl_peers := fst (setRouteCost cost (cl_peers c))\<rparr>"

definition cl_setPort :: "int \<Rightarrow> Client \<Rightarrow> Client" where
  "cl_setPort port c = c\<lparr>cl_peers := fst (setPort port (cl_peers c))\<rparr>"

definition cl_setLocalhost :: "poco \<Rightarrow> bytes \<Rightarrow> Client \<Rightarrow> Client res" where
  "cl_setLocalhost P ip c = bind_res (setLocalhost P ip (cl_peers c)) (\<lambda>(m, _). Ok (c\<lparr>cl_peers := m\<rparr>))"

definition cl_setMtu :: "int \<Rightarrow> Client \<Rightarrow> Client" where
  "cl_setMtu mtu c = c\<lparr>cl_tun := fst (tun_setMTU mtu (cl_tun c))\<rparr>"

definition cl_setP2POnly :: "bool \<Rightarrow> Client \<Rightarrow> Client" where
  "cl_setP2POnly enable c = c\<lparr>cl_p2pOnly := enable\<rparr>"

definition cl_setUserspaceStack :: "bool \<Rightarrow> Client \<Rightarrow> Client" where
  "cl_setUserspaceStack enable c = c\<lparr>cl_userspaceStack := enable\<rparr>"

definition cl_setUdpPortConvergence :: "bool \<Rightarrow> Client \<Rightarrow> Client" where
  "cl_setUdpPortConvergence enable c = c\<lparr>cl_udpPortConvergence := enable\<rparr>"

definition cl_shutdown :: "Client \<Rightarrow> Client" where
  "cl_shutdown c = c\<lparr>cl_running := False\<rparr>"

text \<open>What the modules read from the client while they work.\<close>

definition ws_env_of :: "Client \<Rightarrow> ws_env \<Rightarrow> ws_env" where
  "ws_env_of c E = E\<lparr>env_p2pOnly := cl_p2pOnly c\<rparr>"

definition pm_env_of :: "Client \<Rightarrow> pm_env \<Rightarrow> pm_env" where
  "pm_env_of c E = E\<lparr>me_p2pOnly := cl_p2pOnly c, me_address := cl_address c\<rparr>"

definition tun_env_of :: "Client \<Rightarrow> tun_env \<Rightarrow> tun_env" where
  "tun_env_of c E = E\<lparr>te_userspace := cl_userspaceStack c\<rparr>"

definition ns_env_of :: "Client \<Rightarrow> ns_env \<Rightarrow> ns_env" where
  "ns_env_of c E = E\<lparr>ne_address := cl_address c, ne_converged := cl_udpPortConvergence c, ne_mtu := cl_getMtu c\<rparr>"

section \<open>Effects\<close>

datatype out = Out effect | NsOut ns_effect

fun from_stack :: "ns_effect \<Rightarrow> out" where
  "from_stack (ToPeerQueue m) = Out (ToPeer m)"
| "from_stack NsClientShutdown = Out ClientShutdown"
| "from_stack e = NsOut e"

fun perform_one :: "out \<Rightarrow> Client \<Rightarrow> Client" where
  "perform_one (Out ClientShutdown) c = cl_shutdown c"
| "perform_one (Out e) c = c\<lparr>cl_q := deliver e (cl_q c)\<rparr>"
| "perform_one (NsOut e) c = c"

fun outside :: "out \<Rightarrow> bool" where
  "outside (Out (WsSend b f)) = True"
| "outside (Out (UdpSend b a)) = True"
| "outside (Out (TunWrite b)) = True"
| "outside (Out (SetRoute d m n)) = True"
| "outside (Out _) = False"
| "outside (NsOut e) = True"

definition perform :: "out list \<Rightarrow> Client \<Rightarrow> Client \<times> out list" where
  "perform es c = (fold perform_one es c, filter outside es)"

section \<open>The turns of the threads\<close>

text \<open>A thread that leaves its loop shuts the client down.\<close>

definition leave_loop :: "thread \<Rightarrow> Client \<Rightarrow> Client" where
  "leave_loop th c = cl_shutdown (c\<lparr>cl_live := removeAll th (cl_live c)\<rparr>)"

definition end_turn :: "thread \<Rightarrow> out list \<Rightarrow> int \<Rightarrow> Client \<Rightarrow> Client \<times> out list" where
  "end_turn th es r c =
     (let (c1, os) = perform es c in (if r \<noteq> 0 then leave_loop th c1 else c1, os))"

definition start_thread :: "thread \<Rightarrow> Client \<Rightarrow> Client" where
  "start_thread th c = c\<lparr>cl_live := cl_live c @ [th], cl_joinable := cl_joinable c @ [th]\<rparr>"

definition ws_msg_turn :: "ws_env \<Rightarrow> Client \<Rightarrow> (Client \<times> out list) res" where
  "ws_msg_turn E c =
     (let q = cl_q c
      in case handleWsQueue (ws_env_of c E) (q_ws q) (cl_ws c) of
           Ok (q', fx) \<Rightarrow> Ok (end_turn ThWsMsg (map Out fx) 0 (c\<lparr>cl_q := q\<lparr>q_ws := q'\<rparr>\<rparr>))
         | Throw \<Rightarrow> Ok (leave_loop ThWsMsg (c\<lparr>cl_q := q\<lparr>q_ws := snd (MsgQueue_read (q_ws q))\<rparr>\<rparr>), [])
         | Undef \<Rightarrow> Undef)"

definition ws_turn :: "ws_env \<Rightarrow> conn_event \<Rightarrow> Client \<Rightarrow> (Client \<times> out list) res" where
  "ws_turn E ev c =
     bind_res (handleWsConn (ws_env_of c E) ev (cl_ws c)) (\<lambda>(w', fx, r).
       Ok (end_turn ThWs (map Out fx) r (c\<lparr>cl_ws := w'\<rparr>)))"

definition tun_msg_turn :: "tun_env \<Rightarrow> Client \<Rightarrow> (Client \<times> out list) res" where
  "tun_msg_turn E c =
     (let (m, q') = MsgQueue_read (q_tun (cl_q c));
          c1 = c\<lparr>cl_q := (cl_q c)\<lparr>q_tun := q'\<rparr>\<rparr>
      in case handleTunQueue (tun_env_of c E) m (cl_tun c) of
           Ok (t', fx, r) \<Rightarrow>
             let c2 = c1\<lparr>cl_tun := t'\<rparr>;
                 c3 = (if tun_thread t' \<and> \<not> tun_thread (cl_tun c) then start_thread ThTunDev c2 else c2)
             in Ok (end_turn ThTunMsg (map Out fx) r c3)
         | Throw \<Rightarrow> Ok (leave_loop ThTunMsg c1, [])
         | Undef \<Rightarrow> Undef)"

definition tun_dev_turn :: "tun_env \<Rightarrow> bytes option \<Rightarrow> Client \<Rightarrow> (Client \<times> out list) res" where
  "tun_dev_turn E input c =
     (let (t', fx) = handleTunDevice (tun_env_of c E) input (cl_tun c)
      in Ok (end_turn ThTunDev (map Out fx) 0 (c\<lparr>cl_tun := t'\<rparr>)))"

definition peer_msg_turn :: "pm_env \<Rightarrow> Client \<Rightarrow> (Client \<times> out list) res" where
  "peer_msg_turn E c =
     (let (m, q') = MsgQueue_read (q_peer (cl_q c));
          c1 = c\<lparr>cl_q := (cl_q c)\<lparr>q_peer := q'\<rparr>\<rparr>
      in bind_res (handlePeerQueue (pm_env_of c E) m (cl_peers c)) (\<lambda>(p', fx, r).
           let c2 = c1\<lparr>cl_peers := p'\<rparr>;
               c3 = (if pm_threads p' \<and> \<not> pm_threads (cl_peers c)
                     then start_thread ThPeerTick (start_thread ThPeerPoll c2) else c2)
           in Ok (end_turn ThPeerMsg (map Out fx) r c3)))"

definition peer_tick_turn :: "pm_env \<Rightarrow> Client \<Rightarrow> (Client \<times> out list) res" where
  "peer_tick_turn E c =
     (let (p', fx) = pm_tick (pm_env_of c E) (cl_peers c)
      in Ok (end_turn ThPeerTick (map Out fx) 0 (c\<lparr>cl_peers := p'\<rparr>)))"

definition peer_poll_turn :: "pm_env \<Rightarrow> udp_event \<Rightarrow> Client \<Rightarrow> (Client \<times> out list) res" where
  "peer_poll_turn E ev c =
     bind_res (pm_poll (pm_env_of c E) ev (cl_peers c)) (\<lambda>(p', fx, r).
       Ok (end_turn ThPeerPoll (map Out fx) r (c\<lparr>cl_peers := p'\<rparr>)))"

definition run_stack :: "ns_env \<Rightarrow> int \<Rightarrow> ns_op \<Rightarrow> Client \<Rightarrow> Client \<times> out list" where
  "run_stack E now op c =
     (let (ns', fx) = ns_turn (ns_env_of c E) now op (cl_netstack c)
      in end_turn ThStack (map from_stack fx) 0 (c\<lparr>cl_netstack := ns'\<rparr>))"

text \<open>
  The message thread of the stack posts a task for the stack thread; the task is run here and
  now, or never when the stack thread has ended.
\<close>

definition stack_msg_turn :: "ns_env \<Rightarrow> int \<Rightarrow> Client \<Rightarrow> (Client \<times> out list) res" where
  "stack_msg_turn E now c =
     (let (m, q') = MsgQueue_read (q_netstack (cl_q c));
          c1 = c\<lparr>cl_q := (cl_q c)\<lparr>q_netstack := q'\<rparr>\<rparr>
      in Ok (if msg_kind m = NETSTACK \<and> ThStack \<in> set (cl_live c) then run_stack E now (NsMsg m) c1 else (c1, [])))"

text \<open>
  The stack thread follows the flag of its own module and does not shut the client down. Its
  tasks other than messages are the callbacks of lwIP and of the reactor.
\<close>

definition stack_turn :: "ns_env \<Rightarrow> int \<Rightarrow> ns_op \<Rightarrow> Client \<Rightarrow> (Client \<times> out list) res" where
  "stack_turn E now op c =
     Ok (if \<not> ns_running (cl_netstack c)
         then (c\<lparr>cl_netstack := teardownStack (cl_netstack c), cl_live := removeAll ThStack (cl_live c)\<rparr>, [])
         else run_stack E now (case op of NsMsg _ \<Rightarrow> NsIdle | _ \<Rightarrow> op) c)"

datatype turn =
    TWsMsg ws_env
  | TWs ws_env conn_event
  | TTunMsg tun_env
  | TTunDev tun_env "bytes option"
  | TPeerMsg pm_env
  | TPeerTick pm_env
  | TPeerPoll pm_env udp_event
  | TStackMsg ns_env int
  | TStack ns_env int ns_op

fun thread_of :: "turn \<Rightarrow> thread" where
  "thread_of (TWsMsg _) = ThWsMsg"
| "thread_of (TWs _ _) = ThWs"
| "thread_of (TTunMsg _) = ThTunMsg"
| "thread_of (TTunDev _ _) = ThTunDev"
| "thread_of (TPeerMsg _) = ThPeerMsg"
| "thread_of (TPeerTick _) = ThPeerTick"
| "thread_of (TPeerPoll _ _) = ThPeerPoll"
| "thread_of (TStackMsg _ _) = ThStackMsg"
| "thread_of (TStack _ _ _) = ThStack"

fun loop_body :: "turn \<Rightarrow> Client \<Rightarrow> (Client \<times> out list) res" where
  "loop_body (TWsMsg E) c = ws_msg_turn E c"
| "loop_body (TWs E ev) c = ws_turn E ev c"
| "loop_body (TTunMsg E) c = tun_msg_turn E c"
| "loop_body (TTunDev E input) c = tun_dev_turn E input c"
| "loop_body (TPeerMsg E) c = peer_msg_turn E c"
| "loop_body (TPeerTick E) c = peer_tick_turn E c"
| "loop_body (TPeerPoll E ev) c = peer_poll_turn E ev c"
| "loop_body (TStackMsg E now) c = stack_msg_turn E now c"
| "loop_body (TStack E now op) c = stack_turn E now op c"

definition client_turn :: "turn \<Rightarrow> Client \<Rightarrow> (Client \<times> out list) res" where
  "client_turn t c =
     (if thread_of t \<notin> set (cl_live c) then Ok (c, [])
      else if thread_of t \<noteq> ThStack \<and> \<not> cl_running c then Ok (leave_loop (thread_of t) c, [])
      else loop_body t c)"

fun client_turns :: "turn list \<Rightarrow> Client \<Rightarrow> (Client \<times> out list) res" where
  "client_turns [] c = Ok (c, [])"
| "client_turns (t # ts) c =
     bind_res (client_turn t c) (\<lambda>(c1, o1). bind_res (client_turns ts c1) (\<lambda>(c2, o2). Ok (c2, o1 @ o2)))"

section \<open>Starting and ending\<close>

record start_env =
  se_ws :: ws_env
  se_handshake :: "bytes \<Rightarrow> bytes \<Rightarrow> u16 \<Rightarrow> bool"
  se_ping :: bytes
  se_poco :: poco
  se_reactor :: bool
  se_netif :: bool
  se_ns :: ns_env
  se_now :: int

text \<open>
  \<^verbatim>\<open>NetStack::run\<close>, with \<^verbatim>\<open>initStack\<close>, the first thing the stack thread does; when that fails the
  thread ends and the client is shut down.
\<close>

definition netstack_run :: "start_env \<Rightarrow> Client \<Rightarrow> Client \<times> int" where
  "netstack_run S c =
     (if \<not> cl_userspaceStack c then (c, 0)
      else let c1 = c\<lparr>cl_netstack := (cl_netstack c)\<lparr>ns_running := True\<rparr>\<rparr>
           in if \<not> se_reactor S then (c1, -1)
              else let c2 = start_thread ThStackMsg (start_thread ThStack c1)
                   in if se_netif S
                      then (c2\<lparr>cl_netstack := ns_initStack (ns_env_of c2 (se_ns S)) (se_now S) (cl_netstack c2)\<rparr>, 0)
                      else (leave_loop ThStack c2, 0))"

text \<open>
  The part of \<open>Client::run\<close> before it waits; \<open>False\<close> when it returns at once. \<open>start_modules\<close> is
  what follows the connection to the server: the threads of the websocket and tunnel modules,
  then the peer manager, which may fail.
\<close>

definition start_modules :: "start_env \<Rightarrow> effect list \<Rightarrow> Client \<Rightarrow> Client \<times> out list \<times> bool" where
  "start_modules S fx c =
     (let (c2, os) = perform (map Out fx) (start_thread ThWs (start_thread ThWsMsg c));
          c3 = start_thread ThTunMsg c2;
          (p, r) = pm_run (se_poco S) (cl_peers c3)
      in if r \<noteq> 0 then (c3\<lparr>cl_peers := p\<rparr>, os, False)
         else (start_thread ThPeerMsg (c3\<lparr>cl_peers := p\<rparr>), os, True))"

definition client_start :: "start_env \<Rightarrow> Client \<Rightarrow> (Client \<times> out list \<times> bool) res" where
  "client_start S c0 =
     (let (c1, r1) = netstack_run S (c0\<lparr>cl_running := True\<rparr>)
      in if r1 \<noteq> 0 then Ok (c1, [], False)
         else bind_res (wsc_run (ws_env_of c1 (se_ws S)) (se_handshake S) (se_ping S) (cl_ws c1)) (\<lambda>(w, fx, r2).
           if r2 \<noteq> 0 then Ok (c1\<lparr>cl_ws := w\<rparr>, [], False)
           else Ok (start_modules S fx (c1\<lparr>cl_ws := w\<rparr>))))"

text \<open>Waiting: the websocket, tunnel and peer modules are joined, then the stack is told to stop.\<close>

definition stack_threads :: "thread list" where "stack_threads = [ThStack, ThStackMsg]"

definition client_join :: "Client \<Rightarrow> Client option" where
  "client_join c =
     (if \<forall>th \<in> set (cl_live c). th \<in> set stack_threads
      then Some (c\<lparr>cl_tun := fst (tun_wait (cl_tun c)), cl_peers := fst (pm_wait (cl_peers c)),
                   cl_netstack := ns_shutdown (cl_netstack c),
                   cl_joinable := filter (\<lambda>th. th \<in> set stack_threads) (cl_joinable c)\<rparr>)
      else None)"

definition client_finish :: "Client \<Rightarrow> Client option" where
  "client_finish c =
     (if cl_live c = [] \<and> (\<forall>th \<in> set (cl_joinable c). th \<in> set stack_threads)
      then Some (c\<lparr>cl_q := empty_queues, cl_joinable := []\<rparr>)
      else None)"

text \<open>
  The end of the object's life: first \<^verbatim>\<open>~NetStack\<close>, which stops and joins its own two threads,
  then the thread objects of the other modules, whose destructor ends the program when they
  are joinable. The message thread of the stack ends only when the client is not running.
\<close>

datatype destroyed = Gone | Hangs | Terminates

definition client_destroy :: "Client \<Rightarrow> destroyed" where
  "client_destroy c =
     (if ThStackMsg \<in> set (cl_live c) \<and> cl_running c then Hangs
      else if \<exists>th \<in> set (cl_joinable c). th \<notin> set stack_threads then Terminates
      else Gone)"

end
