(* ===== verification/ClientRuns.thy ===== *)
theory ClientRuns
  imports Client
begin

text \<open>
  What holds of a whole client: its modules stay inside the state spaces their own theories
  describe, a client that is peer-to-peer only keeps packets off the websocket, a client that
  is shut down comes to rest, and how an object whose start failed is destroyed.
\<close>

section \<open>Turns leave most of the client alone\<close>

lemma perform_one_keeps [simp]:
  "cl_tun (perform_one e c) = cl_tun c" "cl_peers (perform_one e c) = cl_peers c"
  "cl_ws (perform_one e c) = cl_ws c" "cl_netstack (perform_one e c) = cl_netstack c"
  "cl_p2pOnly (perform_one e c) = cl_p2pOnly c" "cl_live (perform_one e c) = cl_live c"
  "cl_joinable (perform_one e c) = cl_joinable c" "cl_userspaceStack (perform_one e c) = cl_userspaceStack c"
  by (induction e c rule: perform_one.induct) (simp_all add: cl_shutdown_def)

lemma fold_perform_keeps [simp]:
  "cl_tun (fold perform_one es c) = cl_tun c" "cl_peers (fold perform_one es c) = cl_peers c"
  "cl_ws (fold perform_one es c) = cl_ws c" "cl_netstack (fold perform_one es c) = cl_netstack c"
  "cl_p2pOnly (fold perform_one es c) = cl_p2pOnly c" "cl_live (fold perform_one es c) = cl_live c"
  "cl_joinable (fold perform_one es c) = cl_joinable c"
  "cl_userspaceStack (fold perform_one es c) = cl_userspaceStack c"
  by (induction es arbitrary: c) simp_all

lemma leave_loop_keeps [simp]:
  "cl_tun (leave_loop th c) = cl_tun c" "cl_peers (leave_loop th c) = cl_peers c" "cl_ws (leave_loop th c) = cl_ws c"
  "cl_netstack (leave_loop th c) = cl_netstack c" "cl_p2pOnly (leave_loop th c) = cl_p2pOnly c"
  "cl_q (leave_loop th c) = cl_q c" "cl_userspaceStack (leave_loop th c) = cl_userspaceStack c"
  "cl_live (leave_loop th c) = removeAll th (cl_live c)" "cl_joinable (leave_loop th c) = cl_joinable c"
  "cl_running (leave_loop th c) = False"
  by (simp_all add: leave_loop_def cl_shutdown_def)

lemma start_thread_keeps [simp]:
  "cl_tun (start_thread th c) = cl_tun c" "cl_peers (start_thread th c) = cl_peers c"
  "cl_ws (start_thread th c) = cl_ws c" "cl_netstack (start_thread th c) = cl_netstack c"
  "cl_p2pOnly (start_thread th c) = cl_p2pOnly c" "cl_q (start_thread th c) = cl_q c"
  "cl_userspaceStack (start_thread th c) = cl_userspaceStack c"
  "cl_live (start_thread th c) = cl_live c @ [th]" "cl_joinable (start_thread th c) = cl_joinable c @ [th]"
  "cl_running (start_thread th c) = cl_running c"
  by (simp_all add: start_thread_def)

lemma end_turn_keeps [simp]:
  "cl_tun (fst (end_turn th es r c)) = cl_tun c" "cl_peers (fst (end_turn th es r c)) = cl_peers c"
  "cl_ws (fst (end_turn th es r c)) = cl_ws c" "cl_netstack (fst (end_turn th es r c)) = cl_netstack c"
  "cl_p2pOnly (fst (end_turn th es r c)) = cl_p2pOnly c"
  "cl_joinable (fst (end_turn th es r c)) = cl_joinable c"
  "cl_q (fst (end_turn th es r c)) = cl_q (fold perform_one es c)"
  "snd (end_turn th es r c) = filter outside es"
  by (simp_all add: end_turn_def perform_def)

lemma end_turn_zero [simp]:
  "fst (end_turn th es 0 c) = fold perform_one es c"
  by (simp add: end_turn_def perform_def)

lemma end_turn_eq: "end_turn th es r c = (c', os) \<longleftrightarrow> c' = fst (end_turn th es r c) \<and> os = filter outside es"
  by (metis end_turn_keeps(8) prod.collapse prod.inject)

text \<open>What one turn of each thread does to the modules.\<close>

lemma ws_msg_turn_Ok:
  "ws_msg_turn E c = Ok (c', os) \<Longrightarrow>
   cl_tun c' = cl_tun c \<and> cl_peers c' = cl_peers c \<and> cl_netstack c' = cl_netstack c \<and> cl_p2pOnly c' = cl_p2pOnly c"
  by (auto simp: ws_msg_turn_def end_turn_eq Let_def split: res.splits)

lemma ws_turn_Ok:
  "ws_turn E ev c = Ok (c', os) \<Longrightarrow>
   cl_tun c' = cl_tun c \<and> cl_peers c' = cl_peers c \<and> cl_netstack c' = cl_netstack c \<and> cl_p2pOnly c' = cl_p2pOnly c"
  by (auto simp: ws_turn_def end_turn_eq bind_res_Ok_iff)

lemma tun_msg_turn_Ok:
  assumes "tun_msg_turn E c = Ok (c', os)"
  shows "cl_peers c' = cl_peers c \<and> cl_netstack c' = cl_netstack c \<and> cl_p2pOnly c' = cl_p2pOnly c \<and>
    (cl_tun c' = cl_tun c \<or>
     (\<exists>m fx r. handleTunQueue (tun_env_of c E) m (cl_tun c) = Ok (cl_tun c', fx, r)))"
proof (cases "handleTunQueue (tun_env_of c E) (fst (MsgQueue_read (q_tun (cl_q c)))) (cl_tun c)")
  case (Ok x)
  then show ?thesis
    using assms by (cases x) (auto simp: tun_msg_turn_def end_turn_eq Let_def case_prod_unfold)
qed (use assms in \<open>auto simp: tun_msg_turn_def Let_def case_prod_unfold\<close>)

lemma tun_dev_turn_Ok:
  "tun_dev_turn E b c = Ok (c', os) \<Longrightarrow>
   cl_peers c' = cl_peers c \<and> cl_netstack c' = cl_netstack c \<and> cl_p2pOnly c' = cl_p2pOnly c \<and>
   cl_tun c' = fst (handleTunDevice (tun_env_of c E) b (cl_tun c))"
  by (auto simp: tun_dev_turn_def end_turn_eq Let_def case_prod_unfold)

lemma peer_msg_turn_Ok:
  assumes "peer_msg_turn E c = Ok (c', os)"
  shows "cl_tun c' = cl_tun c \<and> cl_netstack c' = cl_netstack c \<and> cl_p2pOnly c' = cl_p2pOnly c \<and>
    (\<exists>m fx r. handlePeerQueue (pm_env_of c E) m (cl_peers c) = Ok (cl_peers c', fx, r))"
proof -
  obtain p' fx r where h: "handlePeerQueue (pm_env_of c E) (fst (MsgQueue_read (q_peer (cl_q c)))) (cl_peers c) = Ok (p', fx, r)"
    using assms by (auto simp: peer_msg_turn_def bind_res_Ok_iff Let_def case_prod_unfold)
  then show ?thesis using assms by (auto simp: peer_msg_turn_def end_turn_eq Let_def case_prod_unfold)
qed

lemma peer_tick_turn_Ok:
  "peer_tick_turn E c = Ok (c', os) \<Longrightarrow>
   cl_tun c' = cl_tun c \<and> cl_netstack c' = cl_netstack c \<and> cl_p2pOnly c' = cl_p2pOnly c \<and>
   cl_peers c' = fst (pm_tick (pm_env_of c E) (cl_peers c))"
  by (auto simp: peer_tick_turn_def end_turn_eq Let_def case_prod_unfold)

lemma peer_poll_turn_Ok:
  assumes "peer_poll_turn E ev c = Ok (c', os)"
  shows "cl_tun c' = cl_tun c \<and> cl_netstack c' = cl_netstack c \<and> cl_p2pOnly c' = cl_p2pOnly c \<and>
    (\<exists>fx r. pm_poll (pm_env_of c E) ev (cl_peers c) = Ok (cl_peers c', fx, r))"
proof -
  obtain p' fx r where h: "pm_poll (pm_env_of c E) ev (cl_peers c) = Ok (p', fx, r)"
    using assms by (auto simp: peer_poll_turn_def bind_res_Ok_iff)
  then show ?thesis using assms by (auto simp: peer_poll_turn_def end_turn_eq)
qed

lemma stack_turns_Ok:
  "stack_msg_turn E now c = Ok (c', os) \<Longrightarrow>
     cl_tun c' = cl_tun c \<and> cl_peers c' = cl_peers c \<and> cl_p2pOnly c' = cl_p2pOnly c"
  "stack_turn E now op c = Ok (c', os) \<Longrightarrow>
     cl_tun c' = cl_tun c \<and> cl_peers c' = cl_peers c \<and> cl_p2pOnly c' = cl_p2pOnly c"
  by (auto simp: stack_msg_turn_def stack_turn_def run_stack_def end_turn_eq Let_def case_prod_unfold split: if_splits)

lemmas turns_Ok = ws_msg_turn_Ok ws_turn_Ok tun_msg_turn_Ok tun_dev_turn_Ok peer_msg_turn_Ok peer_tick_turn_Ok
  peer_poll_turn_Ok stack_turns_Ok

section \<open>A client's modules stay in their state spaces\<close>

text \<open>A client before it is started, with any settings.\<close>

inductive configured :: "Client \<Rightarrow> bool" where
  new: "configured (Client_new junk)"
| setName: "configured c \<Longrightarrow> configured (cl_setName s c)"
| setPassword: "configured c \<Longrightarrow> configured (cl_setPassword s c)"
| setWebSocket: "configured c \<Longrightarrow> configured (cl_setWebSocket s c)"
| setTunAddress: "configured c \<Longrightarrow> configured (cl_setTunAddress s c)"
| setExptTunAddress: "configured c \<Longrightarrow> configured (cl_setExptTunAddress s c)"
| setVirtualMac: "configured c \<Longrightarrow> configured (cl_setVirtualMac s c)"
| setStun: "configured c \<Longrightarrow> configured (cl_setStun s c)"
| setDiscoveryInterval: "configured c \<Longrightarrow> configured (cl_setDiscoveryInterval i c)"
| setRouteCost: "configured c \<Longrightarrow> configured (cl_setRouteCost i c)"
| setPort: "configured c \<Longrightarrow> configured (cl_setPort i c)"
| setLocalhost: "configured c \<Longrightarrow> cl_setLocalhost P s c = Ok c' \<Longrightarrow> configured c'"
| setMtu: "configured c \<Longrightarrow> configured (cl_setMtu i c)"
| setP2POnly: "configured c \<Longrightarrow> configured (cl_setP2POnly b c)"
| setUserspaceStack: "configured c \<Longrightarrow> configured (cl_setUserspaceStack b c)"
| setUdpPortConvergence: "configured c \<Longrightarrow> configured (cl_setUdpPortConvergence b c)"

lemmas setter_defs = cl_setName_def cl_setPassword_def cl_setWebSocket_def cl_setTunAddress_def
  cl_setExptTunAddress_def cl_setVirtualMac_def cl_setStun_def cl_setDiscoveryInterval_def cl_setRouteCost_def
  cl_setPort_def cl_setLocalhost_def cl_setMtu_def cl_setP2POnly_def cl_setUserspaceStack_def
  cl_setUdpPortConvergence_def tun_setName_def wsc_setName_def wsc_setPassword_def pm_setPassword_def
  setWsServerUri_def wsc_setAddress_def setExptTunAddress_def wsc_setVirtualMac_def setStun_def
  setDiscoveryInterval_def setRouteCost_def setPort_def setLocalhost_def tun_setMTU_def

definition unstarted :: "Client \<Rightarrow> bool" where
  "unstarted c \<longleftrightarrow>
     cl_q c = empty_queues \<and> ipPeerMap (cl_peers c) = [] \<and> rtTableMap (cl_peers c) = [] \<and>
     initiatedFlows (cl_tun c) = [] \<and> cl_netstack c = NetStack_new \<and> cl_live c = [] \<and> cl_joinable c = [] \<and>
     \<not> pm_threads (cl_peers c) \<and> \<not> tun_thread (cl_tun c) \<and> \<not> cl_running c"

lemma configured_unstarted: "configured c \<Longrightarrow> unstarted c"
proof (induction rule: configured.induct)
  case (new junk)
  show ?case by (simp add: unstarted_def Client_new_def)
next
  case (setLocalhost c P s c')
  then show ?case
    by (auto simp: cl_setLocalhost_def setLocalhost_def unstarted_def split: option.splits)
qed (simp_all add: unstarted_def setter_defs)

fun turn_crypto :: "turn \<Rightarrow> crypto option" where
  "turn_crypto (TPeerMsg E) = Some (me_crypto E)"
| "turn_crypto (TPeerTick E) = Some (me_crypto E)"
| "turn_crypto (TPeerPoll E _) = Some (me_crypto E)"
| "turn_crypto _ = None"

text \<open>
  The states of a running client: from any start, the threads take turns in any order and with
  any surroundings, until the client is joined and done; it may be told to shut down at any
  time, and the destructor may have stopped its stack. \<open>C\<close> is the one cryptographic library.
\<close>

inductive client_reach :: "crypto \<Rightarrow> Client \<Rightarrow> bool" for C where
  start: "configured c0 \<Longrightarrow> client_start S c0 = Ok (c, os, ok) \<Longrightarrow> client_reach C c"
| turn: "client_reach C c \<Longrightarrow> turn_crypto t \<in> {None, Some C} \<Longrightarrow> client_turn t c = Ok (c', os) \<Longrightarrow> client_reach C c'"
| join: "client_reach C c \<Longrightarrow> client_join c = Some c' \<Longrightarrow> client_reach C c'"
| finish: "client_reach C c \<Longrightarrow> client_finish c = Some c' \<Longrightarrow> client_reach C c'"
| stop: "client_reach C c \<Longrightarrow> client_reach C (cl_shutdown c)"
| destroy: "client_reach C c \<Longrightarrow> client_reach C (c\<lparr>cl_netstack := ns_shutdown (cl_netstack c)\<rparr>)"

lemma netstack_run_keeps:
  "cl_tun (fst (netstack_run S c)) = cl_tun c" "cl_peers (fst (netstack_run S c)) = cl_peers c"
  "cl_ws (fst (netstack_run S c)) = cl_ws c" "cl_p2pOnly (fst (netstack_run S c)) = cl_p2pOnly c"
  "cl_q (fst (netstack_run S c)) = cl_q c" "cl_userspaceStack (fst (netstack_run S c)) = cl_userspaceStack c"
  by (simp_all add: netstack_run_def Let_def)

lemma pm_run_keeps:
  "ipPeerMap (fst (pm_run P m)) = ipPeerMap m" "rtTableMap (fst (pm_run P m)) = rtTableMap m"
  by (simp_all add: pm_run_def Let_def case_prod_unfold)

lemma start_modules_keeps:
  "cl_tun (fst (start_modules S fx c)) = cl_tun c" "cl_p2pOnly (fst (start_modules S fx c)) = cl_p2pOnly c"
  "cl_peers (fst (start_modules S fx c)) = fst (pm_run (se_poco S) (cl_peers c))"
  "cl_netstack (fst (start_modules S fx c)) = cl_netstack c"
  "fst (snd (start_modules S fx c)) = filter outside (map Out fx)"
  "snd (snd (start_modules S fx c)) = (snd (pm_run (se_poco S) (cl_peers c)) = 0)"
  "cl_joinable (fst (start_modules S fx c)) = cl_joinable c @ [ThWsMsg, ThWs, ThTunMsg] @
     (if snd (pm_run (se_poco S) (cl_peers c)) = 0 then [ThPeerMsg] else [])"
  "cl_live (fst (start_modules S fx c)) = cl_live c @ [ThWsMsg, ThWs, ThTunMsg] @
     (if snd (pm_run (se_poco S) (cl_peers c)) = 0 then [ThPeerMsg] else [])"
  "cl_q (fst (start_modules S fx c)) = cl_q (fold perform_one (map Out fx) (start_thread ThWs (start_thread ThWsMsg c)))"
  by (simp_all add: start_modules_def perform_def Let_def case_prod_unfold)

text \<open>The three ways a start can end.\<close>

lemma client_start_cases:
  assumes "client_start S c0 = Ok (c, os, ok)"
  obtains c1 r where "netstack_run S (c0\<lparr>cl_running := True\<rparr>) = (c1, r)" "r \<noteq> 0" "c = c1" "os = []" "\<not> ok"
  | c1 w fx r where "netstack_run S (c0\<lparr>cl_running := True\<rparr>) = (c1, 0)"
      "wsc_run (ws_env_of c1 (se_ws S)) (se_handshake S) (se_ping S) (cl_ws c0) = Ok (w, fx, r)" "r \<noteq> 0"
      "c = c1\<lparr>cl_ws := w\<rparr>" "os = []" "\<not> ok"
  | c1 w fx where "netstack_run S (c0\<lparr>cl_running := True\<rparr>) = (c1, 0)"
      "wsc_run (ws_env_of c1 (se_ws S)) (se_handshake S) (se_ping S) (cl_ws c0) = Ok (w, fx, 0)"
      "start_modules S fx (c1\<lparr>cl_ws := w\<rparr>) = (c, os, ok)"
proof -
  obtain c1 r1 where n: "netstack_run S (c0\<lparr>cl_running := True\<rparr>) = (c1, r1)" by fastforce
  have w1: "cl_ws c1 = cl_ws c0" using netstack_run_keeps(3) [of S "c0\<lparr>cl_running := True\<rparr>"] n by simp
  show ?thesis
  proof (cases "r1 = 0")
    case False
    then show ?thesis using that(1) assms n by (simp add: client_start_def)
  next
    case True
    then obtain w fx r2 where w: "wsc_run (ws_env_of c1 (se_ws S)) (se_handshake S) (se_ping S) (cl_ws c1) = Ok (w, fx, r2)"
      using assms n by (auto simp: client_start_def bind_res_Ok_iff)
    then show ?thesis
      using that(2) [of c1 w fx r2] that(3) [of c1 w fx] assms n True w1 by (auto simp: client_start_def split: if_splits)
  qed
qed

lemma client_start_fields:
  assumes "client_start S c0 = Ok (c, os, ok)"
  shows "cl_tun c = cl_tun c0 \<and> cl_p2pOnly c = cl_p2pOnly c0 \<and>
    ipPeerMap (cl_peers c) = ipPeerMap (cl_peers c0) \<and> rtTableMap (cl_peers c) = rtTableMap (cl_peers c0)"
proof -
  note n = netstack_run_keeps [of S "c0\<lparr>cl_running := True\<rparr>"]
  from assms show ?thesis
  proof (cases rule: client_start_cases)
    case (1 c1 r)
    then show ?thesis using n by simp
  next
    case (2 c1 w fx r)
    then show ?thesis using n by simp
  next
    case (3 c1 w fx)
    then show ?thesis
      using n start_modules_keeps(1-3) [of S fx "c1\<lparr>cl_ws := w\<rparr>"] by (simp add: pm_run_keeps)
  qed
qed

lemma pm_reach_of_turn:
  assumes "pm_reach C (cl_peers c)" and "loop_body t c = Ok (c', os)" and "turn_crypto t \<in> {None, Some C}"
  shows "pm_reach C (cl_peers c')"
proof (cases t)
  case (TPeerMsg E)
  then have "me_crypto (pm_env_of c E) = C" using assms(3) by (simp add: pm_env_of_def)
  then show ?thesis
    using pm_reach.step [OF assms(1) pm_step.queue] peer_msg_turn_Ok [of E c c' os] assms(2) TPeerMsg by auto
next
  case (TPeerTick E)
  then have "me_crypto (pm_env_of c E) = C" using assms(3) by (simp add: pm_env_of_def)
  then show ?thesis
    using pm_reach.step [OF assms(1) pm_step.tick] peer_tick_turn_Ok [of E c c' os] assms(2) TPeerTick
    by (metis loop_body.simps(6) prod.collapse)
next
  case (TPeerPoll E ev)
  then have "me_crypto (pm_env_of c E) = C" using assms(3) by (simp add: pm_env_of_def)
  then show ?thesis
    using pm_reach.step [OF assms(1) pm_step.poll] peer_poll_turn_Ok [of E ev c c' os] assms(2) TPeerPoll by auto
qed (use assms in \<open>auto dest!: turns_Ok\<close>)

lemma tun_reach_of_turn:
  assumes "tun_reach (cl_tun c)" and "loop_body t c = Ok (c', os)"
  shows "tun_reach (cl_tun c')"
proof (cases t)
  case (TTunMsg E)
  then show ?thesis using tun_msg_turn_Ok [of E c c' os] assms tun_reach.queue [OF assms(1)] by auto
next
  case (TTunDev E b)
  then show ?thesis
    using tun_dev_turn_Ok [of E b c c' os] assms tun_reach.device [OF assms(1)] by (metis loop_body.simps(4) prod.collapse)
qed (use assms in \<open>auto dest!: turns_Ok\<close>)

lemma client_turn_cases:
  assumes "client_turn t c = Ok (c', os)"
  obtains "c' = c" "os = []" | "c' = leave_loop (thread_of t) c" "os = []" "\<not> cl_running c" "thread_of t \<noteq> ThStack"
  | "loop_body t c = Ok (c', os)" "thread_of t \<in> set (cl_live c)"
proof (cases "thread_of t \<notin> set (cl_live c)")
  case True
  then show ?thesis using that(1) assms by (simp add: client_turn_def)
next
  case live: False
  show ?thesis
  proof (cases "thread_of t \<noteq> ThStack \<and> \<not> cl_running c")
    case True
    then show ?thesis using that(2) assms live by (simp add: client_turn_def)
  next
    case False
    then have "loop_body t c = Ok (c', os)" using assms live by (simp only: client_turn_def if_not_P if_False simp_thms)
    then show ?thesis using that(3) live by simp
  qed
qed

lemma modules_reached:
  assumes "client_reach C c"
  shows "pm_reach C (cl_peers c) \<and> tun_reach (cl_tun c)"
  using assms
proof (induction rule: client_reach.induct)
  case (start c0 S c os ok)
  then show ?case
    using client_start_fields [OF start(2)] configured_unstarted [OF start(1)]
    by (auto simp: unstarted_def intro: pm_reach.start tun_reach.start)
next
  case (turn c t c' os)
  from turn(3) show ?case
    using turn pm_reach_of_turn tun_reach_of_turn by (cases rule: client_turn_cases) auto
next
  case (join c c')
  have "pm_reach C (fst (pm_wait (cl_peers c)))" by (rule pm_reach.start) (simp_all add: pm_wait_def)
  then show ?case using join tun_reach.wait by (auto simp: client_join_def split: if_splits)
next
  case (finish c c')
  then show ?case by (auto simp: client_finish_def split: if_splits)
qed (simp_all add: cl_shutdown_def)

text \<open>Whatever the network, the devices, the clocks and the scheduler do, the peer manager and the
  tunnel of a running client only pass through states their own theories describe, so that the
  invariants proved there hold in every state of the whole client; in particular every peer is
  stored under its own address with the key for it, and at most 4096 flows are tracked.\<close>

theorem client_refines_modules:
  assumes "client_reach C c"
  shows "pm_reach C (cl_peers c) \<and> tun_reach (cl_tun c)"
  by (rule modules_reached [OF assms])

section \<open>Queues\<close>

fun to_tun :: "out \<Rightarrow> msg list" where "to_tun (Out (ToTun m)) = [m]" | "to_tun _ = []"
fun to_peer :: "out \<Rightarrow> msg list" where "to_peer (Out (ToPeer m)) = [m]" | "to_peer _ = []"
fun to_ws :: "out \<Rightarrow> msg list" where "to_ws (Out (ToWs m)) = [m]" | "to_ws _ = []"
fun to_netstack :: "out \<Rightarrow> msg list" where "to_netstack (Out (ToNetStack m)) = [m]" | "to_netstack _ = []"

lemma perform_one_queues:
  "q_tun (cl_q (perform_one e c)) = q_tun (cl_q c) @ to_tun e"
  "q_peer (cl_q (perform_one e c)) = q_peer (cl_q c) @ to_peer e"
  "q_ws (cl_q (perform_one e c)) = q_ws (cl_q c) @ to_ws e"
  "q_netstack (cl_q (perform_one e c)) = q_netstack (cl_q c) @ to_netstack e"
  by (induction e c rule: perform_one.induct) (simp_all add: cl_shutdown_def MsgQueue_write_def)

text \<open>A queue receives what is sent to it, in order.\<close>

lemma perform_queues:
  "q_tun (cl_q (fold perform_one es c)) = q_tun (cl_q c) @ concat (map to_tun es)"
  "q_peer (cl_q (fold perform_one es c)) = q_peer (cl_q c) @ concat (map to_peer es)"
  "q_ws (cl_q (fold perform_one es c)) = q_ws (cl_q c) @ concat (map to_ws es)"
  "q_netstack (cl_q (fold perform_one es c)) = q_netstack (cl_q c) @ concat (map to_netstack es)"
  by (induction es arbitrary: c) (simp_all add: perform_one_queues)

section \<open>Peer-to-peer only\<close>

text \<open>Handing a packet to the websocket module, or sending a frame that carries one.\<close>

definition relays :: "effect \<Rightarrow> bool" where
  "relays e \<longleftrightarrow>
     (case e of
        WsSend b f \<Rightarrow> f = WS_FRAME_BINARY \<and> rd8 b 0 = WS_FORWARD
      | ToWs m \<Rightarrow> msg_kind m = PACKET
      | _ \<Rightarrow> False)"

fun quiet_out :: "out \<Rightarrow> bool" where
  "quiet_out (Out e) = (\<not> relays e)"
| "quiet_out (NsOut _) = True"

lemma relays_simps [simp]:
  "relays (WsSend b f) \<longleftrightarrow> f = WS_FRAME_BINARY \<and> rd8 b 0 = WS_FORWARD" "relays (ToWs m) \<longleftrightarrow> msg_kind m = PACKET"
  "\<not> relays (ToTun m)" "\<not> relays (ToPeer m)" "\<not> relays (ToNetStack m)" "\<not> relays (UdpSend b a)"
  "\<not> relays (TunWrite b)" "\<not> relays (SetRoute x y z)" "\<not> relays ClientShutdown"
  by (simp_all add: relays_def)

interpretation off_server: harmless_effects "\<lambda>e. \<not> relays e"
  by unfold_locales simp_all

definition no_packets :: "MsgQueue \<Rightarrow> bool" where
  "no_packets q \<longleftrightarrow> list_all (\<lambda>m. msg_kind m \<noteq> PACKET) q"

lemma ping_not_binary: "WS_FRAME_PING \<noteq> WS_FRAME_BINARY" "WS_FRAME_PONG \<noteq> WS_FRAME_BINARY"
  by (simp_all add: WS_FRAME_BINARY_def WS_FRAME_PING_def WS_FRAME_PONG_def)

lemma auth_quiet: "sendAuthMsg E w = Ok fx \<Longrightarrow> e \<in> set fx \<Longrightarrow> \<not> relays e \<and> (\<forall>m. e = ToTun m \<longrightarrow> msg_kind m = TUNADDR)"
  by (auto simp: sendAuthMsg_def bind_res_Ok_iff Let_def sendFrame_def sendPingMessage_def ping_not_binary
      Auth_updateHash_def Auth_new_def Auth_bytes_def WsMsgKind_defs split: if_splits)

lemma discovery_quiet: "sendDiscoveryMsg E d w = Ok fx \<Longrightarrow> e \<in> set fx \<Longrightarrow> \<not> relays e \<and> (\<forall>m. e \<noteq> ToTun m)"
  by (auto simp: sendDiscoveryMsg_def bind_res_Ok_iff sendFrame_def Discovery_new_def Discovery_bytes_def
      WsMsgKind_defs split: if_splits)

lemma pubinfo_quiet: "e \<in> set (wsc_handlePubInfo m w) \<Longrightarrow> \<not> relays e"
  by (auto simp: wsc_handlePubInfo_def Let_def sendFrame_def ConnLocal_new_def ConnLocal_bytes_def General_bytes_def
      Conn_new_def Conn_bytes_def WsMsgKind_defs split: if_splits)

lemma handleWsQueue_quiet:
  assumes "handleWsQueue E q w = Ok (q', fx)" and "no_packets q"
  shows "no_packets q' \<and> (\<forall>e \<in> set fx. \<not> relays e)"
proof (cases q)
  case Nil
  then show ?thesis using assms by (simp add: handleWsQueue_def no_packets_def)
next
  case (Cons m ms)
  then have "msg_kind m \<noteq> PACKET" "no_packets ms" using assms(2) by (simp_all add: no_packets_def)
  then show ?thesis
    using assms(1) Cons pubinfo_quiet discovery_quiet
    by (auto simp: handleWsQueue_def bind_res_Ok_iff wsc_handleDiscovery_def split: MsgKind.splits)
qed

lemma route_entries_effects:
  "route_entries b n i = Ok fx \<Longrightarrow> e \<in> set fx \<Longrightarrow>
   \<not> relays e \<and> (\<forall>m. e = ToTun m \<longrightarrow> msg_kind m = SYSRT)"
  by (induction b n i arbitrary: fx rule: route_entries.induct) (auto simp: bind_res_Ok_iff split: if_splits)

definition drops_packets :: "bool \<Rightarrow> effect \<Rightarrow> bool" where
  "drops_packets p2p e \<longleftrightarrow> \<not> relays e \<and> (p2p \<longrightarrow> (\<forall>m. e = ToTun m \<longrightarrow> msg_kind m \<noteq> PACKET))"

lemma handleWsMsg_quiet:
  assumes "handleWsMsg E b w = Ok (w', fx)" and "e \<in> set fx"
  shows "drops_packets (env_p2pOnly E) e"
proof -
  have x: "wsc_handleExptTunMsg E b w = Ok (w', fx) \<Longrightarrow> drops_packets (env_p2pOnly E) e"
    using assms(2) by (auto simp: wsc_handleExptTunMsg_def bind_res_Ok_iff Let_def drops_packets_def dest!: auth_quiet split: if_splits)
  have d: "wsc_handleDiscoveryMsg E b w = Ok fx \<Longrightarrow> drops_packets (env_p2pOnly E) e"
    using assms(2) by (auto simp: wsc_handleDiscoveryMsg_def bind_res_Ok_iff Let_def drops_packets_def dest!: discovery_quiet split: if_splits)
  have r: "handleRouteMsg b = Ok fx \<Longrightarrow> drops_packets (env_p2pOnly E) e"
    using assms(2) by (auto simp: handleRouteMsg_def drops_packets_def dest!: route_entries_effects split: if_splits)
  show ?thesis
    using assms x d r
    by (auto simp: handleWsMsg_def Let_def bind_res_Ok_iff wsc_handleForwardMsg_def wsc_handleUdp4ConnMsg_def
        handleGeneralMsg_def drops_packets_def split: if_splits)
qed

lemma handleWsConn_quiet:
  assumes "handleWsConn E ev w = Ok (w', fx, r)" and "e \<in> set fx"
  shows "drops_packets (env_p2pOnly E) e"
proof (cases ev)
  case (ConnFrame payload flags)
  have m: "handleWsMsg E payload w1 = Ok (w2, fx) \<Longrightarrow> drops_packets (env_p2pOnly E) e" for w1 w2
    using handleWsMsg_quiet assms(2) by blast
  show ?thesis
    using assms ConnFrame m
    by (auto simp: handleWsConn_def Let_def drops_packets_def sendFrame_def ping_not_binary split: if_splits res.splits)
qed (use assms in \<open>auto simp: handleWsConn_def drops_packets_def sendPingMessage_def sendFrame_def ping_not_binary split: if_splits\<close>)

lemma tun_quiet:
  "handleTunQueue E m t = Ok (t', fx, r) \<Longrightarrow> e \<in> set fx \<Longrightarrow> \<not> relays e"
  "e \<in> set (snd (handleTunDevice E b t)) \<Longrightarrow> \<not> relays e"
proof -
  show "handleTunQueue E m t = Ok (t', fx, r) \<Longrightarrow> e \<in> set fx \<Longrightarrow> \<not> relays e"
    by (cases "msg_kind m")
      (auto simp: handleTunQueue_def bind_res_Ok_iff Let_def tun_handlePacket_def handleSysRt_def case_prod_unfold
        split: if_splits)
  show "e \<in> set (snd (handleTunDevice E b t)) \<Longrightarrow> \<not> relays e"
    by (auto simp: handleTunDevice_def Let_def split: if_splits option.splits)
qed

lemma from_stack_quiet: "quiet_out (from_stack e)"
  by (cases e) auto

lemma quiet_end_turn:
  assumes "\<And>e. e \<in> set es \<Longrightarrow> quiet_out e" and "no_packets (q_ws (cl_q c))"
  shows "no_packets (q_ws (cl_q (fst (end_turn th es r c)))) \<and> list_all quiet_out (snd (end_turn th es r c))"
proof -
  have "list_all (\<lambda>m. msg_kind m \<noteq> PACKET) (to_ws e)" if "e \<in> set es" for e
    using assms(1) [OF that] by (cases e rule: to_ws.cases) auto
  then have "no_packets (concat (map to_ws es))" by (auto simp: no_packets_def list_all_iff)
  then show ?thesis using assms by (auto simp: perform_queues no_packets_def list_all_iff)
qed

lemma quiet_map: "list_all quiet_out (map Out fx) \<longleftrightarrow> (\<forall>e \<in> set fx. \<not> relays e)"
  by (simp add: list_all_iff)

lemma quiet_to_ws: "\<forall>e \<in> set fx. \<not> relays e \<Longrightarrow> no_packets (concat (map to_ws (map Out fx)))"
proof (induction fx)
  case (Cons e fx)
  then show ?case by (cases e) (simp_all add: no_packets_def)
qed (simp add: no_packets_def)

definition stays_quiet :: "Client \<Rightarrow> (Client \<times> out list) res \<Rightarrow> bool" where
  "stays_quiet c x \<longleftrightarrow>
     cl_p2pOnly c \<longrightarrow> no_packets (q_ws (cl_q c)) \<longrightarrow>
     (\<forall>c' os. x = Ok (c', os) \<longrightarrow> no_packets (q_ws (cl_q c')) \<and> list_all quiet_out os)"

lemma stays_quiet_end_turn:
  assumes "list_all quiet_out es" and "no_packets (q_ws (cl_q c)) \<longrightarrow> no_packets (q_ws (cl_q d))"
  shows "stays_quiet c (Ok (end_turn th es r d))"
proof -
  have "\<And>e. e \<in> set es \<Longrightarrow> quiet_out e" using assms(1) by (simp add: list_all_iff)
  then show ?thesis
    using quiet_end_turn [of es d th r] assms(2) by (auto simp: stays_quiet_def end_turn_eq)
qed

lemma quiet_ws_msg: "stays_quiet c (ws_msg_turn E c)"
proof (cases "handleWsQueue (ws_env_of c E) (q_ws (cl_q c)) (cl_ws c)")
  case (Ok x)
  then obtain q' fx where h: "handleWsQueue (ws_env_of c E) (q_ws (cl_q c)) (cl_ws c) = Ok (q', fx)" by (cases x) auto
  have "stays_quiet c (Ok (end_turn ThWsMsg (map Out fx) 0 (c\<lparr>cl_q := (cl_q c)\<lparr>q_ws := q'\<rparr>\<rparr>)))"
  proof (cases "no_packets (q_ws (cl_q c))")
    case True
    then have "no_packets q'" "list_all quiet_out (map Out fx)" using handleWsQueue_quiet [OF h] by (auto simp: list_all_iff)
    then show ?thesis using stays_quiet_end_turn [of "map Out fx"] by simp
  qed (simp add: stays_quiet_def)
  then show ?thesis by (simp add: ws_msg_turn_def h Let_def)
next
  case Throw
  have "no_packets q \<Longrightarrow> no_packets (snd (MsgQueue_read q))" for q
    by (cases q) (simp_all add: no_packets_def)
  then show ?thesis using Throw by (simp add: ws_msg_turn_def Let_def stays_quiet_def)
qed (simp add: ws_msg_turn_def Let_def stays_quiet_def)

lemma quiet_ws: "stays_quiet c (ws_turn E ev c)"
proof (cases "handleWsConn (ws_env_of c E) ev (cl_ws c)")
  case (Ok x)
  then obtain w' fx r where h: "handleWsConn (ws_env_of c E) ev (cl_ws c) = Ok (w', fx, r)" by (cases x) auto
  have "list_all quiet_out (map Out fx)" using handleWsConn_quiet [OF h] by (auto simp: list_all_iff drops_packets_def)
  then show ?thesis using stays_quiet_end_turn [of "map Out fx" c "c\<lparr>cl_ws := w'\<rparr>"] h by (simp add: ws_turn_def)
qed (simp_all add: ws_turn_def stays_quiet_def)

lemma quiet_tun_msg: "stays_quiet c (tun_msg_turn E c)"
proof (cases "handleTunQueue (tun_env_of c E) (fst (MsgQueue_read (q_tun (cl_q c)))) (cl_tun c)")
  case (Ok x)
  then obtain t' fx r where h: "handleTunQueue (tun_env_of c E) (fst (MsgQueue_read (q_tun (cl_q c)))) (cl_tun c) = Ok (t', fx, r)"
    by (cases x) auto
  have "list_all quiet_out (map Out fx)" using tun_quiet(1) [OF h] by (auto simp: list_all_iff)
  then show ?thesis using stays_quiet_end_turn [of "map Out fx" c] h by (simp add: tun_msg_turn_def case_prod_unfold Let_def)
qed (simp_all add: tun_msg_turn_def case_prod_unfold Let_def stays_quiet_def)

lemma quiet_tun_dev: "stays_quiet c (tun_dev_turn E i c)"
proof -
  have "list_all quiet_out (map Out (snd (handleTunDevice (tun_env_of c E) i (cl_tun c))))"
    using tun_quiet(2) by (auto simp: list_all_iff)
  then show ?thesis using stays_quiet_end_turn by (simp add: tun_dev_turn_def case_prod_unfold Let_def)
qed

lemma quiet_peer_msg: "stays_quiet c (peer_msg_turn E c)"
proof (cases "handlePeerQueue (pm_env_of c E) (fst (MsgQueue_read (q_peer (cl_q c)))) (cl_peers c)")
  case (Ok x)
  let ?m = "fst (MsgQueue_read (q_peer (cl_q c)))"
  obtain p' fx r where h: "handlePeerQueue (pm_env_of c E) ?m (cl_peers c) = Ok (p', fx, r)" using Ok by (cases x) auto
  show ?thesis
  proof (cases "cl_p2pOnly c")
    case True
    then have "\<not> left_to_server (pm_env_of c E) ?m (cl_peers c) fx" by (simp add: left_to_server_def pm_env_of_def)
    then have "filter ws_packet fx = []" using handlePeerQueue_ws [OF h] by blast
    then have m: "ToWs ?m \<in> set fx \<longrightarrow> msg_kind ?m \<noteq> PACKET" by (auto simp: filter_empty_conv)
    have "\<not> relays e" if "e \<in> set fx" for e
      using off_server.handlePeerQueue_harmless [OF h that] m that by auto
    then have "list_all quiet_out (map Out fx)" by (simp add: quiet_map)
    then show ?thesis
      using stays_quiet_end_turn [of "map Out fx" c] h by (simp add: peer_msg_turn_def case_prod_unfold Let_def)
  qed (simp add: stays_quiet_def)
qed (simp_all add: peer_msg_turn_def case_prod_unfold Let_def stays_quiet_def)

lemma quiet_peer_tick: "stays_quiet c (peer_tick_turn E c)"
proof -
  have "list_all quiet_out (map Out (snd (pm_tick (pm_env_of c E) (cl_peers c))))"
    using off_server.tick_harmless by (auto simp: quiet_map)
  then show ?thesis using stays_quiet_end_turn by (simp add: peer_tick_turn_def case_prod_unfold Let_def)
qed

lemma quiet_peer_poll: "stays_quiet c (peer_poll_turn E ev c)"
proof (cases "pm_poll (pm_env_of c E) ev (cl_peers c)")
  case (Ok x)
  then obtain p' fx r where h: "pm_poll (pm_env_of c E) ev (cl_peers c) = Ok (p', fx, r)" by (cases x) auto
  have "list_all quiet_out (map Out fx)" using off_server.poll_harmless [OF h] by (auto simp: list_all_iff)
  then show ?thesis using stays_quiet_end_turn [of "map Out fx" c "c\<lparr>cl_peers := p'\<rparr>"] h by (simp add: peer_poll_turn_def)
qed (simp_all add: peer_poll_turn_def stays_quiet_def)

lemma quiet_run_stack: "q_ws (cl_q d) = q_ws (cl_q c) \<Longrightarrow> stays_quiet c (Ok (run_stack E now op d))"
  using stays_quiet_end_turn [of "map from_stack (snd (ns_turn (ns_env_of d E) now op (cl_netstack d)))"] from_stack_quiet
  by (simp add: run_stack_def case_prod_unfold Let_def list_all_iff)

lemma quiet_same: "q_ws (cl_q d) = q_ws (cl_q c) \<Longrightarrow> stays_quiet c (Ok (d, []))"
  by (simp add: stays_quiet_def)

lemma quiet_loop_body: "stays_quiet c (loop_body t c)"
  by (cases t) (simp_all add: quiet_ws_msg quiet_ws quiet_tun_msg quiet_tun_dev quiet_peer_msg quiet_peer_tick
      quiet_peer_poll stack_msg_turn_def stack_turn_def case_prod_unfold Let_def quiet_run_stack quiet_same)

lemma quiet_turn: "stays_quiet c (client_turn t c)"
  using quiet_loop_body [of c t] quiet_same [of _ c] by (simp add: client_turn_def)

lemma p2pOnly_turn: "client_turn t c = Ok (c', os) \<Longrightarrow> cl_p2pOnly c' = cl_p2pOnly c"
proof (erule client_turn_cases)
  assume "loop_body t c = Ok (c', os)"
  then show ?thesis by (cases t) (auto dest!: turns_Ok)
qed simp_all

lemma start_quiet:
  assumes "configured c0" and "client_start S c0 = Ok (c, os, ok)"
  shows "no_packets (q_ws (cl_q c)) \<and> list_all quiet_out os"
proof -
  have k: "q_ws (cl_q (fst (netstack_run S (c0\<lparr>cl_running := True\<rparr>)))) = []"
    using configured_unstarted [OF assms(1)] netstack_run_keeps(5) [of S "c0\<lparr>cl_running := True\<rparr>"]
    by (simp add: unstarted_def empty_queues_def)
  from assms(2) show ?thesis
  proof (cases rule: client_start_cases)
    case (3 c1 w fx)
    have q: "\<forall>e \<in> set fx. \<not> relays e"
      using 3(2)
      by (auto simp: wsc_run_def Let_def case_prod_unfold bind_res_Ok_iff sendVirtualMacMsg_def VMac_updateHash_def
          VMac_new_def VMac_bytes_def sendExptTunMsg_def sendFrame_def ExptTun_bytes_def ExptTun_updateHash_def
          ExptTun_new_def WsMsgKind_defs dest: auth_quiet split: if_splits)
    then have "list_all quiet_out os" "no_packets (concat (map to_ws (map Out fx)))"
      using start_modules_keeps(5) [of S fx "c1\<lparr>cl_ws := w\<rparr>"] 3(3) quiet_to_ws by (auto simp: list_all_iff)
    then show ?thesis
      using start_modules_keeps(9) [of S fx "c1\<lparr>cl_ws := w\<rparr>"] 3(1,3) k by (simp add: perform_queues no_packets_def)
  qed (use k in \<open>simp_all add: no_packets_def\<close>)
qed

lemma client_reach_quiet: "client_reach C c \<Longrightarrow> cl_p2pOnly c \<Longrightarrow> no_packets (q_ws (cl_q c))"
proof (induction rule: client_reach.induct)
  case (start c0 S c os ok)
  then show ?case using start_quiet by blast
next
  case (turn c t c' os)
  then show ?case using quiet_turn [of c t] p2pOnly_turn by (auto simp: stays_quiet_def)
next
  case (join c c')
  then show ?case by (auto simp: client_join_def split: if_splits)
next
  case (finish c c')
  then show ?case by (auto simp: client_finish_def empty_queues_def no_packets_def split: if_splits)
qed (simp_all add: cl_shutdown_def)

definition packets :: "MsgQueue \<Rightarrow> MsgQueue" where
  "packets q = filter (\<lambda>m. msg_kind m = PACKET) q"

lemma dropped_to_tun: "\<forall>e \<in> set fx. drops_packets True e \<Longrightarrow> packets (concat (map to_tun (map Out fx))) = []"
proof (induction fx)
  case (Cons e fx)
  then show ?case by (cases e) (simp_all add: packets_def drops_packets_def)
qed (simp add: packets_def)

lemma ws_turn_packets:
  assumes "cl_p2pOnly c" and "ws_turn E ev c = Ok (c', os)"
  shows "packets (q_tun (cl_q c')) = packets (q_tun (cl_q c))"
proof -
  obtain w' fx r where h: "handleWsConn (ws_env_of c E) ev (cl_ws c) = Ok (w', fx, r)"
    "end_turn ThWs (map Out fx) r (c\<lparr>cl_ws := w'\<rparr>) = (c', os)"
    using assms(2) by (auto simp: ws_turn_def bind_res_Ok_iff)
  have "\<forall>e \<in> set fx. drops_packets True e"
    using handleWsConn_quiet [OF h(1)] assms(1) by (simp add: ws_env_of_def)
  from dropped_to_tun [OF this] have "packets (concat (map to_tun (map Out fx))) = []" .
  moreover have "q_tun (cl_q c') = q_tun (cl_q c) @ concat (map to_tun (map Out fx))"
    using h(2) by (auto simp: end_turn_eq perform_queues)
  ultimately show ?thesis by (simp only: packets_def filter_append append_Nil2)
qed

text \<open>A running client that is peer-to-peer only never, in any interleaving of its threads and
  whatever arrives, sends the server a frame that carries a packet; and what arrives from the
  server never adds a packet to the queue of the tunnel.\<close>

theorem p2p_only_client:
  assumes "client_reach C c" and "cl_p2pOnly c" and "client_turn t c = Ok (c', os)"
  shows "cl_p2pOnly c' \<and>
    (\<forall>b f. Out (WsSend b f) \<in> set os \<longrightarrow> \<not> (f = WS_FRAME_BINARY \<and> rd8 b 0 = WS_FORWARD)) \<and>
    (\<forall>E ev. t = TWs E ev \<longrightarrow> packets (q_tun (cl_q c')) = packets (q_tun (cl_q c)))"
proof -
  have "list_all quiet_out os"
    using quiet_turn [of c t] client_reach_quiet [OF assms(1,2)] assms(2,3) by (auto simp: stays_quiet_def)
  then have "\<forall>b f. Out (WsSend b f) \<in> set os \<longrightarrow> \<not> (f = WS_FRAME_BINARY \<and> rd8 b 0 = WS_FORWARD)"
    by (auto simp: list_all_iff)
  moreover have "packets (q_tun (cl_q c')) = packets (q_tun (cl_q c))" if "t = TWs E ev" for E ev
    using assms(3) ws_turn_packets [OF assms(2)] that by (auto elim!: client_turn_cases)
  ultimately show ?thesis using p2pOnly_turn [OF assms(3)] assms(2) by blast
qed

text \<open>A client with a static address, connected to a server.\<close>

definition demo_uri_poco :: poco where
  "demo_uri_poco = dotted_poco\<lparr>uri_parse := (\<lambda>_. Some \<lparr>uri_scheme = str ''ws'', uri_host = str ''s'', uri_path = [], uri_port = 80\<rparr>)\<rparr>"

definition demo_ws_env :: ws_env where
  "demo_ws_env = \<lparr>env_crypto = toy_crypto, env_poco = demo_uri_poco, env_p2pOnly = False, env_boot = 0, env_unix = 0\<rparr>"

definition demo_start :: start_env where
  "demo_start = \<lparr>se_ws = demo_ws_env, se_handshake = (\<lambda>_ _ _. True), se_ping = [], se_poco = demo_uri_poco,
     se_reactor = True, se_netif = True,
     se_ns = \<lparr>ne_address = ip4_zero, ne_converged = False, ne_dial = True, ne_alloc = True, ne_mtu = 0\<rparr>, se_now = 0\<rparr>"

definition demo_client :: "bool \<Rightarrow> Client" where
  "demo_client p2p = cl_setP2POnly p2p (cl_setTunAddress (str ''10.0.0.1/24'') (cl_setPassword (str ''pw'') (Client_new 0)))"

lemma configured_demo: "configured (demo_client p2p)"
  unfolding demo_client_def
  by (rule configured.setP2POnly [OF configured.setTunAddress [OF configured.setPassword [OF configured.new]]])

definition demo_started :: "bool \<Rightarrow> Client" where
  "demo_started p2p = (case client_start demo_start (demo_client p2p) of Ok (c, _, _) \<Rightarrow> c | _ \<Rightarrow> demo_client p2p)"

lemma demo_address: "Address_of demo_uri_poco (str ''10.0.0.1/24'') = Ok \<lparr>a_host = IP4 10 0 0 1, a_mask = IP4 255 255 255 0\<rparr>"
  by code_simp

lemma demo_client_fields:
  "tunCidr (cl_ws (demo_client p2p)) = str ''10.0.0.1/24''" "\<not> cl_userspaceStack (demo_client p2p)"
  "st_uri (pm_stun (cl_peers (demo_client p2p))) = []" "cl_p2pOnly (demo_client p2p) = p2p"
  "cl_live (demo_client p2p) = []"
  by (simp_all add: demo_client_def setter_defs Client_new_def)

text \<open>It connects, whatever its other settings are.\<close>

lemma static_client_starts:
  assumes "tunCidr (cl_ws c0) = str ''10.0.0.1/24''" and "\<not> cl_userspaceStack c0" and "st_uri (pm_stun (cl_peers c0)) = []"
  shows "\<exists>c os. client_start demo_start c0 = Ok (c, os, True)"
proof -
  let ?c = "c0\<lparr>cl_running := True\<rparr>"
  have n: "netstack_run demo_start ?c = (?c, 0)" using assms(2) by (simp add: netstack_run_def)
  have s: "str ''10.0.0.1/24'' \<noteq> []" by (simp add: str_def)
  have "\<exists>w fx. wsc_run (ws_env_of ?c demo_ws_env) (\<lambda>_ _ _. True) [] (cl_ws ?c) = Ok (w, fx, 0)"
    using s by (simp add: wsc_run_def wsc_connect_def demo_ws_env_def demo_uri_poco_def ws_env_of_def
        assms(1) sendAuthMsg_def Let_def demo_address [unfolded demo_uri_poco_def])
  then obtain w fx where w: "wsc_run (ws_env_of ?c demo_ws_env) (\<lambda>_ _ _. True) [] (cl_ws ?c) = Ok (w, fx, 0)"
    by blast
  have st: "client_start demo_start c0 = Ok (start_modules demo_start fx (?c\<lparr>cl_ws := w\<rparr>))"
    using n w by (simp add: client_start_def demo_start_def)
  have "snd (pm_run (se_poco demo_start) (cl_peers ?c)) = 0"
    by (simp add: pm_run_def stun_update_def assms(3))
  then have "snd (snd (start_modules demo_start fx (?c\<lparr>cl_ws := w\<rparr>)))"
    by (simp add: start_modules_keeps)
  then show ?thesis using st by (cases "start_modules demo_start fx (?c\<lparr>cl_ws := w\<rparr>)") simp
qed

lemma demo_start_ok: "\<exists>c os. client_start demo_start (demo_client p2p) = Ok (c, os, True)"
  by (rule static_client_starts) (simp_all add: demo_client_fields)

lemma demo_started: "\<exists>os. client_start demo_start (demo_client p2p) = Ok (demo_started p2p, os, True)"
  using demo_start_ok [of p2p] by (auto simp: demo_started_def)

lemma demo_started_reach: "client_reach C (demo_started p2p)"
  using demo_started [of p2p] client_reach.start [OF configured_demo] by blast

lemma demo_started_p2p: "cl_p2pOnly (demo_started p2p) = p2p"
  using demo_started [of p2p] client_start_fields by (metis demo_client_fields(4))

lemma forward_frame_turn_Ok: "\<exists>c' os. client_turn (TWs E (ConnFrame (WS_FORWARD # p) 130)) c = Ok (c', os)"
proof -
  obtain w fx r where h: "handleWsConn (ws_env_of c E) (ConnFrame (WS_FORWARD # p) 130) (cl_ws c) = Ok (w, fx, r)"
    by (simp add: handleWsConn_def handleWsMsg_def Let_def)
  show ?thesis
  proof (cases "end_turn ThWs (map Out fx) r (c\<lparr>cl_ws := w\<rparr>)")
    case (Pair c' os)
    then show ?thesis by (auto simp: client_turn_def ws_turn_def h)
  qed
qed

theorem p2p_only_client_witness:
  "\<exists>c' os. client_turn (TWs demo_ws_env (ConnFrame (WS_FORWARD # replicate 20 0) 130)) (demo_started True) = Ok (c', os) \<and>
     packets (q_tun (cl_q c')) = packets (q_tun (cl_q (demo_started True)))"
proof -
  let ?t = "TWs demo_ws_env (ConnFrame (WS_FORWARD # replicate 20 0) 130)"
  obtain c' os where h: "client_turn ?t (demo_started True) = Ok (c', os)"
    using forward_frame_turn_Ok by blast
  have "cl_p2pOnly (demo_started True)" by (simp add: demo_started_p2p)
  from p2p_only_client [OF demo_started_reach this h] h show ?thesis by blast
qed

theorem client_refines_modules_witness:
  "pm_reach toy_crypto (cl_peers (demo_started False)) \<and> tun_reach (cl_tun (demo_started False))"
  by (rule client_refines_modules [OF demo_started_reach])

section \<open>Shutting down\<close>

lemma perform_stopped: "\<not> cl_running c \<Longrightarrow> \<not> cl_running (fold perform_one es c)"
proof (induction es arbitrary: c)
  case (Cons e es)
  have "\<not> cl_running (perform_one e c)"
    using Cons.prems by (induction e c rule: perform_one.induct) (simp_all add: cl_shutdown_def)
  then show ?case using Cons.IH by simp
qed simp

lemma run_stack_live:
  "cl_live (fst (run_stack E now op c)) = cl_live c"
  "\<not> cl_running c \<Longrightarrow> \<not> cl_running (fst (run_stack E now op c))"
  using perform_stopped by (simp_all add: run_stack_def case_prod_unfold Let_def)

lemma turn_when_stopped:
  assumes "\<not> cl_running c"
  shows "\<exists>c' os. client_turn t c = Ok (c', os) \<and> \<not> cl_running c' \<and> set (cl_live c') \<subseteq> set (cl_live c) \<and>
    (thread_of t \<noteq> ThStack \<longrightarrow> thread_of t \<notin> set (cl_live c'))"
proof (cases "thread_of t = ThStack")
  case True
  then obtain E now op where t: "t = TStack E now op" by (cases t) auto
  define op' where "op' = (case op of NsMsg _ \<Rightarrow> NsIdle | _ \<Rightarrow> op)"
  obtain c1 os where r: "run_stack E now op' c = (c1, os)" by fastforce
  have k: "cl_live c1 = cl_live c" "\<not> cl_running c1"
    using run_stack_live [where c = c and E = E and now = now and op = op'] r assms by simp_all
  show ?thesis
  proof (cases "ThStack \<in> set (cl_live c) \<and> ns_running (cl_netstack c)")
    case True
    then show ?thesis using k by (simp add: client_turn_def stack_turn_def t op'_def [symmetric] r)
  next
    case False
    then show ?thesis using assms by (auto simp: client_turn_def stack_turn_def t)
  qed
next
  case False
  then show ?thesis using assms by (auto simp: client_turn_def)
qed

lemma turns_when_stopped:
  "\<not> cl_running c \<Longrightarrow>
   \<exists>c' os. client_turns ts c = Ok (c', os) \<and> \<not> cl_running c' \<and> set (cl_live c') \<subseteq> set (cl_live c) \<and>
     (\<forall>t \<in> set ts. thread_of t \<noteq> ThStack \<longrightarrow> thread_of t \<notin> set (cl_live c'))"
proof (induction ts arbitrary: c)
  case (Cons t ts)
  obtain c1 o1 where 1: "client_turn t c = Ok (c1, o1)" "\<not> cl_running c1" "set (cl_live c1) \<subseteq> set (cl_live c)"
    "thread_of t \<noteq> ThStack \<longrightarrow> thread_of t \<notin> set (cl_live c1)"
    using turn_when_stopped [OF Cons.prems] by blast
  obtain c2 o2 where "client_turns ts c1 = Ok (c2, o2)" "\<not> cl_running c2" "set (cl_live c2) \<subseteq> set (cl_live c1)"
    "\<forall>t \<in> set ts. thread_of t \<noteq> ThStack \<longrightarrow> thread_of t \<notin> set (cl_live c2)"
    using Cons.IH [OF 1(2)] by blast
  then show ?case using 1 by auto
qed simp

lemma comes_to_rest:
  assumes "\<not> cl_running c" and "\<forall>th \<in> set (cl_live c). th = ThStack \<or> th \<in> thread_of ` set ts"
  shows "\<exists>c1 os c2 c3 c4. client_turns ts c = Ok (c1, os) \<and> client_join c1 = Some c2 \<and>
    client_turn (TStack E now op) c2 = Ok (c3, []) \<and> client_finish c3 = Some c4 \<and>
    cl_live c4 = [] \<and> cl_joinable c4 = [] \<and> cl_q c4 = empty_queues \<and> ipPeerMap (cl_peers c4) = []"
proof -
  obtain c1 os where c1: "client_turns ts c = Ok (c1, os)" "set (cl_live c1) \<subseteq> set (cl_live c)"
    "\<forall>t \<in> set ts. thread_of t \<noteq> ThStack \<longrightarrow> thread_of t \<notin> set (cl_live c1)"
    using turns_when_stopped [OF assms(1), of ts] by blast
  have l: "set (cl_live c1) \<subseteq> {ThStack}" using c1 assms(2) by fastforce
  define c2 where "c2 = c1\<lparr>cl_tun := fst (tun_wait (cl_tun c1)), cl_peers := fst (pm_wait (cl_peers c1)),
      cl_netstack := ns_shutdown (cl_netstack c1),
      cl_joinable := filter (\<lambda>th. th \<in> set stack_threads) (cl_joinable c1)\<rparr>"
  have c2: "client_join c1 = Some c2" "cl_live c2 = cl_live c1" "\<not> ns_running (cl_netstack c2)"
    "\<forall>th \<in> set (cl_joinable c2). th \<in> set stack_threads" "ipPeerMap (cl_peers c2) = []"
    using l by (auto simp: client_join_def stack_threads_def ns_shutdown_def pm_wait_def c2_def)
  define c3 where "c3 = (if ThStack \<in> set (cl_live c2)
      then c2\<lparr>cl_netstack := teardownStack (cl_netstack c2), cl_live := removeAll ThStack (cl_live c2)\<rparr> else c2)"
  have c3: "client_turn (TStack E now op) c2 = Ok (c3, [])"
    using c2(3) by (simp add: client_turn_def stack_turn_def c3_def)
  have "set (removeAll ThStack (cl_live c1)) = {}" "ThStack \<notin> set (cl_live c1) \<longrightarrow> set (cl_live c1) = {}"
    using l by (auto simp: subset_singleton_iff)
  then have "removeAll ThStack (cl_live c1) = []" "ThStack \<notin> set (cl_live c1) \<longrightarrow> cl_live c1 = []"
    by (metis set_empty)+
  then have "client_finish c3 = Some (c3\<lparr>cl_q := empty_queues, cl_joinable := []\<rparr>)" "cl_live c3 = []"
    "ipPeerMap (cl_peers c3) = []"
    using c2 by (auto simp: client_finish_def c3_def)
  then show ?thesis using c1(1) c2(1) c3 by auto
qed

text \<open>After a shutdown, whoever asked for it, no thread blocks another: once every thread but the
  stack's own has had one more turn, in any order and with any inputs, waiting for the modules
  succeeds; after one further turn of the stack thread so does waiting for the stack, and the
  client is left with no thread, empty queues and no peers.\<close>

theorem shutdown_comes_to_rest:
  assumes "\<not> cl_running c" and "\<forall>th \<in> set (cl_live c). th = ThStack \<or> th \<in> thread_of ` set ts"
  shows "\<exists>c1 os c2 c3 c4. client_turns ts c = Ok (c1, os) \<and> client_join c1 = Some c2 \<and>
    client_turn (TStack E now op) c2 = Ok (c3, []) \<and> client_finish c3 = Some c4 \<and>
    cl_live c4 = [] \<and> cl_joinable c4 = [] \<and> cl_q c4 = empty_queues \<and> ipPeerMap (cl_peers c4) = []"
  using assms by (rule comes_to_rest)

section \<open>A start that fails\<close>

definition connects :: "start_env \<Rightarrow> Client \<Rightarrow> bool" where
  "connects S c0 \<longleftrightarrow> snd (wsc_connect (ws_env_of c0 (se_ws S)) (se_handshake S) (se_ping S) (cl_ws c0)) = 0"

lemma ws_env_of_cong: "cl_p2pOnly c = cl_p2pOnly d \<Longrightarrow> ws_env_of c E = ws_env_of d E"
  by (simp add: ws_env_of_def)

lemma wsc_run_no_shutdown:
  "wsc_run E h ping w = Ok (w', fx, r) \<Longrightarrow> ClientShutdown \<notin> set fx"
  by (auto simp: wsc_run_def Let_def case_prod_unfold bind_res_Ok_iff sendVirtualMacMsg_def sendExptTunMsg_def
      sendAuthMsg_def sendPingMessage_def sendFrame_def split: if_splits)

lemma wsc_run_connects:
  "wsc_run E h ping w = Ok (w', fx, r) \<Longrightarrow> r = 0 \<longleftrightarrow> snd (wsc_connect E h ping w) = 0"
  by (auto simp: wsc_run_def Let_def case_prod_unfold bind_res_Ok_iff split: if_splits)

lemma perform_running: "ClientShutdown \<notin> set fx \<Longrightarrow> cl_running (fold perform_one (map Out fx) c) = cl_running c"
proof (induction fx arbitrary: c)
  case (Cons e fx)
  then have "cl_running (perform_one (Out e) c) = cl_running c" by (cases e) simp_all
  then show ?case using Cons by simp
qed simp

lemma start_modules_running: "ClientShutdown \<notin> set fx \<Longrightarrow> cl_running (fst (start_modules S fx c)) = cl_running c"
  by (simp add: start_modules_def perform_def Let_def case_prod_unfold perform_running)

lemma started_client_runs:
  assumes "client_start S c0 = Ok (c, os, True)" and "cl_userspaceStack c0 \<longrightarrow> se_netif S"
  shows "cl_running c"
  using assms(1)
proof (cases rule: client_start_cases)
  case (3 c1 w fx)
  have "cl_running (fst (netstack_run S (c0\<lparr>cl_running := True\<rparr>)))"
    using assms(2) by (simp add: netstack_run_def Let_def)
  then show ?thesis
    using start_modules_running [OF wsc_run_no_shutdown [OF 3(2)], of S "c1\<lparr>cl_ws := w\<rparr>"] 3(1,3) by simp
qed simp_all

lemma netstack_run_threads:
  assumes "cl_live c = []" "cl_joinable c = []" "cl_running c"
  shows "snd (netstack_run S c) = (if cl_userspaceStack c \<and> \<not> se_reactor S then -1 else 0)"
    and "cl_joinable (fst (netstack_run S c)) = (if cl_userspaceStack c \<and> se_reactor S then [ThStack, ThStackMsg] else [])"
    and "ThStackMsg \<in> set (cl_live (fst (netstack_run S c))) \<and> cl_running (fst (netstack_run S c)) \<longleftrightarrow>
      cl_userspaceStack c \<and> se_reactor S \<and> se_netif S"
  using assms by (simp_all add: netstack_run_def Let_def)


text \<open>A client with the userspace stack whose server cannot be reached.\<close>

definition unreachable :: start_env where
  "unreachable = demo_start\<lparr>se_handshake := (\<lambda>_ _ _. False)\<rparr>"

definition demo_stack_client :: Client where
  "demo_stack_client = cl_setUserspaceStack True (demo_client False)"

lemma demo_unreachable_start: "\<exists>c. client_start unreachable demo_stack_client = Ok (c, [], False)"
proof -
  have k: "cl_userspaceStack demo_stack_client" by (simp add: demo_stack_client_def cl_setUserspaceStack_def)
  obtain c1 where n: "netstack_run unreachable (demo_stack_client\<lparr>cl_running := True\<rparr>) = (c1, 0)"
    using k by (simp add: netstack_run_def unreachable_def demo_start_def Let_def)
  have h: "se_handshake unreachable = (\<lambda>_ _ _. False)" by (simp add: unreachable_def)
  have "\<exists>w. wsc_run E (\<lambda>_ _ _. False) p v = Ok (w, [], -1)" for E p v
    by (simp add: wsc_run_def wsc_connect_def Let_def split: option.split)
  then obtain w where "wsc_run (ws_env_of c1 (se_ws unreachable)) (\<lambda>_ _ _. False) (se_ping unreachable) (cl_ws c1) = Ok (w, [], -1)"
    by blast
  then have "client_start unreachable demo_stack_client = Ok (c1\<lparr>cl_ws := w\<rparr>, [], False)"
    by (simp add: client_start_def n h)
  then show ?thesis by blast
qed


theorem shutdown_comes_to_rest_witness:
  "\<exists>c1 os c2. client_turns [TWsMsg demo_ws_env, TWs demo_ws_env PollError, TTunMsg demo_tun_env, TPeerMsg (demo_env_pm False)]
       (cl_shutdown (demo_started False)) = Ok (c1, os) \<and> client_join c1 = Some c2"
proof -
  obtain os0 where s: "client_start demo_start (demo_client False) = Ok (demo_started False, os0, True)"
    using demo_started by blast
  have "set (cl_live (cl_shutdown (demo_started False))) \<subseteq> {ThWsMsg, ThWs, ThTunMsg, ThPeerMsg}"
    using s
  proof (cases rule: client_start_cases)
    case (3 c1 w fx)
    have "cl_live (fst (netstack_run demo_start ((demo_client False)\<lparr>cl_running := True\<rparr>))) = []"
      by (simp add: netstack_run_def demo_client_fields)
    then have "cl_live c1 = []" using 3(1) by simp
    then show ?thesis
      using start_modules_keeps(8) [of demo_start fx "c1\<lparr>cl_ws := w\<rparr>"] 3(3) by (auto simp: cl_shutdown_def)
  qed simp_all
  then have "\<forall>th \<in> set (cl_live (cl_shutdown (demo_started False))). th = ThStack \<or>
      th \<in> thread_of ` set [TWsMsg demo_ws_env, TWs demo_ws_env PollError, TTunMsg demo_tun_env, TPeerMsg (demo_env_pm False)]"
    by auto
  from shutdown_comes_to_rest [OF _ this] show ?thesis by (fastforce simp: cl_shutdown_def)
qed

end
