(* ===== verification/Vpn.thy ===== *)
theory Vpn
  imports ClientRuns
begin

text \<open>
  Two clients and the server: the way of a packet from the virtual card of one host to the
  virtual card of another, through three threads of the sending client, a pass of the server's
  connection loop and two threads of the receiving client.
\<close>

section \<open>The sending client\<close>

text \<open>No direct way to \<open>d\<close>: it is in no route, and no peer under it is connected.\<close>

definition no_direct_way :: "PeerManager \<Rightarrow> ip4 \<Rightarrow> bool" where
  "no_direct_way m d \<longleftrightarrow>
     map_of (rtTableMap m) d = None \<and>
     (case map_of (ipPeerMap m) d of None \<Rightarrow> True | Some p \<Rightarrow> p_state p \<noteq> CONNECTED)"

lemma sendPacket_no_way: "no_direct_way m d \<Longrightarrow> sendPacket E d b m = Ok (m, [], -1)"
  by (auto simp: no_direct_way_def sendPacket_def sendPacketRelay_def sendPacketDirect_def isConnected_def
      split: option.splits)

lemma handlePacket_no_way:
  assumes "no_direct_way m (daddr (IP4Header_at p 0))" and "sizeof_IP4Header \<le> length p" and "\<not> me_p2pOnly E"
  shows "handlePeerQueue E (Msg PACKET p) m = Ok (m, [ToWs (Msg PACKET p)], 0)"
  using assms by (simp add: handlePeerQueue_def pm_handlePacket_def sendPacket_no_way)

lemma device_sends:
  assumes "sizeof_IP4Header \<le> length p" and "isIPv4 (IP4Header_at p 0)" and "daddr (IP4Header_at p 0) \<noteq> tun_getIP t"
    and "next_hop (daddr (IP4Header_at p 0)) (sysRtTable t) = ip4_zero"
  shows "handleTunDevice E (Some p) t = (t, [ToPeer (Msg PACKET p)])"
  using assms by (simp add: handleTunDevice_def ip4_empty_iff)

text \<open>The client works: all its threads are in their loops and nothing waits in the queues.\<close>

definition at_work :: "Client \<Rightarrow> bool" where
  "at_work c \<longleftrightarrow>
     cl_running c \<and> {ThTunDev, ThTunMsg, ThPeerMsg, ThWsMsg, ThWs} \<subseteq> set (cl_live c) \<and>
     cl_q c = empty_queues \<and> wc_ws (cl_ws c)"

lemma client_turn_at_work:
  "cl_running c \<Longrightarrow> thread_of t \<in> set (cl_live c) \<Longrightarrow> client_turn t c = loop_body t c"
  by (simp add: client_turn_def)

lemma sender_turns:
  assumes w: "at_work a" and p2p: "\<not> cl_p2pOnly a"
    and p: "sizeof_IP4Header \<le> length p" "isIPv4 (IP4Header_at p 0)" "daddr (IP4Header_at p 0) \<noteq> cl_address a"
    and r: "next_hop (daddr (IP4Header_at p 0)) (sysRtTable (cl_tun a)) = ip4_zero"
    and d: "no_direct_way (cl_peers a) (daddr (IP4Header_at p 0))"
  shows "client_turns [TTunDev Et (Some p), TPeerMsg Ep, TWsMsg Ew] a =
    Ok (a, [Out (WsSend (WS_FORWARD # p) WS_FRAME_BINARY)])"
proof -
  let ?m = "Msg PACKET p"
  have a: "cl_running a" "cl_q a = empty_queues" "wc_ws (cl_ws a)" "ThTunDev \<in> set (cl_live a)"
    "ThPeerMsg \<in> set (cl_live a)" "ThWsMsg \<in> set (cl_live a)"
    using w by (simp_all add: at_work_def)
  let ?a1 = "a\<lparr>cl_q := (cl_q a)\<lparr>q_peer := [?m]\<rparr>\<rparr>" and ?a2 = "a\<lparr>cl_q := (cl_q a)\<lparr>q_ws := [?m]\<rparr>\<rparr>"
  have 1: "client_turn (TTunDev Et (Some p)) a = Ok (?a1, [])"
    using a p r device_sends [of p "cl_tun a" "tun_env_of a Et"]
    by (simp add: client_turn_at_work tun_dev_turn_def cl_address_def end_turn_eq [where os = "[]"] MsgQueue_write_def empty_queues_def)
  have h: "handlePeerQueue (pm_env_of ?a1 Ep) ?m (cl_peers a) = Ok (cl_peers a, [ToWs ?m], 0)"
    using handlePacket_no_way [OF d p(1)] p2p by (simp add: pm_env_of_def)
  have 2: "client_turn (TPeerMsg Ep) ?a1 = Ok (?a2, [])"
    using a h by (simp add: client_turn_at_work peer_msg_turn_def end_turn_eq [where os = "[]"] MsgQueue_write_def empty_queues_def)
  have 3: "client_turn (TWsMsg Ew) ?a2 = Ok (a, [Out (WsSend (WS_FORWARD # p) WS_FRAME_BINARY)])"
    using a by (simp add: client_turn_at_work ws_msg_turn_def handleWsQueue_def wsc_handlePacket_def sendFrame_def Let_def
        end_turn_def perform_def empty_queues_def)
  show ?thesis by (simp add: 1 2 3)
qed

section \<open>The server\<close>

lemma handleForwardMsg_registered:
  assumes "registry_ok s" and "map_of (sv_ctxs s) c = Some x" and "ctx_ip x \<noteq> ip4_zero"
    and "sizeof_Forward \<le> length (ctx_buffer x)"
    and "map_of (ipCtxMap s) (daddr (fw_iph (Forward_at (ctx_buffer x)))) = Some c'"
  shows "handleForwardMsg (\<lambda>_ _. Sent) c s = (s, [(c', ctx_buffer x)], Done)"
  using assms registered_live [OF assms(1,5)]
  by (auto simp: handleForwardMsg_def the_ctx_def ip4_empty_iff Let_def finish_def)

lemma forward_header: "daddr (fw_iph (Forward_at (k # p))) = daddr (IP4Header_at p 0)"
  by (simp add: Forward_at_def IP4Header_at_def slice_def numeral_eq_Suc)

lemma server_pass_forwards:
  assumes s: "registry_ok s" "sv_running s" and x: "map_of (sv_ctxs s) c = Some x" "ctx_status x = 0" "ctx_ip x \<noteq> ip4_zero"
    and p: "sizeof_IP4Header \<le> length p" "length p < 1500" and d: "map_of (ipCtxMap s) (daddr (IP4Header_at p 0)) = Some c'"
  shows "\<exists>s'. handleWebsocket_pass C P now (\<lambda>_ _. Sent) c (RecvFrame (WS_FORWARD # p) 130) s =
    (s', [(c', WS_FORWARD # p)], Done)"
proof -
  let ?f = "WS_FORWARD # p"
  let ?received = "splice 0 ?f (resize 1500 (loop_buffer x))"
  have b: "resize (length ?f) ?received = ?f"
    using p by (simp add: splice_def resize_shorter)
  let ?s1 = "upd_ctx c (\<lambda>x. x\<lparr>loop_buffer := ?received\<rparr>) s"
  let ?s2 = "upd_ctx c (\<lambda>x. x\<lparr>ctx_buffer := ?f, loop_buffer := []\<rparr>) ?s1"
  have r2: "registry_ok ?s2" using s(1) by (simp add: registry_ok_upd_ctx)
  have x2: "map_of (sv_ctxs ?s2) c = Some (x\<lparr>loop_buffer := [], ctx_buffer := ?f\<rparr>)"
    using x by (simp add: ctxs_upd_ctx)
  have f: "handleForwardMsg (\<lambda>_ _. Sent) c ?s2 = (?s2, [(c', ?f)], Done)"
    using handleForwardMsg_registered [OF r2 x2, of c'] x(3) p(1) d
    by (simp add: forward_header sizeof_Forward_def sizeof_IP4Header_def)
  have m: "server_handleMsg C P now (\<lambda>_ _. Sent) c ?s2 = (?s2, [(c', ?f)], Done)"
    using f x2 by (simp add: server_handleMsg_def the_ctx_def WsMsgKind_defs)
  show ?thesis
    using s(2) x m b
    by (simp add: handleWebsocket_pass_def the_ctx_def frame_op_def frame_ops Let_def)
qed

section \<open>The receiving client\<close>

lemma receiver_turns:
  assumes w: "at_work b" and p2p: "\<not> cl_p2pOnly b"
    and p: "sizeof_IP4Header \<le> length p" "\<not> isIPIP (IP4Header_at p 0)"
  shows "\<exists>b'. client_turns [TWs Ew (ConnFrame (WS_FORWARD # p) 130), TTunMsg Et] b = Ok (b', [Out (TunWrite p)]) \<and>
    q_peer (cl_q b') = [Msg TRYP2P (ip_show (env_poco Ew) (saddr (IP4Header_at p 0)))]"
proof -
  let ?m = "Msg PACKET p"
  let ?t = "Msg TRYP2P (ip_show (env_poco Ew) (saddr (IP4Header_at p 0)))"
  let ?w = "(cl_ws b)\<lparr>ws_timestamp := env_boot Ew\<rparr>"
  let ?b1 = "b\<lparr>cl_ws := ?w, cl_q := (cl_q b)\<lparr>q_tun := [?m], q_peer := [?t]\<rparr>\<rparr>"
  have b: "cl_running b" "cl_q b = empty_queues" "ThWs \<in> set (cl_live b)" "ThTunMsg \<in> set (cl_live b)"
    using w by (simp_all add: at_work_def)
  have h: "handleWsConn (ws_env_of b Ew) (ConnFrame (WS_FORWARD # p) 130) (cl_ws b) = Ok (?w, [ToPeer ?t, ToTun ?m], 0)"
    using p2p p(1)
    by (simp add: handleWsConn_def handleWsMsg_def wsc_handleForwardMsg_def ws_env_of_def sizeof_Forward_def
        sizeof_IP4Header_def Let_def)
  have 1: "client_turn (TWs Ew (ConnFrame (WS_FORWARD # p) 130)) b = Ok (?b1, [])"
    using b h by (simp add: client_turn_at_work ws_turn_def end_turn_eq [where os = "[]"] MsgQueue_write_def empty_queues_def)
  have t: "handleTunQueue (tun_env_of ?b1 Et) ?m (cl_tun b) = Ok (cl_tun b, [TunWrite p], 0)"
    using p by (simp add: handleTunQueue_def tun_handlePacket_def Let_def)
  have 2: "client_turn (TTunMsg Et) ?b1 = Ok (?b1\<lparr>cl_q := (cl_q ?b1)\<lparr>q_tun := []\<rparr>\<rparr>, [Out (TunWrite p)])"
    using b t by (simp add: client_turn_at_work tun_msg_turn_def Let_def end_turn_def perform_def)
  show ?thesis by (simp add: 1 2)
qed

section \<open>End to end\<close>


definition demo_working :: "ip4 \<Rightarrow> Client" where
  "demo_working ip =
     (let c = Client_new 1400
      in c\<lparr>cl_running := True, cl_live := [ThWsMsg, ThWs, ThTunMsg, ThPeerMsg, ThTunDev, ThPeerTick, ThPeerPoll],
           cl_tun := (cl_tun c)\<lparr>tn_ip := ip, tn_mask := IP4 255 255 255 0, tun_thread := True\<rparr>,
           cl_ws := (cl_ws c)\<lparr>wc_ws := True\<rparr>\<rparr>)"

definition demo_packet :: bytes where
  "demo_packet = 0x45 # replicate 11 0 @ raw (IP4 10 0 0 1) @ raw (IP4 10 0 0 2)"

lemma demo_working_facts:
  "at_work (demo_working ip)" "\<not> cl_p2pOnly (demo_working ip)" "cl_address (demo_working ip) = ip"
  "next_hop d (sysRtTable (cl_tun (demo_working ip))) = ip4_zero" "no_direct_way (cl_peers (demo_working ip)) d"
  by (simp_all add: demo_working_def Client_new_def at_work_def cl_address_def tun_getIP_def no_direct_way_def Let_def)

lemma demo_packet_facts:
  "length demo_packet = 20" "isIPv4 (IP4Header_at demo_packet 0)" "\<not> isIPIP (IP4Header_at demo_packet 0)"
  "daddr (IP4Header_at demo_packet 0) = IP4 10 0 0 2"
  by code_simp+


end
