(* ===== verification/PeerRelay.thy ===== *)
theory PeerRelay
  imports Vpn
begin

text \<open>
  Packets that travel through other clients: the sender's route to the destination goes through
  a peer, which decrypts the datagram, finds that the packet is not its own, and hands it to its
  own message thread like a packet from its device (\<^verbatim>\<open>handleForwardMessage\<close> and
  \<^verbatim>\<open>handlePacket\<close> of \<^verbatim>\<open>peer/manager.cc\<close>). Three clients in a row, and what happens when the
  routes of two clients point at each other.
\<close>

section \<open>Sending along a route\<close>

lemma sendPacket_next_hop:
  assumes "resolvePeerTarget d m = k" and "map_of (ipPeerMap m) k = Some p" and "p_state p = CONNECTED"
    and "p_real p = Some addr" and "length packet < ciphertext_size"
    and "encrypt (me_crypto E) (p_key p) (me_iv E (p_addr p) (p_draws p)) (PeerForward_create packet) = Some f"
    and "me_sendTo E f addr = int (length f)"
  shows "sendPacket E d packet m = Ok (put_peer k (p\<lparr>p_draws := Suc (p_draws p)\<rparr>) m, [UdpSend f addr], 0)"
proof (cases "map_of (rtTableMap m) d")
  case None
  then show ?thesis using sendPacket_direct [OF None _ assms(3-7)] assms(1,2) by (simp add: resolvePeerTarget_def)
next
  case (Some r)
  have "sendPacketDirect E k packet m = Ok (put_peer k (p\<lparr>p_draws := Suc (p_draws p)\<rparr>) m, [UdpSend f addr], 0)"
    using assms(2-7)
    by (simp add: sendPacketDirect_def isConnected_def sendEncrypted_def sendEncrypted_fits_def peer_encrypt_def
        peer_env_of_def peer_send_def PeerForward_create_def)
  then show ?thesis using Some assms(1) by (simp add: resolvePeerTarget_def sendPacket_def sendPacketRelay_def)
qed

text \<open>
  The surroundings work: vectors can be drawn, the cipher seals, the socket takes whole
  datagrams.
\<close>

definition works :: "crypto \<Rightarrow> pm_env \<Rightarrow> bool" where
  "works C E \<longleftrightarrow>
     crypto_ok C \<and> me_crypto E = C \<and> (\<forall>k n. \<exists>v. me_iv E k n = Some v \<and> length v = AES_256_GCM_IV_LEN) \<and>
     (\<forall>k v b. gcm_seal C k v b \<noteq> None) \<and> (\<forall>f a. me_sendTo E f a = int (length f))"

lemma works_encrypt:
  assumes "works C E"
  shows "\<exists>f. encrypt C (peer_key C pw k) (me_iv E k n) b = Some f \<and> decrypt C (peer_key C pw k) f = Some b \<and>
    length f = length b + 28"
proof -
  obtain v where v: "me_iv E k n = Some v" "length v = AES_256_GCM_IV_LEN" using assms unfolding works_def by blast
  obtain f where f: "encrypt C (peer_key C pw k) (Some v) b = Some f"
    using assms by (force simp: works_def encrypt_def split: option.split)
  have "crypto_ok C" "iv_ok (Some v)" using assms v(2) by (simp_all add: works_def iv_ok_def)
  then show ?thesis using decrypt_encrypt [OF _ _ f] length_encrypt [OF _ _ f] f v(1) by auto
qed

text \<open>
  The next hop of \<open>m\<close> towards \<open>d\<close> is the connected peer \<open>k\<close>, reached at \<open>addr\<close>: the one its route
  names, or \<open>d\<close> itself when it has no route.
\<close>

definition next_hop_is :: "ip4 \<Rightarrow> ip4 \<Rightarrow> sockaddr \<Rightarrow> PeerManager \<Rightarrow> bool" where
  "next_hop_is d k addr m \<longleftrightarrow>
     resolvePeerTarget d m = k \<and>
     (case map_of (ipPeerMap m) k of None \<Rightarrow> False | Some p \<Rightarrow> p_state p = CONNECTED \<and> p_real p = Some addr)"

text \<open>The manager of the host \<open>ip\<close>, with the password of the network.\<close>

definition host_of :: "crypto \<Rightarrow> bytes \<Rightarrow> ip4 \<Rightarrow> PeerManager \<Rightarrow> bool" where
  "host_of C pw ip m \<longleftrightarrow> getTunIp m = ip \<and> pm_password m = pw \<and> pm_key m = peer_key C pw ip"

text \<open>A datagram that carries the packet \<open>p\<close> to the host \<open>k\<close>.\<close>

definition carries :: "crypto \<Rightarrow> bytes \<Rightarrow> ip4 \<Rightarrow> bytes \<Rightarrow> bytes \<Rightarrow> bool" where
  "carries C pw k p f \<longleftrightarrow> decrypt C (peer_key C pw k) f = Some (PM_FORWARD # p) \<and> length f \<le> 1500"

lemma manager_sends:
  assumes E: "works C E" and m: "pm_reach C m" "host_of C pw ip m" and h: "next_hop_is d k addr m"
    and p: "sizeof_IP4Header \<le> length p" "length p \<le> 1471" "daddr (IP4Header_at p 0) = d"
  shows "\<exists>q f. let m' = put_peer k q m in
    handlePeerQueue E (Msg PACKET p) m = Ok (m', [UdpSend f addr], 0) \<and>
    carries C pw k p f \<and> next_hop_is d k addr m' \<and> host_of C pw ip m' \<and> st_address (pm_stun m') = st_address (pm_stun m) \<and>
    pm_threads m' = pm_threads m"
proof -
  have r: "resolvePeerTarget d m = k" using h by (simp add: next_hop_is_def)
  obtain q where q: "map_of (ipPeerMap m) k = Some q" "p_state q = CONNECTED" "p_real q = Some addr"
    using h by (auto simp: next_hop_is_def split: option.splits)
  have g: "p_addr q = k" "p_key q = peer_key C pw k"
    using pm_ok_peer [OF pm_ok_reach [OF m(1)] q(1)] m(2) by (simp_all add: good_peer_def host_of_def)
  obtain f where f: "encrypt C (peer_key C pw k) (me_iv E k (p_draws q)) (PeerForward_create p) = Some f"
      "decrypt C (peer_key C pw k) f = Some (PeerForward_create p)" "length f = length (PeerForward_create p) + 28"
    using works_encrypt [OF E] by blast
  let ?q = "q\<lparr>p_draws := Suc (p_draws q)\<rparr>"
  have e: "me_crypto E = C" "me_sendTo E f addr = int (length f)" using E unfolding works_def by blast+
  have "encrypt (me_crypto E) (p_key q) (me_iv E (p_addr q) (p_draws q)) (PeerForward_create p) = Some f"
    using f(1) g e(1) by simp
  then have "sendPacket E d p m = Ok (put_peer k ?q m, [UdpSend f addr], 0)"
    using sendPacket_next_hop [OF r q _ _ e(2), of p] p(2) by (simp add: ciphertext_size_def)
  then have "handlePeerQueue E (Msg PACKET p) m = Ok (put_peer k ?q m, [UdpSend f addr], 0)"
    using p by (simp add: handlePeerQueue_def pm_handlePacket_def)
  moreover have "carries C pw k p f"
    using f(2,3) p(2) by (simp add: carries_def PeerForward_create_def)
  moreover have "next_hop_is d k addr (put_peer k ?q m)" "host_of C pw ip (put_peer k ?q m)"
    using r q m(2) by (simp_all add: next_hop_is_def resolvePeerTarget_def put_peer_def host_of_def getTunIp_def table_simps)
  moreover have "st_address (pm_stun (put_peer k ?q m)) = st_address (pm_stun m)" "pm_threads (put_peer k ?q m) = pm_threads m"
    by (simp_all add: put_peer_def)
  ultimately show ?thesis unfolding Let_def by blast
qed

lemma manager_receives:
  assumes E: "works C E" and m: "host_of C pw k m" "st_address (pm_stun m) \<noteq> from" and f: "carries C pw k p f"
    and p: "sizeof_IP4Header \<le> length p"
  shows "pm_poll E (Datagram f from) m =
    Ok (m, [if daddr (IP4Header_at p 0) = k then ToTun (Msg PACKET p) else ToPeer (Msg PACKET p)], 0)"
proof -
  have "f \<noteq> []" using f by (auto simp: carries_def decrypt_def AES_256_GCM_IV_LEN_def split: if_splits)
  then show ?thesis
    using assms
    by (simp add: pm_poll_def Let_def pm_handleMessage_def handleForwardMessage_def PeerMsgKind_defs carries_def host_of_def
        works_def sizeof_PeerForward_def sizeof_IP4Header_def)
qed

section \<open>A hop\<close>

text \<open>A client of the network whose peer threads are in their loops and that has nothing queued.\<close>

definition peer_host :: "crypto \<Rightarrow> bytes \<Rightarrow> ip4 \<Rightarrow> Client \<Rightarrow> bool" where
  "peer_host C pw ip c \<longleftrightarrow>
     cl_running c \<and> {ThPeerMsg, ThPeerPoll} \<subseteq> set (cl_live c) \<and> cl_q c = empty_queues \<and>
     pm_reach C (cl_peers c) \<and> host_of C pw ip (cl_peers c)"

lemma works_env: "works C E \<Longrightarrow> works C (pm_env_of c E)"
  by (simp add: works_def pm_env_of_def)

text \<open>The message thread takes the packet from its queue and sends it to the next hop.\<close>

lemma host_sends:
  assumes E: "works C E" and c: "peer_host C pw ip c" "next_hop_is d k addr (cl_peers c)"
    and p: "sizeof_IP4Header \<le> length p" "length p \<le> 1471" "daddr (IP4Header_at p 0) = d"
  shows "\<exists>c' f. client_turn (TPeerMsg E) (c\<lparr>cl_q := empty_queues\<lparr>q_peer := [Msg PACKET p]\<rparr>\<rparr>) = Ok (c', [Out (UdpSend f addr)]) \<and>
    carries C pw k p f \<and> peer_host C pw ip c' \<and> next_hop_is d k addr (cl_peers c') \<and>
    st_address (pm_stun (cl_peers c')) = st_address (pm_stun (cl_peers c))"
proof -
  let ?E = "pm_env_of c E" and ?c = "c\<lparr>cl_q := empty_queues\<lparr>q_peer := [Msg PACKET p]\<rparr>\<rparr>"
  have h: "cl_running c" "ThPeerMsg \<in> set (cl_live c)" "cl_q c = empty_queues" "pm_reach C (cl_peers c)" "host_of C pw ip (cl_peers c)"
    using c(1) by (simp_all add: peer_host_def)
  obtain q f where s: "handlePeerQueue ?E (Msg PACKET p) (cl_peers c) = Ok (put_peer k q (cl_peers c), [UdpSend f addr], 0)"
      "carries C pw k p f" "next_hop_is d k addr (put_peer k q (cl_peers c))" "host_of C pw ip (put_peer k q (cl_peers c))"
      "st_address (pm_stun (put_peer k q (cl_peers c))) = st_address (pm_stun (cl_peers c))"
      "pm_threads (put_peer k q (cl_peers c)) = pm_threads (cl_peers c)"
    using manager_sends [OF works_env [OF E] h(4,5) c(2) p] unfolding Let_def by blast
  let ?c' = "c\<lparr>cl_peers := put_peer k q (cl_peers c)\<rparr>"
  have "pm_env_of ?c E = ?E" by (simp add: pm_env_of_def cl_address_def)
  then have t: "client_turn (TPeerMsg E) ?c = Ok (?c', [Out (UdpSend f addr)])"
    using h s by (simp add: client_turn_at_work peer_msg_turn_def Let_def end_turn_def perform_def empty_queues_def)
  have "me_crypto ?E = C" using works_env [OF E] by (simp add: works_def)
  then have "pm_reach C (put_peer k q (cl_peers c))"
    using pm_reach.step [OF h(4) pm_step.queue [OF _ s(1)]] by blast
  then have "peer_host C pw ip ?c'" using c(1) s(4) by (simp add: peer_host_def)
  then show ?thesis using t s by auto
qed

text \<open>Two turns of a client that relays: the datagram comes in, another goes out.\<close>

lemma host_relays:
  assumes E: "works C E" "works C E'" and c: "peer_host C pw ip c" "next_hop_is d k addr (cl_peers c)" "d \<noteq> ip"
    and f: "carries C pw ip p f" "st_address (pm_stun (cl_peers c)) \<noteq> from"
    and p: "sizeof_IP4Header \<le> length p" "length p \<le> 1471" "daddr (IP4Header_at p 0) = d"
  shows "\<exists>c' g. client_turns [TPeerPoll E (Datagram f from), TPeerMsg E'] c = Ok (c', [Out (UdpSend g addr)]) \<and>
    carries C pw k p g \<and> peer_host C pw ip c' \<and> next_hop_is d k addr (cl_peers c') \<and>
    st_address (pm_stun (cl_peers c')) = st_address (pm_stun (cl_peers c))"
proof -
  let ?c = "c\<lparr>cl_q := empty_queues\<lparr>q_peer := [Msg PACKET p]\<rparr>\<rparr>"
  have h: "cl_running c" "ThPeerPoll \<in> set (cl_live c)" "cl_q c = empty_queues" "host_of C pw ip (cl_peers c)"
    using c(1) by (simp_all add: peer_host_def)
  have "pm_poll (pm_env_of c E) (Datagram f from) (cl_peers c) = Ok (cl_peers c, [ToPeer (Msg PACKET p)], 0)"
    using manager_receives [OF works_env [OF E(1)] h(4) f(2,1) p(1)] c(3) p(3) by simp
  then have "client_turn (TPeerPoll E (Datagram f from)) c = Ok (?c, [])"
    using h by (simp add: client_turn_at_work peer_poll_turn_def end_turn_eq [where os = "[]"] MsgQueue_write_def empty_queues_def)
  moreover obtain c' g where "client_turn (TPeerMsg E') ?c = Ok (c', [Out (UdpSend g addr)])"
      "carries C pw k p g" "peer_host C pw ip c'" "next_hop_is d k addr (cl_peers c')"
      "st_address (pm_stun (cl_peers c')) = st_address (pm_stun (cl_peers c))"
    using host_sends [OF E(2) c(1,2) p] by blast
  ultimately show ?thesis by auto
qed

section \<open>Three clients in a row\<close>

lemma device_to_peer_queue:
  assumes c: "peer_host C pw ip c" "ThTunDev \<in> set (cl_live c)"
    and p: "sizeof_IP4Header \<le> length p" "isIPv4 (IP4Header_at p 0)" "daddr (IP4Header_at p 0) \<noteq> cl_address c"
    and r: "next_hop (daddr (IP4Header_at p 0)) (sysRtTable (cl_tun c)) = ip4_zero"
  shows "client_turn (TTunDev Et (Some p)) c = Ok (c\<lparr>cl_q := empty_queues\<lparr>q_peer := [Msg PACKET p]\<rparr>\<rparr>, [])"
  using assms device_sends [of p "cl_tun c" "tun_env_of c Et"]
  by (simp add: peer_host_def client_turn_at_work tun_dev_turn_def cl_address_def end_turn_eq [where os = "[]"]
      MsgQueue_write_def empty_queues_def)

lemma host_delivers:
  assumes E: "works C E" and c: "peer_host C pw d c" "ThTunMsg \<in> set (cl_live c)"
    and f: "carries C pw d p f" "st_address (pm_stun (cl_peers c)) \<noteq> from"
    and p: "sizeof_IP4Header \<le> length p" "daddr (IP4Header_at p 0) = d" "\<not> isIPIP (IP4Header_at p 0)"
  shows "client_turns [TPeerPoll E (Datagram f from), TTunMsg Et] c = Ok (c, [Out (TunWrite p)])"
proof -
  let ?c = "c\<lparr>cl_q := empty_queues\<lparr>q_tun := [Msg PACKET p]\<rparr>\<rparr>"
  have h: "cl_running c" "ThPeerPoll \<in> set (cl_live c)" "cl_q c = empty_queues" "host_of C pw d (cl_peers c)"
    using c(1) by (simp_all add: peer_host_def)
  have "pm_poll (pm_env_of c E) (Datagram f from) (cl_peers c) = Ok (cl_peers c, [ToTun (Msg PACKET p)], 0)"
    using manager_receives [OF works_env [OF E] h(4) f(2,1) p(1)] p(2) by simp
  then have 1: "client_turn (TPeerPoll E (Datagram f from)) c = Ok (?c, [])"
    using h by (simp add: client_turn_at_work peer_poll_turn_def end_turn_eq [where os = "[]"] MsgQueue_write_def empty_queues_def)
  have "handleTunQueue (tun_env_of ?c Et) (Msg PACKET p) (cl_tun c) = Ok (cl_tun c, [TunWrite p], 0)"
    using p by (simp add: handleTunQueue_def tun_handlePacket_def Let_def)
  then have "client_turn (TTunMsg Et) ?c = Ok (c, [Out (TunWrite p)])"
    using h c(2) by (simp add: client_turn_at_work tun_msg_turn_def Let_def end_turn_def perform_def empty_queues_def)
  then show ?thesis using 1 by simp
qed

text \<open>C5: a packet that the routes of the clients lead through another client arrives: the sender's
  device thread and message thread send one datagram, to the peer that is its next hop; this peer's
  two threads turn it into one datagram to the destination, sealed anew; and the destination writes
  to its device the packet of the sender, byte for byte. The packet may have up to 1471 bytes.\<close>

theorem packet_relayed_by_peer:
  assumes "works C E1" and "works C E2" and "works C E3" and "works C E4"
    and "peer_host C pw ia a" and "ThTunDev \<in> set (cl_live a)" and "next_hop_is d ib addr_b (cl_peers a)"
    and "peer_host C pw ib b" and "next_hop_is d d addr_d (cl_peers b)" and "d \<noteq> ib"
    and "peer_host C pw d c" and "ThTunMsg \<in> set (cl_live c)"
    and "st_address (pm_stun (cl_peers b)) \<noteq> from_a" and "st_address (pm_stun (cl_peers c)) \<noteq> from_b"
    and "sizeof_IP4Header \<le> length p" and "length p \<le> 1471" and "isIPv4 (IP4Header_at p 0)" and "\<not> isIPIP (IP4Header_at p 0)"
    and "daddr (IP4Header_at p 0) = d" and "d \<noteq> cl_address a" and "next_hop d (sysRtTable (cl_tun a)) = ip4_zero"
  shows "\<exists>a' b' f g.
    client_turns [TTunDev Et (Some p), TPeerMsg E1] a = Ok (a', [Out (UdpSend f addr_b)]) \<and>
    client_turns [TPeerPoll E2 (Datagram f from_a), TPeerMsg E3] b = Ok (b', [Out (UdpSend g addr_d)]) \<and>
    client_turns [TPeerPoll E4 (Datagram g from_b), TTunMsg Et'] c = Ok (c, [Out (TunWrite p)])"
proof -
  obtain a' f where a: "client_turn (TPeerMsg E1) (a\<lparr>cl_q := empty_queues\<lparr>q_peer := [Msg PACKET p]\<rparr>\<rparr>) = Ok (a', [Out (UdpSend f addr_b)])"
      "carries C pw ib p f"
    using host_sends [of C E1 pw ia a d ib addr_b p] assms by blast
  have "client_turn (TTunDev Et (Some p)) a = Ok (a\<lparr>cl_q := empty_queues\<lparr>q_peer := [Msg PACKET p]\<rparr>\<rparr>, [])"
    using device_to_peer_queue [of C pw ia a p Et] assms by simp
  then have "client_turns [TTunDev Et (Some p), TPeerMsg E1] a = Ok (a', [Out (UdpSend f addr_b)])" using a(1) by simp
  moreover obtain b' g where "client_turns [TPeerPoll E2 (Datagram f from_a), TPeerMsg E3] b = Ok (b', [Out (UdpSend g addr_d)])"
      "carries C pw d p g"
    using host_relays [of C E2 E3 pw ib b d d addr_d p f from_a] assms a(2) by blast
  moreover have "client_turns [TPeerPoll E4 (Datagram g from_b), TTunMsg Et'] c = Ok (c, [Out (TunWrite p)])"
    using host_delivers [of C E4 pw d c p g from_b Et'] assms calculation(3) by blast
  ultimately show ?thesis by blast
qed

section \<open>Routes that point at each other\<close>

text \<open>
  \<open>shuttle E n f x ax y ay\<close>: the datagram \<open>f\<close> arrives at the client \<open>x\<close> from the address \<open>ay\<close> of
  \<open>y\<close>; its two peer threads have a turn; what it sends to \<open>ay\<close> arrives at \<open>y\<close>, and so on, \<open>n\<close>
  times. \<open>None\<close> as soon as a client does not send exactly one datagram, to the other.
\<close>

fun shuttle :: "(nat \<Rightarrow> pm_env) \<Rightarrow> nat \<Rightarrow> bytes \<Rightarrow> Client \<Rightarrow> sockaddr \<Rightarrow> Client \<Rightarrow> sockaddr \<Rightarrow> (bytes \<times> Client \<times> Client) option" where
  "shuttle E 0 f x ax y ay = Some (f, x, y)"
| "shuttle E (Suc n) f x ax y ay =
     (case client_turns [TPeerPoll (E n) (Datagram f ay), TPeerMsg (E n)] x of
        Ok (x', [Out (UdpSend g addr)]) \<Rightarrow> if addr = ay then shuttle E n g y ay x' ax else None
      | _ \<Rightarrow> None)"

text \<open>\<open>x\<close> is the host \<open>ix\<close> at \<open>ax\<close> and has its route to \<open>d\<close> through the host \<open>iy\<close> at \<open>ay\<close>.\<close>

definition points_at :: "crypto \<Rightarrow> bytes \<Rightarrow> ip4 \<Rightarrow> ip4 \<Rightarrow> Client \<Rightarrow> ip4 \<Rightarrow> sockaddr \<Rightarrow> bool" where
  "points_at C pw d ix x iy ay \<longleftrightarrow>
     peer_host C pw ix x \<and> next_hop_is d iy ay (cl_peers x) \<and> d \<noteq> ix \<and> st_address (pm_stun (cl_peers x)) \<noteq> ay"

lemma shuttle_goes_on:
  assumes E: "\<And>i. works C (E i)" and p: "sizeof_IP4Header \<le> length p" "length p \<le> 1471" "daddr (IP4Header_at p 0) = d"
  shows "points_at C pw d ix x iy ay \<Longrightarrow> points_at C pw d iy y ix ax \<Longrightarrow> carries C pw ix p f \<Longrightarrow>
    \<exists>g u v. shuttle E n f x ax y ay = Some (g, u, v) \<and> carries C pw (if even n then ix else iy) p g"
proof (induction n arbitrary: f x y ix iy ax ay)
  case (Suc n)
  obtain x' g where t: "client_turns [TPeerPoll (E n) (Datagram f ay), TPeerMsg (E n)] x = Ok (x', [Out (UdpSend g ay)])"
      "carries C pw iy p g" "points_at C pw d ix x' iy ay"
    using host_relays [OF E E, of pw ix x d iy ay p f ay] Suc.prems p unfolding points_at_def by metis
  obtain h u v where "shuttle E n g y ay x' ax = Some (h, u, v)" "carries C pw (if even n then iy else ix) p h"
    using Suc.IH [OF Suc.prems(2) t(3,2)] by blast
  then show ?case using t(1) by (cases "even n") (simp_all del: client_turns.simps)
qed auto


section \<open>How such routes arise\<close>

text \<open>
  The clients 10.0.0.1 and 10.0.0.2 are connected to each other, and the first to 10.0.0.3 as
  well. What happens to the manager of one of them, at the given second.
\<close>

datatype event = Queued msg | Arrived bytes sockaddr | Ticked

definition at_second :: "int \<Rightarrow> pm_env" where
  "at_second s = (demo_env_pm False)\<lparr>me_now := seconds s, me_boot := 10\<rparr>"

fun happen :: "int \<times> event \<Rightarrow> PeerManager \<Rightarrow> pm_out" where
  "happen (s, Queued msg) m = (case handlePeerQueue (at_second s) msg m of Ok (m', fx, _) \<Rightarrow> (m', fx) | _ \<Rightarrow> (m, []))"
| "happen (s, Arrived f from) m = (case pm_poll (at_second s) (Datagram f from) m of Ok (m', fx, _) \<Rightarrow> (m', fx) | _ \<Rightarrow> (m, []))"
| "happen (s, Ticked) m = pm_tick (at_second s) m"

fun happen_all :: "(int \<times> event) list \<Rightarrow> PeerManager \<Rightarrow> pm_out" where
  "happen_all [] m = (m, [])"
| "happen_all (e # es) m = (let (m1, fx1) = happen e m; (m2, fx2) = happen_all es m1 in (m2, fx1 @ fx2))"

lemma me_crypto_at_second: "me_crypto (at_second s) = toy_crypto"
  by (simp add: at_second_def demo_env_pm_def)

lemma happen_reach: "pm_reach toy_crypto m \<Longrightarrow> pm_reach toy_crypto (fst (happen e m))"
proof (cases e rule: prod.exhaust)
  case (Pair s ev)
  assume m: "pm_reach toy_crypto m"
  note steps = pm_reach.step [OF m pm_step.queue [OF me_crypto_at_second]] pm_reach.step [OF m pm_step.poll [OF me_crypto_at_second]]
    pm_reach.step [OF m pm_step.tick [OF me_crypto_at_second prod.collapse [symmetric]]]
  show ?thesis
  proof (cases ev)
    case Queued
    then show ?thesis unfolding Pair by (auto simp: m split: res.split prod.split intro: steps)
  next
    case Arrived
    then show ?thesis unfolding Pair by (auto simp: m split: res.split prod.split intro: steps)
  next
    case Ticked
    then show ?thesis unfolding Pair using steps(3) by simp
  qed
qed

lemma happen_all_reach: "pm_reach toy_crypto m \<Longrightarrow> pm_reach toy_crypto (fst (happen_all es m))"
  by (induction es arbitrary: m) (simp_all add: case_prod_unfold Let_def happen_reach)

definition demo_host :: "ip4 \<Rightarrow> PeerManager" where
  "demo_host ip = demo_pm\<lparr>pm_tunAddr := \<lparr>a_host = ip, a_mask = IP4 255 255 255 0\<rparr>,
     pm_key := peer_key toy_crypto (str ''pw'') ip\<rparr>"

definition at_1 :: sockaddr where "at_1 = (IP4 1 1 1 1, 5000)"
definition at_2 :: sockaddr where "at_2 = (IP4 2 2 2 2, 5000)"
definition at_3 :: sockaddr where "at_3 = (IP4 3 3 3 3, 5000)"

text \<open>Messages to \<open>ip\<close>: the heartbeat of \<open>src\<close>, and the answer to its own measurement of the delay to \<open>dst\<close>.\<close>

definition sealed_for :: "ip4 \<Rightarrow> bytes \<Rightarrow> bytes" where
  "sealed_for ip b = (case encrypt toy_crypto (peer_key toy_crypto (str ''pw'') ip) (Some (replicate 12 0)) b of Some f \<Rightarrow> f | None \<Rightarrow> [])"

definition heartbeat_to :: "ip4 \<Rightarrow> ip4 \<Rightarrow> bytes" where
  "heartbeat_to ip src = sealed_for ip
     (Heartbeat_bytes \<lparr>hb_kind = PM_HEARTBEAT, hb_tunip = src, hb_ip = ip4_zero, hb_port = 0, hb_ack = 1\<rparr>)"

definition delay_to :: "ip4 \<Rightarrow> ip4 \<Rightarrow> bytes" where
  "delay_to ip dst = sealed_for ip (Delay_bytes \<lparr>dl_type = PM_DELAY, dl_src = ip, dl_dst = dst, dl_timestamp = 0\<rparr>)"

definition last_to :: "sockaddr \<Rightarrow> effect list \<Rightarrow> bytes" where
  "last_to a fx = last ([] # [b. UdpSend b a' \<leftarrow> fx, a' = a])"

text \<open>
  The first client measures the delays to both and announces its route to 10.0.0.3 to the second,
  which learns it and announces it in turn, to the first as well. Before this arrives, the first
  gives 10.0.0.3 up, which has been silent for more than three seconds; the datagram that tells
  the second is lost. Then the announcement arrives: the first has a route to 10.0.0.3 again,
  through the second. Its own announcement of it is lost, too. The managers of both, then.
\<close>

definition announced :: pm_out where
  "announced = happen_all
     [(0, Queued (Msg TRYP2P (str ''10.0.0.2''))), (0, Queued (Msg TRYP2P (str ''10.0.0.3''))),
      (0, Arrived (heartbeat_to (IP4 10 0 0 1) (IP4 10 0 0 3)) at_3), (2, Arrived (heartbeat_to (IP4 10 0 0 1) (IP4 10 0 0 2)) at_2),
      (2, Arrived (delay_to (IP4 10 0 0 1) (IP4 10 0 0 2)) at_2), (2, Arrived (delay_to (IP4 10 0 0 1) (IP4 10 0 0 3)) at_3)]
     (demo_host (IP4 10 0 0 1))"

definition learnt :: "effect list \<Rightarrow> pm_out" where
  "learnt fx = happen_all
     [(0, Queued (Msg TRYP2P (str ''10.0.0.1''))), (0, Arrived (heartbeat_to (IP4 10 0 0 2) (IP4 10 0 0 1)) at_1),
      (2, Arrived (delay_to (IP4 10 0 0 2) (IP4 10 0 0 1)) at_1), (2, Arrived (last_to at_2 fx) at_1)]
     (demo_host (IP4 10 0 0 2))"

definition crossed :: "PeerManager \<times> PeerManager" where
  "crossed =
     (let (a, fx) = announced; (b, fx2) = learnt fx
      in (fst (happen_all [(4, Ticked), (4, Arrived (last_to at_1 fx2) at_2)] a), b))"

text \<open>Both states are reachable, and the routes to 10.0.0.3 point at each other.\<close>

lemma demo_host_reach: "pm_reach toy_crypto (demo_host ip)"
  by (rule pm_reach.start) (simp_all add: demo_host_def demo_pm_def)

lemma crossed_reach: "pm_reach toy_crypto (fst crossed)" "pm_reach toy_crypto (snd crossed)"
  by (simp_all add: crossed_def announced_def learnt_def case_prod_unfold Let_def happen_all_reach demo_host_reach
      del: happen_all.simps)

lemma crossed_routes:
  "(case crossed of (a, b) \<Rightarrow>
     next_hop_is (IP4 10 0 0 3) (IP4 10 0 0 2) at_2 a \<and> next_hop_is (IP4 10 0 0 3) (IP4 10 0 0 1) at_1 b \<and>
     host_of toy_crypto (str ''pw'') (IP4 10 0 0 1) a \<and> st_address (pm_stun a) \<noteq> at_2 \<and>
     host_of toy_crypto (str ''pw'') (IP4 10 0 0 2) b \<and> st_address (pm_stun b) \<noteq> at_1)"
  by code_simp

lemma works_at_second: "works toy_crypto (at_second s)"
  by (simp add: works_def toy_crypto_ok me_crypto_at_second)
    (simp add: at_second_def demo_env_pm_def toy_crypto_def AES_256_GCM_IV_LEN_def)

definition demo_client :: "ip4 \<Rightarrow> PeerManager \<Rightarrow> Client" where
  "demo_client ip m = (demo_working ip)\<lparr>cl_peers := m\<rparr>"

lemma demo_client_facts:
  "pm_reach C m \<Longrightarrow> host_of C pw ip m \<Longrightarrow> peer_host C pw ip (demo_client ip m)"
  "cl_peers (demo_client ip m) = m" "cl_address (demo_client ip m) = ip"
  "{ThTunDev, ThTunMsg} \<subseteq> set (cl_live (demo_client ip m))"
  "next_hop d (sysRtTable (cl_tun (demo_client ip m))) = ip4_zero"
  by (simp_all add: demo_client_def demo_working_def Client_new_def peer_host_def cl_address_def tun_getIP_def Let_def)

text \<open>A packet for 10.0.0.3.\<close>

definition packet_for_third :: bytes where
  "packet_for_third = 0x45 # replicate 11 0 @ raw (IP4 10 0 0 1) @ raw (IP4 10 0 0 3)"

lemma packet_for_third_facts:
  "length packet_for_third = 20" "isIPv4 (IP4Header_at packet_for_third 0)" "\<not> isIPIP (IP4Header_at packet_for_third 0)"
  "daddr (IP4Header_at packet_for_third 0) = IP4 10 0 0 3"
  by code_simp+

text \<open>The second client, once it is connected to the third.\<close>

definition neighbour :: PeerManager where
  "neighbour = fst (happen_all
     [(0, Queued (Msg TRYP2P (str ''10.0.0.3''))), (0, Arrived (heartbeat_to (IP4 10 0 0 2) (IP4 10 0 0 3)) at_3)]
     (demo_host (IP4 10 0 0 2)))"

lemma neighbour_reach: "pm_reach toy_crypto neighbour"
  unfolding neighbour_def by (intro happen_all_reach demo_host_reach)

lemma neighbour_routes:
  "next_hop_is (IP4 10 0 0 3) (IP4 10 0 0 3) at_3 neighbour \<and>
   host_of toy_crypto (str ''pw'') (IP4 10 0 0 2) neighbour \<and> st_address (pm_stun neighbour) \<noteq> at_1"
  by code_simp

lemma third_host:
  "host_of toy_crypto (str ''pw'') ip (demo_host ip)" "st_address (pm_stun (demo_host ip)) \<noteq> at_2"
  by (simp_all add: host_of_def demo_host_def demo_pm_def getTunIp_def at_2_def)

theorem packet_relayed_by_peer_witness:
  "\<exists>a' b' f g.
    client_turns [TTunDev demo_tun_env (Some packet_for_third), TPeerMsg (at_second 0)] (demo_client (IP4 10 0 0 1) (fst crossed)) =
      Ok (a', [Out (UdpSend f at_2)]) \<and>
    client_turns [TPeerPoll (at_second 0) (Datagram f at_1), TPeerMsg (at_second 0)] (demo_client (IP4 10 0 0 2) neighbour) =
      Ok (b', [Out (UdpSend g at_3)]) \<and>
    client_turns [TPeerPoll (at_second 0) (Datagram g at_2), TTunMsg demo_tun_env] (demo_client (IP4 10 0 0 3) (demo_host (IP4 10 0 0 3))) =
      Ok (demo_client (IP4 10 0 0 3) (demo_host (IP4 10 0 0 3)), [Out (TunWrite packet_for_third)])"
proof -
  have a: "host_of toy_crypto (str ''pw'') (IP4 10 0 0 1) (fst crossed)" "next_hop_is (IP4 10 0 0 3) (IP4 10 0 0 2) at_2 (fst crossed)"
    using crossed_routes by (simp_all add: case_prod_unfold)
  show ?thesis
    by (rule packet_relayed_by_peer [OF works_at_second works_at_second works_at_second works_at_second
        demo_client_facts(1) [OF crossed_reach(1) a(1)] _ _ demo_client_facts(1) [OF neighbour_reach] _ _
        demo_client_facts(1) [OF demo_host_reach third_host(1)]])
      (use a neighbour_routes third_host packet_for_third_facts demo_client_facts
       in \<open>simp_all add: demo_client_facts(2,3,5) sizeof_IP4Header_def\<close>)
qed


end
