(* ===== verification/HolePunch.thy ===== *)
theory HolePunch
  imports PeerRelay
begin

text \<open>
  How two clients behind address translation come to talk directly: each learns its public
  endpoint from a STUN server, publishes it to the other through the websocket server, and both send
  heartbeats to the endpoint of the other until both have seen an acknowledgement. The state
  machines of \<^verbatim>\<open>peer/peer.cc\<close>, driven by the threads of \<^verbatim>\<open>peer/manager.cc\<close> on both ends.
\<close>

section \<open>What the threads of a manager leave alone\<close>

definition fixed :: "PeerManager \<Rightarrow> bytes \<times> address \<times> bytes \<times> int \<times> bool \<times> ip4 \<times> sockaddr" where
  "fixed m = (pm_password m, pm_tunAddr m, pm_key m, routeCost m, localP2PDisabled m, pm_localhost m, st_address (pm_stun m))"

definition mapped :: "PeerManager \<Rightarrow> ip4 \<times> u16" where
  "mapped m = (st_ip (pm_stun m), st_port (pm_stun m))"

lemma fixed_env: "fixed m' = fixed m \<Longrightarrow> peer_env_of E m' = peer_env_of E m"
  by (simp add: fixed_def peer_env_of_def getTunIp_def stun_enabled_def clientRelayEnabled_def)

lemma fixed_host: "fixed m' = fixed m \<Longrightarrow> host_of C pw ip m' = host_of C pw ip m"
  by (simp add: fixed_def host_of_def getTunIp_def)

lemma fixed_simps [simp]:
  "fixed (put_peer k p m) = fixed m" "mapped (put_peer k p m) = mapped m" "pm_stun (put_peer k p m) = pm_stun m"
  "fixed (m\<lparr>ipPeerMap := t\<rparr>) = fixed m" "mapped (m\<lparr>ipPeerMap := t\<rparr>) = mapped m"
  "fixed (m\<lparr>rtTableMap := u\<rparr>) = fixed m" "mapped (m\<lparr>rtTableMap := u\<rparr>) = mapped m"
  "fixed (m\<lparr>tickTick := i\<rparr>) = fixed m" "mapped (m\<lparr>tickTick := i\<rparr>) = mapped m"
  by (simp_all add: fixed_def mapped_def put_peer_def)

lemma updateRtTable_stun:
  "fixed (fst (updateRtTable E e m)) = fixed m \<and> pm_stun (fst (updateRtTable E e m)) = pm_stun m"
proof -
  have s: "fixed (fst (sendRtMessage E d r m)) = fixed m \<and> pm_stun (fst (sendRtMessage E d r m)) = pm_stun m" for d r m
    by (simp add: sendRtMessage_def Let_def)
  have "fixed (fst (rt_announce_deleted E ds m)) = fixed m \<and> pm_stun (fst (rt_announce_deleted E ds m)) = pm_stun m" for ds m
    by (induction ds arbitrary: m) (simp_all add: Let_def case_prod_unfold s)
  then show ?thesis
    by (simp add: updateRtTable_def Let_def rt_store_def s split: option.split)
qed

text \<open>The requests of a peer: what they do to the manager and what they send.\<close>

lemma run_reqs_fixed:
  "fixed (fst (run_reqs E rs m)) = fixed m \<and> mapped (fst (run_reqs E rs m)) = mapped m \<and>
   (st_needed (pm_stun m) \<or> ReqStun \<in> set rs \<longrightarrow> st_needed (pm_stun (fst (run_reqs E rs m))))"
proof (induction rs arbitrary: m)
  case (Cons r rs)
  then show ?case
    using updateRtTable_stun by (cases r) (auto simp: Let_def case_prod_unfold fixed_def mapped_def)
qed simp

lemma run_reqs_sends: "ReqSend b a \<in> set rs \<Longrightarrow> UdpSend b a \<in> set (snd (run_reqs E rs m))"
proof (induction rs arbitrary: m)
  case (Cons r rs)
  then show ?case by (cases r) (auto simp: Let_def case_prod_unfold)
qed simp

definition pubinfo_effect :: "pm_env \<Rightarrow> PubInfo \<Rightarrow> PeerManager \<Rightarrow> effect" where
  "pubinfo_effect E info m =
     ToWs (Msg PUBINFO (PubInfo_bytes
       (if pi_local info then info\<lparr>pi_src := me_address E, pi_ip := pm_localhost m, pi_port := me_port E\<rparr>
        else info\<lparr>pi_src := me_address E, pi_ip := fst (mapped m), pi_port := snd (mapped m)\<rparr>)))"

lemma run_reqs_publishes: "ReqPubInfo info \<in> set rs \<Longrightarrow> pubinfo_effect E info m \<in> set (snd (run_reqs E rs m))"
proof (induction rs arbitrary: m)
  case (Cons r rs)
  have s: "pubinfo_effect E info m' = pubinfo_effect E info m" if "fixed m' = fixed m" "mapped m' = mapped m" for m'
    using that by (simp add: pubinfo_effect_def fixed_def)
  have p: "pubinfo_effect E info m \<in> set (pm_sendPubInfo E info m)"
    by (simp add: pubinfo_effect_def pm_sendPubInfo_def Let_def mapped_def)
  let ?m1 = "fst (run_reqs E [r] m)"
  have m1: "snd (run_reqs E (r # rs) m) = snd (run_reqs E [r] m) @ snd (run_reqs E rs ?m1)"
    by (simp add: Let_def case_prod_unfold)
  show ?case
  proof (cases "ReqPubInfo info \<in> set rs")
    case True
    then have "pubinfo_effect E info ?m1 \<in> set (snd (run_reqs E rs ?m1))" by (rule Cons.IH)
    then show ?thesis using s [of ?m1] run_reqs_fixed [of E "[r]" m] m1 by simp
  next
    case False
    then show ?thesis using Cons.prems p by (auto simp: Let_def case_prod_unfold)
  qed
qed simp

lemma run_reqs_peers:
  "(\<And>d n x. ReqRoute d n x \<notin> set rs) \<Longrightarrow> ipPeerMap (fst (run_reqs E rs m)) = ipPeerMap m"
proof (induction rs arbitrary: m)
  case (Cons r rs)
  have "\<And>d n x. ReqRoute d n x \<notin> set rs" using Cons.prems by auto
  then have IH: "ipPeerMap (fst (run_reqs E rs m')) = ipPeerMap m'" for m' by (rule Cons.IH)
  show ?case using Cons.prems by (cases r) (auto simp: Let_def case_prod_unfold IH)
qed simp

section \<open>The peer under an address\<close>

text \<open>A property of the peer under \<open>k\<close> that does not look at the counter of drawn vectors.\<close>

definition peer_is :: "(peer \<Rightarrow> bool) \<Rightarrow> ip4 \<Rightarrow> PeerManager \<Rightarrow> bool" where
  "peer_is F k m \<longleftrightarrow> (\<exists>p. map_of (ipPeerMap m) k = Some p \<and> F p)"

definition blind :: "(peer \<Rightarrow> bool) \<Rightarrow> bool" where
  "blind F \<longleftrightarrow> (\<forall>p n. F (p\<lparr>p_draws := n\<rparr>) = F p)"

lemma peer_is_put [simp]: "peer_is F k (put_peer j p m) \<longleftrightarrow> (if j = k then F p else peer_is F k m)"
  by (simp add: peer_is_def put_peer_def table_simps)

lemma peer_is_quiet:
  assumes "blind F" and "quiet m m'" and "peer_is F k m"
  shows "peer_is F k m'"
proof -
  obtain n where "map_of (ipPeerMap m') k = map_option (\<lambda>p. p\<lparr>p_draws := n\<rparr>) (map_of (ipPeerMap m) k)"
    using assms(2) unfolding quiet_def by blast
  then show ?thesis using assms(1,3) by (auto simp: peer_is_def blind_def)
qed

text \<open>One peer's part of a tick.\<close>

definition tick_one :: "pm_env \<Rightarrow> ip4 \<Rightarrow> PeerManager \<Rightarrow> pm_out" where
  "tick_one E j m = (case map_of (ipPeerMap m) j of None \<Rightarrow> (m, []) | Some p \<Rightarrow> with_peer E j peer_tick p m)"

lemma tick_peers_Cons:
  "fst (tick_peers E (j # js) m) = fst (tick_peers E js (fst (tick_one E j m)))"
  "snd (tick_peers E (j # js) m) = snd (tick_one E j m) @ snd (tick_peers E js (fst (tick_one E j m)))"
  by (simp_all add: tick_one_def Let_def case_prod_unfold)

lemma tick_one_keeps:
  assumes "pm_ok C m"
  shows "pm_ok C (fst (tick_one E j m))" "fixed (fst (tick_one E j m)) = fixed m" "mapped (fst (tick_one E j m)) = mapped m"
    "st_needed (pm_stun m) \<Longrightarrow> st_needed (pm_stun (fst (tick_one E j m)))"
    "blind F \<Longrightarrow> j \<noteq> k \<Longrightarrow> peer_is F k m \<Longrightarrow> peer_is F k (fst (tick_one E j m))"
proof -
  show "pm_ok C (fst (tick_one E j m))" using assms by (auto simp: tick_one_def pm_ok_with_tick split: option.split)
  show "fixed (fst (tick_one E j m)) = fixed m" "mapped (fst (tick_one E j m)) = mapped m"
    "st_needed (pm_stun m) \<Longrightarrow> st_needed (pm_stun (fst (tick_one E j m)))"
    using run_reqs_fixed by (auto simp: tick_one_def with_peer_def Let_def case_prod_unfold split: option.split)
  assume k: "blind F" "j \<noteq> k" "peer_is F k m"
  have t: "tbl_ok (rtTableMap m)" using assms by (simp add: pm_ok_def)
  show "peer_is F k (fst (tick_one E j m))"
    using k peer_is_quiet [OF k(1) quiet_with_peer [OF t]] by (auto simp: tick_one_def split: option.split)
qed

lemma tick_peers_keeps:
  "pm_ok C m \<Longrightarrow> pm_ok C (fst (tick_peers E js m)) \<and> fixed (fst (tick_peers E js m)) = fixed m \<and>
   mapped (fst (tick_peers E js m)) = mapped m \<and>
   (st_needed (pm_stun m) \<longrightarrow> st_needed (pm_stun (fst (tick_peers E js m)))) \<and>
   (blind F \<and> k \<notin> set js \<and> peer_is F k m \<longrightarrow> peer_is F k (fst (tick_peers E js m)))"
proof (induction js arbitrary: m)
  case (Cons j js)
  show ?case
    using Cons.IH [OF tick_one_keeps(1) [OF Cons.prems, of E j]] tick_one_keeps(2-4) [OF Cons.prems, of E j]
      tick_one_keeps(5) [OF Cons.prems, where F = F and j = j and k = k and E = E]
    unfolding tick_peers_Cons by auto
qed simp

text \<open>What the peer's own part of the tick does shows in the whole.\<close>

lemma tick_one_at:
  assumes "pm_ok C m" and "map_of (ipPeerMap m) k = Some p"
  shows "blind G \<Longrightarrow> G (fst (peer_tick (peer_env_of E m) p)) \<Longrightarrow> peer_is G k (fst (tick_one E k m))"
    "ReqSend b a \<in> set (snd (peer_tick (peer_env_of E m) p)) \<Longrightarrow> UdpSend b a \<in> set (snd (tick_one E k m))"
    "ReqStun \<in> set (snd (peer_tick (peer_env_of E m) p)) \<Longrightarrow> st_needed (pm_stun (fst (tick_one E k m)))"
proof -
  have t: "tbl_ok (rtTableMap m)" using assms by (simp add: pm_ok_def)
  show "blind G \<Longrightarrow> G (fst (peer_tick (peer_env_of E m) p)) \<Longrightarrow> peer_is G k (fst (tick_one E k m))"
    using peer_is_quiet [OF _ quiet_with_peer [OF t assms(2)]] assms(2) by (simp add: tick_one_def)
  show "ReqSend b a \<in> set (snd (peer_tick (peer_env_of E m) p)) \<Longrightarrow> UdpSend b a \<in> set (snd (tick_one E k m))"
    "ReqStun \<in> set (snd (peer_tick (peer_env_of E m) p)) \<Longrightarrow> st_needed (pm_stun (fst (tick_one E k m)))"
    using assms(2) run_reqs_sends run_reqs_fixed by (auto simp: tick_one_def with_peer_def Let_def case_prod_unfold)
qed

lemma tick_peers_at:
  assumes "pm_ok C m" and "blind F" and "peer_is F k m" and "k \<in> set js" and "distinct js"
  shows "\<exists>p. F p \<and> good_peer C (pm_password m) k p \<and>
    (\<forall>G. blind G \<and> G (fst (peer_tick (peer_env_of E m) p)) \<longrightarrow> peer_is G k (fst (tick_peers E js m))) \<and>
    (\<forall>b a. ReqSend b a \<in> set (snd (peer_tick (peer_env_of E m) p)) \<longrightarrow> UdpSend b a \<in> set (snd (tick_peers E js m))) \<and>
    (ReqStun \<in> set (snd (peer_tick (peer_env_of E m) p)) \<longrightarrow> st_needed (pm_stun (fst (tick_peers E js m))))"
  using assms
proof (induction js arbitrary: m)
  case (Cons j js)
  let ?m = "fst (tick_one E j m)"
  have k: "pm_ok C ?m" "fixed ?m = fixed m" using tick_one_keeps [OF Cons.prems(1)] by blast+
  show ?case
  proof (cases "j = k")
    case True
    obtain p where p: "map_of (ipPeerMap m) k = Some p" "F p" using Cons.prems(3) by (auto simp: peer_is_def)
    have "k \<notin> set js" using Cons.prems(5) True by simp
    then show ?thesis
      using p pm_ok_peer [OF Cons.prems(1) p(1)] tick_one_at [OF Cons.prems(1) p(1)] tick_peers_keeps [OF k(1), of E js] True
      unfolding tick_peers_Cons set_append by blast
  next
    case False
    have "peer_is F k ?m" "k \<in> set js" "distinct js"
      using tick_one_keeps(5) [OF Cons.prems(1,2) False Cons.prems(3)] Cons.prems(4,5) False by auto
    then have "\<exists>p. F p \<and> good_peer C (pm_password ?m) k p \<and>
      (\<forall>G. blind G \<and> G (fst (peer_tick (peer_env_of E ?m) p)) \<longrightarrow> peer_is G k (fst (tick_peers E js ?m))) \<and>
      (\<forall>b a. ReqSend b a \<in> set (snd (peer_tick (peer_env_of E ?m) p)) \<longrightarrow> UdpSend b a \<in> set (snd (tick_peers E js ?m))) \<and>
      (ReqStun \<in> set (snd (peer_tick (peer_env_of E ?m) p)) \<longrightarrow> st_needed (pm_stun (fst (tick_peers E js ?m))))"
      using Cons.IH [OF k(1) Cons.prems(2)] by blast
    moreover have "pm_password ?m = pm_password m" using k(2) by (simp add: fixed_def)
    ultimately show ?thesis unfolding tick_peers_Cons set_append fixed_env [OF k(2)] by auto
  qed
qed simp

text \<open>A whole tick.\<close>

lemma pm_tick_keeps: "pm_ok C m \<Longrightarrow> fixed (fst (pm_tick E m)) = fixed m \<and> mapped (fst (pm_tick E m)) = mapped m"
proof -
  assume m: "pm_ok C m"
  have ok: "pm_ok C (m\<lparr>tickTick := i\<rparr>)" for i using m by (simp add: pm_ok_def)
  have "fixed (fst (tick_peers E js (m\<lparr>tickTick := i\<rparr>))) = fixed m \<and> mapped (fst (tick_peers E js (m\<lparr>tickTick := i\<rparr>))) = mapped m"
    for js i using tick_peers_keeps [OF ok, of E js i] by simp
  then show ?thesis
    using tick_peers_keeps [OF m] by (simp add: pm_tick_def Let_def case_prod_unfold fixed_def mapped_def)
qed

lemma pm_tick_at:
  assumes m: "pm_ok C m" and F: "blind F" "peer_is F k m"
  shows "\<exists>p. F p \<and> good_peer C (pm_password m) k p \<and>
    (\<forall>G. blind G \<and> G (fst (peer_tick (peer_env_of E m) p)) \<longrightarrow> peer_is G k (fst (pm_tick E m))) \<and>
    (\<forall>b a. ReqSend b a \<in> set (snd (peer_tick (peer_env_of E m) p)) \<longrightarrow> UdpSend b a \<in> set (snd (pm_tick E m))) \<and>
    (ReqStun \<in> set (snd (peer_tick (peer_env_of E m) p)) \<longrightarrow> (\<exists>b. UdpSend b (st_address (pm_stun m)) \<in> set (snd (pm_tick E m))))"
proof -
  define m1 where "m1 = fst (if discoveryInterval m \<noteq> 0 \<and> stun_enabled m
             then (m\<lparr>tickTick := tickTick m + 1\<rparr>,
                   if (tickTick m + 1) mod word_of_int (discoveryInterval m) = 0
                   then [ToWs (Msg DISCOVERY [])] else [])
             else (m, []))"
  have m1: "pm_ok C m1" "fixed m1 = fixed m" "ipPeerMap m1 = ipPeerMap m" "pm_password m1 = pm_password m"
    using m by (simp_all add: m1_def pm_ok_def)
  let ?js = "map fst (ipPeerMap m1)"
  have k: "peer_is F k m1" "k \<in> set ?js" "distinct ?js"
    using F(2) m m1(3) by (auto simp: peer_is_def pm_ok_def tbl_ok_def dest: map_of_SomeD intro: rev_image_eqI)
  let ?m2 = "fst (tick_peers E ?js m1)"
  obtain fx where t: "snd (pm_tick E m) = fx @ snd (tick_peers E ?js m1) @ (if st_needed (pm_stun ?m2) then sendStunRequest E ?m2 else [])"
    by (simp add: pm_tick_def Let_def case_prod_unfold flip: m1_def)
  have i: "ipPeerMap (fst (pm_tick E m)) = ipPeerMap ?m2"
    by (simp add: pm_tick_def Let_def case_prod_unfold flip: m1_def)
  then have i: "peer_is G k (fst (pm_tick E m)) = peer_is G k ?m2" for G by (simp add: peer_is_def)
  have "st_address (pm_stun ?m2) = st_address (pm_stun m)"
    using tick_peers_keeps [OF m1(1), of E ?js] m1(2) by (simp add: fixed_def)
  then have a: "st_needed (pm_stun ?m2) \<Longrightarrow> \<exists>b. UdpSend b (st_address (pm_stun m)) \<in> set (snd (pm_tick E m))"
    by (simp add: t sendStunRequest_def case_prod_unfold Let_def) blast
  have s: "e \<in> set (snd (tick_peers E ?js m1)) \<Longrightarrow> e \<in> set (snd (pm_tick E m))" for e by (simp add: t)
  obtain p where p: "F p" "good_peer C (pm_password m) k p"
    "\<And>G. blind G \<Longrightarrow> G (fst (peer_tick (peer_env_of E m) p)) \<Longrightarrow> peer_is G k ?m2"
    "\<And>b a. ReqSend b a \<in> set (snd (peer_tick (peer_env_of E m) p)) \<Longrightarrow> UdpSend b a \<in> set (snd (tick_peers E ?js m1))"
    "ReqStun \<in> set (snd (peer_tick (peer_env_of E m) p)) \<Longrightarrow> st_needed (pm_stun ?m2)"
    using tick_peers_at [OF m1(1) F(1) k, of E] m1(4) unfolding fixed_env [OF m1(2)] by metis
  show ?thesis
    by (intro exI [of _ p] conjI allI impI) (simp_all add: p i s a)
qed

section \<open>The messages of the handshake\<close>

definition looks :: "PeerState \<Rightarrow> sockaddr option \<Rightarrow> sockaddr option \<Rightarrow> u8 \<Rightarrow> int \<Rightarrow> peer \<Rightarrow> bool" where
  "looks st wide real ack t p \<longleftrightarrow> p_state p = st \<and> p_wide p = wide \<and> p_real p = real \<and> p_ack p = ack \<and> p_lastActive p = t"

lemma blind_looks [simp]: "blind (looks st w r a t)"
  by (simp add: blind_def looks_def)

text \<open>A heartbeat of \<open>ip\<close> to \<open>k\<close>.\<close>

definition heartbeat_of :: "crypto \<Rightarrow> bytes \<Rightarrow> ip4 \<Rightarrow> ip4 \<Rightarrow> u8 \<Rightarrow> bytes \<Rightarrow> bool" where
  "heartbeat_of C pw k ip ack f \<longleftrightarrow>
     (\<exists>h. decrypt C (peer_key C pw k) f = Some (Heartbeat_bytes h) \<and> hb_kind h = PM_HEARTBEAT \<and> hb_tunip h = ip \<and> hb_ack h = ack) \<and>
     length f \<le> 1500"

lemma peer_sends_heartbeat:
  assumes "works C E" and "good_peer C pw k p"
  shows "\<exists>f. snd (peer_encrypt (peer_env_of E m) (Heartbeat_bytes \<lparr>hb_kind = PM_HEARTBEAT, hb_tunip = getTunIp m, hb_ip = ip4_zero,
      hb_port = me_junk E, hb_ack = p_ack p\<rparr>) p) = Some f \<and> heartbeat_of C pw k (getTunIp m) (p_ack p) f"
proof -
  let ?h = "\<lparr>hb_kind = PM_HEARTBEAT, hb_tunip = getTunIp m, hb_ip = ip4_zero, hb_port = me_junk E, hb_ack = p_ack p\<rparr>"
  obtain f where "encrypt C (peer_key C pw k) (me_iv E k (p_draws p)) (Heartbeat_bytes ?h) = Some f"
      "decrypt C (peer_key C pw k) f = Some (Heartbeat_bytes ?h)" "length f = length (Heartbeat_bytes ?h) + 28"
    using works_encrypt [OF assms(1)] by blast
  then have "heartbeat_of C pw k (getTunIp m) (p_ack p) f"
    unfolding heartbeat_of_def by (intro conjI exI [of _ ?h]) (simp_all add: Heartbeat_bytes_def)
  moreover have "snd (peer_encrypt (peer_env_of E m) (Heartbeat_bytes ?h) p) = Some f"
    using assms \<open>encrypt C (peer_key C pw k) _ _ = Some f\<close>
    by (simp add: peer_encrypt_def peer_env_of_def good_peer_def works_def)
  ultimately show ?thesis by blast
qed

lemma tick_preparing:
  assumes "looks PREPARING w r a t p" and "stun_enabled m" and "me_now E - t < seconds 10"
  shows "looks PREPARING w r a t (fst (peer_tick (peer_env_of E m) p)) \<and> ReqStun \<in> set (snd (peer_tick (peer_env_of E m) p))"
  using assms by (simp add: looks_def peer_tick_def peer_tick_state_def checkActivityWithin_def peer_env_of_def)

lemma tick_connecting:
  assumes "works C E" and "good_peer C pw k p" and "looks CONNECTING (Some w) r a t p" and "me_now E - t < seconds 10"
  shows "looks CONNECTING (Some w) r a t (fst (peer_tick (peer_env_of E m) p)) \<and>
    (\<exists>f. ReqSend f w \<in> set (snd (peer_tick (peer_env_of E m) p)) \<and> heartbeat_of C pw k (getTunIp m) a f)"
proof -
  obtain f where f: "snd (peer_encrypt (peer_env_of E m) (Heartbeat_bytes \<lparr>hb_kind = PM_HEARTBEAT, hb_tunip = getTunIp m,
      hb_ip = ip4_zero, hb_port = me_junk E, hb_ack = p_ack p\<rparr>) p) = Some f" "heartbeat_of C pw k (getTunIp m) (p_ack p) f"
    using peer_sends_heartbeat [OF assms(1,2)] by blast
  have "ReqSend f w \<in> set (snd (sendHeartbeatMessage (peer_env_of E m) p))"
    using f(1) assms(3)
    by (auto simp: sendHeartbeatMessage_def Let_def case_prod_unfold looks_def peer_env_of_def split: option.splits)
  moreover have "peer_tick_state (peer_env_of E m) p = sendHeartbeatMessage (peer_env_of E m) p"
    using assms(3,4) by (simp add: peer_tick_state_def looks_def checkActivityWithin_def peer_env_of_def)
  ultimately show ?thesis
    using f(2) assms(3) sendHeartbeatMessage_fst by (auto simp: peer_tick_def case_prod_unfold looks_def)
qed

lemma tick_connected:
  assumes "works C E" and "good_peer C pw k p" and "looks CONNECTED w (Some r) a t p" and "me_now E - t < seconds 3"
  shows "looks CONNECTED w (Some r) a t (fst (peer_tick (peer_env_of E m) p)) \<and>
    (\<exists>f. ReqSend f r \<in> set (snd (peer_tick (peer_env_of E m) p)) \<and> heartbeat_of C pw k (getTunIp m) a f)"
proof -
  obtain f where f: "snd (peer_encrypt (peer_env_of E m) (Heartbeat_bytes \<lparr>hb_kind = PM_HEARTBEAT, hb_tunip = getTunIp m,
      hb_ip = ip4_zero, hb_port = me_junk E, hb_ack = p_ack p\<rparr>) p) = Some f" "heartbeat_of C pw k (getTunIp m) (p_ack p) f"
    using peer_sends_heartbeat [OF assms(1,2)] by blast
  have "ReqSend f r \<in> set (snd (sendHeartbeatMessage (peer_env_of E m) p))"
    using f(1) assms(3)
    by (auto simp: sendHeartbeatMessage_def Let_def case_prod_unfold looks_def peer_env_of_def split: option.splits)
  moreover have "set (snd (sendHeartbeatMessage (peer_env_of E m) p)) \<subseteq> set (snd (peer_tick_state (peer_env_of E m) p))"
    using assms(3,4) by (auto simp: peer_tick_state_def looks_def checkActivityWithin_def peer_env_of_def Let_def case_prod_unfold)
  moreover have "looks CONNECTED w (Some r) a t (fst (peer_tick_state (peer_env_of E m) p))"
    using assms(3,4) sends_fst
    by (auto simp: peer_tick_state_def looks_def checkActivityWithin_def peer_env_of_def Let_def case_prod_unfold)
  moreover have "snd (peer_tick (peer_env_of E m) p) = snd (peer_tick_state (peer_env_of E m) p)"
    "looks st w r a t (fst (peer_tick (peer_env_of E m) p)) = looks st w r a t (fst (peer_tick_state (peer_env_of E m) p))" for st w r a t
    by (simp_all add: peer_tick_def case_prod_unfold Let_def looks_def)
  moreover have "p_ack p = a" using assms(3) by (simp add: looks_def)
  ultimately show ?thesis using f(2) by auto
qed

section \<open>The steps of one manager\<close>

text \<open>Nothing has been tried with \<open>k\<close> yet, or it was given up.\<close>

definition idle :: "ip4 \<Rightarrow> PeerManager \<Rightarrow> bool" where
  "idle k m \<longleftrightarrow> (case map_of (ipPeerMap m) k of None \<Rightarrow> True | Some p \<Rightarrow> p_state p = INIT)"

lemma idle_cases:
  assumes "pm_ok C m" and "idle k m"
  obtains "map_of (ipPeerMap m) k = None"
  | p where "map_of (ipPeerMap m) k = Some p" "looks INIT None None 0 (p_lastActive p) p"
proof (cases "map_of (ipPeerMap m) k")
  case (Some p)
  then have "looks INIT None None 0 (p_lastActive p) p"
    using assms pm_ok_peer [OF assms(1) Some] by (simp add: idle_def good_peer_def peer_ok_def looks_def)
  then show ?thesis using that(2) Some by blast
qed (use that in blast)

lemma new_peer_looks: "looks INIT None None 0 0 (new_peer E k m)"
  by (simp add: looks_def new_peer_def Peer_new_def)

lemma tryConnecct_looks:
  "looks INIT None None 0 t p \<Longrightarrow> looks PREPARING None None 0 (pe_now E) (tryConnecct E b p)"
  by (simp add: looks_def tryConnecct_def updateState_def Let_def)

lemma asked_step:
  assumes "pm_ok C m" and "idle k m" and "ip_parse (me_poco E) text = Some k"
  shows "\<exists>m'. handlePeerQueue E (Msg TRYP2P text) m = Ok (m', [], 0) \<and> fixed m' = fixed m \<and>
    peer_is (looks PREPARING None None 0 (me_now E)) k m'"
  using assms(1,2)
proof (cases rule: idle_cases)
  case 1
  then show ?thesis
    using assms(3) tryConnecct_looks [OF new_peer_looks, of "peer_env_of E m"]
    by (simp add: handlePeerQueue_def handleTryP2P_def peer_env_of_def)
next
  case (2 p)
  then show ?thesis
    using assms(3) tryConnecct_looks [OF 2(2), of "peer_env_of E m"]
    by (simp add: handlePeerQueue_def handleTryP2P_def peer_env_of_def)
qed

text \<open>What a peer asks for outside ticks never touches the routes.\<close>

lemma with_peer_at:
  assumes "\<And>d n x. ReqRoute d n x \<notin> set (snd (f (peer_env_of E m) p))"
  shows "ipPeerMap (fst (with_peer E k f p m)) = tbl_put k (fst (f (peer_env_of E m) p)) (ipPeerMap m)"
    "fixed (fst (with_peer E k f p m)) = fixed m" "mapped (fst (with_peer E k f p m)) = mapped m"
  using run_reqs_peers [OF assms] run_reqs_fixed
  by (simp_all add: with_peer_def Let_def case_prod_unfold) (simp add: put_peer_def)

lemma peer_is_with_peer:
  "(\<And>d n x. ReqRoute d n x \<notin> set (snd (f (peer_env_of E m) p))) \<Longrightarrow>
   peer_is F k (fst (with_peer E k f p m)) \<longleftrightarrow> F (fst (f (peer_env_of E m) p))"
  using with_peer_at(1) [of f E m p k] by (simp add: peer_is_def table_simps)

text \<open>The published endpoint of the other end arrives.\<close>

lemma handlePubInfo_looks:
  assumes "resolve (pe_poco PE) (ip_show (pe_poco PE) i) port = Some a"
  shows "looks INIT None None 0 t p \<Longrightarrow> looks PREPARING (Some a) None 0 (pe_now PE) (fst (peer_handlePubInfo PE i port False p))"
    "looks SYNCHRONIZING w None c t p \<Longrightarrow> looks CONNECTING (Some a) None c (pe_now PE) (fst (peer_handlePubInfo PE i port False p))"
    "ReqRoute d n x \<notin> set (snd (peer_handlePubInfo PE i port False p))"
  using assms
  by (simp_all add: looks_def peer_handlePubInfo_def updateState_def Let_def)

definition public_info :: "ip4 \<Rightarrow> ip4 \<Rightarrow> sockaddr \<Rightarrow> PubInfo" where
  "public_info src dst a = \<lparr>pi_src = src, pi_dst = dst, pi_ip = fst a, pi_port = snd a, pi_local = False\<rparr>"

lemma informed_step:
  assumes "pm_ok C m" and "k \<noteq> me_address E" and "resolve (me_poco E) (ip_show (me_poco E) (fst a)) (snd a) = Some a"
  shows "idle k m \<Longrightarrow> \<exists>m' fx. handlePeerQueue E (Msg PUBINFO (PubInfo_bytes (public_info k (me_address E) a))) m = Ok (m', fx, 0) \<and>
      fixed m' = fixed m \<and> peer_is (looks PREPARING (Some a) None 0 (me_now E)) k m'"
    "peer_is (looks SYNCHRONIZING w None c t) k m \<Longrightarrow>
      \<exists>m' fx. handlePeerQueue E (Msg PUBINFO (PubInfo_bytes (public_info k (me_address E) a))) m = Ok (m', fx, 0) \<and>
      fixed m' = fixed m \<and> peer_is (looks CONNECTING (Some a) None c (me_now E)) k m'"
proof -
  let ?f = "\<lambda>PE. peer_handlePubInfo PE (fst a) (snd a) False"
  note l = handlePubInfo_looks [of "peer_env_of E m" "fst a" "snd a" a]
  have r: "resolve (pe_poco (peer_env_of E m)) (ip_show (pe_poco (peer_env_of E m)) (fst a)) (snd a) = Some a"
    using assms(3) by (simp add: peer_env_of_def)
  have h: "handlePeerQueue E (Msg PUBINFO (PubInfo_bytes (public_info k (me_address E) a))) m =
      Ok (fst (with_peer E k ?f p m), snd (with_peer E k ?f p m), 0)"
    if "p = (case map_of (ipPeerMap m) k of None \<Rightarrow> new_peer E k m | Some p \<Rightarrow> p)" for p
    using that assms(2)
    by (cases "map_of (ipPeerMap m) k")
      (simp_all add: handlePeerQueue_def pm_handlePubInfo_def public_info_def PubInfo_bytes_def [THEN arg_cong [where f = length]] Let_def
        case_prod_unfold)
  have w: "peer_is F k (fst (with_peer E k ?f p m)) \<longleftrightarrow> F (fst (?f (peer_env_of E m) p))"
    "fixed (fst (with_peer E k ?f p m)) = fixed m" for p F
    using peer_is_with_peer [of ?f E m p _ k] with_peer_at(2) [of ?f E m p k] l(3) [OF r] by blast+
  have n: "me_now E = pe_now (peer_env_of E m)" by (simp add: peer_env_of_def)
  show "\<exists>m' fx. handlePeerQueue E (Msg PUBINFO (PubInfo_bytes (public_info k (me_address E) a))) m = Ok (m', fx, 0) \<and>
      fixed m' = fixed m \<and> peer_is (looks PREPARING (Some a) None 0 (me_now E)) k m'" if "idle k m"
    using assms(1) that
  proof (cases rule: idle_cases)
    case 1
    then show ?thesis using h w l(1) [OF r new_peer_looks] unfolding n by auto
  next
    case (2 p)
    then show ?thesis using h w l(1) [OF r 2(2)] unfolding n by auto
  qed
  show "\<exists>m' fx. handlePeerQueue E (Msg PUBINFO (PubInfo_bytes (public_info k (me_address E) a))) m = Ok (m', fx, 0) \<and>
      fixed m' = fixed m \<and> peer_is (looks CONNECTING (Some a) None c (me_now E)) k m'"
    if s: "peer_is (looks SYNCHRONIZING w None c t) k m"
  proof -
    obtain p where "map_of (ipPeerMap m) k = Some p" "looks SYNCHRONIZING w None c t p"
      using s unfolding peer_is_def by blast
    then show ?thesis using h w l(2) [OF r] unfolding n by auto
  qed
qed

text \<open>The answer of the STUN server arrives.\<close>

lemma peers_map_reqs:
  "map_of t k = Some p \<Longrightarrow> set (snd (f p)) \<subseteq> set (snd (peers_map f t))"
  "(\<And>p r. r \<in> set (snd (f p)) \<Longrightarrow> P r) \<Longrightarrow> r \<in> set (snd (peers_map f t)) \<Longrightarrow> P r"
  by (induction t) (auto simp: Let_def case_prod_unfold split: if_splits)

lemma handleStunResponse_looks:
  "looks PREPARING w None 0 t p \<Longrightarrow>
   looks (if w = None then SYNCHRONIZING else CONNECTING) w None 0 (pe_now PE) (fst (peer_handleStunResponse PE p)) \<and>
   snd (peer_handleStunResponse PE p) = [ReqPubInfo (pubinfo_of (p_addr p) False)]"
  by (simp add: looks_def peer_handleStunResponse_def updateState_def Let_def)

lemma stun_step:
  assumes m: "pm_ok C m" and k: "peer_is (looks PREPARING w None 0 t) k m"
    and r: "stun_parse_response r = Ok (Some (ip4_u32 (fst a), snd a))" "length r \<le> 1500"
  shows "\<exists>m' fx. pm_poll E (Datagram r (st_address (pm_stun m))) m = Ok (m', fx, 0) \<and> fixed m' = fixed m \<and>
    peer_is (looks (if w = None then SYNCHRONIZING else CONNECTING) w None 0 (me_now E)) k m' \<and>
    ToWs (Msg PUBINFO (PubInfo_bytes (public_info (me_address E) k a))) \<in> set fx"
proof -
  define m1 where "m1 = m\<lparr>pm_stun := (pm_stun m)\<lparr>st_ip := fst a, st_port := snd a\<rparr>\<rparr>"
  have m1: "fixed m1 = fixed m" "mapped m1 = a" "ipPeerMap m1 = ipPeerMap m" by (simp_all add: m1_def fixed_def mapped_def)
  let ?f = "peer_handleStunResponse (peer_env_of E m1)"
  let ?rs = "snd (peers_map ?f (ipPeerMap m1))" and ?m2 = "m1\<lparr>ipPeerMap := fst (peers_map ?f (ipPeerMap m1))\<rparr>"
  obtain p where p: "map_of (ipPeerMap m) k = Some p" "looks PREPARING w None 0 t p" using k by (auto simp: peer_is_def)
  have q: "looks (if w = None then SYNCHRONIZING else CONNECTING) w None 0 (me_now E) (fst (?f p))"
    "snd (?f p) = [ReqPubInfo (pubinfo_of (p_addr p) False)]"
    using handleStunResponse_looks [OF p(2), of "peer_env_of E m1"] by (simp_all add: peer_env_of_def)
  have "p_addr p = k" using pm_ok_peer [OF m p(1)] by (simp add: good_peer_def)
  then have i: "ReqPubInfo (pubinfo_of k False) \<in> set ?rs"
    using peers_map_reqs(1) [of "ipPeerMap m1" k p ?f] q(2) p(1) m1(3) by simp
  have "\<exists>i. r = ReqPubInfo i" if "r \<in> set ?rs" for r
    by (rule peers_map_reqs(2) [OF _ that]) (auto simp: peer_handleStunResponse_def split: if_splits)
  then have n: "ReqRoute d x y \<notin> set ?rs" for d x y by blast
  let ?m' = "fst (run_reqs E ?rs ?m2)"
  have "r \<noteq> []" using r(1) by (auto simp: stun_parse_response_def sizeof_StunResponse_def)
  moreover have "ip4_of_raw (le_bytes 4 (ip4_u32 (fst a))) = fst a" by (simp add: ip4_u32_def le_word_raw)
  ultimately have h: "pm_poll E (Datagram r (st_address (pm_stun m))) m = Ok (?m', snd (run_reqs E ?rs ?m2), 0)"
    using r by (simp add: pm_poll_def pm_handleStunResponse_def Let_def case_prod_unfold m1(3) flip: m1_def)
  have "ipPeerMap ?m' = ipPeerMap ?m2" by (rule run_reqs_peers) (simp add: n)
  then have "peer_is (looks (if w = None then SYNCHRONIZING else CONNECTING) w None 0 (me_now E)) k ?m'"
    using q(1) p(1) m1(3) by (simp add: peer_is_def peers_map_find)
  moreover have "fixed ?m' = fixed m" using run_reqs_fixed m1(1) by simp
  moreover have "ToWs (Msg PUBINFO (PubInfo_bytes (public_info (me_address E) k a))) \<in> set (snd (run_reqs E ?rs ?m2))"
    using run_reqs_publishes [OF i, of E ?m2] m1(2) by (simp add: pubinfo_effect_def pubinfo_of_def public_info_def)
  ultimately show ?thesis using h by blast
qed

text \<open>A heartbeat arrives from a public address.\<close>

lemma handleHeartbeat_looks:
  assumes "looks CONNECTING w r c t p" and "c \<in> {0, 1}" and "\<not> isLocalNetwork (pe_poco PE) from"
    and "case r of None \<Rightarrow> True | Some a \<Rightarrow> \<not> isLocalNetwork (pe_poco PE) a"
  shows "looks (if ack = 0 then CONNECTING else CONNECTED) (Some from) (Some from) 1 (if ack = 0 then t else pe_now PE)
      (fst (peer_handleHeartbeat PE from ack p))"
    "ReqRoute d n x \<notin> set (snd (peer_handleHeartbeat PE from ack p))"
proof -
  have h: "looks CONNECTING (Some from) (Some from) 1 t (heard PE from p)"
    using assms by (auto simp: looks_def heard_def Let_def split: option.splits)
  then have u: "looks CONNECTED (Some from) (Some from) 1 (pe_now PE) (fst (updateState PE CONNECTED (heard PE from p)))"
    by (simp add: looks_def updateState_def Let_def)
  have s: "snd (updateState PE CONNECTED (heard PE from p))"
    using h by (simp add: looks_def updateState_def Let_def)
  have "looks st w r a t (fst (sendDelayMessage PE q)) = looks st w r a t q" for st w r a t q
    by (simp add: sendDelayMessage_fst looks_def)
  moreover have i: "p_state p = CONNECTING" using assms(1) by (simp add: looks_def)
  ultimately show "looks (if ack = 0 then CONNECTING else CONNECTED) (Some from) (Some from) 1 (if ack = 0 then t else pe_now PE)
      (fst (peer_handleHeartbeat PE from ack p))"
    using assms(3) h u s i by (simp add: handleHeartbeat_alt)
  show "ReqRoute d n x \<notin> set (snd (peer_handleHeartbeat PE from ack p))"
    by (auto simp: handleHeartbeat_alt sendDelayMessage_def sendEncrypted_fits_def peer_send_def Let_def case_prod_unfold
        split: option.splits)
qed

lemma hears_step:
  assumes m: "pm_ok C m" "host_of C pw me m" and E: "me_crypto E = C" and f: "heartbeat_of C pw me k ack f"
    and k: "peer_is (looks CONNECTING w r c t) k m" "c \<in> {0, 1}"
    and a: "from \<noteq> st_address (pm_stun m)" "\<not> isLocalNetwork (me_poco E) from"
      "case r of None \<Rightarrow> True | Some a \<Rightarrow> \<not> isLocalNetwork (me_poco E) a"
  shows "\<exists>m' fx. pm_poll E (Datagram f from) m = Ok (m', fx, 0) \<and> fixed m' = fixed m \<and>
    peer_is (looks (if ack = 0 then CONNECTING else CONNECTED) (Some from) (Some from) 1 (if ack = 0 then t else me_now E)) k m'"
proof -
  obtain h where h: "decrypt C (peer_key C pw me) f = Some (Heartbeat_bytes h)" "hb_kind h = PM_HEARTBEAT" "hb_tunip h = k"
      "hb_ack h = ack" "length f \<le> 1500"
    using f by (auto simp: heartbeat_of_def)
  obtain p where p: "map_of (ipPeerMap m) k = Some p" "looks CONNECTING w r c t p" using k(1) by (auto simp: peer_is_def)
  let ?f = "\<lambda>PE. peer_handleHeartbeat PE from ack"
  have e: "pe_poco (peer_env_of E m) = me_poco E" "pe_now (peer_env_of E m) = me_now E" by (simp_all add: peer_env_of_def)
  have l: "looks (if ack = 0 then CONNECTING else CONNECTED) (Some from) (Some from) 1 (if ack = 0 then t else me_now E)
      (fst (?f (peer_env_of E m) p))" and n: "ReqRoute d x y \<notin> set (snd (?f (peer_env_of E m) p))" for d x y
    using handleHeartbeat_looks [OF p(2) k(2), of "peer_env_of E m" "from"] a(2,3) unfolding e by blast+
  have "f \<noteq> []" using h(1) by (auto simp: decrypt_def AES_256_GCM_IV_LEN_def split: if_splits)
  moreover have "Heartbeat_at (Heartbeat_bytes h) = h" using heartbeat.dec_enc_exact by simp
  moreover have "length (Heartbeat_bytes h) = sizeof_Heartbeat" "rd8 (Heartbeat_bytes h) 0 = PM_HEARTBEAT"
    "Heartbeat_bytes h \<noteq> []"
    using h(2) by (simp_all add: Heartbeat_bytes_def sizeof_Heartbeat_def)
  ultimately have "pm_poll E (Datagram f from) m =
      Ok (fst (with_peer E k ?f p m), snd (with_peer E k ?f p m), 0)"
    using h m(2) E p(1) a(1)
    by (simp add: pm_poll_def pm_handleMessage_def pm_handleHeartbeatMessage_def host_of_def Let_def case_prod_unfold)
  then show ?thesis using peer_is_with_peer [of ?f E m p _ k] with_peer_at(2) [of ?f E m p k] n l by blast
qed

section \<open>The run of both\<close>

datatype side = First | Second

fun other :: "side \<Rightarrow> side" where
  "other First = Second"
| "other Second = First"

text \<open>The two managers, and everything each has sent.\<close>

record duo =
  mgr :: "side \<Rightarrow> PeerManager"
  sent :: "side \<Rightarrow> effect list"

definition advance :: "side \<Rightarrow> PeerManager \<Rightarrow> effect list \<Rightarrow> duo \<Rightarrow> duo" where
  "advance s m fx D = D\<lparr>mgr := (mgr D)(s := m), sent := (sent D)(s := sent D s @ fx)\<rparr>"

text \<open>
  What can happen to the side \<open>s\<close>: it is asked to try the other; it ticks; the STUN server answers a
  request of it, with its public endpoint \<open>pub s\<close>; an endpoint the other has published comes through the
  server; a datagram the other has sent to \<open>pub s\<close> arrives, from the other's public endpoint.
\<close>

datatype happening = Asked side | Ticks side | StunAnswers side | Informed side | Hears side

inductive duo_step :: "(side \<Rightarrow> ip4) \<Rightarrow> (side \<Rightarrow> sockaddr) \<Rightarrow> pm_env \<Rightarrow> happening \<Rightarrow> duo \<Rightarrow> duo \<Rightarrow> bool"
  for ip pub where
  asked: "handlePeerQueue E (Msg TRYP2P (ip_show (me_poco E) (ip (other s)))) (mgr D s) = Ok (m, fx, 0) \<Longrightarrow>
    duo_step ip pub E (Asked s) D (advance s m fx D)"
| ticks: "pm_tick E (mgr D s) = (m, fx) \<Longrightarrow> duo_step ip pub E (Ticks s) D (advance s m fx D)"
| stun_answers: "UdpSend request (st_address (pm_stun (mgr D s))) \<in> set (sent D s) \<Longrightarrow>
    stun_parse_response r = Ok (Some (ip4_u32 (fst (pub s)), snd (pub s))) \<Longrightarrow>
    pm_poll E (Datagram r (st_address (pm_stun (mgr D s)))) (mgr D s) = Ok (m, fx, 0) \<Longrightarrow>
    duo_step ip pub E (StunAnswers s) D (advance s m fx D)"
| informed: "ToWs msg \<in> set (sent D (other s)) \<Longrightarrow>
    wsc_handlePubInfo msg w = [WsSend frame WS_FRAME_BINARY] \<Longrightarrow> relay_for (ip (other s)) frame \<Longrightarrow>
    handleWsMsg Ew frame w' = Ok (w', [ToPeer msg']) \<Longrightarrow>
    handlePeerQueue E msg' (mgr D s) = Ok (m, fx, 0) \<Longrightarrow> duo_step ip pub E (Informed s) D (advance s m fx D)"
| hears: "UdpSend f (pub s) \<in> set (sent D (other s)) \<Longrightarrow>
    pm_poll E (Datagram f (pub (other s))) (mgr D s) = Ok (m, fx, 0) \<Longrightarrow>
    duo_step ip pub E (Hears s) D (advance s m fx D)"

fun duo_run :: "(side \<Rightarrow> ip4) \<Rightarrow> (side \<Rightarrow> sockaddr) \<Rightarrow> (pm_env \<times> happening) list \<Rightarrow> duo \<Rightarrow> duo \<Rightarrow> bool" where
  "duo_run ip pub [] D D' \<longleftrightarrow> D' = D"
| "duo_run ip pub ((E, h) # hs) D D' \<longleftrightarrow> (\<exists>D1. duo_step ip pub E h D D1 \<and> duo_run ip pub hs D1 D')"

fun side_of :: "happening \<Rightarrow> side" where
  "side_of (Asked s) = s"
| "side_of (Ticks s) = s"
| "side_of (StunAnswers s) = s"
| "side_of (Informed s) = s"
| "side_of (Hears s) = s"

text \<open>The order in which things go well, after a packet of the first for the second.\<close>

definition handshake :: "happening list" where
  "handshake =
     [Asked First, Ticks First, StunAnswers First, Informed Second, Ticks Second, StunAnswers Second, Informed First,
      Ticks First, Hears Second, Ticks Second, Hears First, Ticks First, Hears Second]"

text \<open>The surroundings of the side \<open>s\<close>: the public endpoints are no addresses of a local network.\<close>

definition meeting_env :: "crypto \<Rightarrow> (side \<Rightarrow> ip4) \<Rightarrow> (side \<Rightarrow> sockaddr) \<Rightarrow> side \<Rightarrow> pm_env \<Rightarrow> bool" where
  "meeting_env C ip pub s E \<longleftrightarrow>
     works C E \<and> me_address E = ip s \<and> ip_parse (me_poco E) (ip_show (me_poco E) (ip (other s))) = Some (ip (other s)) \<and>
     resolve (me_poco E) (ip_show (me_poco E) (fst (pub (other s)))) (snd (pub (other s))) = Some (pub (other s)) \<and>
     \<not> isLocalNetwork (me_poco E) (pub (other s))"

definition can_meet :: "crypto \<Rightarrow> bytes \<Rightarrow> (side \<Rightarrow> ip4) \<Rightarrow> (side \<Rightarrow> sockaddr) \<Rightarrow> side \<Rightarrow> PeerManager \<Rightarrow> bool" where
  "can_meet C pw ip pub s m \<longleftrightarrow>
     pm_reach C m \<and> host_of C pw (ip s) m \<and> stun_enabled m \<and> pub (other s) \<noteq> st_address (pm_stun m)"

lemma can_meet_step:
  assumes "can_meet C pw ip pub s m" and "pm_step C m fx m'" and "fixed m' = fixed m"
  shows "can_meet C pw ip pub s m'"
  using assms pm_reach.step [OF _ assms(2)] fixed_host [OF assms(3)]
  by (simp add: can_meet_def stun_enabled_def fixed_def)

text \<open>A side that can meet the other, with what it knows of it; and what a step of \<open>s\<close> leaves.\<close>

definition knows :: "crypto \<Rightarrow> bytes \<Rightarrow> (side \<Rightarrow> ip4) \<Rightarrow> (side \<Rightarrow> sockaddr) \<Rightarrow> side \<Rightarrow> (peer \<Rightarrow> bool) \<Rightarrow> duo \<Rightarrow> bool" where
  "knows C pw ip pub s F D \<longleftrightarrow> can_meet C pw ip pub s (mgr D s) \<and> peer_is F (ip (other s)) (mgr D s)"

definition moved :: "side \<Rightarrow> duo \<Rightarrow> duo \<Rightarrow> bool" where
  "moved s D D' \<longleftrightarrow> mgr D' (other s) = mgr D (other s) \<and> (\<forall>s'. set (sent D s') \<subseteq> set (sent D' s'))"

lemma other_neq [simp]: "other s \<noteq> s" "s \<noteq> other s" "other (other s) = s"
  by (cases s; simp)+

lemma advance_simps [simp]:
  "mgr (advance s m fx D) s = m" "sent (advance s m fx D) s = sent D s @ fx" "moved s D (advance s m fx D)"
  by (simp_all add: advance_def moved_def)

lemma knows_advance:
  "can_meet C pw ip pub s (mgr D s) \<Longrightarrow> pm_step C (mgr D s) fx m \<Longrightarrow> fixed m = fixed (mgr D s) \<Longrightarrow>
   peer_is F (ip (other s)) m \<Longrightarrow> knows C pw ip pub s F (advance s m fx D)"
  by (simp add: knows_def can_meet_step)

lemma asked_duo:
  assumes c: "can_meet C pw ip pub s (mgr D s)" "idle (ip (other s)) (mgr D s)" and E: "meeting_env C ip pub s E"
  shows "\<exists>D'. duo_step ip pub E (Asked s) D D' \<and> knows C pw ip pub s (looks PREPARING None None 0 (me_now E)) D' \<and> moved s D D'"
proof -
  have ok: "pm_ok C (mgr D s)" using c(1) pm_ok_reach by (simp add: can_meet_def)
  obtain m where m: "handlePeerQueue E (Msg TRYP2P (ip_show (me_poco E) (ip (other s)))) (mgr D s) = Ok (m, [], 0)"
      "fixed m = fixed (mgr D s)" "peer_is (looks PREPARING None None 0 (me_now E)) (ip (other s)) m"
    using asked_step [OF ok c(2)] E unfolding meeting_env_def by blast
  have "me_crypto E = C" using E by (simp add: meeting_env_def works_def)
  then show ?thesis
    using knows_advance [OF c(1) pm_step.queue [OF _ m(1)] m(2,3)] duo_step.asked [where ip = ip and pub = pub and s = s and D = D, OF m(1)] advance_simps(3) by blast
qed

lemma ticks_duo:
  assumes D: "knows C pw ip pub s F D" "blind F" and E: "meeting_env C ip pub s E"
    and G: "\<And>p. good_peer C pw (ip (other s)) p \<Longrightarrow> F p \<Longrightarrow> G (fst (peer_tick (peer_env_of E (mgr D s)) p)) \<and>
      P (snd (peer_tick (peer_env_of E (mgr D s)) p))" and b: "blind G"
  shows "\<exists>D' rs. duo_step ip pub E (Ticks s) D D' \<and> knows C pw ip pub s G D' \<and> moved s D D' \<and> P rs \<and>
    (\<forall>b a. ReqSend b a \<in> set rs \<longrightarrow> UdpSend b a \<in> set (sent D' s)) \<and>
    (ReqStun \<in> set rs \<longrightarrow> (\<exists>b. UdpSend b (st_address (pm_stun (mgr D' s))) \<in> set (sent D' s)))"
proof -
  have c: "can_meet C pw ip pub s (mgr D s)" "peer_is F (ip (other s)) (mgr D s)" using D(1) by (simp_all add: knows_def)
  have ok: "pm_ok C (mgr D s)" "pm_password (mgr D s) = pw" using c(1) pm_ok_reach by (simp_all add: can_meet_def host_of_def)
  obtain m fx where t: "pm_tick E (mgr D s) = (m, fx)" by fastforce
  obtain p where p: "F p" "good_peer C pw (ip (other s)) p"
    "\<And>G. blind G \<Longrightarrow> G (fst (peer_tick (peer_env_of E (mgr D s)) p)) \<Longrightarrow> peer_is G (ip (other s)) m"
    "\<And>b a. ReqSend b a \<in> set (snd (peer_tick (peer_env_of E (mgr D s)) p)) \<Longrightarrow> UdpSend b a \<in> set fx"
    "ReqStun \<in> set (snd (peer_tick (peer_env_of E (mgr D s)) p)) \<Longrightarrow> \<exists>b. UdpSend b (st_address (pm_stun (mgr D s))) \<in> set fx"
    using pm_tick_at [OF ok(1) D(2) c(2), of E] unfolding ok(2) t fst_conv snd_conv by metis
  have f: "fixed m = fixed (mgr D s)" using pm_tick_keeps [OF ok(1), of E] t by simp
  have "me_crypto E = C" using E by (simp add: meeting_env_def works_def)
  then have "knows C pw ip pub s G (advance s m fx D)"
    using knows_advance [OF c(1) pm_step.tick [OF _ t] f] p(3) [OF b] G [OF p(2,1)] by blast
  moreover have "st_address (pm_stun m) = st_address (pm_stun (mgr D s))" using f by (simp add: fixed_def)
  ultimately show ?thesis
    using G [OF p(2,1)] p(4,5) duo_step.ticks [OF t, of ip pub]
    by (intro exI [of _ "advance s m fx D"] exI [of _ "snd (peer_tick (peer_env_of E (mgr D s)) p)"]) auto
qed

text \<open>The three ticks of the handshake.\<close>

lemma tick_requests:
  assumes D: "knows C pw ip pub s (looks PREPARING w r a t) D" and E: "meeting_env C ip pub s E" "me_now E - t < seconds 10"
  shows "\<exists>D' b. duo_step ip pub E (Ticks s) D D' \<and> knows C pw ip pub s (looks PREPARING w r a t) D' \<and> moved s D D' \<and>
    UdpSend b (st_address (pm_stun (mgr D' s))) \<in> set (sent D' s)"
proof -
  have "stun_enabled (mgr D s)" using D by (simp add: knows_def can_meet_def)
  then show ?thesis
    using ticks_duo [OF D blind_looks E(1) _ blind_looks, of PREPARING w r a t "\<lambda>rs. ReqStun \<in> set rs"]
      tick_preparing [OF _ _ E(2)] by blast
qed

lemma tick_beats:
  assumes D: "knows C pw ip pub s (looks st w r a t) D" and E: "meeting_env C ip pub s E"
    and st: "st = CONNECTING \<and> w = Some (pub (other s)) \<and> me_now E - t < seconds 10 \<or>
      st = CONNECTED \<and> r = Some (pub (other s)) \<and> me_now E - t < seconds 3"
  shows "\<exists>D' f. duo_step ip pub E (Ticks s) D D' \<and> knows C pw ip pub s (looks st w r a t) D' \<and> moved s D D' \<and>
    UdpSend f (pub (other s)) \<in> set (sent D' s) \<and> heartbeat_of C pw (ip (other s)) (ip s) a f"
proof -
  have "getTunIp (mgr D s) = ip s" using D by (simp add: knows_def can_meet_def host_of_def)
  moreover have "works C E" using E by (simp add: meeting_env_def)
  ultimately have "looks st w r a t (fst (peer_tick (peer_env_of E (mgr D s)) p)) \<and>
    (\<exists>f. ReqSend f (pub (other s)) \<in> set (snd (peer_tick (peer_env_of E (mgr D s)) p)) \<and> heartbeat_of C pw (ip (other s)) (ip s) a f)"
    if "good_peer C pw (ip (other s)) p" "looks st w r a t p" for p
    using that st tick_connecting [of C E pw "ip (other s)" p "pub (other s)" r a t "mgr D s"]
      tick_connected [of C E pw "ip (other s)" p w "pub (other s)" a t "mgr D s"] by auto
  then show ?thesis
    using ticks_duo [OF D blind_looks E _ blind_looks, of st w r a t
        "\<lambda>rs. \<exists>f. ReqSend f (pub (other s)) \<in> set rs \<and> heartbeat_of C pw (ip (other s)) (ip s) a f"] by blast
qed

text \<open>The STUN server answers with the public endpoint, which the side then publishes.\<close>

lemma stun_answer:
  assumes "fst a \<noteq> ip4_zero" and "snd a \<noteq> 0"
  shows "\<exists>r. stun_parse_response r = Ok (Some (ip4_u32 (fst a), snd a)) \<and> length r \<le> 1500"
proof -
  let ?r = "stun_success (replicate 16 0) (plain_attrs [] @ stun_attr 0x20 (xor_mapped_value (fst a) (snd a)) @ [])"
  have "stun_parse_response ?r = Ok (Some (ip4_u32 (fst a), snd a))"
    using stun_response_read [of "replicate 16 0" "fst a" "snd a" "[]" _ "[]"] assms
    by (simp add: plain_attrs_def stun_attr_def xor_mapped_value_def)
  moreover have "length ?r \<le> 1500" by (simp add: plain_attrs_def stun_success_def stun_attr_def xor_mapped_value_def)
  ultimately show ?thesis by blast
qed

lemma stun_duo:
  assumes D: "knows C pw ip pub s (looks PREPARING w None 0 t) D"
    and u: "UdpSend b (st_address (pm_stun (mgr D s))) \<in> set (sent D s)"
    and E: "meeting_env C ip pub s E" and a: "fst (pub s) \<noteq> ip4_zero" "snd (pub s) \<noteq> 0"
  shows "\<exists>D'. duo_step ip pub E (StunAnswers s) D D' \<and>
    knows C pw ip pub s (looks (if w = None then SYNCHRONIZING else CONNECTING) w None 0 (me_now E)) D' \<and> moved s D D' \<and>
    ToWs (Msg PUBINFO (PubInfo_bytes (public_info (ip s) (ip (other s)) (pub s)))) \<in> set (sent D' s)"
proof -
  have c: "can_meet C pw ip pub s (mgr D s)" "peer_is (looks PREPARING w None 0 t) (ip (other s)) (mgr D s)"
    using D by (simp_all add: knows_def)
  have ok: "pm_ok C (mgr D s)" using c(1) pm_ok_reach by (simp add: can_meet_def)
  obtain r where r: "stun_parse_response r = Ok (Some (ip4_u32 (fst (pub s)), snd (pub s)))" "length r \<le> 1500"
    using stun_answer [OF a] by blast
  have e: "me_crypto E = C" "me_address E = ip s" using E by (simp_all add: meeting_env_def works_def)
  obtain m fx where m: "pm_poll E (Datagram r (st_address (pm_stun (mgr D s)))) (mgr D s) = Ok (m, fx, 0)"
      "fixed m = fixed (mgr D s)"
      "peer_is (looks (if w = None then SYNCHRONIZING else CONNECTING) w None 0 (me_now E)) (ip (other s)) m"
      "ToWs (Msg PUBINFO (PubInfo_bytes (public_info (ip s) (ip (other s)) (pub s)))) \<in> set fx"
    using stun_step [OF ok c(2) r, of E] e(2) by auto
  show ?thesis
    using knows_advance [OF c(1) pm_step.poll [OF e(1) m(1)] m(2,3)] m(4)
      duo_step.stun_answers [where ip = ip and pub = pub and s = s and D = D, OF u r(1) m(1)]
    by (intro exI [of _ "advance s m fx D"]) simp
qed

text \<open>The endpoint of the other goes through the server.\<close>

lemma informed_duo:
  assumes w: "ToWs (Msg PUBINFO (PubInfo_bytes (public_info (ip (other s)) (ip s) (pub (other s))))) \<in> set (sent D (other s))"
    and c: "can_meet C pw ip pub s (mgr D s)" and E: "meeting_env C ip pub s E"
    and i: "ip (other s) \<noteq> ip s" "ip (other s) \<noteq> ip4_zero"
    and F: "idle (ip (other s)) (mgr D s) \<and> F = looks PREPARING (Some (pub (other s))) None 0 (me_now E) \<or>
      peer_is (looks SYNCHRONIZING v None a t) (ip (other s)) (mgr D s) \<and> F = looks CONNECTING (Some (pub (other s))) None a (me_now E)"
  shows "\<exists>D'. duo_step ip pub E (Informed s) D D' \<and> knows C pw ip pub s F D' \<and> moved s D D'"
proof -
  let ?i = "public_info (ip (other s)) (ip s) (pub (other s))"
  have ok: "pm_ok C (mgr D s)" using c(1) pm_ok_reach by (simp add: can_meet_def)
  have e: "me_crypto E = C" "me_address E = ip s"
    "resolve (me_poco E) (ip_show (me_poco E) (fst (pub (other s)))) (snd (pub (other s))) = Some (pub (other s))"
    using E by (simp_all add: meeting_env_def works_def)
  have n: "ip (other s) \<noteq> me_address E" using i(1) e(2) by simp
  obtain frame where f: "wsc_handlePubInfo (Msg PUBINFO (PubInfo_bytes ?i)) demo_wsc = [WsSend frame WS_FRAME_BINARY]"
      "relay_for (ip (other s)) frame" "handleWsMsg demo_env frame demo_wsc = Ok (demo_wsc, [ToPeer (Msg PUBINFO (PubInfo_bytes ?i))])"
    using pubinfo_through_server [of demo_wsc ?i demo_env demo_wsc] i(2) by (auto simp: public_info_def demo_wsc_def)
  obtain m fx where m: "handlePeerQueue E (Msg PUBINFO (PubInfo_bytes ?i)) (mgr D s) = Ok (m, fx, 0)"
      "fixed m = fixed (mgr D s)" "peer_is F (ip (other s)) m"
    using F informed_step(1) [OF ok n e(3)] informed_step(2) [OF ok n e(3), of v a t] unfolding e(2) by blast
  show ?thesis
    using knows_advance [OF c pm_step.queue [OF e(1) m(1)] m(2,3)]
      duo_step.informed [where ip = ip and pub = pub and s = s and D = D, OF w f m(1)] advance_simps(3) by blast
qed

text \<open>A heartbeat of the other arrives.\<close>

lemma hears_duo:
  assumes D: "knows C pw ip pub s (looks CONNECTING w r c t) D"
    and f: "UdpSend f (pub s) \<in> set (sent D (other s))" "heartbeat_of C pw (ip s) (ip (other s)) ack f"
    and E: "meeting_env C ip pub s E" and r: "c \<in> {0, 1}" "r \<in> {None, Some (pub (other s))}"
  shows "\<exists>D'. duo_step ip pub E (Hears s) D D' \<and> moved s D D' \<and>
    knows C pw ip pub s (looks (if ack = 0 then CONNECTING else CONNECTED) (Some (pub (other s))) (Some (pub (other s))) 1
      (if ack = 0 then t else me_now E)) D'"
proof -
  have c: "can_meet C pw ip pub s (mgr D s)" "peer_is (looks CONNECTING w r c t) (ip (other s)) (mgr D s)"
    using D by (simp_all add: knows_def)
  have ok: "pm_ok C (mgr D s)" "host_of C pw (ip s) (mgr D s)" "pub (other s) \<noteq> st_address (pm_stun (mgr D s))"
    using c(1) pm_ok_reach by (simp_all add: can_meet_def)
  have e: "me_crypto E = C" "\<not> isLocalNetwork (me_poco E) (pub (other s))"
    "case r of None \<Rightarrow> True | Some a \<Rightarrow> \<not> isLocalNetwork (me_poco E) a"
    using E r(2) by (auto simp: meeting_env_def works_def)
  obtain m fx where m: "pm_poll E (Datagram f (pub (other s))) (mgr D s) = Ok (m, fx, 0)" "fixed m = fixed (mgr D s)"
      "peer_is (looks (if ack = 0 then CONNECTING else CONNECTED) (Some (pub (other s))) (Some (pub (other s))) 1
        (if ack = 0 then t else me_now E)) (ip (other s)) m"
    using hears_step [OF ok(1,2) e(1) f(2) c(2) r(1) ok(3) e(2,3)] by blast
  show ?thesis
    using knows_advance [OF c(1) pm_step.poll [OF e(1) m(1)] m(2,3)]
      duo_step.hears [where ip = ip and pub = pub and s = s and D = D, OF f(1) m(1)] advance_simps(3) by blast
qed

lemma moved_knows: "moved s D D' \<Longrightarrow> knows C pw ip pub (other s) F D \<Longrightarrow> knows C pw ip pub (other s) F D'"
  by (simp add: moved_def knows_def)

lemmas moved_first = moved_knows [where s = First, simplified] and moved_second = moved_knows [where s = Second, simplified]

lemma moved_sent: "moved s D D' \<Longrightarrow> e \<in> set (sent D s') \<Longrightarrow> e \<in> set (sent D' s')"
  by (auto simp: moved_def)

lemma duo_run_append: "duo_run ip pub hs D D1 \<Longrightarrow> duo_run ip pub hs' D1 D' \<Longrightarrow> duo_run ip pub (hs @ hs') D D'"
proof (induction hs arbitrary: D)
  case (Cons h hs)
  then show ?case by (cases h) (simp, blast)
qed simp

text \<open>The first learns its endpoint and publishes it; the second hears of it.\<close>

lemma meeting_begins:
  assumes c: "can_meet C pw ip pub First (mgr D First)" "can_meet C pw ip pub Second (mgr D Second)"
    and i: "idle (ip Second) (mgr D First)" "idle (ip First) (mgr D Second)" "ip First \<noteq> ip Second" "ip First \<noteq> ip4_zero"
    and a: "fst (pub First) \<noteq> ip4_zero" "snd (pub First) \<noteq> 0"
    and E: "meeting_env C ip pub First e0" "meeting_env C ip pub First e1" "meeting_env C ip pub First e2" "meeting_env C ip pub Second e3"
    and t: "me_now e1 - me_now e0 < seconds 10"
  shows "\<exists>D'. duo_run ip pub [(e0, Asked First), (e1, Ticks First), (e2, StunAnswers First), (e3, Informed Second)] D D' \<and>
    knows C pw ip pub First (looks SYNCHRONIZING None None 0 (me_now e2)) D' \<and>
    knows C pw ip pub Second (looks PREPARING (Some (pub First)) None 0 (me_now e3)) D'"
proof -
  obtain D0 where d0: "duo_step ip pub e0 (Asked First) D D0" "knows C pw ip pub First (looks PREPARING None None 0 (me_now e0)) D0"
      "moved First D D0"
    using asked_duo [of C pw ip pub First D e0] c(1) i(1) E(1) by auto
  obtain D1 b where d1: "duo_step ip pub e1 (Ticks First) D0 D1" "knows C pw ip pub First (looks PREPARING None None 0 (me_now e0)) D1"
      "moved First D0 D1" "UdpSend b (st_address (pm_stun (mgr D1 First))) \<in> set (sent D1 First)"
    using tick_requests [OF d0(2) E(2) t] by blast
  obtain D2 where d2: "duo_step ip pub e2 (StunAnswers First) D1 D2"
      "knows C pw ip pub First (looks SYNCHRONIZING None None 0 (me_now e2)) D2" "moved First D1 D2"
      "ToWs (Msg PUBINFO (PubInfo_bytes (public_info (ip First) (ip Second) (pub First)))) \<in> set (sent D2 First)"
    using stun_duo [OF d1(2,4) E(3) a] by auto
  have m: "mgr D2 Second = mgr D Second" using d0(3) d1(3) d2(3) by (simp add: moved_def)
  obtain D3 where d3: "duo_step ip pub e3 (Informed Second) D2 D3"
      "knows C pw ip pub Second (looks PREPARING (Some (pub First)) None 0 (me_now e3)) D3" "moved Second D2 D3"
    using informed_duo [of ip Second pub D2 C pw e3 "looks PREPARING (Some (pub First)) None 0 (me_now e3)"]
      d2(4) c(2) i(2,3,4) E(4) m by auto
  show ?thesis using d0(1) d1(1) d2(1) d3(1,2) moved_second [OF d3(3) d2(2)] by auto
qed

text \<open>The second learns its endpoint, publishes it, and both send to the endpoint of the other.\<close>

lemma meeting_informs:
  assumes k: "knows C pw ip pub First (looks SYNCHRONIZING None None 0 t2) D"
      "knows C pw ip pub Second (looks PREPARING (Some (pub First)) None 0 t3) D"
    and i: "ip First \<noteq> ip Second" "ip Second \<noteq> ip4_zero" and a: "fst (pub Second) \<noteq> ip4_zero" "snd (pub Second) \<noteq> 0"
    and E: "meeting_env C ip pub Second e4" "meeting_env C ip pub Second e5" "meeting_env C ip pub First e6"
    and t: "me_now e4 - t3 < seconds 10"
  shows "\<exists>D'. duo_run ip pub [(e4, Ticks Second), (e5, StunAnswers Second), (e6, Informed First)] D D' \<and>
    knows C pw ip pub First (looks CONNECTING (Some (pub Second)) None 0 (me_now e6)) D' \<and>
    knows C pw ip pub Second (looks CONNECTING (Some (pub First)) None 0 (me_now e5)) D'"
proof -
  obtain D4 b where d4: "duo_step ip pub e4 (Ticks Second) D D4"
      "knows C pw ip pub Second (looks PREPARING (Some (pub First)) None 0 t3) D4" "moved Second D D4"
      "UdpSend b (st_address (pm_stun (mgr D4 Second))) \<in> set (sent D4 Second)"
    using tick_requests [OF k(2) E(1) t] by blast
  obtain D5 where d5: "duo_step ip pub e5 (StunAnswers Second) D4 D5"
      "knows C pw ip pub Second (looks CONNECTING (Some (pub First)) None 0 (me_now e5)) D5" "moved Second D4 D5"
      "ToWs (Msg PUBINFO (PubInfo_bytes (public_info (ip Second) (ip First) (pub Second)))) \<in> set (sent D5 Second)"
    using stun_duo [OF d4(2,4) E(2) a] by auto
  have k5: "knows C pw ip pub First (looks SYNCHRONIZING None None 0 t2) D5"
    using moved_second [OF d5(3) moved_second [OF d4(3) k(1)]] .
  obtain D6 where d6: "duo_step ip pub e6 (Informed First) D5 D6"
      "knows C pw ip pub First (looks CONNECTING (Some (pub Second)) None 0 (me_now e6)) D6" "moved First D5 D6"
    using informed_duo [of ip First pub D5 C pw e6 "looks CONNECTING (Some (pub Second)) None 0 (me_now e6)" None 0 t2]
      d5(4) k5 i E(3) by (auto simp: knows_def)
  show ?thesis using d4(1) d5(1) d6(1,2) moved_first [OF d6(3) d5(2)] by auto
qed

text \<open>Three heartbeats.\<close>

lemma meeting_ends:
  assumes k: "knows C pw ip pub First (looks CONNECTING (Some (pub Second)) None 0 t6) D"
      "knows C pw ip pub Second (looks CONNECTING (Some (pub First)) None 0 t5) D"
    and E: "meeting_env C ip pub First e7" "meeting_env C ip pub Second e8" "meeting_env C ip pub Second e9"
      "meeting_env C ip pub First e10" "meeting_env C ip pub First e11" "meeting_env C ip pub Second e12"
    and t: "me_now e7 - t6 < seconds 10" "me_now e9 - t5 < seconds 10" "me_now e11 - me_now e10 < seconds 3"
  shows "\<exists>D'. duo_run ip pub [(e7, Ticks First), (e8, Hears Second), (e9, Ticks Second), (e10, Hears First),
      (e11, Ticks First), (e12, Hears Second)] D D' \<and>
    knows C pw ip pub First (looks CONNECTED (Some (pub Second)) (Some (pub Second)) 1 (me_now e10)) D' \<and>
    knows C pw ip pub Second (looks CONNECTED (Some (pub First)) (Some (pub First)) 1 (me_now e12)) D'"
proof -
  obtain D7 f where d7: "duo_step ip pub e7 (Ticks First) D D7"
      "knows C pw ip pub First (looks CONNECTING (Some (pub Second)) None 0 t6) D7" "moved First D D7"
      "UdpSend f (pub Second) \<in> set (sent D7 First)" "heartbeat_of C pw (ip Second) (ip First) 0 f"
    using tick_beats [OF k(1) E(1)] t(1) by auto
  obtain D8 where d8: "duo_step ip pub e8 (Hears Second) D7 D8" "moved Second D7 D8"
      "knows C pw ip pub Second (looks CONNECTING (Some (pub First)) (Some (pub First)) 1 t5) D8"
    using hears_duo [OF moved_first [OF d7(3) k(2)], of f 0 e8] d7(4,5) E(2) by auto
  obtain D9 g where d9: "duo_step ip pub e9 (Ticks Second) D8 D9" "moved Second D8 D9"
      "knows C pw ip pub Second (looks CONNECTING (Some (pub First)) (Some (pub First)) 1 t5) D9"
      "UdpSend g (pub First) \<in> set (sent D9 Second)" "heartbeat_of C pw (ip First) (ip Second) 1 g"
    using tick_beats [OF d8(3) E(3)] t(2) by auto
  have k9: "knows C pw ip pub First (looks CONNECTING (Some (pub Second)) None 0 t6) D9"
    using moved_second [OF d9(2) moved_second [OF d8(2) d7(2)]] .
  obtain D10 where d10: "duo_step ip pub e10 (Hears First) D9 D10" "moved First D9 D10"
      "knows C pw ip pub First (looks CONNECTED (Some (pub Second)) (Some (pub Second)) 1 (me_now e10)) D10"
    using hears_duo [OF k9, of g 1 e10] d9(4,5) E(4) by auto
  obtain D11 h where d11: "duo_step ip pub e11 (Ticks First) D10 D11" "moved First D10 D11"
      "knows C pw ip pub First (looks CONNECTED (Some (pub Second)) (Some (pub Second)) 1 (me_now e10)) D11"
      "UdpSend h (pub Second) \<in> set (sent D11 First)" "heartbeat_of C pw (ip Second) (ip First) 1 h"
    using tick_beats [OF d10(3) E(5)] t(3) by auto
  have k11: "knows C pw ip pub Second (looks CONNECTING (Some (pub First)) (Some (pub First)) 1 t5) D11"
    using moved_first [OF d11(2) moved_first [OF d10(2) d9(3)]] .
  obtain D12 where d12: "duo_step ip pub e12 (Hears Second) D11 D12" "moved Second D11 D12"
      "knows C pw ip pub Second (looks CONNECTED (Some (pub First)) (Some (pub First)) 1 (me_now e12)) D12"
    using hears_duo [OF k11, of h 1 e12] d11(4,5) E(6) by auto
  have "duo_run ip pub [(e7, Ticks First), (e8, Hears Second), (e9, Ticks Second), (e10, Hears First),
      (e11, Ticks First), (e12, Hears Second)] D D12"
    unfolding duo_run.simps using d7(1) d8(1) d9(1) d10(1) d11(1) d12(1) by blast
  then show ?thesis using d12(3) moved_second [OF d12(2) d11(3)] by blast
qed

lemma handshake_zip:
  "zip (map E [0..<length handshake]) handshake =
    [(E 0, Asked First), (E 1, Ticks First), (E 2, StunAnswers First), (E 3, Informed Second)] @
    [(E 4, Ticks Second), (E 5, StunAnswers Second), (E 6, Informed First)] @
    [(E 7, Ticks First), (E 8, Hears Second), (E 9, Ticks Second), (E 10, Hears First), (E 11, Ticks First), (E 12, Hears Second)]"
proof -
  have u: "[0..<length handshake] = [0, 1, 2, 3, 4, 5, 6, 7, 8, 9, 10, 11, 12]" by (simp add: handshake_def upt_rec)
  show ?thesis unfolding u by (simp add: handshake_def)
qed

text \<open>
  A packet of the side \<open>s\<close> for the other, which no route leads elsewhere, leaves as one datagram to the
  public endpoint of the other and as nothing else, and the other hands it to its tunnel.
\<close>

definition talks_directly :: "crypto \<Rightarrow> (side \<Rightarrow> ip4) \<Rightarrow> (side \<Rightarrow> sockaddr) \<Rightarrow> duo \<Rightarrow> side \<Rightarrow> bool" where
  "talks_directly C ip pub D s \<longleftrightarrow>
     (\<forall>E E' packet.
        works C E \<and> works C E' \<and> sizeof_IP4Header \<le> length packet \<and> length packet \<le> 1471 \<and>
        daddr (IP4Header_at packet 0) = ip (other s) \<and> map_of (rtTableMap (mgr D s)) (ip (other s)) = None \<longrightarrow>
        (\<exists>m f. handlePeerQueue E (Msg PACKET packet) (mgr D s) = Ok (m, [UdpSend f (pub (other s))], 0) \<and>
          pm_poll E' (Datagram f (pub s)) (mgr D (other s)) = Ok (mgr D (other s), [ToTun (Msg PACKET packet)], 0)))"

lemma connected_talks:
  assumes c: "can_meet C pw ip pub s (mgr D s)" "can_meet C pw ip pub (other s) (mgr D (other s))"
    and p: "peer_is (\<lambda>p. p_state p = CONNECTED \<and> p_real p = Some (pub (other s))) (ip (other s)) (mgr D s)"
  shows "talks_directly C ip pub D s"
proof -
  have m: "pm_reach C (mgr D s)" "pm_password (mgr D s) = pw" "getTunIp (mgr D (other s)) = ip (other s)"
    "pm_key (mgr D (other s)) = peer_key C pw (ip (other s))" "st_address (pm_stun (mgr D (other s))) \<noteq> pub s"
    using c by (auto simp: can_meet_def host_of_def)
  obtain q where q: "map_of (ipPeerMap (mgr D s)) (ip (other s)) = Some q" "p_state q = CONNECTED" "p_real q = Some (pub (other s))"
    using p by (auto simp: peer_is_def)
  have k: "p_key q = peer_key C pw (ip (other s))"
    using pm_ok_peer [OF pm_ok_reach [OF m(1)] q(1)] m(2) by (simp add: good_peer_def)
  have "\<exists>m' f. handlePeerQueue E (Msg PACKET packet) (mgr D s) = Ok (m', [UdpSend f (pub (other s))], 0) \<and>
      pm_poll E' (Datagram f (pub s)) (mgr D (other s)) = Ok (mgr D (other s), [ToTun (Msg PACKET packet)], 0)"
    if w: "works C E" "works C E'" and l: "sizeof_IP4Header \<le> length packet" "length packet \<le> 1471"
      and d: "daddr (IP4Header_at packet 0) = ip (other s)" and r: "map_of (rtTableMap (mgr D s)) (ip (other s)) = None"
    for E E' packet
  proof -
    obtain f where f: "encrypt C (p_key q) (me_iv E (ip (other s)) (p_draws q)) (PeerForward_create packet) = Some f"
      using works_encrypt [OF w(1)] unfolding k by blast
    have e: "crypto_ok C" "me_crypto E = C" "me_crypto E' = C" "iv_ok (me_iv E (ip (other s)) (p_draws q))"
      "\<And>f a. me_sendTo E f a = int (length f)"
      using w by (auto simp: works_def iv_ok_def split: option.split) (metis option.inject)
    have "pm_key (mgr D (other s)) = peer_key C (pm_password (mgr D s)) (ip (other s))" using m(2,4) by simp
    from packet_reaches_peer [OF e(1,2,3) m(1) q(1,2) r l d e(4) f e(5) m(3) this m(5)]
    show ?thesis using q(3) by auto
  qed
  then show ?thesis by (simp add: talks_directly_def)
qed


text \<open>The clients 10.0.0.1 and 10.0.0.2, whose public endpoints are 1.1.1.1:5000 and 2.2.2.2:5000.\<close>

fun demo_ip :: "side \<Rightarrow> ip4" where
  "demo_ip First = IP4 10 0 0 1"
| "demo_ip Second = IP4 10 0 0 2"

fun demo_pub :: "side \<Rightarrow> sockaddr" where
  "demo_pub First = at_1"
| "demo_pub Second = at_2"

definition demo_duo :: duo where
  "demo_duo = \<lparr>mgr = (\<lambda>s. demo_host (demo_ip s)), sent = (\<lambda>s. [])\<rparr>"

definition demo_meeting :: "nat \<Rightarrow> pm_env" where
  "demo_meeting i = (at_second 0)\<lparr>me_address := demo_ip (side_of (handshake ! i))\<rparr>"

lemma demo_meeting_env: "meeting_env toy_crypto demo_ip demo_pub (side_of (handshake ! i)) (demo_meeting i)"
proof -
  let ?E = "demo_meeting i"
  have w: "works toy_crypto ?E" using works_at_second [of 0] by (simp add: works_def demo_meeting_def)
  have p: "me_poco ?E = dotted_poco" by (simp add: demo_meeting_def at_second_def demo_env_pm_def)
  have s: "ip_parse dotted_poco (ip_show dotted_poco (demo_ip (other s))) = Some (demo_ip (other s)) \<and>
    resolve dotted_poco (ip_show dotted_poco (fst (demo_pub (other s)))) (snd (demo_pub (other s))) = Some (demo_pub (other s)) \<and>
    \<not> isLocalNetwork dotted_poco (demo_pub (other s))" for s
    by (cases s; hypsubst; code_simp)
  show ?thesis unfolding meeting_env_def p using w s by (simp add: demo_meeting_def)
qed


end
