(* ===== verification/Config.thy ===== *)
theory Config
  imports Net
begin

text \<open>
  \<^verbatim>\<open>candy-cli/src/config.h\<close>, \<^verbatim>\<open>config.cc\<close>: the settings of the command line program. A
  configuration file is read line by line into a map from key to text (\<open>fileToKvMap\<close>), the map
  is applied to the settings through a table of handlers (\<open>parseFile\<close>), the options given on the
  command line overwrite them (\<open>arguments_parse\<close>), and the result becomes the JSON object the
  library is started with (\<open>arguments_json\<close>), together with what earlier runs left on disk: the
  virtual MAC and the last address. Where the program ends itself the result is the exit code
  on the left of a sum. The values the option parser found are an argument here; theory \<^verbatim>\<open>CommandLine\<close> computes
  them. Characters are bytes.
\<close>

section \<open>Libraries\<close>

text \<open>
  \<^verbatim>\<open>Poco::trimLeft\<close> and \<^verbatim>\<open>Poco::trim\<close> return the text without the white space at its left
  end, and at both ends; that documented behaviour is \<open>text_ok\<close>.
\<close>

record text_lib =
  trimLeft :: "bytes \<Rightarrow> bytes"
  trim_both :: "bytes \<Rightarrow> bytes"

definition strip_right :: "(u8 \<Rightarrow> bool) \<Rightarrow> bytes \<Rightarrow> bytes" where
  "strip_right P s = rev (dropWhile P (rev s))"

definition text_ok :: "text_lib \<Rightarrow> bool" where
  "text_ok T \<longleftrightarrow>
     (\<forall>s. trimLeft T s = dropWhile is_space s) \<and>
     (\<forall>s. trim_both T s = strip_right is_space (dropWhile is_space s))"

definition plain_text :: text_lib where
  "plain_text = \<lparr>trimLeft = dropWhile is_space, trim_both = (\<lambda>s. strip_right is_space (dropWhile is_space s))\<rparr>"

lemma plain_text_ok: "text_ok plain_text"
  by (simp add: text_ok_def plain_text_def)

text \<open>
  A \<^verbatim>\<open>std::map\<close> with text keys keeps its entries in the order of the keys, bytes compared
  as unsigned characters.
\<close>

fun bytes_less :: "bytes \<Rightarrow> bytes \<Rightarrow> bool" where
  "bytes_less _ [] = False"
| "bytes_less [] (_ # _) = True"
| "bytes_less (a # s) (b # t) = (a < b \<or> a = b \<and> bytes_less s t)"

fun smap_put :: "bytes \<Rightarrow> 'v \<Rightarrow> (bytes, 'v) table \<Rightarrow> (bytes, 'v) table" where
  "smap_put k v [] = [(k, v)]"
| "smap_put k v ((k', v') # t) =
     (if bytes_less k k' then (k, v) # (k', v') # t
      else if k = k' then (k, v) # t
      else (k', v') # smap_put k v t)"

definition smap_ok :: "(bytes, 'v) table \<Rightarrow> bool" where
  "smap_ok t \<longleftrightarrow> sorted_wrt bytes_less (map fst t)"

section \<open>Settings\<close>

record arguments =
  ag_mode :: bytes
  ag_websocket :: bytes
  ag_password :: bytes
  ag_noTimestamp :: bool
  ag_debug :: bool
  ag_dhcp :: bytes
  ag_sdwan :: bytes
  ag_name :: bytes
  ag_tun :: bytes
  ag_stun :: bytes
  ag_localhost :: bytes
  ag_port :: int
  ag_discovery :: int
  ag_routeCost :: int
  ag_mtu :: int
  ag_p2pOnly :: bool
  ag_userspaceStack :: bool
  ag_udpPortConvergence :: bool

definition arguments_new :: arguments where
  "arguments_new =
     \<lparr>ag_mode = [], ag_websocket = [], ag_password = [], ag_noTimestamp = False, ag_debug = False,
      ag_dhcp = [], ag_sdwan = [], ag_name = [], ag_tun = [], ag_stun = [], ag_localhost = [],
      ag_port = 0, ag_discovery = 0, ag_routeCost = 0, ag_mtu = 1400,
      ag_p2pOnly = False, ag_userspaceStack = False, ag_udpPortConvergence = False\<rparr>"

section \<open>The configuration file\<close>

text \<open>\<^verbatim>\<open>std::getline\<close>: a final line without a line feed counts when it is not empty.\<close>

function getlines :: "bytes \<Rightarrow> bytes list" where
  "getlines [] = []"
| "getlines (c # s) = takeWhile (\<lambda>b. b \<noteq> 10) (c # s) # getlines (drop 1 (dropWhile (\<lambda>b. b \<noteq> 10) (c # s)))"
  by pat_completeness auto
termination
proof (relation "measure length")
  fix c :: u8 and s
  have "length (dropWhile (\<lambda>b. b \<noteq> 10) (c # s)) \<le> length (c # s)" by (rule length_dropWhile_le)
  then show "(drop 1 (dropWhile (\<lambda>b. b \<noteq> 10) (c # s)), c # s) \<in> measure length" by simp
qed simp

text \<open>What one line contributes.\<close>

definition kv_line :: "text_lib \<Rightarrow> bytes \<Rightarrow> (bytes \<times> bytes) option" where
  "kv_line T line0 =
     (let line1 = trimLeft T line0
      in if line1 = [] \<or> hd line1 = 35 then None
         else let line = strip_right (\<lambda>c. c = 32 \<or> c = 9 \<or> c = 59) line1
              in case find_byte 61 line of
                   None \<Rightarrow> None
                 | Some delimiterPos \<Rightarrow>
                     Some (trim_both T (take delimiterPos line), trim_both T (drop (delimiterPos + 1) line)))"

fun kv_lines :: "text_lib \<Rightarrow> bytes list \<Rightarrow> (bytes, bytes) table \<Rightarrow> (bytes, bytes) table" where
  "kv_lines T [] config = config"
| "kv_lines T (l # ls) config =
     (case kv_line T l of
        None \<Rightarrow> kv_lines T ls config
      | Some (key, value) \<Rightarrow> kv_lines T ls (smap_put key value config))"

text \<open>A file that cannot be opened reads as empty.\<close>

definition fileToKvMap :: "text_lib \<Rightarrow> bytes option \<Rightarrow> (bytes, bytes) table" where
  "fileToKvMap T content = kv_lines T (getlines (case content of None \<Rightarrow> [] | Some s \<Rightarrow> s)) []"

definition cfgHandlers :: "(bytes \<times> (bytes \<Rightarrow> arguments \<Rightarrow> arguments option)) list" where
  "cfgHandlers =
     [(str ''mode'', \<lambda>v a. Some (a\<lparr>ag_mode := v\<rparr>)),
      (str ''websocket'', \<lambda>v a. Some (a\<lparr>ag_websocket := v\<rparr>)),
      (str ''password'', \<lambda>v a. Some (a\<lparr>ag_password := v\<rparr>)),
      (str ''debug'', \<lambda>v a. Some (a\<lparr>ag_debug := (v = str ''true'')\<rparr>)),
      (str ''dhcp'', \<lambda>v a. Some (a\<lparr>ag_dhcp := v\<rparr>)),
      (str ''sdwan'', \<lambda>v a. Some (a\<lparr>ag_sdwan := v\<rparr>)),
      (str ''tun'', \<lambda>v a. Some (a\<lparr>ag_tun := v\<rparr>)),
      (str ''stun'', \<lambda>v a. Some (a\<lparr>ag_stun := v\<rparr>)),
      (str ''name'', \<lambda>v a. Some (a\<lparr>ag_name := v\<rparr>)),
      (str ''discovery'', \<lambda>v a. map_option (\<lambda>i. a\<lparr>ag_discovery := i\<rparr>) (stoi v)),
      (str ''route'', \<lambda>v a. map_option (\<lambda>i. a\<lparr>ag_routeCost := i\<rparr>) (stoi v)),
      (str ''port'', \<lambda>v a. map_option (\<lambda>i. a\<lparr>ag_port := i\<rparr>) (stoi v)),
      (str ''mtu'', \<lambda>v a. map_option (\<lambda>i. a\<lparr>ag_mtu := i\<rparr>) (stoi v)),
      (str ''localhost'', \<lambda>v a. Some (a\<lparr>ag_localhost := v\<rparr>)),
      (str ''p2p-only'', \<lambda>v a. Some (a\<lparr>ag_p2pOnly := (v = str ''true'')\<rparr>)),
      (str ''userspace-stack'', \<lambda>v a. Some (a\<lparr>ag_userspaceStack := (v = str ''true'')\<rparr>)),
      (str ''udp-port-convergence'', \<lambda>v a. Some (a\<lparr>ag_udpPortConvergence := (v = str ''true'')\<rparr>))]"

text \<open>A pair of double quotes around a value is dropped.\<close>

definition unquote :: "bytes \<Rightarrow> bytes" where
  "unquote s = (if length s \<ge> 2 \<and> hd s = 34 \<and> last s = 34 then take (length s - 2) (drop 1 s) else s)"

text \<open>\<open>None\<close>: \<^verbatim>\<open>std::stoi\<close> throws. An unknown key is logged and skipped.\<close>

fun run_cfgs :: "(bytes \<times> bytes) list \<Rightarrow> arguments \<Rightarrow> arguments option" where
  "run_cfgs [] a = Some a"
| "run_cfgs ((k, v) # cfgs) a =
     (case map_of cfgHandlers k of
        None \<Rightarrow> run_cfgs cfgs a
      | Some handler \<Rightarrow> (case handler (unquote v) a of None \<Rightarrow> None | Some a' \<Rightarrow> run_cfgs cfgs a'))"

definition parseFile :: "text_lib \<Rightarrow> bytes option \<Rightarrow> arguments \<Rightarrow> int + arguments" where
  "parseFile T content a =
     (case run_cfgs (fileToKvMap T content) a of None \<Rightarrow> Inl 1 | Some a' \<Rightarrow> Inr a')"

section \<open>The command line\<close>

text \<open>
  What the vendored option parser hands over: it rejects the command line (an exception), it
  printed the help or the version and ended the program, or the values of the options that
  were used.
\<close>

record cli_options =
  co_config :: "bytes option"
  co_mode :: "bytes option"
  co_websocket :: "bytes option"
  co_password :: "bytes option"
  co_noTimestamp :: "bool option"
  co_debug :: "bool option"
  co_dhcp :: "bytes option"
  co_sdwan :: "bytes option"
  co_name :: "bytes option"
  co_tun :: "bytes option"
  co_stun :: "bytes option"
  co_localhost :: "bytes option"
  co_port :: "int option"
  co_mtu :: "int option"
  co_discovery :: "int option"
  co_route :: "int option"
  co_p2pOnly :: "bool option"
  co_userspaceStack :: "bool option"
  co_udpPortConvergence :: "bool option"

datatype command_line = Rejected | Informed | Options cli_options

definition if_used :: "'a option \<Rightarrow> 'a \<Rightarrow> 'a" where
  "if_used option value = (case option of None \<Rightarrow> value | Some v \<Rightarrow> v)"

definition set_all_used :: "cli_options \<Rightarrow> arguments \<Rightarrow> arguments" where
  "set_all_used c a =
     a\<lparr>ag_mode := if_used (co_mode c) (ag_mode a),
       ag_websocket := if_used (co_websocket c) (ag_websocket a),
       ag_password := if_used (co_password c) (ag_password a),
       ag_noTimestamp := if_used (co_noTimestamp c) (ag_noTimestamp a),
       ag_debug := if_used (co_debug c) (ag_debug a),
       ag_dhcp := if_used (co_dhcp c) (ag_dhcp a),
       ag_sdwan := if_used (co_sdwan c) (ag_sdwan a),
       ag_name := if_used (co_name c) (ag_name a),
       ag_tun := if_used (co_tun c) (ag_tun a),
       ag_stun := if_used (co_stun c) (ag_stun a),
       ag_localhost := if_used (co_localhost c) (ag_localhost a),
       ag_port := if_used (co_port c) (ag_port a),
       ag_mtu := if_used (co_mtu c) (ag_mtu a),
       ag_discovery := if_used (co_discovery c) (ag_discovery a),
       ag_routeCost := if_used (co_route c) (ag_routeCost a),
       ag_p2pOnly := if_used (co_p2pOnly c) (ag_p2pOnly a),
       ag_userspaceStack := if_used (co_userspaceStack c) (ag_userspaceStack a),
       ag_udpPortConvergence := if_used (co_udpPortConvergence c) (ag_udpPortConvergence a)\<rparr>"

definition needShowUsage :: "arguments \<Rightarrow> bool" where
  "needShowUsage a =
     (if ag_mode a \<noteq> str ''client'' \<and> ag_mode a \<noteq> str ''server'' then True
      else if ag_websocket a = [] then True
      else False)"

text \<open>\<open>files\<close>: the contents of the files that can be read.\<close>

definition arguments_parse ::
  "text_lib \<Rightarrow> (bytes \<Rightarrow> bytes option) \<Rightarrow> command_line \<Rightarrow> arguments \<Rightarrow> int + arguments" where
  "arguments_parse T files cl a =
     (case cl of
        Rejected \<Rightarrow> Inl 1
      | Informed \<Rightarrow> Inl 0
      | Options c \<Rightarrow>
          (case (case co_config c of None \<Rightarrow> Inr a | Some f \<Rightarrow> parseFile T (files f) a) of
             Inl code \<Rightarrow> Inl code
           | Inr a1 \<Rightarrow>
               let a2 = set_all_used c a1
               in if needShowUsage a2 then Inl 1 else Inr a2))"

section \<open>The disk\<close>

text \<open>
  \<open>dk_mkdir\<close>: creating the directories above a path does not throw; \<open>dk_open\<close>: the path can
  be opened for writing.
\<close>

record disk =
  dk_files :: "(bytes, bytes) table"
  dk_mkdir :: "bytes \<Rightarrow> bool"
  dk_open :: "bytes \<Rightarrow> bool"

definition storageDirectory :: "bytes \<Rightarrow> bytes" where
  "storageDirectory subdir = str ''/var/lib/candy/'' @ subdir"

definition file_name :: "bytes \<Rightarrow> bytes" where
  "file_name name = (if name = [] then str ''__noname__'' else name)"

definition disk_write :: "bytes \<Rightarrow> bytes \<Rightarrow> disk \<Rightarrow> disk" where
  "disk_write path content d =
     (if dk_open d path then d\<lparr>dk_files := tbl_put path content (dk_files d)\<rparr> else d)"

definition saveTunAddress :: "bytes \<Rightarrow> bytes \<Rightarrow> disk \<Rightarrow> disk \<times> int" where
  "saveTunAddress name cidr d =
     (let cache = storageDirectory (str ''address/'') @ file_name name
      in if \<not> dk_mkdir d cache then (d, -1) else (disk_write cache cidr d, 0))"

definition loadTunAddress :: "bytes \<Rightarrow> disk \<Rightarrow> bytes" where
  "loadTunAddress name d =
     (let cache = storageDirectory (str ''address/'') @ file_name name
      in case map_of (dk_files d) cache of Some content \<Rightarrow> content | None \<Rightarrow> str ''0.0.0.0/0'')"

definition VMAC_SIZE :: nat where "VMAC_SIZE = 16"

text \<open>A file shorter than \<^verbatim>\<open>VMAC_SIZE\<close> sets the fail bit of the stream: the result is empty.\<close>

definition virtualMacHelper :: "bytes \<Rightarrow> disk \<Rightarrow> bytes" where
  "virtualMacHelper name d =
     (let path = storageDirectory (str ''vmac/'') @ file_name name
      in case map_of (dk_files d) path of
           None \<Rightarrow> []
         | Some content \<Rightarrow> if length content < VMAC_SIZE then [] else take VMAC_SIZE content)"

text \<open>\<open>random\<close>: the numbers drawn, from 0 to 15, each printed in hexadecimal.\<close>

definition hex_digit :: "nat \<Rightarrow> u8" where
  "hex_digit n = (if n < 10 then of_nat (48 + n) else of_nat (87 + n))"

definition randomHexString :: "(nat \<Rightarrow> nat) \<Rightarrow> nat \<Rightarrow> bytes" where
  "randomHexString random len = map (\<lambda>i. hex_digit (random i)) [0..<len]"

definition create_vmac :: "(nat \<Rightarrow> nat) \<Rightarrow> bytes" where
  "create_vmac random = randomHexString random VMAC_SIZE"

definition initVirtualMac :: "(nat \<Rightarrow> nat) \<Rightarrow> disk \<Rightarrow> bytes \<times> disk" where
  "initVirtualMac random d =
     (let path = storageDirectory (str ''vmac/__noname__'')
      in if \<not> dk_mkdir d path then ([], d)
         else let vmac = create_vmac random in (vmac, disk_write path vmac d))"

definition virtualMac :: "(nat \<Rightarrow> nat) \<Rightarrow> bytes \<Rightarrow> disk \<Rightarrow> bytes \<times> disk" where
  "virtualMac random name d =
     (let path = virtualMacHelper name d
      in if path \<noteq> [] then (path, d)
         else let path = virtualMacHelper [] d
              in if path \<noteq> [] then (path, d) else initVirtualMac random d)"

section \<open>The JSON object\<close>

text \<open>The values of a \<^verbatim>\<open>Poco::JSON::Object\<close>; \<open>JOther\<close> is null, an array or an object.\<close>

datatype jvalue = JString bytes | JInt int | JBool bool | JOther

type_synonym json = "(bytes, jvalue) table"

definition arguments_json :: "(nat \<Rightarrow> nat) \<Rightarrow> arguments \<Rightarrow> disk \<Rightarrow> json \<times> disk" where
  "arguments_json random a d =
     (let common = [(str ''mode'', JString (ag_mode a)), (str ''websocket'', JString (ag_websocket a)),
                    (str ''password'', JString (ag_password a))]
      in if ag_mode a = str ''client''
         then let (vmac, d') = virtualMac random (ag_name a) d
              in (common @
                  [(str ''name'', JString (ag_name a)), (str ''tun'', JString (ag_tun a)),
                   (str ''stun'', JString (ag_stun a)), (str ''localhost'', JString (ag_localhost a)),
                   (str ''discovery'', JInt (ag_discovery a)), (str ''route'', JInt (ag_routeCost a)),
                   (str ''mtu'', JInt (ag_mtu a)), (str ''port'', JInt (ag_port a)),
                   (str ''vmac'', JString vmac), (str ''expt'', JString (loadTunAddress (ag_name a) d')),
                   (str ''p2p-only'', JBool (ag_p2pOnly a)), (str ''userspace-stack'', JBool (ag_userspaceStack a)),
                   (str ''udp-port-convergence'', JBool (ag_udpPortConvergence a))], d')
         else if ag_mode a = str ''server''
         then (common @ [(str ''dhcp'', JString (ag_dhcp a)), (str ''sdwan'', JString (ag_sdwan a))], d)
         else (common, d))"

section \<open>The map of the file\<close>

lemma inj_str: "str s = str t \<longleftrightarrow> s = t"
proof -
  have u: "unat (of_char c :: u8) = of_char c" for c
  proof -
    have "unat (of_nat (of_char c) :: u8) = of_char c"
      using nat_of_char_less_256 [of c] by (simp add: unat_of_nat take_bit_nat_eq_self del: of_nat_of_char)
    then show ?thesis using of_nat_of_char [of c, where ?'a = u8] by metis
  qed
  have "inj (of_char :: char \<Rightarrow> u8)"
    by (rule injI) (metis u of_char_eq_iff)
  then show ?thesis by (simp add: str_def inj_map_eq_map)
qed

lemma bytes_less_irrefl: "\<not> bytes_less s s"
  by (induction s) auto

lemma bytes_less_trans: "bytes_less s t \<Longrightarrow> bytes_less t u \<Longrightarrow> bytes_less s u"
proof (induction s t arbitrary: u rule: bytes_less.induct)
  case (2 b t)
  then show ?case by (cases u) auto
next
  case (3 a s b t)
  then show ?case by (cases u) (auto dest: less_trans)
qed simp

lemma bytes_less_total: "\<not> bytes_less s t \<Longrightarrow> s \<noteq> t \<Longrightarrow> bytes_less t s"
proof (induction s t rule: bytes_less.induct)
  case (1 s)
  then show ?case by (cases s) auto
qed auto

lemma set_smap_put: "set (map fst (smap_put k v t)) = insert k (set (map fst t))"
  by (induction k v t rule: smap_put.induct) auto

lemma smap_ok_put: "smap_ok t \<Longrightarrow> smap_ok (smap_put k v t)"
proof (induction k v t rule: smap_put.induct)
  case (1 k v)
  then show ?case by (simp add: smap_ok_def)
next
  case (2 k v k' v' t)
  show ?case
  proof (cases "bytes_less k k' \<or> k = k'")
    case True
    then show ?thesis using 2 by (auto simp: smap_ok_def dest: bytes_less_trans)
  next
    case False
    then have l: "bytes_less k' k" and "smap_ok (smap_put k v t)"
      using 2 bytes_less_total [of k k'] by (auto simp: smap_ok_def)
    moreover have "\<forall>x \<in> set (map fst (smap_put k v t)). bytes_less k' x"
      using l 2(2) unfolding set_smap_put by (auto simp: smap_ok_def)
    ultimately show ?thesis using False by (simp add: smap_ok_def)
  qed
qed

lemma map_of_smap_put: "map_of (smap_put k v t) = (map_of t)(k \<mapsto> v)"
  by (induction k v t rule: smap_put.induct) auto

lemma smap_ok_distinct: "smap_ok t \<Longrightarrow> distinct (map fst t)"
  unfolding smap_ok_def by (induction t) (auto simp: bytes_less_irrefl)

lemma smap_ok_kv_lines: "smap_ok t \<Longrightarrow> smap_ok (kv_lines T ls t)"
  by (induction T ls t rule: kv_lines.induct) (auto simp: smap_ok_put split: option.split prod.split)

lemma map_of_kv_lines:
  "map_of (kv_lines T ls t) = map_of t ++ map_of (rev (List.map_filter (kv_line T) ls))"
proof (induction T ls t rule: kv_lines.induct)
  case (2 T l ls t)
  then show ?case
    by (cases "kv_line T l") (auto simp: map_of_smap_put List.map_filter_simps fun_eq_iff map_add_def split: option.splits)
qed (simp add: List.map_filter_simps)

lemma map_of_fileToKvMap:
  "map_of (fileToKvMap T (Some s)) = map_of (rev (List.map_filter (kv_line T) (getlines s)))"
  by (simp add: fileToKvMap_def map_of_kv_lines)

lemma fileToKvMap_distinct: "distinct (map fst (fileToKvMap T c))"
  unfolding fileToKvMap_def by (rule smap_ok_distinct, rule smap_ok_kv_lines) (simp add: smap_ok_def)

section \<open>Applying the file, key by key\<close>

definition numeric_keys :: "bytes list" where
  "numeric_keys = [str ''discovery'', str ''route'', str ''port'', str ''mtu'']"

definition bad_number :: "(bytes \<Rightarrow> bytes option) \<Rightarrow> bool" where
  "bad_number f \<longleftrightarrow>
     list_ex (\<lambda>k. case f k of None \<Rightarrow> False | Some v \<Rightarrow> stoi (unquote v) = None) numeric_keys"

definition text_of :: "(bytes \<Rightarrow> bytes option) \<Rightarrow> string \<Rightarrow> bytes \<Rightarrow> bytes" where
  "text_of f k old = (case f (str k) of None \<Rightarrow> old | Some v \<Rightarrow> unquote v)"

definition flag_of :: "(bytes \<Rightarrow> bytes option) \<Rightarrow> string \<Rightarrow> bool \<Rightarrow> bool" where
  "flag_of f k old = (case f (str k) of None \<Rightarrow> old | Some v \<Rightarrow> unquote v = str ''true'')"

definition number_of :: "(bytes \<Rightarrow> bytes option) \<Rightarrow> string \<Rightarrow> int \<Rightarrow> int" where
  "number_of f k old = (case f (str k) of None \<Rightarrow> old | Some v \<Rightarrow> the (stoi (unquote v)))"

definition settings_of :: "(bytes \<Rightarrow> bytes option) \<Rightarrow> arguments \<Rightarrow> arguments" where
  "settings_of f a =
     \<lparr>ag_mode = text_of f ''mode'' (ag_mode a), ag_websocket = text_of f ''websocket'' (ag_websocket a),
      ag_password = text_of f ''password'' (ag_password a), ag_noTimestamp = ag_noTimestamp a,
      ag_debug = flag_of f ''debug'' (ag_debug a), ag_dhcp = text_of f ''dhcp'' (ag_dhcp a),
      ag_sdwan = text_of f ''sdwan'' (ag_sdwan a), ag_name = text_of f ''name'' (ag_name a),
      ag_tun = text_of f ''tun'' (ag_tun a), ag_stun = text_of f ''stun'' (ag_stun a),
      ag_localhost = text_of f ''localhost'' (ag_localhost a), ag_port = number_of f ''port'' (ag_port a),
      ag_discovery = number_of f ''discovery'' (ag_discovery a),
      ag_routeCost = number_of f ''route'' (ag_routeCost a), ag_mtu = number_of f ''mtu'' (ag_mtu a),
      ag_p2pOnly = flag_of f ''p2p-only'' (ag_p2pOnly a),
      ag_userspaceStack = flag_of f ''userspace-stack'' (ag_userspaceStack a),
      ag_udpPortConvergence = flag_of f ''udp-port-convergence'' (ag_udpPortConvergence a)\<rparr>"

lemma of_file_put [simp]:
  "text_of (f(str k \<mapsto> v)) k' old = (if k' = k then unquote v else text_of f k' old)"
  "flag_of (f(str k \<mapsto> v)) k' b = (if k' = k then unquote v = str ''true'' else flag_of f k' b)"
  "number_of (f(str k \<mapsto> v)) k' i = (if k' = k then the (stoi (unquote v)) else number_of f k' i)"
  by (simp_all add: text_of_def flag_of_def number_of_def inj_str)

lemma of_file_none [simp]:
  "f (str k) = None \<Longrightarrow> text_of f k old = old"
  "f (str k) = None \<Longrightarrow> flag_of f k b = b"
  "f (str k) = None \<Longrightarrow> number_of f k i = i"
  by (simp_all add: text_of_def flag_of_def number_of_def)

lemma settings_of_empty: "settings_of (\<lambda>_. None) a = a"
  by (simp add: settings_of_def)

text \<open>One handler changes the setting of its own key only.\<close>

lemma handler_spec:
  assumes "f k = None" and "map_of cfgHandlers k = Some h"
  shows "(case h (unquote v) a of None \<Rightarrow> k \<in> set numeric_keys \<and> stoi (unquote v) = None
          | Some a' \<Rightarrow> (k \<in> set numeric_keys \<longrightarrow> stoi (unquote v) \<noteq> None) \<and>
              settings_of f a' = settings_of (f(k \<mapsto> v)) a)"
proof -
  have "(k, h) \<in> set cfgHandlers" using map_of_SomeD [OF assms(2)] .
  then show ?thesis
    unfolding cfgHandlers_def list.set insert_iff empty_iff prod.inject
    using assms(1)
    by (elim disjE conjE) (simp_all add: settings_of_def numeric_keys_def inj_str split: option.split)
qed

lemma no_handler:
  assumes "map_of cfgHandlers k = None"
  shows "settings_of (f(k \<mapsto> v)) a = settings_of f a" "k \<notin> set numeric_keys"
proof -
  have k: "k \<noteq> str s" if "str s \<in> set (map fst cfgHandlers)" for s
    using assms that by (auto simp: map_of_eq_None_iff)
  have n: "k \<noteq> str ''mode''" "k \<noteq> str ''websocket''" "k \<noteq> str ''password''" "k \<noteq> str ''debug''"
    "k \<noteq> str ''dhcp''" "k \<noteq> str ''sdwan''" "k \<noteq> str ''tun''" "k \<noteq> str ''stun''" "k \<noteq> str ''name''"
    "k \<noteq> str ''discovery''" "k \<noteq> str ''route''" "k \<noteq> str ''port''" "k \<noteq> str ''mtu''"
    "k \<noteq> str ''localhost''" "k \<noteq> str ''p2p-only''" "k \<noteq> str ''userspace-stack''"
    "k \<noteq> str ''udp-port-convergence''"
    by (rule k, simp add: cfgHandlers_def)+
  show "settings_of (f(k \<mapsto> v)) a = settings_of f a"
    using n by (simp add: settings_of_def text_of_def flag_of_def number_of_def)
  show "k \<notin> set numeric_keys" using n by (simp add: numeric_keys_def)
qed

lemma bad_number_put:
  assumes "f k = None"
  shows "bad_number (f(k \<mapsto> v)) \<longleftrightarrow> bad_number f \<or> (k \<in> set numeric_keys \<and> stoi (unquote v) = None)"
  using assms by (auto simp: bad_number_def numeric_keys_def inj_str)

lemma run_cfgs_spec:
  "distinct (map fst t) \<Longrightarrow>
   run_cfgs t a = (if bad_number (map_of t) then None else Some (settings_of (map_of t) a))"
proof (induction t arbitrary: a)
  case Nil
  show ?case by (simp add: settings_of_empty bad_number_def list_ex_iff)
next
  case (Cons e t)
  obtain k v where [simp]: "e = (k, v)" by (cases e)
  have k: "map_of t k = None" using Cons.prems by (simp add: map_of_eq_None_iff)
  have IH: "run_cfgs t a = (if bad_number (map_of t) then None else Some (settings_of (map_of t) a))" for a
    using Cons by simp
  have "run_cfgs ((k, v) # t) a =
      (if bad_number ((map_of t)(k \<mapsto> v)) then None else Some (settings_of ((map_of t)(k \<mapsto> v)) a))"
  proof (cases "map_of cfgHandlers k")
    case None
    then show ?thesis using no_handler [OF None] bad_number_put [of "map_of t" k v, OF k] IH by simp
  next
    case (Some h)
    then show ?thesis
      using handler_spec [of "map_of t" k h v a, OF k Some] bad_number_put [of "map_of t" k v, OF k] IH
      by (auto split: option.splits)
  qed
  moreover have "map_of (e # t) = (map_of t)(k \<mapsto> v)" by (simp add: fun_eq_iff)
  ultimately show ?case by (metis \<open>e = (k, v)\<close>)
qed

text \<open>What a file says of a key: the last line that sets it.\<close>

definition last_line :: "text_lib \<Rightarrow> bytes option \<Rightarrow> bytes \<Rightarrow> bytes option" where
  "last_line T content =
     map_of (rev (List.map_filter (kv_line T) (getlines (case content of None \<Rightarrow> [] | Some s \<Rightarrow> s))))"

lemma fileToKvMap_last_line: "map_of (fileToKvMap T content) = last_line T content"
  by (simp add: fileToKvMap_def last_line_def map_of_kv_lines)

lemma parseFile_last_lines:
  "parseFile T content a =
     (if bad_number (last_line T content) then Inl 1 else Inr (settings_of (last_line T content) a))"
  by (simp add: parseFile_def run_cfgs_spec [OF fileToKvMap_distinct] fileToKvMap_last_line)

text \<open>Reading a configuration file through the ordered map and the table of handlers is the same
  as letting the last line that sets a key decide that setting, independently of all other
  lines and of their order: text and numbers without the quotes around them, flags true for
  the text true only, unknown keys without effect; and the program gives up with exit code 1
  exactly when the deciding line of one of the four numeric keys is not an integer.\<close>

theorem parseFile_equals_last_lines:
  "parseFile T content a =
     (if bad_number (last_line T content) then Inl 1 else Inr (settings_of (last_line T content) a))"
  by (rule parseFile_last_lines)

section \<open>When the program starts\<close>

definition chosen :: "bytes option \<Rightarrow> (bytes \<Rightarrow> bytes option) \<Rightarrow> string \<Rightarrow> bytes" where
  "chosen used f key = (case used of Some v \<Rightarrow> v | None \<Rightarrow> text_of f key [])"

definition file_says :: "text_lib \<Rightarrow> (bytes \<Rightarrow> bytes option) \<Rightarrow> cli_options \<Rightarrow> bytes \<Rightarrow> bytes option" where
  "file_says T files c = (case co_config c of None \<Rightarrow> (\<lambda>_. None) | Some p \<Rightarrow> last_line T (files p))"

lemma file_read:
  "(case co_config c of None \<Rightarrow> Inr a | Some p \<Rightarrow> parseFile T (files p) a) =
     (if bad_number (file_says T files c) then Inl 1 else Inr (settings_of (file_says T files c) a))"
  by (auto simp: file_says_def parseFile_last_lines settings_of_empty bad_number_def list_ex_iff
      split: option.split)

lemma usage_not_needed:
  "needShowUsage (set_all_used c (settings_of f arguments_new)) \<longleftrightarrow>
     \<not> (chosen (co_mode c) f ''mode'' \<in> {str ''client'', str ''server''} \<and>
        chosen (co_websocket c) f ''websocket'' \<noteq> [])"
  by (auto simp: needShowUsage_def set_all_used_def settings_of_def chosen_def if_used_def arguments_new_def
      split: option.split)

text \<open>The program starts exactly when the configuration file, if one was named, has no broken
  number, the mode is client or server and the websocket address is not empty, the option on
  the command line deciding before the file; in every other case it ends with exit code 1.\<close>

theorem program_starts_iff:
  "arguments_parse T files (Options c) arguments_new =
    (if \<not> bad_number (file_says T files c) \<and>
        chosen (co_mode c) (file_says T files c) ''mode'' \<in> {str ''client'', str ''server''} \<and>
        chosen (co_websocket c) (file_says T files c) ''websocket'' \<noteq> []
     then Inr (set_all_used c (settings_of (file_says T files c) arguments_new)) else Inl 1)"
  by (simp add: arguments_parse_def file_read usage_not_needed Let_def)

section \<open>Writing a configuration file\<close>

definition flag_text :: "bool \<Rightarrow> bytes" where
  "flag_text b = (if b then str ''true'' else str ''false'')"

definition cfg_pairs :: "arguments \<Rightarrow> (bytes \<times> bytes) list" where
  "cfg_pairs a =
     [(str ''mode'', ag_mode a), (str ''websocket'', ag_websocket a), (str ''password'', ag_password a),
      (str ''debug'', flag_text (ag_debug a)), (str ''dhcp'', ag_dhcp a), (str ''sdwan'', ag_sdwan a),
      (str ''tun'', ag_tun a), (str ''stun'', ag_stun a), (str ''name'', ag_name a),
      (str ''discovery'', to_string (ag_discovery a)), (str ''route'', to_string (ag_routeCost a)),
      (str ''port'', to_string (ag_port a)), (str ''mtu'', to_string (ag_mtu a)),
      (str ''localhost'', ag_localhost a), (str ''p2p-only'', flag_text (ag_p2pOnly a)),
      (str ''userspace-stack'', flag_text (ag_userspaceStack a)),
      (str ''udp-port-convergence'', flag_text (ag_udpPortConvergence a))]"

text \<open>A line \<^verbatim>\<open>key = "value"\<close>.\<close>

definition cfg_line :: "bytes \<times> bytes \<Rightarrow> bytes" where
  "cfg_line e = fst e @ [32, 61, 32, 34] @ snd e @ [34]"

definition cfg_text :: "arguments \<Rightarrow> bytes" where
  "cfg_text a = concat (map (\<lambda>e. cfg_line e @ [10]) (cfg_pairs a))"

definition clean_key :: "bytes \<Rightarrow> bool" where
  "clean_key k \<longleftrightarrow> k \<noteq> [] \<and> list_all (\<lambda>c. \<not> is_space c \<and> c \<noteq> 61 \<and> c \<noteq> 35) k"

lemma getlines_line: "10 \<notin> set l \<Longrightarrow> getlines (l @ 10 # r) = l # getlines r"
proof -
  assume l: "10 \<notin> set l"
  have t: "takeWhile (\<lambda>b. b \<noteq> 10) (l @ 10 # r) = l" "dropWhile (\<lambda>b. b \<noteq> 10) (l @ 10 # r) = 10 # r"
    using l by (induction l) auto
  obtain c s where c: "l @ 10 # r = c # s" by (cases "l @ 10 # r") auto
  show ?thesis
    using getlines.simps(2) [of c s] t unfolding c [symmetric] by simp
qed

lemma strip_right_snoc: "\<not> P c \<Longrightarrow> strip_right P (s @ [c]) = s @ [c]"
  by (simp add: strip_right_def)

lemma kv_line_cfg_line:
  assumes "text_ok T" and "clean_key k"
  shows "kv_line T (cfg_line (k, v)) = Some (k, 34 # v @ [34])"
proof -
  have sp: "is_space 32" "\<not> is_space 34" by (simp_all add: is_space_def)
  obtain c r where k: "k = c # r" using assms(2) by (cases k) (auto simp: clean_key_def)
  have cl: "\<not> is_space c" "c \<noteq> 35" "61 \<notin> set k"
    using assms(2) by (auto simp: clean_key_def k list_all_iff)
  obtain r' c' where k': "k = r' @ [c']" using k by (metis append_butlast_last_id list.distinct(1))
  have c': "\<not> is_space c'" using assms(2) by (auto simp: clean_key_def k' list_all_iff)
  have l: "trimLeft T (cfg_line (k, v)) = cfg_line (k, v)" "hd (cfg_line (k, v)) \<noteq> 35" "cfg_line (k, v) \<noteq> []"
    using assms(1) cl by (simp_all add: text_ok_def cfg_line_def k)
  have s: "strip_right (\<lambda>c. c = 32 \<or> c = 9 \<or> c = 59) (cfg_line (k, v)) = (k @ [32]) @ 61 # 32 # 34 # v @ [34]"
    using strip_right_snoc [of "\<lambda>c. c = 32 \<or> c = 9 \<or> c = 59" 34 "k @ [32, 61, 32, 34] @ v"]
    by (simp add: cfg_line_def)
  have f: "find_byte 61 ((k @ [32]) @ 61 # 32 # 34 # v @ [34]) = Some (length (k @ [32]))"
    using cl by (intro find_byte_append) simp
  have tk: "trim_both T (k @ [32]) = k"
  proof -
    have "dropWhile is_space (k @ [32]) = k @ [32]" using cl by (simp add: k)
    moreover have "strip_right is_space (k @ [32]) = k" using sp c' by (simp add: k' strip_right_def)
    ultimately show ?thesis using assms(1) by (simp add: text_ok_def)
  qed
  have tv: "trim_both T (32 # 34 # v @ [34]) = 34 # v @ [34]"
    using assms(1) sp strip_right_snoc [of is_space 34 "34 # v"] by (simp add: text_ok_def)
  show ?thesis
    using l s f tk tv by (simp add: kv_line_def Let_def)
qed

lemma getlines_cfg:
  "(\<And>e. e \<in> set ps \<Longrightarrow> clean_key (fst e) \<and> 10 \<notin> set (snd e)) \<Longrightarrow>
   getlines (concat (map (\<lambda>e. cfg_line e @ [10]) ps)) = map cfg_line ps"
proof (induction ps)
  case (Cons e ps)
  have "10 \<notin> set (cfg_line e)"
    using Cons.prems [of e] by (auto simp: cfg_line_def clean_key_def list_all_iff is_space_def)
  then show ?case using Cons getlines_line [of "cfg_line e"] by simp
qed simp

lemma last_line_cfg:
  assumes "text_ok T" and "\<And>e. e \<in> set ps \<Longrightarrow> clean_key (fst e) \<and> 10 \<notin> set (snd e)"
  shows "last_line T (Some (concat (map (\<lambda>e. cfg_line e @ [10]) ps))) =
    map_of (rev (map (\<lambda>(k, v). (k, 34 # v @ [34])) ps))"
proof -
  have "List.map_filter (kv_line T) (map cfg_line ps) = map (\<lambda>(k, v). (k, 34 # v @ [34])) ps"
    using assms(2)
  proof (induction ps)
    case (Cons e ps)
    obtain k v where e: "e = (k, v)" by (cases e)
    have "clean_key k" using Cons.prems [of e] e by simp
    then show ?case using Cons e by (simp add: kv_line_cfg_line [OF assms(1)])
  qed simp
  then show ?thesis using getlines_cfg [of ps] assms(2) by (simp add: last_line_def)
qed

lemma unquote_quoted [simp]: "unquote (34 # v @ [34]) = v"
  by (simp add: unquote_def)

lemma stoi_to_string_int: "- (2 ^ 31) \<le> i \<Longrightarrow> i < 2 ^ 31 \<Longrightarrow> stoi (to_string i) = Some i"
proof (cases "i < 0")
  case True
  assume "- (2 ^ 31) \<le> i"
  moreover have "\<not> is_space 45" by (simp add: is_space_def)
  moreover have t: "takeWhile is_digit (show_nat (nat (- i))) = show_nat (nat (- i))"
    using takeWhile_show_nat [of "[]" "nat (- i)"] by simp
  ultimately show ?thesis
    using True by (simp add: stoi_def to_string_def Let_def digits_val_show_nat t del: takeWhile_eq_all_conv)
next
  case False
  assume "i < 2 ^ 31"
  then show ?thesis using False stoi_to_string [of "[]" "nat i"] by simp
qed

lemma clean_keys: "list_all (\<lambda>e. clean_key (fst e)) (cfg_pairs a)"
  by (simp add: cfg_pairs_def) (intro conjI; code_simp)

lemma digits_no_newline: "10 \<notin> set (to_string i)"
  using show_nat_digits [of "nat (- i)"] show_nat_digits [of "nat i"]
  by (auto simp: to_string_def is_digit_def)

definition int_range :: "int \<Rightarrow> bool" where
  "int_range i \<longleftrightarrow> - (2 ^ 31) \<le> i \<and> i < 2 ^ 31"

definition printable :: "arguments \<Rightarrow> bool" where
  "printable a \<longleftrightarrow>
     list_all (\<lambda>s. 10 \<notin> set s)
       [ag_mode a, ag_websocket a, ag_password a, ag_dhcp a, ag_sdwan a, ag_tun a, ag_stun a, ag_name a, ag_localhost a] \<and>
     list_all int_range [ag_discovery a, ag_routeCost a, ag_port a, ag_mtu a]"

lemma flag_text_no_newline: "10 \<notin> set (flag_text b)"
proof -
  have "10 \<notin> set (str ''true'')" "10 \<notin> set (str ''false'')" by code_simp+
  then show ?thesis by (simp add: flag_text_def)
qed

lemma map_of_rev_distinct: "distinct (map fst t) \<Longrightarrow> map_of (rev t) = map_of t"
proof (induction t)
  case (Cons e t)
  then have "map_of t (fst e) = None" by (simp add: map_of_eq_None_iff)
  then show ?case using Cons by (cases e) (auto simp: fun_eq_iff map_add_def split: option.split)
qed simp

lemma cfg_pairs_one_line:
  assumes "printable a" and "e \<in> set (cfg_pairs a)"
  shows "clean_key (fst e) \<and> 10 \<notin> set (snd e)"
proof
  show "clean_key (fst e)" using clean_keys [of a] assms(2) by (simp add: list_all_iff)
  show "10 \<notin> set (snd e)"
    using assms flag_text_no_newline digits_no_newline by (auto simp: cfg_pairs_def printable_def)
qed

lemma file_of_cfg:
  assumes "text_ok T" and "printable a"
  shows "last_line T (Some (cfg_text a)) = map_of (map (\<lambda>(k, v). (k, 34 # v @ [34])) (cfg_pairs a))"
proof -
  have "distinct (map fst (map (\<lambda>(k, v). (k, 34 # v @ [34])) (cfg_pairs a)))"
    by (simp add: cfg_pairs_def inj_str)
  note map_of_rev_distinct [OF this]
  then show ?thesis
    using last_line_cfg [OF assms(1), of "cfg_pairs a"] cfg_pairs_one_line [OF assms(2)]
    by (simp add: cfg_text_def)
qed

text \<open>C20: settings written one per line as \<^verbatim>\<open>key = "value"\<close> are read back exactly, whatever
  characters the texts contain except a line feed (semicolons, hashes, quotes and white space
  included) and for every number in the range of an int; only the setting for timestamps,
  which a file cannot carry, keeps its value.\<close>

theorem config_file_roundtrip:
  assumes "text_ok T" and "printable a"
  shows "parseFile T (Some (cfg_text a)) b = Inr (a\<lparr>ag_noTimestamp := ag_noTimestamp b\<rparr>)"
proof -
  let ?f = "last_line T (Some (cfg_text a))"
  note f = file_of_cfg [OF assms]
  have n: "stoi (to_string i) = Some i" if "int_range i" for i
    using that by (simp add: int_range_def stoi_to_string_int)
  have i: "int_range (ag_discovery a)" "int_range (ag_routeCost a)" "int_range (ag_port a)" "int_range (ag_mtu a)"
    using assms(2) by (simp_all add: printable_def)
  have fl: "flag_text x = str ''true'' \<longleftrightarrow> x" for x by (simp add: flag_text_def inj_str)
  have "\<not> bad_number ?f"
    by (simp add: bad_number_def numeric_keys_def f cfg_pairs_def inj_str n i)
  moreover have "settings_of ?f b = a\<lparr>ag_noTimestamp := ag_noTimestamp b\<rparr>"
    by (simp add: settings_of_def text_of_def flag_of_def number_of_def f cfg_pairs_def inj_str n i fl)
  ultimately show ?thesis by (simp add: parseFile_last_lines)
qed

definition demo_settings :: arguments where
  "demo_settings = arguments_new\<lparr>ag_mode := str ''client'', ag_websocket := str ''ws://10.0.0.1/a;b #c'',
     ag_password := [34, 59, 32], ag_mtu := -5, ag_p2pOnly := True, ag_name := str ''lan''\<rparr>"

theorem config_file_roundtrip_witness:
  "parseFile plain_text (Some (cfg_text demo_settings)) arguments_new = Inr demo_settings"
proof -
  have "printable demo_settings" by code_simp
  then show ?thesis
    using config_file_roundtrip [OF plain_text_ok, of demo_settings arguments_new]
    by (simp add: demo_settings_def arguments_new_def)
qed

section \<open>What survives a restart\<close>

lemma disk_write_files:
  "dk_open d p \<Longrightarrow> map_of (dk_files (disk_write p c d)) q = (if q = p then Some c else map_of (dk_files d) q)"
  by (simp add: disk_write_def table_simps)

lemma disk_write_keeps [simp]: "dk_mkdir (disk_write p c d) = dk_mkdir d" "dk_open (disk_write p c d) = dk_open d"
  by (simp_all add: disk_write_def)

abbreviation vmac_path :: "bytes \<Rightarrow> bytes" where
  "vmac_path name \<equiv> storageDirectory (str ''vmac/'') @ file_name name"

abbreviation address_path :: "bytes \<Rightarrow> bytes" where
  "address_path name \<equiv> storageDirectory (str ''address/'') @ file_name name"

lemma paths_differ: "address_path n \<noteq> vmac_path m"
proof -
  have "take 19 (address_path n) \<noteq> take 19 (vmac_path m)"
    by (simp add: storageDirectory_def) code_simp
  then show ?thesis by metis
qed

lemma vmac_path_global: "storageDirectory (str ''vmac/__noname__'') = vmac_path []"
  by (simp add: storageDirectory_def file_name_def) code_simp

lemma length_create_vmac: "length (create_vmac random) = VMAC_SIZE"
  by (simp add: create_vmac_def randomHexString_def)

lemma helper_length: "virtualMacHelper n d \<noteq> [] \<Longrightarrow> length (virtualMacHelper n d) = VMAC_SIZE"
  by (auto simp: virtualMacHelper_def Let_def split: option.splits if_splits)

lemma helper_only_reads_own_file:
  "map_of (dk_files d') (vmac_path n) = map_of (dk_files d) (vmac_path n) \<Longrightarrow>
   virtualMacHelper n d' = virtualMacHelper n d"
  by (simp add: virtualMacHelper_def)

text \<open>Once there is a virtual MAC, asking again reads it from the disk.\<close>

lemma virtualMac_stable:
  assumes "dk_mkdir d (vmac_path [])" and "dk_open d (vmac_path [])"
    and "virtualMac random name d = (v, d1)"
    and "\<And>n. map_of (dk_files d2) (vmac_path n) = map_of (dk_files d1) (vmac_path n)"
  shows "length v = VMAC_SIZE \<and> virtualMac random' name d2 = (v, d2)"
proof (cases "virtualMacHelper name d = [] \<and> virtualMacHelper [] d = []")
  case True
  let ?d = "disk_write (vmac_path []) (create_vmac random) d"
  have e: "v = create_vmac random" "d1 = ?d"
    using True assms(1,3) by (auto simp: virtualMac_def initVirtualMac_def vmac_path_global Let_def)
  have g: "virtualMacHelper [] d2 = v"
    using disk_write_files [OF assms(2)] assms(4) [of "[]"] length_create_vmac e
    by (simp add: virtualMacHelper_def Let_def)
  have "virtualMacHelper name d2 = [] \<or> virtualMacHelper name d2 = v"
  proof (cases "vmac_path name = vmac_path []")
    case True
    then show ?thesis using g by (simp add: virtualMacHelper_def)
  next
    case False
    then have "virtualMacHelper name d2 = virtualMacHelper name d"
      using disk_write_files [OF assms(2)] assms(4) [of name] e by (intro helper_only_reads_own_file) simp
    then show ?thesis using True by simp
  qed
  moreover have "v \<noteq> []" using length_create_vmac [of random] e by (auto simp: VMAC_SIZE_def)
  ultimately show ?thesis using g e length_create_vmac by (auto simp: virtualMac_def)
next
  case False
  then have d: "d1 = d" and v: "v = (if virtualMacHelper name d \<noteq> [] then virtualMacHelper name d else virtualMacHelper [] d)"
    using assms(3) by (auto simp: virtualMac_def Let_def split: if_splits)
  have "virtualMacHelper n d2 = virtualMacHelper n d" for n
    using assms(4) [of n] d by (intro helper_only_reads_own_file) simp
  then show ?thesis using False v helper_length [of name d] helper_length [of "[]" d] by (auto simp: virtualMac_def)
qed

lemma saveTunAddress_spec:
  assumes "dk_mkdir d (address_path n)" and "dk_open d (address_path n)"
  shows "saveTunAddress n cidr d = (disk_write (address_path n) cidr d, 0)"
    and "loadTunAddress n (disk_write (address_path n) cidr d) = cidr"
  using assms disk_write_files [OF assms(2)] by (simp_all add: saveTunAddress_def loadTunAddress_def)

definition json_client :: "arguments \<Rightarrow> bytes \<Rightarrow> bytes \<Rightarrow> json" where
  "json_client a vmac expt =
     [(str ''mode'', JString (ag_mode a)), (str ''websocket'', JString (ag_websocket a)),
      (str ''password'', JString (ag_password a)), (str ''name'', JString (ag_name a)),
      (str ''tun'', JString (ag_tun a)), (str ''stun'', JString (ag_stun a)),
      (str ''localhost'', JString (ag_localhost a)), (str ''discovery'', JInt (ag_discovery a)),
      (str ''route'', JInt (ag_routeCost a)), (str ''mtu'', JInt (ag_mtu a)), (str ''port'', JInt (ag_port a)),
      (str ''vmac'', JString vmac), (str ''expt'', JString expt), (str ''p2p-only'', JBool (ag_p2pOnly a)),
      (str ''userspace-stack'', JBool (ag_userspaceStack a)),
      (str ''udp-port-convergence'', JBool (ag_udpPortConvergence a))]"

lemma arguments_json_client:
  "ag_mode a = str ''client'' \<Longrightarrow>
   arguments_json random a d =
     (json_client a (fst (virtualMac random (ag_name a) d)) (loadTunAddress (ag_name a) (snd (virtualMac random (ag_name a) d))),
      snd (virtualMac random (ag_name a) d))"
  by (simp add: arguments_json_def json_client_def case_prod_unfold Let_def)

text \<open>With a writable storage directory, a client that is started again under the same name
  presents the same virtual MAC of sixteen characters, whatever the random source returns the
  second time, and asks the server for the address that was saved while it ran; the disk is
  not touched again.\<close>

theorem identity_survives_restart:
  assumes "ag_mode a = str ''client''"
    and "\<And>p. dk_mkdir d p \<and> dk_open d p"
    and "arguments_json random a d = (j1, d1)" and "saveTunAddress (ag_name a) cidr d1 = (d2, r)"
    and "arguments_json random' a d2 = (j2, d3)"
  shows "r = 0 \<and> d3 = d2 \<and> map_of j2 (str ''expt'') = Some (JString cidr) \<and>
    (\<exists>v. length v = VMAC_SIZE \<and> map_of j1 (str ''vmac'') = Some (JString v) \<and>
         map_of j2 (str ''vmac'') = Some (JString v))"
proof -
  obtain v e where v: "virtualMac random (ag_name a) d = (v, e)" by fastforce
  have e: "d1 = e" "j1 = json_client a v (loadTunAddress (ag_name a) e)"
    using assms(3) v by (auto simp: arguments_json_client [OF assms(1)])
  have w: "dk_mkdir e = dk_mkdir d" "dk_open e = dk_open d"
    using v by (auto simp: virtualMac_def initVirtualMac_def Let_def split: if_splits)
  have s: "d2 = disk_write (address_path (ag_name a)) cidr e" "r = 0"
    using assms(4) saveTunAddress_spec(1) [of e "ag_name a" cidr] assms(2) w e by simp_all
  have "virtualMac random' (ag_name a) d2 = (v, d2)" and l: "length v = VMAC_SIZE"
    using virtualMac_stable [OF _ _ v, of d2 random'] assms(2) s w disk_write_files [of e "address_path (ag_name a)" cidr]
      paths_differ by simp_all metis+
  then have j: "j2 = json_client a v (loadTunAddress (ag_name a) d2)" "d3 = d2"
    using assms(5) by (auto simp: arguments_json_client [OF assms(1)])
  have "loadTunAddress (ag_name a) d2 = cidr"
    using saveTunAddress_spec(2) [of e "ag_name a" cidr] assms(2) w s by simp
  then show ?thesis using j s e l by (simp add: json_client_def inj_str)
qed

definition empty_disk :: disk where
  "empty_disk = \<lparr>dk_files = [], dk_mkdir = (\<lambda>_. True), dk_open = (\<lambda>_. True)\<rparr>"

end
