(* ===== verification/Instances.thy ===== *)
theory Instances
  imports ClientRuns Config
begin

text \<open>
  \<^verbatim>\<open>candy/client.cc\<close>: the functions the library exports for clients. A client is run under an id by a loop that makes a new object, configures it from the
  JSON object the caller passed, runs it until it comes to rest, and starts over after a second,
  until it is told to stop. One step of the loop is one of the calls it makes (\<open>loop_step\<close>);
  other threads look at the instance and stop it between any two steps.
\<close>

section \<open>Reading the configuration\<close>

text \<open>
  \<^verbatim>\<open>Poco::Dynamic::Var::convert\<close>; \<open>None\<close> is its exception. A value converts to its own type.
\<close>

record json_lib =
  js_string :: "jvalue \<Rightarrow> bytes option"
  js_int :: "jvalue \<Rightarrow> int option"
  js_bool :: "jvalue \<Rightarrow> bool option"

definition json_ok :: "json_lib \<Rightarrow> bool" where
  "json_ok J \<longleftrightarrow>
     (\<forall>s. js_string J (JString s) = Some s) \<and> (\<forall>i. js_int J (JInt i) = Some i) \<and>
     (\<forall>b. js_bool J (JBool b) = Some b)"

definition strict_json :: json_lib where
  "strict_json =
     \<lparr>js_string = (\<lambda>v. case v of JString s \<Rightarrow> Some s | _ \<Rightarrow> None),
      js_int = (\<lambda>v. case v of JInt i \<Rightarrow> Some i | _ \<Rightarrow> None),
      js_bool = (\<lambda>v. case v of JBool b \<Rightarrow> Some b | _ \<Rightarrow> None)\<rparr>"

lemma strict_json_ok: "json_ok strict_json"
  by (simp add: json_ok_def strict_json_def)

definition getValue :: "(jvalue \<Rightarrow> 'a option) \<Rightarrow> json \<Rightarrow> string \<Rightarrow> 'a res" where
  "getValue convert config key =
     (case map_of config (str key) of
        None \<Rightarrow> Throw
      | Some v \<Rightarrow> (case convert v of None \<Rightarrow> Throw | Some x \<Rightarrow> Ok x))"

definition optValue :: "(jvalue \<Rightarrow> 'a option) \<Rightarrow> json \<Rightarrow> string \<Rightarrow> 'a \<Rightarrow> 'a" where
  "optValue convert config key d =
     (case map_of config (str key) of
        None \<Rightarrow> d
      | Some v \<Rightarrow> (case convert v of None \<Rightarrow> d | Some x \<Rightarrow> x))"

definition set_text :: "json_lib \<Rightarrow> json \<Rightarrow> string \<Rightarrow> (bytes \<Rightarrow> 'c \<Rightarrow> 'c) \<Rightarrow> 'c \<Rightarrow> 'c res" where
  "set_text J config key f c = bind_res (getValue (js_string J) config key) (\<lambda>v. Ok (f v c))"

definition set_int :: "json_lib \<Rightarrow> json \<Rightarrow> string \<Rightarrow> (int \<Rightarrow> 'c \<Rightarrow> 'c) \<Rightarrow> 'c \<Rightarrow> 'c res" where
  "set_int J config key f c = bind_res (getValue (js_int J) config key) (\<lambda>v. Ok (f v c))"

definition set_flag :: "json_lib \<Rightarrow> json \<Rightarrow> string \<Rightarrow> (bool \<Rightarrow> 'c \<Rightarrow> 'c) \<Rightarrow> 'c \<Rightarrow> 'c res" where
  "set_flag J config key f c = Ok (f (optValue (js_bool J) config key False) c)"

text \<open>The calls made on a new client, in order; the first exception leaves the function.\<close>

definition client_settings :: "json_lib \<Rightarrow> poco \<Rightarrow> json \<Rightarrow> (Client \<Rightarrow> Client res) list" where
  "client_settings J P config =
     [set_text J config ''name'' cl_setName,
      set_text J config ''password'' cl_setPassword,
      set_text J config ''websocket'' cl_setWebSocket,
      set_text J config ''tun'' cl_setTunAddress,
      set_text J config ''vmac'' cl_setVirtualMac,
      set_text J config ''expt'' cl_setExptTunAddress,
      set_text J config ''stun'' cl_setStun,
      set_int J config ''discovery'' cl_setDiscoveryInterval,
      set_int J config ''route'' cl_setRouteCost,
      set_int J config ''mtu'' cl_setMtu,
      set_int J config ''port'' cl_setPort,
      (\<lambda>c. bind_res (getValue (js_string J) config ''localhost'') (\<lambda>ip. cl_setLocalhost P ip c)),
      set_flag J config ''p2p-only'' cl_setP2POnly,
      set_flag J config ''userspace-stack'' cl_setUserspaceStack,
      set_flag J config ''udp-port-convergence'' cl_setUdpPortConvergence]"

definition configure_client :: "json_lib \<Rightarrow> poco \<Rightarrow> json \<Rightarrow> Client \<Rightarrow> Client res" where
  "configure_client J P config c = foldl bind_res (Ok c) (client_settings J P config)"

section \<open>Instances\<close>

text \<open>
  Where the loop of an instance is: before the test of its condition (\<open>AtLoop\<close>), in the pause
  that follows (\<open>Asleep\<close>), with a configured client that is not started (\<open>Built\<close>), waiting for
  its modules (\<open>InRun\<close>) or for its stack (\<open>Joined\<close>), or in a destructor that waits (\<open>Hung\<close>). The instance has only a weak pointer to the client, which gives nothing once the
  client is being destroyed.
\<close>

datatype phase = AtLoop | Asleep | Built Client | InRun Client | Joined Client | Hung Client

record Instance =
  in_running :: bool
  in_config :: json
  in_phase :: phase

type_synonym library = "(bytes, Instance) table"

fun on_client :: "(Client \<Rightarrow> Client) \<Rightarrow> phase \<Rightarrow> phase" where
  "on_client f (Built c) = Built (f c)"
| "on_client f (InRun c) = InRun (f c)"
| "on_client f (Joined c) = Joined (f c)"
| "on_client f p = p"

fun lock_client :: "phase \<Rightarrow> Client option" where
  "lock_client (Built c) = Some c"
| "lock_client (InRun c) = Some c"
| "lock_client (Joined c) = Some c"
| "lock_client _ = None"

definition Instance_exit :: "Instance \<Rightarrow> Instance" where
  "Instance_exit i = i\<lparr>in_running := False, in_phase := on_client cl_shutdown (in_phase i)\<rparr>"

definition Instance_status :: "Instance \<Rightarrow> json" where
  "Instance_status i =
     (case lock_client (in_phase i) of
        None \<Rightarrow> []
      | Some c \<Rightarrow> [(str ''address'', JString (cl_getTunCidr c))])"

definition try_create_instance :: "bytes \<Rightarrow> json \<Rightarrow> library \<Rightarrow> library option" where
  "try_create_instance name config l =
     (if map_of l name \<noteq> None then None
      else Some (tbl_put name \<lparr>in_running = True, in_config = config, in_phase = AtLoop\<rparr> l))"

definition try_erase_instance :: "bytes \<Rightarrow> library \<Rightarrow> library \<times> bool" where
  "try_erase_instance name l = (tbl_erase name l, map_of l name \<noteq> None)"

definition lib_shutdown :: "bytes \<Rightarrow> library \<Rightarrow> library \<times> bool" where
  "lib_shutdown name l =
     (case map_of l name of
        None \<Rightarrow> (l, False)
      | Some i \<Rightarrow> (tbl_put name (Instance_exit i) l, True))"

definition lib_status :: "bytes \<Rightarrow> library \<Rightarrow> json option" where
  "lib_status name l = map_option Instance_status (map_of l name)"

section \<open>The loop of an instance\<close>

text \<open>What a step meets: the libraries, the indeterminate MTU, and what a start meets.\<close>

record loop_env =
  le_json :: json_lib
  le_poco :: poco
  le_junk :: int
  le_start :: start_env

definition loop_phase :: "loop_env \<Rightarrow> json \<Rightarrow> phase \<Rightarrow> (phase \<times> out list) res" where
  "loop_phase E config p =
     (case p of
        AtLoop \<Rightarrow> Ok (Asleep, [])
      | Asleep \<Rightarrow>
          bind_res (configure_client (le_json E) (le_poco E) config (Client_new (le_junk E))) (\<lambda>c. Ok (Built c, []))
      | Built c \<Rightarrow>
          bind_res (client_start (le_start E) c) (\<lambda>(c', os, ok).
            if ok then Ok (InRun c', os)
            else case client_destroy c' of
                   Gone \<Rightarrow> Ok (AtLoop, os)
                 | Hangs \<Rightarrow> Ok (Hung (c'\<lparr>cl_netstack := ns_shutdown (cl_netstack c')\<rparr>), os)
                 | Terminates \<Rightarrow> Throw)
      | InRun c \<Rightarrow> (case client_join c of None \<Rightarrow> Ok (InRun c, []) | Some c' \<Rightarrow> Ok (Joined c', []))
      | Joined c \<Rightarrow> (case client_finish c of None \<Rightarrow> Ok (Joined c, []) | Some c' \<Rightarrow> Ok (AtLoop, []))
      | Hung c \<Rightarrow>
          (case client_destroy c of
             Gone \<Rightarrow> Ok (AtLoop, [])
           | Hangs \<Rightarrow> Ok (Hung c, [])
           | Terminates \<Rightarrow> Throw))"

text \<open>
  A step of the loop of \<^verbatim>\<open>run\<close>. The condition is only tested at its head; when it fails the
  instance is removed and the function returns. \<open>Throw\<close> is an exception nobody catches, or a
  destructor that ends the program.
\<close>

definition loop_step :: "loop_env \<Rightarrow> bytes \<Rightarrow> library \<Rightarrow> (library \<times> out list) res" where
  "loop_step E name l =
     (case map_of l name of
        None \<Rightarrow> Ok (l, [])
      | Some i \<Rightarrow>
          if in_phase i = AtLoop \<and> \<not> in_running i then Ok (fst (try_erase_instance name l), [])
          else bind_res (loop_phase E (in_config i) (in_phase i)) (\<lambda>(p, os).
                 Ok (tbl_put name (i\<lparr>in_phase := p\<rparr>) l, os)))"

text \<open>A turn of a thread of the client that the loop waits for, or is destroying.\<close>

definition phase_turn :: "turn \<Rightarrow> phase \<Rightarrow> (phase \<times> out list) res" where
  "phase_turn t p =
     (case p of
        InRun c \<Rightarrow> bind_res (client_turn t c) (\<lambda>(c', os). Ok (InRun c', os))
      | Joined c \<Rightarrow> bind_res (client_turn t c) (\<lambda>(c', os). Ok (Joined c', os))
      | Hung c \<Rightarrow> bind_res (client_turn t c) (\<lambda>(c', os). Ok (Hung c', os))
      | _ \<Rightarrow> Ok (p, []))"

definition thread_step :: "turn \<Rightarrow> bytes \<Rightarrow> library \<Rightarrow> (library \<times> out list) res" where
  "thread_step t name l =
     (case map_of l name of
        None \<Rightarrow> Ok (l, [])
      | Some i \<Rightarrow> bind_res (phase_turn t (in_phase i)) (\<lambda>(p, os). Ok (tbl_put name (i\<lparr>in_phase := p\<rparr>) l, os)))"

text \<open>
  Everything that happens to the library: somebody calls \<^verbatim>\<open>run\<close> or \<^verbatim>\<open>shutdown\<close>, a loop
  makes a step, a thread of a client takes a turn.
\<close>

datatype lib_event =
    RunCall bytes json
  | LoopStep loop_env bytes
  | ThreadTurn turn bytes
  | ShutdownCall bytes

fun lib_step :: "lib_event \<Rightarrow> library \<Rightarrow> library res" where
  "lib_step (RunCall name config) l =
     Ok (case try_create_instance name config l of None \<Rightarrow> l | Some l' \<Rightarrow> l')"
| "lib_step (LoopStep E name) l = bind_res (loop_step E name l) (\<lambda>(l', os). Ok l')"
| "lib_step (ThreadTurn t name) l = bind_res (thread_step t name l) (\<lambda>(l', os). Ok l')"
| "lib_step (ShutdownCall name) l = Ok (fst (lib_shutdown name l))"

fun lib_run :: "lib_event list \<Rightarrow> library \<Rightarrow> library res" where
  "lib_run [] l = Ok l"
| "lib_run (e # es) l = bind_res (lib_step e l) (lib_run es)"

section \<open>Configuring a client\<close>

lemmas set_defs = set_text_def set_int_def set_flag_def

lemma configure_client_configured:
  assumes "configure_client J P config c = Ok c'" and "configured c"
  shows "configured c'"
  using assms(1) unfolding configure_client_def
proof (rule foldl_bind_preserves)
  show "configured d" if "f \<in> set (client_settings J P config)" "f c = Ok d" "configured c" for f c d
    using that by (auto simp: client_settings_def set_defs bind_res_Ok_iff intro: configured.intros)
qed (use assms(2) in simp)

text \<open>What the library expects of the object: these keys, with values that convert.\<close>

definition text_keys :: "string list" where
  "text_keys = [''name'', ''password'', ''websocket'', ''tun'', ''vmac'', ''expt'', ''stun'', ''localhost'']"

definition int_keys :: "string list" where
  "int_keys = [''discovery'', ''route'', ''mtu'', ''port'']"

definition config_typed :: "json_lib \<Rightarrow> poco \<Rightarrow> json \<Rightarrow> bool" where
  "config_typed J P config \<longleftrightarrow>
     list_all (\<lambda>k. getValue (js_string J) config k \<noteq> Throw) text_keys \<and>
     list_all (\<lambda>k. getValue (js_int J) config k \<noteq> Throw) int_keys \<and>
     (case getValue (js_string J) config ''localhost'' of Ok ip \<Rightarrow> ip_parse P ip \<noteq> None | _ \<Rightarrow> False)"

lemma getValue_cases: "getValue f config k = Throw \<or> (\<exists>x. getValue f config k = Ok x)"
  by (auto simp: getValue_def split: option.split)

lemma getValue_not_Undef [simp]: "getValue f config k \<noteq> Undef"
  using getValue_cases [of f config k] by auto

text \<open>The client a typed configuration gives.\<close>

definition config_text :: "json_lib \<Rightarrow> json \<Rightarrow> string \<Rightarrow> bytes" where
  "config_text J config k = (case getValue (js_string J) config k of Ok x \<Rightarrow> x | _ \<Rightarrow> [])"

definition config_int :: "json_lib \<Rightarrow> json \<Rightarrow> string \<Rightarrow> int" where
  "config_int J config k = (case getValue (js_int J) config k of Ok x \<Rightarrow> x | _ \<Rightarrow> 0)"

definition config_flag :: "json_lib \<Rightarrow> json \<Rightarrow> string \<Rightarrow> bool" where
  "config_flag J config k = optValue (js_bool J) config k False"

definition follows :: "json_lib \<Rightarrow> poco \<Rightarrow> json \<Rightarrow> Client \<Rightarrow> bool" where
  "follows J P config c \<longleftrightarrow>
     cl_tunName c = config_text J config ''name'' \<and> wc_name (cl_ws c) = config_text J config ''name'' \<and>
     wc_password (cl_ws c) = config_text J config ''password'' \<and>
     pm_password (cl_peers c) = config_text J config ''password'' \<and>
     wsServerUri (cl_ws c) = config_text J config ''websocket'' \<and>
     tunCidr (cl_ws c) = config_text J config ''tun'' \<and>
     wc_vmac (cl_ws c) = config_text J config ''vmac'' \<and>
     exptTunCidr (cl_ws c) = config_text J config ''expt'' \<and>
     st_uri (pm_stun (cl_peers c)) = config_text J config ''stun'' \<and>
     discoveryInterval (cl_peers c) = config_int J config ''discovery'' \<and>
     routeCost (cl_peers c) = max 0 (min 1000 (config_int J config ''route'')) \<and>
     tn_mtu (cl_tun c) = config_int J config ''mtu'' \<and>
     (let port = config_int J config ''port''
      in listenPort (cl_peers c) = (if 0 < port \<and> port \<le> 65535 then word_of_int port else 0)) \<and>
     ip_parse P (config_text J config ''localhost'') = Some (pm_localhost (cl_peers c)) \<and>
     cl_p2pOnly c = config_flag J config ''p2p-only'' \<and>
     cl_userspaceStack c = config_flag J config ''userspace-stack'' \<and>
     cl_udpPortConvergence c = config_flag J config ''udp-port-convergence''"

lemma configure_typed:
  assumes "config_typed J P config"
  shows "\<exists>c. configure_client J P config (Client_new junk) = Ok c \<and> follows J P config c"
proof -
  have t: "\<exists>x. getValue (js_string J) config k = Ok x" if "k \<in> set text_keys" for k
    using assms that getValue_cases [of "js_string J" config k] by (auto simp: config_typed_def list_all_iff)
  have i: "\<exists>x. getValue (js_int J) config k = Ok x" if "k \<in> set int_keys" for k
    using assms that getValue_cases [of "js_int J" config k] by (auto simp: config_typed_def list_all_iff)
  obtain name password websocket tun vmac expt stun localhost where
    "getValue (js_string J) config ''name'' = Ok name" "getValue (js_string J) config ''password'' = Ok password"
    "getValue (js_string J) config ''websocket'' = Ok websocket" "getValue (js_string J) config ''tun'' = Ok tun"
    "getValue (js_string J) config ''vmac'' = Ok vmac" "getValue (js_string J) config ''expt'' = Ok expt"
    "getValue (js_string J) config ''stun'' = Ok stun" "getValue (js_string J) config ''localhost'' = Ok localhost"
    using t unfolding text_keys_def by (meson list.set_intros)
  moreover obtain discovery route mtu port where
    "getValue (js_int J) config ''discovery'' = Ok discovery" "getValue (js_int J) config ''route'' = Ok route"
    "getValue (js_int J) config ''mtu'' = Ok mtu" "getValue (js_int J) config ''port'' = Ok port"
    using i unfolding int_keys_def by (meson list.set_intros)
  moreover obtain ip where "ip_parse P localhost = Some ip"
    using assms calculation(8) by (auto simp: config_typed_def)
  ultimately show ?thesis
    by (simp add: configure_client_def client_settings_def set_defs setter_defs cl_setLocalhost_def setLocalhost_def
        follows_def config_text_def config_int_def config_flag_def Client_new_def Let_def max_def min_def)
qed

lemma configure_Ok_typed: "configure_client J P config c = Ok c' \<Longrightarrow> config_typed J P config"
  by (auto simp: configure_client_def client_settings_def set_defs bind_res_Ok_iff config_typed_def text_keys_def
      int_keys_def cl_setLocalhost_def setLocalhost_def split: option.splits)

lemma configure_not_Undef: "configure_client J P config c \<noteq> Undef"
  unfolding configure_client_def
  by (rule foldl_bind_not_Undef)
    (auto simp: client_settings_def set_defs bind_Undef cl_setLocalhost_def setLocalhost_def split: option.splits)

text \<open>C19: configuring a new client throws exactly when the JSON object is not of the type the library
  expects (eight texts and four numbers that convert, the last text an address); otherwise every
  value arrives, unchanged but for the clamping of the route cost and of the port, in the
  module that uses it.\<close>

theorem configuration_typed_or_throws:
  "case configure_client J P config (Client_new junk) of
     Ok c \<Rightarrow> config_typed J P config \<and> follows J P config c
   | Throw \<Rightarrow> \<not> config_typed J P config
   | Undef \<Rightarrow> False"
proof (cases "configure_client J P config (Client_new junk)")
  case (Ok c)
  then show ?thesis using configure_Ok_typed [OF Ok] configure_typed [of J P config junk] by auto
next
  case Throw
  then show ?thesis using configure_typed [of J P config junk] by auto
qed (use configure_not_Undef in blast)

lemma command_line_typed:
  assumes "json_ok J" and "ag_mode a = str ''client''" and "ip_parse P (ag_localhost a) = Some ip"
  shows "config_typed J P (fst (arguments_json random a d))"
    and "config_flag J (fst (arguments_json random a d)) ''p2p-only'' = ag_p2pOnly a"
    and "config_text J (fst (arguments_json random a d)) ''name'' = ag_name a"
  using assms
  by (simp_all add: config_typed_def text_keys_def int_keys_def arguments_json_client json_client_def getValue_def
      optValue_def config_flag_def config_text_def inj_str json_ok_def)

section \<open>What the clients of an instance are\<close>

lemma lib_find [simp]:
  "map_of (tbl_put name i l) n = (if n = name then Some i else map_of l n)"
  "map_of (tbl_erase name l) n = (if n = name then None else map_of l n)"
  by (simp_all add: table_simps)

text \<open>\<open>C\<close>: the cryptographic library; \<open>J\<close>: the JSON library. The rest may change at every event.\<close>

fun event_of :: "json_lib \<Rightarrow> crypto \<Rightarrow> lib_event \<Rightarrow> bool" where
  "event_of J C (LoopStep E _) = (le_json E = J)"
| "event_of J C (ThreadTurn t _) = (turn_crypto t \<in> {None, Some C})"
| "event_of J C _ = True"

inductive lib_reach :: "json_lib \<Rightarrow> crypto \<Rightarrow> library \<Rightarrow> bool" for J C where
  empty: "lib_reach J C []"
| step: "lib_reach J C l \<Longrightarrow> event_of J C e \<Longrightarrow> lib_step e l = Ok l' \<Longrightarrow> lib_reach J C l'"

fun phase_ok :: "json_lib \<Rightarrow> crypto \<Rightarrow> json \<Rightarrow> phase \<Rightarrow> bool" where
  "phase_ok J C config (Built c) = (configured c \<and> cl_p2pOnly c = config_flag J config ''p2p-only'')"
| "phase_ok J C config (InRun c) = (client_reach C c \<and> cl_p2pOnly c = config_flag J config ''p2p-only'')"
| "phase_ok J C config (Joined c) = (client_reach C c \<and> cl_p2pOnly c = config_flag J config ''p2p-only'')"
| "phase_ok J C config (Hung c) = (client_reach C c \<and> cl_p2pOnly c = config_flag J config ''p2p-only'')"
| "phase_ok J C config _ = True"

lemma cl_shutdown_stopped: "\<not> cl_running c \<Longrightarrow> cl_shutdown c = c"
  by (simp add: cl_shutdown_def)

lemma cl_shutdown_p2pOnly [simp]: "cl_p2pOnly (cl_shutdown c) = cl_p2pOnly c"
  by (simp add: cl_shutdown_def)

lemma phase_ok_exit: "phase_ok J C config p \<Longrightarrow> phase_ok J C config (on_client cl_shutdown p)"
proof (cases p)
  case (Built c)
  assume "phase_ok J C config p"
  moreover from this have "cl_shutdown c = c"
    using configured_unstarted [of c] Built by (simp add: cl_shutdown_stopped unstarted_def)
  ultimately show ?thesis using Built by simp
qed (auto intro: client_reach.stop)

lemma phase_ok_turn:
  assumes "phase_ok J C config p" and "phase_turn t p = Ok (p', os)" and "turn_crypto t \<in> {None, Some C}"
  shows "phase_ok J C config p'"
proof -
  have k: "client_reach C c' \<and> cl_p2pOnly c' = cl_p2pOnly c" if "client_reach C c" "client_turn t c = Ok (c', os)" for c c'
    using client_reach.turn [OF that(1) assms(3) that(2)] p2pOnly_turn [OF that(2)] by blast
  show ?thesis
    using assms(1,2) by (cases p) (auto simp: phase_turn_def bind_res_Ok_iff dest: k)
qed

lemma configure_p2pOnly:
  "configure_client J P config (Client_new junk) = Ok c \<Longrightarrow> cl_p2pOnly c = config_flag J config ''p2p-only''"
  using configure_typed [OF configure_Ok_typed, of J P config "Client_new junk" c junk] by (auto simp: follows_def)

lemma client_join_keeps: "client_join c = Some c' \<Longrightarrow> cl_p2pOnly c' = cl_p2pOnly c"
  by (auto simp: client_join_def split: if_splits)

lemma client_start_p2pOnly: "client_start S c0 = Ok (c, os, ok) \<Longrightarrow> cl_p2pOnly c = cl_p2pOnly c0"
  using client_start_fields by blast

lemma loop_phase_Built:
  assumes "loop_phase E config (Built c0) = Ok (p, os)"
  obtains c ok where "client_start (le_start E) c0 = Ok (c, os, ok)"
    "p \<in> {InRun c, AtLoop, Hung (c\<lparr>cl_netstack := ns_shutdown (cl_netstack c)\<rparr>)}"
  using assms by (auto simp: loop_phase_def bind_res_Ok_iff split: if_splits destroyed.splits)

lemma phase_ok_loop:
  assumes "phase_ok J C config p" and "loop_phase E config p = Ok (p', os)" and "le_json E = J"
  shows "phase_ok J C config p'"
proof (cases p)
  case Asleep
  then obtain c where "configure_client J (le_poco E) config (Client_new (le_junk E)) = Ok c" "p' = Built c"
    using assms(2,3) by (auto simp: loop_phase_def bind_res_Ok_iff)
  then show ?thesis using configure_client_configured [OF _ configured.new] configure_p2pOnly by auto
next
  case (Built c0)
  then obtain c ok where s: "client_start (le_start E) c0 = Ok (c, os, ok)"
    "p' \<in> {InRun c, AtLoop, Hung (c\<lparr>cl_netstack := ns_shutdown (cl_netstack c)\<rparr>)}"
    using assms(2) loop_phase_Built by metis
  have "client_reach C c" using client_reach.start s(1) assms(1) Built by auto
  then show ?thesis
    using s(2) client_start_p2pOnly [OF s(1)] client_reach.destroy assms(1) Built by auto
next
  case (InRun c)
  then show ?thesis
    using assms by (auto simp: loop_phase_def client_join_keeps intro: client_reach.join split: option.splits)
qed (use assms in \<open>auto simp: loop_phase_def split: option.splits destroyed.splits\<close>)

definition library_ok :: "json_lib \<Rightarrow> crypto \<Rightarrow> library \<Rightarrow> bool" where
  "library_ok J C l \<longleftrightarrow> (\<forall>name i. map_of l name = Some i \<longrightarrow> phase_ok J C (in_config i) (in_phase i))"

lemma library_ok_put:
  "library_ok J C l \<Longrightarrow> phase_ok J C (in_config i) (in_phase i) \<Longrightarrow> library_ok J C (tbl_put name i l)"
  by (simp add: library_ok_def)

lemma library_ok_erase: "library_ok J C l \<Longrightarrow> library_ok J C (tbl_erase name l)"
  by (simp add: library_ok_def)

lemma library_ok_find: "library_ok J C l \<Longrightarrow> map_of l name = Some i \<Longrightarrow> phase_ok J C (in_config i) (in_phase i)"
  by (simp add: library_ok_def)

lemma lib_reach_ok: "lib_reach J C l \<Longrightarrow> library_ok J C l"
proof (induction rule: lib_reach.induct)
  case empty
  then show ?case by (simp add: library_ok_def)
next
  case (step l e l')
  note ok = library_ok_find [OF step.IH]
  show ?case
  proof (cases e)
    case (RunCall name config)
    then show ?thesis
      using step by (auto simp: try_create_instance_def library_ok_put split: if_splits)
  next
    case (LoopStep E name)
    then show ?thesis
      using step ok [of name] phase_ok_loop
      by (auto simp: loop_step_def bind_res_Ok_iff try_erase_instance_def library_ok_erase
          intro!: library_ok_put split: option.splits if_splits)
  next
    case (ThreadTurn t name)
    then show ?thesis
      using step ok [of name] phase_ok_turn
      by (auto simp: thread_step_def bind_res_Ok_iff intro!: library_ok_put split: option.splits)
  next
    case (ShutdownCall name)
    then show ?thesis
      using step ok [of name] phase_ok_exit
      by (auto simp: lib_shutdown_def Instance_exit_def intro!: library_ok_put split: option.splits)
  qed
qed


text \<open>What an instance sends.\<close>

definition carries_packet :: "out \<Rightarrow> bool" where
  "carries_packet e \<longleftrightarrow> (\<exists>b. e = Out (WsSend b WS_FRAME_BINARY) \<and> rd8 b 0 = WS_FORWARD)"

lemma quiet_carries: "list_all quiet_out os \<Longrightarrow> \<not> list_ex carries_packet os"
  by (auto simp: list_all_iff list_ex_iff carries_packet_def)

lemma loop_phase_quiet:
  assumes "phase_ok J C config p" and "loop_phase E config p = Ok (p', os)"
  shows "\<not> list_ex carries_packet os"
proof (cases p)
  case (Built c0)
  then obtain c ok where "client_start (le_start E) c0 = Ok (c, os, ok)" using assms(2) loop_phase_Built by metis
  then show ?thesis using start_quiet quiet_carries assms(1) Built by auto
qed (use assms in \<open>auto simp: loop_phase_def bind_res_Ok_iff split: option.splits destroyed.splits\<close>)

lemma phase_turn_quiet:
  assumes "phase_ok J C config p" and "config_flag J config ''p2p-only''" and "phase_turn t p = Ok (p', os)"
  shows "\<not> list_ex carries_packet os"
proof -
  have q: "\<not> list_ex carries_packet os" if "client_reach C c" "cl_p2pOnly c" "client_turn t c = Ok (c', os)" for c c'
    using quiet_turn [of c t] client_reach_quiet [OF that(1,2)] that(2,3) quiet_carries by (auto simp: stays_quiet_def)
  show ?thesis
    using assms by (cases p) (auto simp: phase_turn_def bind_res_Ok_iff dest: q)
qed

text \<open>C3: an instance that was configured as peer-to-peer only never sends the server a frame that
  carries a packet, neither while one of its clients starts nor in any turn of any thread, for
  every client the instance makes, also after reconnecting.\<close>

theorem p2p_only_instance:
  assumes "lib_reach J C l" and "map_of l name = Some i" and "config_flag J (in_config i) ''p2p-only''"
    and "loop_step E name l = Ok (l', os) \<or> thread_step t name l = Ok (l', os)"
  shows "\<not> list_ex carries_packet os"
proof -
  have ok: "phase_ok J C (in_config i) (in_phase i)" by (rule library_ok_find [OF lib_reach_ok [OF assms(1)] assms(2)])
  show ?thesis
    using assms(2,3,4) loop_phase_quiet [OF ok] phase_turn_quiet [OF ok]
    by (auto simp: loop_step_def thread_step_def bind_res_Ok_iff split: if_splits)
qed

section \<open>Stopping an instance\<close>

lemma lib_run_append: "lib_run (es @ fs) l = bind_res (lib_run es l) (lib_run fs)"
proof (induction es arbitrary: l)
  case (Cons e es)
  then show ?case by (cases "lib_step e l") simp_all
qed simp

lemma shutdown_found: "map_of l name = Some i \<Longrightarrow> lib_shutdown name l = (tbl_put name (Instance_exit i) l, True)"
  by (simp add: lib_shutdown_def)

lemma loop_step_found:
  "map_of l name = Some i \<Longrightarrow> \<not> (in_phase i = AtLoop \<and> \<not> in_running i) \<Longrightarrow>
   loop_phase E (in_config i) (in_phase i) = Ok (p, os) \<Longrightarrow>
   loop_step E name l = Ok (tbl_put name (i\<lparr>in_phase := p\<rparr>) l, os)"
  by (auto simp: loop_step_def)

lemma thread_step_found:
  "map_of l name = Some i \<Longrightarrow> phase_turn t (in_phase i) = Ok (p, os) \<Longrightarrow>
   thread_step t name l = Ok (tbl_put name (i\<lparr>in_phase := p\<rparr>) l, os)"
  by (simp add: thread_step_def)

lemma lib_run_turns:
  assumes "client_turns ts c = Ok (c', os)" and "map_of l name = Some i" and "in_phase i = InRun c"
  shows "\<exists>l'. lib_run (map (\<lambda>t. ThreadTurn t name) ts) l = Ok l' \<and>
    map_of l' = (map_of l)(name \<mapsto> i\<lparr>in_phase := InRun c'\<rparr>)"
  using assms
proof (induction ts arbitrary: c l i os)
  case Nil
  then have "i\<lparr>in_phase := InRun c'\<rparr> = i" by simp
  then show ?case using Nil by auto
next
  case (Cons t ts)
  obtain c1 o1 o2 where 1: "client_turn t c = Ok (c1, o1)" "client_turns ts c1 = Ok (c', o2)"
    using Cons.prems(1) by (auto simp: bind_res_Ok_iff)
  let ?l = "tbl_put name (i\<lparr>in_phase := InRun c1\<rparr>) l"
  have "thread_step t name l = Ok (?l, o1)"
    using thread_step_found [OF Cons.prems(2)] Cons.prems(3) 1(1) by (simp add: phase_turn_def)
  moreover have "map_of ?l name = Some (i\<lparr>in_phase := InRun c1\<rparr>)" "in_phase (i\<lparr>in_phase := InRun c1\<rparr>) = InRun c1"
    by simp_all
  from Cons.IH [OF 1(2) this] obtain l' where "lib_run (map (\<lambda>t. ThreadTurn t name) ts) ?l = Ok l'"
    "map_of l' = (map_of ?l)(name \<mapsto> i\<lparr>in_phase := InRun c1\<rparr>\<lparr>in_phase := InRun c'\<rparr>)" by blast
  ultimately show ?case by (simp add: fun_eq_iff)
qed

lemma shutdown_winds_up:
  assumes "map_of l name = Some i" and "in_phase i = InRun c"
    and "\<forall>th \<in> set (cl_live c). th = ThStack \<or> th \<in> thread_of ` set ts"
  shows "snd (lib_shutdown name l) \<and>
    (\<exists>l'. lib_run (ShutdownCall name # map (\<lambda>t. ThreadTurn t name) ts @
        [LoopStep E name, ThreadTurn (TStack En now op) name, LoopStep E name, LoopStep E name]) l = Ok l' \<and>
      map_of l' = (map_of l)(name := None))"
proof -
  let ?c = "cl_shutdown c" and ?i = "Instance_exit i"
  have "\<not> cl_running ?c" "\<forall>th \<in> set (cl_live ?c). th = ThStack \<or> th \<in> thread_of ` set ts"
    using assms(3) by (simp_all add: cl_shutdown_def)
  from comes_to_rest [OF this, of En now op] obtain c1 os c2 c3 c4 where
    c: "client_turns ts ?c = Ok (c1, os)" "client_join c1 = Some c2"
      "client_turn (TStack En now op) c2 = Ok (c3, [])" "client_finish c3 = Some c4" by blast
  have i: "in_phase ?i = InRun ?c" "\<not> in_running ?i" using assms(2) by (simp_all add: Instance_exit_def)
  obtain l1 where l1: "lib_run (map (\<lambda>t. ThreadTurn t name) ts) (tbl_put name ?i l) = Ok l1"
    "map_of l1 = (map_of l)(name \<mapsto> ?i\<lparr>in_phase := InRun c1\<rparr>)"
    using lib_run_turns [OF c(1), of "tbl_put name ?i l" name ?i] i(1) by (auto simp: fun_eq_iff)
  have n: "map_of l1 name = Some (?i\<lparr>in_phase := InRun c1\<rparr>)" using l1(2) by simp
  define l2 where "l2 = tbl_put name (?i\<lparr>in_phase := Joined c2\<rparr>) l1"
  define l3 where "l3 = tbl_put name (?i\<lparr>in_phase := Joined c3\<rparr>) l2"
  define l4 where "l4 = tbl_put name (?i\<lparr>in_phase := AtLoop\<rparr>) l3"
  have "loop_step E name l1 = Ok (l2, [])"
    using loop_step_found [OF n] c(2) by (simp add: loop_phase_def l2_def)
  moreover have "thread_step (TStack En now op) name l2 = Ok (l3, [])"
    using c(3) by (simp add: thread_step_def phase_turn_def l2_def l3_def)
  moreover have "loop_step E name l3 = Ok (l4, [])"
    using c(4) by (simp add: loop_step_def loop_phase_def l3_def l4_def)
  moreover have "loop_step E name l4 = Ok (tbl_erase name l4, [])"
    using i(2) by (simp add: loop_step_def try_erase_instance_def l4_def)
  ultimately have "lib_run [LoopStep E name, ThreadTurn (TStack En now op) name, LoopStep E name, LoopStep E name] l1 =
      Ok (tbl_erase name l4)"
    by simp
  moreover have "map_of (tbl_erase name l4) = (map_of l)(name := None)"
    using l1(2) by (simp add: fun_eq_iff l4_def l3_def l2_def)
  ultimately show ?thesis
    using l1(1) by (simp add: shutdown_found [OF assms(1)] lib_run_append)
qed

text \<open>C14: \<open>shutdown\<close> of an instance whose client runs succeeds, and once the threads have noticed
  (one turn each, in any order and with any inputs) and the loop has made its next steps, the id
  is free again, and the other instances are as they were.\<close>

theorem shutdown_ends_the_run:
  assumes "map_of l name = Some i" and "in_phase i = InRun c"
    and "\<forall>th \<in> set (cl_live c). th = ThStack \<or> th \<in> thread_of ` set ts"
  shows "snd (lib_shutdown name l) \<and>
    (\<exists>l'. lib_run (ShutdownCall name # map (\<lambda>t. ThreadTurn t name) ts @
        [LoopStep E name, ThreadTurn (TStack En now op) name, LoopStep E name, LoopStep E name]) l = Ok l' \<and>
      map_of l' = (map_of l)(name := None))"
  using assms by (rule shutdown_winds_up)

text \<open>\<open>shutdown\<close> of an instance whose loop is in its pause of a second says that it succeeded,
  but is lost: the loop makes its client and runs it, and the client works as if nobody had asked
  it to stop. Only the next client would not be made.\<close>

theorem early_shutdown_is_lost:
  assumes "map_of l name = Some i" and "in_phase i = Asleep"
    and "configure_client (le_json E) (le_poco E) (in_config i) (Client_new (le_junk E)) = Ok c0"
    and "client_start (le_start E') c0 = Ok (c, os, True)" and "cl_userspaceStack c0 \<longrightarrow> se_netif (le_start E')"
  shows "snd (lib_shutdown name l) \<and> cl_running c \<and>
    (\<exists>l'. lib_run [ShutdownCall name, LoopStep E name, LoopStep E' name] l = Ok l' \<and>
      map_of l' name = Some (i\<lparr>in_running := False, in_phase := InRun c\<rparr>))"
proof -
  let ?i = "Instance_exit i"
  have i: "?i = i\<lparr>in_running := False\<rparr>" using assms(2) by (simp add: Instance_exit_def)
  have "loop_step E name (tbl_put name ?i l) = Ok (tbl_put name (?i\<lparr>in_phase := Built c0\<rparr>) (tbl_put name ?i l), [])"
    using assms(2,3) i by (simp add: loop_step_def loop_phase_def)
  moreover have "loop_step E' name (tbl_put name (?i\<lparr>in_phase := Built c0\<rparr>) l1) =
      Ok (tbl_put name (?i\<lparr>in_phase := InRun c\<rparr>) (tbl_put name (?i\<lparr>in_phase := Built c0\<rparr>) l1), os)" for l1
    using assms(4) by (simp add: loop_step_def loop_phase_def)
  ultimately show ?thesis
    using started_client_runs [OF assms(4,5)] by (simp add: shutdown_found [OF assms(1)] i)
qed

section \<open>An instance written out\<close>

definition demo_config :: json where
  "demo_config =
     json_client (arguments_new\<lparr>ag_mode := str ''client'', ag_websocket := str ''ws://s'', ag_name := str ''lan'',
       ag_tun := str ''10.0.0.1/24'', ag_localhost := str ''192.168.1.2'', ag_p2pOnly := True\<rparr>)
       (str ''0123456789abcdef'') (str ''0.0.0.0/0'')"

definition demo_loop_env :: loop_env where
  "demo_loop_env = \<lparr>le_json = strict_json, le_poco = demo_uri_poco, le_junk = 7, le_start = demo_start\<rparr>"

lemma demo_config_typed: "config_typed strict_json demo_uri_poco demo_config"
  by code_simp

lemma demo_config_values:
  "config_text strict_json demo_config ''tun'' = str ''10.0.0.1/24''" "config_text strict_json demo_config ''stun'' = []"
  "config_flag strict_json demo_config ''userspace-stack'' = False" "config_flag strict_json demo_config ''p2p-only'' = True"
  by code_simp+

text \<open>The states after the first two, three and four steps.\<close>

definition demo_asleep :: library where
  "demo_asleep = [(str ''a'', \<lparr>in_running = True, in_config = demo_config, in_phase = Asleep\<rparr>)]"

lemma demo_event: "event_of strict_json C (LoopStep demo_loop_env name)"
  by (simp add: demo_loop_env_def)

lemma demo_asleep_reach: "lib_reach strict_json C demo_asleep"
proof -
  let ?l = "[(str ''a'', \<lparr>in_running = True, in_config = demo_config, in_phase = AtLoop\<rparr>)]"
  have "lib_step (RunCall (str ''a'') demo_config) [] = Ok ?l"
    by (simp add: try_create_instance_def tbl_put_def)
  then have "lib_reach strict_json C ?l" by (rule lib_reach.step [OF lib_reach.empty, rotated]) simp
  moreover have "lib_step (LoopStep demo_loop_env (str ''a'')) ?l = Ok demo_asleep"
    by (simp add: loop_step_def loop_phase_def tbl_put_def demo_asleep_def)
  ultimately show ?thesis by (rule lib_reach.step [OF _ demo_event])
qed

lemma demo_built:
  obtains c0 where "configure_client strict_json demo_uri_poco demo_config (Client_new 7) = Ok c0"
    "follows strict_json demo_uri_poco demo_config c0"
  using configure_typed [OF demo_config_typed, of 7] by blast

lemma demo_in_run:
  obtains c0 c os where "configure_client strict_json demo_uri_poco demo_config (Client_new 7) = Ok c0"
    "client_start demo_start c0 = Ok (c, os, True)" "\<not> cl_userspaceStack c0"
    "lib_reach strict_json C [(str ''a'', \<lparr>in_running = True, in_config = demo_config, in_phase = InRun c\<rparr>)]"
proof -
  obtain c0 where c0: "configure_client strict_json demo_uri_poco demo_config (Client_new 7) = Ok c0"
    "follows strict_json demo_uri_poco demo_config c0" by (rule demo_built)
  then have k: "tunCidr (cl_ws c0) = str ''10.0.0.1/24''" "\<not> cl_userspaceStack c0" "st_uri (pm_stun (cl_peers c0)) = []"
    using demo_config_values by (simp_all add: follows_def)
  obtain c os where s: "client_start demo_start c0 = Ok (c, os, True)" using static_client_starts [OF k] by blast
  let ?b = "[(str ''a'', \<lparr>in_running = True, in_config = demo_config, in_phase = Built c0\<rparr>)]"
  let ?r = "[(str ''a'', \<lparr>in_running = True, in_config = demo_config, in_phase = InRun c\<rparr>)]"
  have "lib_step (LoopStep demo_loop_env (str ''a'')) demo_asleep = Ok ?b"
    using c0(1) by (simp add: loop_step_def loop_phase_def tbl_put_def demo_asleep_def demo_loop_env_def)
  then have "lib_reach strict_json C ?b" by (rule lib_reach.step [OF demo_asleep_reach demo_event])
  moreover have "lib_step (LoopStep demo_loop_env (str ''a'')) ?b = Ok ?r"
    using s by (simp add: loop_step_def loop_phase_def tbl_put_def demo_loop_env_def)
  ultimately have "lib_reach strict_json C ?r" by (rule lib_reach.step [OF _ demo_event])
  then show ?thesis using that c0(1) s k(2) by blast
qed


theorem p2p_only_instance_witness:
  "\<exists>l' os. loop_step demo_loop_env (str ''a'') demo_asleep = Ok (l', os) \<and> \<not> list_ex carries_packet os"
proof -
  obtain c0 where "configure_client strict_json demo_uri_poco demo_config (Client_new 7) = Ok c0" by (rule demo_built)
  then obtain l' os where l: "loop_step demo_loop_env (str ''a'') demo_asleep = Ok (l', os)"
    by (simp add: loop_step_def loop_phase_def demo_asleep_def demo_loop_env_def)
  show ?thesis
    using p2p_only_instance [OF demo_asleep_reach, of "str ''a''" _ demo_loop_env l' os] l demo_config_values(4)
    by (simp add: demo_asleep_def)
qed

theorem shutdown_ends_the_run_witness:
  "\<exists>c ts l'. lib_run (ShutdownCall (str ''a'') # map (\<lambda>t. ThreadTurn t (str ''a'')) ts @
      [LoopStep demo_loop_env (str ''a''), ThreadTurn (TStack demo_ns_env 0 NsIdle) (str ''a''),
       LoopStep demo_loop_env (str ''a''), LoopStep demo_loop_env (str ''a'')])
     [(str ''a'', \<lparr>in_running = True, in_config = demo_config, in_phase = InRun c\<rparr>)] = Ok l' \<and>
   map_of l' (str ''a'') = None"
proof -
  obtain c where c: "lib_reach strict_json toy_crypto [(str ''a'', \<lparr>in_running = True, in_config = demo_config, in_phase = InRun c\<rparr>)]"
    by (rule demo_in_run)
  let ?l = "[(str ''a'', \<lparr>in_running = True, in_config = demo_config, in_phase = InRun c\<rparr>)]"
  let ?ts = "[TWsMsg demo_ws_env, TWs demo_ws_env PollError, TTunMsg demo_tun_env, TTunDev demo_tun_env None,
    TPeerMsg (demo_env_pm True), TPeerTick (demo_env_pm True), TPeerPoll (demo_env_pm True) NoDatagram, TStackMsg demo_ns_env 0]"
  have "th = ThStack \<or> th \<in> thread_of ` set ?ts" for th by (cases th) simp_all
  then have "\<forall>th \<in> set (cl_live c). th = ThStack \<or> th \<in> thread_of ` set ?ts" by blast
  then obtain l' where "lib_run (ShutdownCall (str ''a'') # map (\<lambda>t. ThreadTurn t (str ''a'')) ?ts @
      [LoopStep demo_loop_env (str ''a''), ThreadTurn (TStack demo_ns_env 0 NsIdle) (str ''a''),
       LoopStep demo_loop_env (str ''a''), LoopStep demo_loop_env (str ''a'')]) ?l = Ok l'"
    "map_of l' = (map_of ?l)(str ''a'' := None)"
    using shutdown_ends_the_run [of ?l "str ''a''" _ c ?ts demo_loop_env demo_ns_env 0 NsIdle] by auto
  then show ?thesis by (intro exI conjI) (assumption, simp)
qed

theorem early_shutdown_is_lost_witness:
  "\<exists>c l'. lib_run [ShutdownCall (str ''a''), LoopStep demo_loop_env (str ''a''), LoopStep demo_loop_env (str ''a'')]
     demo_asleep = Ok l' \<and>
   map_of l' (str ''a'') = Some \<lparr>in_running = False, in_config = demo_config, in_phase = InRun c\<rparr> \<and> cl_running c"
proof -
  obtain c0 c os where c: "configure_client strict_json demo_uri_poco demo_config (Client_new 7) = Ok c0"
    "client_start demo_start c0 = Ok (c, os, True)" "\<not> cl_userspaceStack c0" by (rule demo_in_run)
  show ?thesis
    using early_shutdown_is_lost [of demo_asleep "str ''a''" _ demo_loop_env c0 demo_loop_env c os] c
    by (auto simp: demo_asleep_def demo_loop_env_def)
qed

end
