(* ===== verification/Program.thy ===== *)
theory Program
  imports Instances
begin

text \<open>
  \<^verbatim>\<open>candy-cli/src/main.cc\<close>: the command line program. It reads its settings, then runs the library
  as a client under the id \<^verbatim>\<open>cli\<close>, while a thread of its own asks for the client's status every
  second until it can save the address on disk, or as a server. The signal handlers call the
  library's \<^verbatim>\<open>shutdown\<close>. Here the parts meet: what the user wrote, what the client is told, and
  what a later start finds.
\<close>

datatype program = Exits int | Aborts | RunsClient json disk | RunsServer json disk

definition cli_main ::
  "json_lib \<Rightarrow> text_lib \<Rightarrow> (bytes \<Rightarrow> bytes option) \<Rightarrow> command_line \<Rightarrow> (nat \<Rightarrow> nat) \<Rightarrow> disk \<Rightarrow> program" where
  "cli_main J T files cl random d =
     (case arguments_parse T files cl arguments_new of
        Inl code \<Rightarrow> Exits code
      | Inr args \<Rightarrow>
          let (config, d') = arguments_json random args d
          in (case getValue (js_string J) config ''mode'' of
                Ok mode \<Rightarrow>
                  if mode = str ''client'' then RunsClient config d'
                  else if mode = str ''server'' then RunsServer config d'
                  else Exits (-1)
              | _ \<Rightarrow> Aborts))"

definition cli_id :: bytes where "cli_id = str ''cli''"

text \<open>One round of the thread that saves the address; \<open>True\<close> when it is done.\<close>

definition cli_poll :: "json_lib \<Rightarrow> json \<Rightarrow> library \<Rightarrow> disk \<Rightarrow> (disk \<times> bool) res" where
  "cli_poll J config l d =
     (case lib_status cli_id l of
        None \<Rightarrow> Ok (d, False)
      | Some status \<Rightarrow>
          if map_of status (str ''address'') = None then Ok (d, False)
          else bind_res (getValue (js_string J) status ''address'') (\<lambda>address.
                 if address \<noteq> []
                 then bind_res (getValue (js_string J) config ''name'') (\<lambda>name.
                        Ok (fst (saveTunAddress name address d), True))
                 else Ok (d, False)))"

section \<open>From the configuration file to the client\<close>

lemma cli_main_client:
  assumes "json_ok J" and "cli_main J T files (Options c) random d = RunsClient config d'"
  shows "\<exists>a. a = set_all_used c (settings_of (file_says T files c) arguments_new) \<and> ag_mode a = str ''client'' \<and>
    arguments_json random a d = (config, d')"
proof -
  obtain a where a: "arguments_parse T files (Options c) arguments_new = Inr a"
    using assms(2) by (auto simp: cli_main_def split: sum.splits)
  then have e: "a = set_all_used c (settings_of (file_says T files c) arguments_new)"
    by (simp add: arguments_parse_def file_read Let_def split: if_splits)
  obtain j d1 where j: "arguments_json random a d = (j, d1)" by fastforce
  have m: "getValue (js_string J) j ''mode'' = Ok (ag_mode a)"
    using j assms(1) by (auto simp: arguments_json_def getValue_def json_ok_def Let_def split: if_splits prod.splits)
  then have "config = j" "d' = d1" "ag_mode a = str ''client''"
    using assms(2) by (auto simp: cli_main_def a j split: if_splits)
  then show ?thesis using e j by blast
qed


definition demo_options :: cli_options where
  "demo_options = \<lparr>co_config = Some (str ''candy.cfg''), co_mode = None, co_websocket = None, co_password = None,
     co_noTimestamp = None, co_debug = None, co_dhcp = None, co_sdwan = None, co_name = None, co_tun = None,
     co_stun = None, co_localhost = Some (str ''192.168.1.2''), co_port = None, co_mtu = Some 1300, co_discovery = None,
     co_route = None, co_p2pOnly = None, co_userspaceStack = None, co_udpPortConvergence = None\<rparr>"

definition demo_files :: "bytes \<Rightarrow> bytes option" where
  "demo_files p =
     Some (str ''mode = \"client\"'' @ [10] @ str ''websocket = ws://s'' @ [10] @ str ''p2p-only = true'' @ [10] @
       str ''mtu = 1200'')"

definition demo_program :: "json \<times> disk" where
  "demo_program =
     (case cli_main strict_json plain_text demo_files (Options demo_options) (\<lambda>_. 3) empty_disk of
        RunsClient j d \<Rightarrow> (j, d) | _ \<Rightarrow> ([], empty_disk))"

lemma demo_program_runs:
  "case cli_main strict_json plain_text demo_files (Options demo_options) (\<lambda>_. 3) empty_disk of
     RunsClient j d \<Rightarrow> True | _ \<Rightarrow> False"
  by code_simp


section \<open>From one run to the next\<close>

text \<open>Once the client of a run has an address, the next round of the saving thread writes it to
  disk; the client of a later run with the same settings asks the server for exactly this address and
  presents the same virtual MAC, so that the server's check that an address is asked for
  by its holder can succeed.\<close>

theorem address_is_asked_for_again:
  assumes "json_ok J" and "ag_mode a = str ''client''" and "ip_parse P (ag_localhost a) = Some ip"
    and "\<And>p. dk_mkdir d p \<and> dk_open d p"
    and "arguments_json random a d = (config, d1)"
    and "map_of l cli_id = Some i" and "lock_client (in_phase i) = Some c" and "cl_getTunCidr c \<noteq> []"
  shows "\<exists>d2 c'. cli_poll J config l d1 = Ok (d2, True) \<and>
    configure_client J P (fst (arguments_json random' a d2)) (Client_new junk) = Ok c' \<and>
    exptTunCidr (cl_ws c') = cl_getTunCidr c \<and> wc_vmac (cl_ws c') = config_text J config ''vmac'' \<and>
    length (wc_vmac (cl_ws c')) = VMAC_SIZE"
proof -
  have n: "getValue (js_string J) config ''name'' = Ok (ag_name a)"
    using assms(1,2,5) by (auto simp: arguments_json_client json_client_def getValue_def inj_str json_ok_def)
  have "lib_status cli_id l = Some [(str ''address'', JString (cl_getTunCidr c))]"
    using assms(6,7) by (simp add: lib_status_def Instance_status_def)
  then have p: "cli_poll J config l d1 = Ok (fst (saveTunAddress (ag_name a) (cl_getTunCidr c) d1), True)"
    using n assms(1,8) by (simp add: cli_poll_def getValue_def json_ok_def)
  obtain d2 r where s: "saveTunAddress (ag_name a) (cl_getTunCidr c) d1 = (d2, r)" by fastforce
  obtain j2 d3 where j: "arguments_json random' a d2 = (j2, d3)" by fastforce
  note id = identity_survives_restart [OF assms(2,4,5) s j]
  have "config_typed J P j2" using command_line_typed(1) [OF assms(1-3), of random' d2] j by simp
  then obtain c' where c': "configure_client J P j2 (Client_new junk) = Ok c'" "follows J P j2 c'"
    using configure_typed by blast
  have "exptTunCidr (cl_ws c') = cl_getTunCidr c" "wc_vmac (cl_ws c') = config_text J config ''vmac''"
    "length (wc_vmac (cl_ws c')) = VMAC_SIZE"
    using c'(2) id assms(1) by (auto simp: follows_def config_text_def getValue_def json_ok_def)
  then show ?thesis using p s j c'(1) by auto
qed

definition demo_args :: arguments where
  "demo_args = arguments_new\<lparr>ag_mode := str ''client'', ag_websocket := str ''ws://s'', ag_localhost := str ''192.168.1.2''\<rparr>"

definition demo_cli :: library where
  "demo_cli = [(cli_id, \<lparr>in_running = True, in_config = [],
     in_phase = InRun (cl_setTunAddress (str ''10.0.0.9/24'') (Client_new 0))\<rparr>)]"

theorem address_is_asked_for_again_witness:
  "\<exists>d2 c'. cli_poll strict_json (fst (arguments_json (\<lambda>_. 3) demo_args empty_disk)) demo_cli
       (snd (arguments_json (\<lambda>_. 3) demo_args empty_disk)) = Ok (d2, True) \<and>
     configure_client strict_json dotted_poco (fst (arguments_json (\<lambda>_. 11) demo_args d2)) (Client_new 0) = Ok c' \<and>
     exptTunCidr (cl_ws c') = str ''10.0.0.9/24''"
proof -
  let ?c = "cl_setTunAddress (str ''10.0.0.9/24'') (Client_new 0)"
  have c: "cl_getTunCidr ?c = str ''10.0.0.9/24''" "str ''10.0.0.9/24'' \<noteq> []"
    by (simp_all add: cl_getTunCidr_def cl_setTunAddress_def wsc_setAddress_def str_def)
  have a: "ag_mode demo_args = str ''client''" by (simp add: demo_args_def)
  have ip: "ip_parse dotted_poco (ag_localhost demo_args) = Some (IP4 192 168 1 2)" by code_simp
  have d: "\<And>p. dk_mkdir empty_disk p \<and> dk_open empty_disk p" by (simp add: empty_disk_def)
  let ?i = "\<lparr>in_running = True, in_config = [], in_phase = InRun ?c\<rparr>"
  have l: "map_of demo_cli cli_id = Some ?i" "lock_client (in_phase ?i) = Some ?c" by (simp_all add: demo_cli_def)
  have "cl_getTunCidr ?c \<noteq> []" using c by simp
  from address_is_asked_for_again [OF strict_json_ok a ip d surjective_pairing l this, of "\<lambda>_. 3" "\<lambda>_. 11" 0]
  show ?thesis unfolding c(1) by blast
qed

end
