(* ===== verification/ArgParse.thy ===== *)
theory ArgParse
  imports Net
begin

text \<open>
  The part of the option parser (\<^verbatim>\<open>candy-cli/src/argparse.h\<close>) that \<^verbatim>\<open>candy-cli\<close> uses: named
  options with one value or none, defaults, implicit values, integers. An \<^verbatim>\<open>std::any\<close> is a
  datatype of the types the program stores. Help texts, groups, positional arguments,
  subcommands and choices are not used by the program and left out; a command line that
  contains a positional argument is rejected, as with a parser that declares none.
\<close>

section \<open>Results\<close>

text \<open>
  A value, an exception, the end of the process with its exit code; \<open>BeyondArgv\<close>: an empty argument
  vector, whose second element is read.
\<close>

datatype 'a parsed = Parsed 'a | Raised | Exited int | BeyondArgv

section \<open>Numbers\<close>

text \<open>
  \<^verbatim>\<open>std::from_chars\<close> for an \<^verbatim>\<open>int\<close>, where the whole text has to match: a minus sign or none, digits
  of the base in either case, no white space. \<open>None\<close>: an exception.
\<close>

definition digit_value :: "u8 \<Rightarrow> nat" where
  "digit_value c =
     (if 48 \<le> c \<and> c \<le> 57 then unat c - 48
      else if 97 \<le> c \<and> c \<le> 122 then unat c - 87
      else if 65 \<le> c \<and> c \<le> 90 then unat c - 55
      else 255)"

fun base_val :: "nat \<Rightarrow> nat \<Rightarrow> bytes \<Rightarrow> nat" where
  "base_val base acc [] = acc"
| "base_val base acc (c # cs) = base_val base (base * acc + digit_value c) cs"

definition do_from_chars :: "nat \<Rightarrow> bytes \<Rightarrow> int option" where
  "do_from_chars base s =
     (let neg = (s \<noteq> [] \<and> hd s = 45);
          u = (if neg then tl s else s);
          ds = takeWhile (\<lambda>c. digit_value c < base) u;
          v = (if neg then - int (base_val base 0 ds) else int (base_val base 0 ds))
      in if ds = [] then None
         else if v < - (2 ^ 31) \<or> v > 2 ^ 31 - 1 then None
         else if length ds < length u then None
         else Some v)"

definition starts_with :: "bytes \<Rightarrow> bytes \<Rightarrow> bool" where
  "starts_with prefix s \<longleftrightarrow> take (length prefix) s = prefix"

definition consume_binary_prefix :: "bytes \<Rightarrow> bool \<times> bytes" where
  "consume_binary_prefix s =
     (if starts_with (str ''0b'') s \<or> starts_with (str ''0B'') s then (True, drop 2 s) else (False, s))"

definition consume_hex_prefix :: "bytes \<Rightarrow> bool \<times> bytes" where
  "consume_hex_prefix s =
     (if starts_with (str ''0x'') s \<or> starts_with (str ''0X'') s then (True, drop 2 s) else (False, s))"

text \<open>The shape \<^verbatim>\<open>'i'\<close>: the base is told by the prefix, as in a C program.\<close>

definition parse_number :: "bytes \<Rightarrow> int option" where
  "parse_number s =
     (let (ok, rest) = consume_hex_prefix s; (ok_binary, rest_binary) = consume_binary_prefix s
      in if ok then do_from_chars 16 rest
         else if ok_binary then do_from_chars 2 rest_binary
         else if starts_with (str ''0'') s then do_from_chars 8 rest
         else do_from_chars 10 rest)"

section \<open>Options and values\<close>

definition consume_digits :: "bytes \<Rightarrow> bytes" where
  "consume_digits s = dropWhile is_digit s"

definition starts_digit :: "bytes \<Rightarrow> bool" where
  "starts_digit s \<longleftrightarrow> (case s of [] \<Rightarrow> False | c # _ \<Rightarrow> is_digit c)"

text \<open>\<^verbatim>\<open>is_decimal_literal\<close>: one definition per label.\<close>

definition post_e :: "bytes \<Rightarrow> bool" where
  "post_e s =
     (let t = (case s of c # cs \<Rightarrow> if c = 45 \<or> c = 43 then cs else s | [] \<Rightarrow> s)
      in if starts_digit t then consume_digits t = [] else False)"

definition exponent_part_opt :: "bytes \<Rightarrow> bool" where
  "exponent_part_opt s = (case s of [] \<Rightarrow> True | c # cs \<Rightarrow> if c = 101 \<or> c = 69 then post_e cs else False)"

definition post_decimal_point :: "bytes \<Rightarrow> bool" where
  "post_decimal_point s = (if starts_digit s then exponent_part_opt (consume_digits s) else False)"

definition integer_part_consumed :: "bytes \<Rightarrow> bool" where
  "integer_part_consumed s =
     (case s of
        [] \<Rightarrow> False
      | c # cs \<Rightarrow>
          if c = 46 then (if starts_digit cs then post_decimal_point cs else exponent_part_opt cs)
          else if c = 101 \<or> c = 69 then post_e cs
          else False)"

definition is_decimal_literal :: "bytes \<Rightarrow> bool" where
  "is_decimal_literal s =
     (case s of
        [] \<Rightarrow> False
      | c # cs \<Rightarrow>
          if c = 48 then (if cs = [] then True else integer_part_consumed (consume_digits cs))
          else if is_digit c then (let t = consume_digits s in if t = [] then True else integer_part_consumed t)
          else if c = 46 then post_decimal_point cs
          else False)"

definition is_positional :: "bytes \<Rightarrow> bool" where
  "is_positional name =
     (case name of [] \<Rightarrow> True | c # cs \<Rightarrow> if c = 45 then (if cs = [] then True else is_decimal_literal cs) else True)"

section \<open>An option\<close>

datatype any = AStr bytes | AInt int | ABool bool

datatype action = Store | ScanInt | PrintAndExit

record Argument =
  m_names :: "bytes list"
  m_default_value :: "any option"
  m_implicit_value :: "any option"
  m_action :: action
  m_values :: "any list"
  m_min :: nat
  m_max :: nat
  m_is_required :: bool
  m_is_repeatable :: bool
  m_is_used :: bool

definition Argument_new :: "bytes list \<Rightarrow> Argument" where
  "Argument_new names = \<lparr>m_names = names, m_default_value = None, m_implicit_value = None, m_action = Store,
     m_values = [], m_min = 1, m_max = 1, m_is_required = False, m_is_repeatable = False, m_is_used = False\<rparr>"

definition default_value :: "any \<Rightarrow> Argument \<Rightarrow> Argument" where
  "default_value v a = a\<lparr>m_min := 0, m_default_value := Some v\<rparr>"

definition implicit_value :: "any \<Rightarrow> Argument \<Rightarrow> Argument" where
  "implicit_value v a = a\<lparr>m_implicit_value := Some v, m_min := 0, m_max := 0\<rparr>"

definition set_action :: "action \<Rightarrow> Argument \<Rightarrow> Argument" where
  "set_action f a = a\<lparr>m_action := f\<rparr>"

definition scan_int :: "Argument \<Rightarrow> Argument" where
  "scan_int a = set_action ScanInt a"

definition nargs :: "nat \<Rightarrow> Argument \<Rightarrow> Argument" where
  "nargs n a = a\<lparr>m_min := n, m_max := n\<rparr>"

text \<open>The value an action makes of a text.\<close>

fun run_action :: "action \<Rightarrow> bytes \<Rightarrow> any parsed" where
  "run_action Store s = Parsed (AStr s)"
| "run_action ScanInt s = (case parse_number s of None \<Rightarrow> Raised | Some i \<Rightarrow> Parsed (AInt i))"
| "run_action PrintAndExit s = Exited 0"

fun run_actions :: "action \<Rightarrow> bytes list \<Rightarrow> any list parsed" where
  "run_actions f [] = Parsed []"
| "run_actions f (s # ss) =
     (case run_action f s of
        Parsed v \<Rightarrow> (case run_actions f ss of Parsed vs \<Rightarrow> Parsed (v # vs) | Raised \<Rightarrow> Raised | Exited c \<Rightarrow> Exited c
          | BeyondArgv \<Rightarrow> BeyondArgv)
      | Raised \<Rightarrow> Raised | Exited c \<Rightarrow> Exited c | BeyondArgv \<Rightarrow> BeyondArgv)"

text \<open>
  \<^verbatim>\<open>consume\<close>: takes values from the front of the remaining arguments, which it returns. An option
  without a value runs its action on the empty text; its result is dropped.
\<close>

definition consume :: "Argument \<Rightarrow> bytes list \<Rightarrow> (Argument \<times> bytes list) parsed" where
  "consume a args =
     (if \<not> m_is_repeatable a \<and> m_is_used a then Raised
      else if m_max a = 0 then
        (case run_action (m_action a) [] of
           Parsed _ \<Rightarrow> Parsed (a\<lparr>m_values := m_values a @ (case m_implicit_value a of None \<Rightarrow> [] | Some v \<Rightarrow> [v]),
             m_is_used := True\<rparr>, args)
         | Raised \<Rightarrow> Raised | Exited c \<Rightarrow> Exited c | BeyondArgv \<Rightarrow> BeyondArgv)
      else if m_min a \<le> length args then
        (let vals = takeWhile is_positional (take (m_max a) args)
         in if length vals < m_min a then Raised
            else (case run_actions (m_action a) vals of
                    Parsed vs \<Rightarrow> Parsed (a\<lparr>m_values := m_values a @ vs, m_is_used := True\<rparr>, drop (length vals) args)
                  | Raised \<Rightarrow> Raised | Exited c \<Rightarrow> Exited c | BeyondArgv \<Rightarrow> BeyondArgv))
      else if m_default_value a \<noteq> None then Parsed (a\<lparr>m_is_used := True\<rparr>, args)
      else Raised)"

definition validate :: "Argument \<Rightarrow> bool" where
  "validate a \<longleftrightarrow>
     \<not> (\<not> m_is_used a \<and> m_default_value a = None \<and> m_is_required a) \<and>
     \<not> (m_is_used a \<and> m_is_required a \<and> m_values a = [])"

section \<open>The parser\<close>

text \<open>The map of names leads to positions in the list of options.\<close>

record ArgumentParser =
  m_optional_arguments :: "Argument list"
  m_argument_map :: "(bytes, nat) table"

definition add_argument :: "Argument \<Rightarrow> ArgumentParser \<Rightarrow> ArgumentParser" where
  "add_argument a p =
     (let i = length (m_optional_arguments p)
      in \<lparr>m_optional_arguments = m_optional_arguments p @ [a],
          m_argument_map = fold (\<lambda>n. tbl_put n i) (m_names a) (m_argument_map p)\<rparr>)"

definition ArgumentParser_new :: ArgumentParser where
  "ArgumentParser_new =
     (let shown = (\<lambda>names. nargs 0 (implicit_value (ABool True) (default_value (ABool False)
            (set_action PrintAndExit (Argument_new names)))))
      in add_argument (shown [str ''-v'', str ''--version''])
          (add_argument (shown [str ''-h'', str ''--help'']) \<lparr>m_optional_arguments = [], m_argument_map = []\<rparr>))"

text \<open>\<^verbatim>\<open>--name=value\<close> becomes two arguments when \<^verbatim>\<open>--name\<close> is an option.\<close>

definition preprocess_argument :: "(bytes, nat) table \<Rightarrow> bytes \<Rightarrow> bytes list" where
  "preprocess_argument names arg =
     (case find_byte 61 arg of
        Some pos \<Rightarrow>
          if map_of names arg = None \<and> 1 < length arg \<and> arg ! 0 = 45 \<and> arg ! 1 = 45 \<and> map_of names (take pos arg) \<noteq> None
          then [take pos arg, drop (pos + 1) arg] else [arg]
      | None \<Rightarrow> [arg])"

definition preprocess_arguments :: "ArgumentParser \<Rightarrow> bytes list \<Rightarrow> bytes list" where
  "preprocess_arguments p raw_arguments = concat (map (preprocess_argument (m_argument_map p)) raw_arguments)"

definition consume_at :: "nat \<Rightarrow> bytes list \<Rightarrow> ArgumentParser \<Rightarrow> (ArgumentParser \<times> bytes list) parsed" where
  "consume_at i args p =
     (case consume (m_optional_arguments p ! i) args of
        Parsed (a, rest) \<Rightarrow> Parsed (p\<lparr>m_optional_arguments := (m_optional_arguments p)[i := a]\<rparr>, rest)
      | Raised \<Rightarrow> Raised | Exited c \<Rightarrow> Exited c | BeyondArgv \<Rightarrow> BeyondArgv)"

text \<open>The letters of a single-dash argument, one option each.\<close>

fun compound :: "bytes \<Rightarrow> bytes list \<Rightarrow> ArgumentParser \<Rightarrow> (ArgumentParser \<times> bytes list) parsed" where
  "compound [] args p = Parsed (p, args)"
| "compound (c # cs) args p =
     (case map_of (m_argument_map p) [45, c] of
        None \<Rightarrow> Raised
      | Some i \<Rightarrow>
          (case consume_at i args p of
             Parsed (p', rest) \<Rightarrow> compound cs rest p'
           | Raised \<Rightarrow> Raised | Exited c \<Rightarrow> Exited c | BeyondArgv \<Rightarrow> BeyondArgv))"

lemma consume_length: "consume a args = Parsed (a', rest) \<Longrightarrow> length rest \<le> length args"
  by (auto simp: consume_def Let_def split: if_splits parsed.splits)

lemma consume_at_length: "consume_at i args p = Parsed (p', rest) \<Longrightarrow> length rest \<le> length args"
  using consume_length by (auto simp: consume_at_def split: parsed.splits prod.splits)

lemma compound_length: "compound cs args p = Parsed (p', rest) \<Longrightarrow> length rest \<le> length args"
proof (induction cs args p rule: compound.induct)
  case (2 c cs args p)
  then show ?case using consume_at_length by (fastforce split: option.splits parsed.splits prod.splits)
qed simp

function parse_loop :: "bytes list \<Rightarrow> ArgumentParser \<Rightarrow> ArgumentParser parsed" where
  "parse_loop [] p = Parsed p"
| "parse_loop (arg # args) p =
     (if is_positional arg then Raised
      else case map_of (m_argument_map p) arg of
        Some i \<Rightarrow>
          (case consume_at i args p of
             Parsed (p', rest) \<Rightarrow> parse_loop rest p'
           | Raised \<Rightarrow> Raised | Exited c \<Rightarrow> Exited c | BeyondArgv \<Rightarrow> BeyondArgv)
      | None \<Rightarrow>
          if 1 < length arg \<and> arg ! 0 = 45 \<and> arg ! 1 \<noteq> 45 then
            (case compound (tl arg) args p of
               Parsed (p', rest) \<Rightarrow> parse_loop rest p'
             | Raised \<Rightarrow> Raised | Exited c \<Rightarrow> Exited c | BeyondArgv \<Rightarrow> BeyondArgv)
          else Raised)"
  by pat_completeness auto
termination
  by (relation "measure (\<lambda>(args, p). length args)") (auto dest: consume_at_length compound_length)

definition parse_args :: "bytes list \<Rightarrow> ArgumentParser \<Rightarrow> ArgumentParser parsed" where
  "parse_args raw_arguments p =
     (case preprocess_arguments p raw_arguments of
        [] \<Rightarrow> BeyondArgv
      | _ # args \<Rightarrow>
          (case parse_loop args p of
             Parsed p' \<Rightarrow> if list_all validate (m_optional_arguments p') then Parsed p' else Raised
           | Raised \<Rightarrow> Raised | Exited c \<Rightarrow> Exited c | BeyondArgv \<Rightarrow> BeyondArgv))"

section \<open>Reading the options\<close>

definition option_at :: "ArgumentParser \<Rightarrow> bytes \<Rightarrow> Argument option" where
  "option_at p name =
     (case map_of (m_argument_map p) name of
        Some i \<Rightarrow> Some (m_optional_arguments p ! i)
      | None \<Rightarrow>
          if name \<noteq> [] \<and> hd name \<noteq> 45 then
            (case map_of (m_argument_map p) (45 # name) of
               Some i \<Rightarrow> Some (m_optional_arguments p ! i)
             | None \<Rightarrow> map_option ((!) (m_optional_arguments p)) (map_of (m_argument_map p) (45 # 45 # name)))
          else None)"

definition option_value :: "Argument \<Rightarrow> any option" where
  "option_value a = (if m_values a \<noteq> [] then Some (hd (m_values a)) else m_default_value a)"

text \<open>
  \<^verbatim>\<open>set_if_used\<close>: nothing when the option was not used; \<open>Raised\<close> for an unknown name, a value that is missing
  or of another type.
\<close>

definition get_if_used :: "(any \<Rightarrow> 'a option) \<Rightarrow> ArgumentParser \<Rightarrow> bytes \<Rightarrow> 'a option parsed" where
  "get_if_used cast p name =
     (case option_at p name of
        None \<Rightarrow> Raised
      | Some a \<Rightarrow>
          if \<not> m_is_used a then Parsed None
          else (case option_value a of
                  None \<Rightarrow> Raised
                | Some v \<Rightarrow> (case cast v of None \<Rightarrow> Raised | Some x \<Rightarrow> Parsed (Some x))))"

fun as_str :: "any \<Rightarrow> bytes option" where "as_str (AStr s) = Some s" | "as_str _ = None"
fun as_int :: "any \<Rightarrow> int option" where "as_int (AInt i) = Some i" | "as_int _ = None"
fun as_bool :: "any \<Rightarrow> bool option" where "as_bool (ABool b) = Some b" | "as_bool _ = None"

section \<open>Decimal literals\<close>

text \<open>The grammar in the comment of \<^verbatim>\<open>is_decimal_literal\<close>.\<close>

definition digit_sequence :: "bytes \<Rightarrow> bool" where
  "digit_sequence s \<longleftrightarrow> s \<noteq> [] \<and> list_all is_digit s"

inductive exponent_part :: "bytes \<Rightarrow> bool" where
  unsigned: "digit_sequence ds \<Longrightarrow> c \<in> {101, 69} \<Longrightarrow> exponent_part (c # ds)"
| signed: "digit_sequence ds \<Longrightarrow> c \<in> {101, 69} \<Longrightarrow> s \<in> {45, 43} \<Longrightarrow> exponent_part (c # s # ds)"

inductive fractional_part :: "bytes \<Rightarrow> bool" where
  digits: "digit_sequence ds \<Longrightarrow> fractional_part (46 # ds)"
| exponent: "digit_sequence ds \<Longrightarrow> exponent_part e \<Longrightarrow> fractional_part (46 # ds @ e)"

inductive decimal_literal :: "bytes \<Rightarrow> bool" where
  zero: "decimal_literal [48]"
| nonzero: "is_digit c \<Longrightarrow> c \<noteq> 48 \<Longrightarrow> list_all is_digit ds \<Longrightarrow> decimal_literal (c # ds)"
| fraction: "fractional_part f \<Longrightarrow> decimal_literal f"
| both: "digit_sequence ds \<Longrightarrow> fractional_part f \<Longrightarrow> decimal_literal (ds @ f)"
| point: "digit_sequence ds \<Longrightarrow> decimal_literal (ds @ [46])"
| point_exponent: "digit_sequence ds \<Longrightarrow> exponent_part e \<Longrightarrow> decimal_literal (ds @ 46 # e)"
| exponent: "digit_sequence ds \<Longrightarrow> exponent_part e \<Longrightarrow> decimal_literal (ds @ e)"

definition stops :: "bytes \<Rightarrow> bool" where
  "stops s \<longleftrightarrow> \<not> starts_digit s"

lemma stops_dropWhile: "stops (dropWhile is_digit s)"
  by (induction s) (auto simp: stops_def starts_digit_def)

lemma digits_split: "\<exists>ds r. s = ds @ r \<and> list_all is_digit ds \<and> stops r \<and> consume_digits s = r"
proof (intro exI conjI)
  show "s = takeWhile is_digit s @ dropWhile is_digit s" by simp
  show "list_all is_digit (takeWhile is_digit s)" by (auto simp: list_all_iff dest: set_takeWhileD)
  show "stops (dropWhile is_digit s)" by (rule stops_dropWhile)
qed (simp add: consume_digits_def)

lemma consume_append: "list_all is_digit ds \<Longrightarrow> stops r \<Longrightarrow> consume_digits (ds @ r) = r"
  by (induction ds) (auto simp: consume_digits_def stops_def starts_digit_def split: list.splits)

lemma starts_append: "stops r \<Longrightarrow> list_all is_digit ds \<Longrightarrow> starts_digit (ds @ r) \<longleftrightarrow> ds \<noteq> []"
  by (cases ds) (auto simp: stops_def starts_digit_def)

lemma not_digit [simp]: "\<not> is_digit 46" "\<not> is_digit 101" "\<not> is_digit 69" "\<not> is_digit 45" "\<not> is_digit 43" "is_digit 48"
  by (simp_all add: is_digit_def)

lemma stops_simps [simp]: "stops []" "stops (46 # s)" "stops (101 # s)" "stops (69 # s)" "stops (45 # s)" "stops (43 # s)"
  by (simp_all add: stops_def starts_digit_def)

lemma exponent_stops: "exponent_part e \<Longrightarrow> stops e \<and> e \<noteq> []"
  by (induction rule: exponent_part.induct) auto

lemma fraction_stops: "fractional_part f \<Longrightarrow> stops f \<and> f \<noteq> []"
  by (induction rule: fractional_part.induct) auto

lemma digits_end: "starts_digit s \<and> consume_digits s = [] \<longleftrightarrow> digit_sequence s"
proof -
  obtain ds r where d: "s = ds @ r" "list_all is_digit ds" "stops r" "consume_digits s = r" using digits_split by blast
  then show ?thesis
    using starts_append [OF d(3,2)] by (cases r) (auto simp: digit_sequence_def stops_def starts_digit_def split: list.splits)
qed

lemma sign_no_digits: "digit_sequence (c # s) \<Longrightarrow> c \<noteq> 45 \<and> c \<noteq> 43"
  by (auto simp: digit_sequence_def)

lemma post_e_iff: "c \<in> {101, 69} \<Longrightarrow> post_e s \<longleftrightarrow> exponent_part (c # s)"
proof -
  assume c: "c \<in> {101, 69}"
  show ?thesis
  proof (cases s)
    case Nil
    then show ?thesis by (auto simp: post_e_def starts_digit_def digit_sequence_def elim: exponent_part.cases)
  next
    case (Cons a t)
    then show ?thesis
      using c digits_end [of t] digits_end [of "a # t"] sign_no_digits [of a t]
      by (auto simp: post_e_def Let_def intro: exponent_part.intros elim: exponent_part.cases)
  qed
qed

lemma exponent_opt_iff: "exponent_part_opt s \<longleftrightarrow> s = [] \<or> exponent_part s"
proof (cases s)
  case (Cons c t)
  then show ?thesis
    using post_e_iff [of c t] by (auto simp: exponent_part_opt_def elim: exponent_part.cases)
qed (simp add: exponent_part_opt_def)

lemma post_point_iff: "post_decimal_point s \<longleftrightarrow> fractional_part (46 # s)"
proof
  obtain ds r where d: "s = ds @ r" "list_all is_digit ds" "stops r" "consume_digits s = r" using digits_split by blast
  assume "post_decimal_point s"
  then have "digit_sequence ds" "exponent_part_opt r"
    using d starts_append [OF d(3,2)] by (auto simp: post_decimal_point_def digit_sequence_def split: if_splits)
  then show "fractional_part (46 # s)" using d(1) by (auto simp: exponent_opt_iff intro: fractional_part.intros)
next
  assume "fractional_part (46 # s)"
  then obtain ds e where "s = ds @ e" "digit_sequence ds" "e = [] \<or> exponent_part e"
    by (cases rule: fractional_part.cases) auto
  then show "post_decimal_point s"
    using exponent_stops [of e] consume_append [of ds e] starts_append [of e ds]
    by (auto simp: post_decimal_point_def digit_sequence_def exponent_opt_iff)
qed

lemma integer_consumed_iff:
  "integer_part_consumed s \<longleftrightarrow> fractional_part s \<or> s = [46] \<or> (\<exists>e. exponent_part e \<and> s = 46 # e) \<or> exponent_part s"
proof (cases s)
  case (Cons c t)
  show ?thesis
  proof (cases "c = 46")
    case True
    have "\<not> fractional_part (46 # t)" if "\<not> starts_digit t"
      using that post_point_iff [of t] by (simp add: post_decimal_point_def)
    moreover have "\<not> exponent_part t" "t \<noteq> []" if "starts_digit t"
      using that exponent_stops [of t] by (auto simp: stops_def starts_digit_def)
    moreover have "\<not> exponent_part (46 # t)" by (auto elim: exponent_part.cases)
    ultimately show ?thesis
      using Cons True post_point_iff [of t] exponent_opt_iff [of t] by (auto simp: integer_part_consumed_def)
  next
    case False
    then show ?thesis
      using Cons post_e_iff [of c t]
      by (auto simp: integer_part_consumed_def elim: exponent_part.cases fractional_part.cases)
  qed
qed (auto simp: integer_part_consumed_def elim: exponent_part.cases fractional_part.cases)

lemma integer_consumed_stops: "integer_part_consumed s \<Longrightarrow> stops s \<and> s \<noteq> []"
  by (auto simp: integer_part_consumed_def stops_def starts_digit_def split: list.splits if_splits)

lemma literal_split:
  "list_all is_digit ds \<Longrightarrow> ds \<noteq> [] \<Longrightarrow> stops r \<Longrightarrow>
    is_decimal_literal (ds @ r) \<longleftrightarrow>
      integer_part_consumed r \<or> r = [] \<and> (ds = [48] \<or> hd ds \<noteq> 48)"
proof (cases ds)
  case (Cons c cs)
  assume a: "list_all is_digit ds" "stops r"
  have "consume_digits (cs @ r) = r" "consume_digits (ds @ r) = r"
    using a Cons consume_append [OF a] consume_append [of cs r] by auto
  moreover have "cs @ r = [] \<Longrightarrow> \<not> integer_part_consumed r" by (simp add: integer_part_consumed_def)
  moreover have "\<not> integer_part_consumed []" by (simp add: integer_part_consumed_def)
  ultimately show ?thesis
    using a Cons by (auto simp: is_decimal_literal_def Let_def)
qed simp

lemma literal_iff: "is_decimal_literal s \<longleftrightarrow> decimal_literal s"
proof
  assume a: "is_decimal_literal s"
  obtain ds r where d: "s = ds @ r" "list_all is_digit ds" "stops r" "consume_digits s = r" using digits_split by blast
  show "decimal_literal s"
  proof (cases "ds = []")
    case True
    then have "\<not> starts_digit s" using d by (simp add: stops_def)
    then obtain t where "s = 46 # t" "post_decimal_point t"
      using a by (auto simp: is_decimal_literal_def starts_digit_def split: list.splits if_splits)
    then show ?thesis using post_point_iff decimal_literal.fraction by simp
  next
    case False
    then have q: "digit_sequence ds" using d(2) by (simp add: digit_sequence_def)
    have "integer_part_consumed r \<or> r = [] \<and> (ds = [48] \<or> hd ds \<noteq> 48)"
      using a literal_split [OF d(2) False d(3)] d(1) by simp
    then show ?thesis
    proof
      assume "integer_part_consumed r"
      then show ?thesis
        using q d(1) decimal_literal.both decimal_literal.point decimal_literal.point_exponent decimal_literal.exponent
        by (auto simp: integer_consumed_iff)
    next
      assume "r = [] \<and> (ds = [48] \<or> hd ds \<noteq> 48)"
      then show ?thesis
        using d(1,2) False decimal_literal.zero decimal_literal.nonzero by (cases ds) auto
    qed
  qed
next
  have whole: "is_decimal_literal (ds @ r)" if "digit_sequence ds" "integer_part_consumed r" for ds r
    using that integer_consumed_stops [OF that(2)] literal_split [of ds r] by (simp add: digit_sequence_def)
  assume "decimal_literal s"
  then show "is_decimal_literal s"
  proof cases
    case (nonzero c ds)
    then show ?thesis using literal_split [of "c # ds" "[]"] by simp
  next
    case fraction
    then show ?thesis
      using post_point_iff by (auto simp: is_decimal_literal_def elim: fractional_part.cases split: list.splits)
  next
    case (both ds f)
    then show ?thesis using whole [of ds f] by (simp add: integer_consumed_iff)
  next
    case (point ds)
    then show ?thesis using whole [of ds "[46]"] by (simp add: integer_consumed_iff)
  next
    case (point_exponent ds e)
    then show ?thesis using whole [of ds "46 # e"] by (auto simp: integer_consumed_iff)
  next
    case (exponent ds e)
    then show ?thesis using whole [of ds e] by (simp add: integer_consumed_iff)
  qed (simp add: is_decimal_literal_def)
qed

text \<open>C22: the hand-written recogniser of numbers, which decides whether an argument that begins with
  a minus sign is a value or an option, accepts exactly the decimal literals of the grammar its
  comment states.\<close>

theorem decimal_literal_recognised:
  "is_decimal_literal s \<longleftrightarrow> decimal_literal s"
  by (rule literal_iff)

section \<open>Command lines of well-spelled options\<close>

text \<open>An option as the user writes it: alone, followed by its value, or joined to it by \<^verbatim>\<open>=\<close>.\<close>

datatype spelling = Flag (opt_name: bytes) | Spaced (opt_name: bytes) (opt_text: bytes)
  | Joined (opt_name: bytes) (opt_text: bytes)

fun spell :: "spelling \<Rightarrow> bytes list" where
  "spell (Flag n) = [n]"
| "spell (Spaced n v) = [n, v]"
| "spell (Joined n v) = [n @ [61] @ v]"

text \<open>After the arguments were split.\<close>

fun split_spell :: "spelling \<Rightarrow> bytes list" where
  "split_spell (Flag n) = [n]"
| "split_spell (Spaced n v) = [n, v]"
| "split_spell (Joined n v) = [n, v]"

text \<open>Names of options are no values and contain no \<^verbatim>\<open>=\<close>.\<close>

definition names_ok :: "(bytes, nat) table \<Rightarrow> bool" where
  "names_ok names \<longleftrightarrow> (\<forall>n i. map_of names n = Some i \<longrightarrow> \<not> is_positional n \<and> 61 \<notin> set n)"

text \<open>What the option becomes, if the spelling fits it.\<close>

definition used_with :: "any \<Rightarrow> Argument \<Rightarrow> Argument" where
  "used_with v a = a\<lparr>m_values := m_values a @ [v], m_is_used := True\<rparr>"

fun spelled_value :: "Argument \<Rightarrow> spelling \<Rightarrow> any option" where
  "spelled_value a (Flag n) = (if m_max a = 0 \<and> m_action a = Store then m_implicit_value a else None)"
| "spelled_value a (Spaced n v) =
     (if m_min a = 1 \<and> m_max a = 1 \<and> is_positional v
      then (case run_action (m_action a) v of Parsed x \<Rightarrow> Some x | _ \<Rightarrow> None) else None)"
| "spelled_value a (Joined n v) =
     (if take 2 n = [45, 45] \<and> m_min a = 1 \<and> m_max a = 1 \<and> is_positional v
      then (case run_action (m_action a) v of Parsed x \<Rightarrow> Some x | _ \<Rightarrow> None) else None)"

definition option_index :: "ArgumentParser \<Rightarrow> spelling \<Rightarrow> nat option" where
  "option_index p ch = map_of (m_argument_map p) (opt_name ch)"

definition well_spelled :: "ArgumentParser \<Rightarrow> spelling \<Rightarrow> bool" where
  "well_spelled p ch \<longleftrightarrow>
     (case option_index p ch of
        None \<Rightarrow> False
      | Some i \<Rightarrow> i < length (m_optional_arguments p) \<and> \<not> m_is_used (m_optional_arguments p ! i) \<and>
          spelled_value (m_optional_arguments p ! i) ch \<noteq> None)"

definition apply_spelling :: "spelling \<Rightarrow> ArgumentParser \<Rightarrow> ArgumentParser" where
  "apply_spelling ch p =
     (let i = the (option_index p ch); a = m_optional_arguments p ! i
      in p\<lparr>m_optional_arguments := (m_optional_arguments p)[i := used_with (the (spelled_value a ch)) a]\<rparr>)"

lemma find_first: "61 \<notin> set n \<Longrightarrow> find_byte 61 (n @ 61 # v) = Some (length n)"
  by (rule find_byte_append)

lemma dashes_positional: "is_positional v \<Longrightarrow> 1 < length v \<Longrightarrow> v ! 0 = 45 \<Longrightarrow> v ! 1 \<noteq> 45"
  by (auto simp: is_positional_def is_decimal_literal_def nth_Cons split: list.splits if_splits)

lemma preprocess_spell:
  assumes "names_ok (m_argument_map p)" and "well_spelled p ch"
  shows "concat (map (preprocess_argument (m_argument_map p)) (spell ch)) = split_spell ch"
proof -
  let ?names = "m_argument_map p"
  obtain i where i: "map_of ?names (opt_name ch) = Some i"
    using assms(2) by (auto simp: well_spelled_def option_index_def split: option.splits)
  then have ok: "61 \<notin> set (opt_name ch)" using assms(1) by (auto simp: names_ok_def)
  have n: "preprocess_argument ?names (opt_name ch) = [opt_name ch]"
    using ok find_byte_None [of 61 "opt_name ch"] by (simp add: preprocess_argument_def)
  have v: "preprocess_argument ?names w = [w]" if "is_positional w" for w
    using dashes_positional [OF that] by (auto simp: preprocess_argument_def split: option.split)
  show ?thesis
  proof (cases ch)
    case (Flag m)
    then show ?thesis using n by simp
  next
    case (Spaced m w)
    then show ?thesis
      using n v assms(2) by (auto simp: well_spelled_def split: option.splits if_splits)
  next
    case (Joined m w)
    have t: "take 2 m = [45, 45]"
      using assms(2) Joined by (auto simp: well_spelled_def split: option.splits if_splits)
    then obtain m' where m: "m = 45 # 45 # m'"
      by (cases m; cases "tl m") (auto simp: numeral_2_eq_2)
    have "map_of ?names (m @ 61 # w) = None"
      using assms(1) by (cases "map_of ?names (m @ 61 # w)") (auto simp: names_ok_def)
    then show ?thesis
      using Joined i ok m find_first [of m w] by (simp add: preprocess_argument_def)
  qed
qed

lemma consume_spelled:
  assumes "spelled_value a ch = Some x" and "\<not> m_is_used a"
  shows "consume a (tl (split_spell ch) @ rest) = Parsed (used_with x a, rest)"
  using assms
  by (cases ch) (auto simp: consume_def used_with_def split: if_splits parsed.splits option.splits)

lemma parse_spelled_step:
  assumes "names_ok (m_argument_map p)" and "well_spelled p ch"
  shows "parse_loop (split_spell ch @ rest) p = parse_loop rest (apply_spelling ch p)"
proof -
  obtain i where i: "map_of (m_argument_map p) (opt_name ch) = Some i" "option_index p ch = Some i"
    using assms(2) by (auto simp: well_spelled_def option_index_def split: option.splits)
  let ?a = "m_optional_arguments p ! i"
  obtain x where x: "spelled_value ?a ch = Some x" "\<not> m_is_used ?a"
    using assms(2) i by (auto simp: well_spelled_def)
  have n: "\<not> is_positional (opt_name ch)" using assms(1) i by (auto simp: names_ok_def)
  have s: "split_spell ch @ rest = opt_name ch # tl (split_spell ch) @ rest" by (cases ch) auto
  show ?thesis
    unfolding s
    using n i x consume_spelled [OF x, of rest]
    by (simp add: consume_at_def apply_spelling_def Let_def)
qed

lemma apply_spelling_map [simp]: "m_argument_map (apply_spelling ch p) = m_argument_map p"
  by (simp add: apply_spelling_def Let_def)

lemma apply_spelling_other:
  "option_index p ch \<noteq> Some i \<Longrightarrow> well_spelled p ch \<Longrightarrow>
    m_optional_arguments (apply_spelling ch p) ! i = m_optional_arguments p ! i"
  by (auto simp: apply_spelling_def well_spelled_def Let_def split: option.splits)

lemma apply_spelling_same:
  "option_index p ch = Some i \<Longrightarrow> well_spelled p ch \<Longrightarrow>
    m_optional_arguments (apply_spelling ch p) ! i =
      used_with (the (spelled_value (m_optional_arguments p ! i) ch)) (m_optional_arguments p ! i)"
  by (simp add: apply_spelling_def well_spelled_def Let_def)

lemma apply_spelling_length [simp]:
  "length (m_optional_arguments (apply_spelling ch p)) = length (m_optional_arguments p)"
  by (simp add: apply_spelling_def Let_def)

lemma option_index_apply [simp]: "option_index (apply_spelling ch p) = option_index p"
  by (simp add: option_index_def fun_eq_iff)

lemma well_spelled_apply:
  assumes "well_spelled p ch" and "well_spelled p ch'" and "option_index p ch \<noteq> option_index p ch'"
  shows "well_spelled (apply_spelling ch p) ch'"
proof -
  obtain i where "option_index p ch' = Some i" using assms(2) by (auto simp: well_spelled_def split: option.splits)
  then show ?thesis
    using assms apply_spelling_other [of p ch i] by (simp add: well_spelled_def [of _ ch'])
qed

lemma parse_spelled:
  assumes "names_ok (m_argument_map p)" and "list_all (well_spelled p) chs" and "distinct (map (option_index p) chs)"
  shows "parse_loop (concat (map split_spell chs) @ rest) p = parse_loop rest (fold apply_spelling chs p)"
  using assms
proof (induction chs arbitrary: p)
  case (Cons ch chs)
  have w: "well_spelled p ch" using Cons.prems(2) by simp
  have "list_all (well_spelled (apply_spelling ch p)) chs"
    using Cons.prems(2,3) well_spelled_apply [OF w] by (auto simp: list_all_iff image_iff)
  moreover have "distinct (map (option_index (apply_spelling ch p)) chs)" using Cons.prems(3) by simp
  ultimately show ?case
    using Cons.IH [of "apply_spelling ch p"] Cons.prems(1) parse_spelled_step [OF Cons.prems(1) w] by simp
qed simp

text \<open>
  Where the options end up: the option of each spelling holds its value, the others are as
  they were.
\<close>

lemma fold_spelled_at:
  assumes "list_all (well_spelled p) chs" and "distinct (map (option_index p) chs)"
  shows "m_optional_arguments (fold apply_spelling chs p) ! i =
    (case find (\<lambda>ch. option_index p ch = Some i) chs of
       None \<Rightarrow> m_optional_arguments p ! i
     | Some ch \<Rightarrow> used_with (the (spelled_value (m_optional_arguments p ! i) ch)) (m_optional_arguments p ! i))"
  using assms
proof (induction chs arbitrary: p)
  case (Cons ch chs)
  let ?p = "apply_spelling ch p"
  have w: "well_spelled p ch" using Cons.prems(1) by simp
  have all: "list_all (well_spelled ?p) chs"
    using Cons.prems well_spelled_apply [OF w] by (auto simp: list_all_iff image_iff)
  have d: "distinct (map (option_index ?p) chs)" using Cons.prems(2) by simp
  have ih: "m_optional_arguments (fold apply_spelling (ch # chs) p) ! i =
    (case find (\<lambda>ch. option_index p ch = Some i) chs of
       None \<Rightarrow> m_optional_arguments ?p ! i
     | Some ch \<Rightarrow> used_with (the (spelled_value (m_optional_arguments ?p ! i) ch)) (m_optional_arguments ?p ! i))"
    using Cons.IH [OF all d] by simp
  show ?case
  proof (cases "option_index p ch = Some i")
    case True
    have "find (\<lambda>ch. option_index p ch = Some i) chs = None"
      using Cons.prems(2) True by (force simp: find_None_iff)
    then show ?thesis using ih True apply_spelling_same [OF True w] by simp
  next
    case False
    then show ?thesis using ih apply_spelling_other [OF False w] by (simp split: option.split)
  qed
qed simp

lemma fold_spelled_map [simp]: "m_argument_map (fold apply_spelling chs p) = m_argument_map p"
  by (induction chs arbitrary: p) simp_all

lemma fold_spelled_length [simp]:
  "length (m_optional_arguments (fold apply_spelling chs p)) = length (m_optional_arguments p)"
  by (induction chs arbitrary: p) simp_all

lemma preprocess_spelled:
  assumes "names_ok (m_argument_map p)" and "list_all (well_spelled p) chs"
  shows "concat (map (preprocess_argument (m_argument_map p)) (concat (map spell chs))) = concat (map split_spell chs)"
  using assms by (induction chs) (simp_all add: preprocess_spell)

text \<open>The program's name, which must not itself look like an option with a value.\<close>

definition plain_program :: "ArgumentParser \<Rightarrow> bytes \<Rightarrow> bool" where
  "plain_program p prog \<longleftrightarrow> preprocess_argument (m_argument_map p) prog = [prog]"

lemma parse_args_spelled:
  assumes "names_ok (m_argument_map p)" and "list_all (well_spelled p) chs" and "distinct (map (option_index p) chs)"
    and "plain_program p prog" and "list_all (\<lambda>a. \<not> m_is_required a) (m_optional_arguments (fold apply_spelling chs p))"
  shows "parse_args (prog # concat (map spell chs)) p = Parsed (fold apply_spelling chs p)"
  using assms preprocess_spelled [OF assms(1,2)] parse_spelled [OF assms(1-3), of "[]"]
  by (auto simp: parse_args_def preprocess_arguments_def plain_program_def validate_def list_all_iff)

text \<open>A value that looks like an option is not accepted as a value.\<close>

lemma optional_value_raises:
  assumes "names_ok (m_argument_map p)" and "map_of (m_argument_map p) n = Some i"
    and "m_min (m_optional_arguments p ! i) = 1" and "m_max (m_optional_arguments p ! i) = 1" and "\<not> is_positional v"
  shows "parse_loop (n # v # rest) p = Raised"
proof -
  have "\<not> is_positional n" using assms(1,2) by (auto simp: names_ok_def)
  then show ?thesis
    using assms(2-5) by (simp add: consume_at_def consume_def)
qed

section \<open>The map of names\<close>

lemma fold_put: "map_of (fold (\<lambda>n. tbl_put n i) ns t) n = (if n \<in> set ns then Some i else map_of t n)"
  by (induction ns arbitrary: t) (auto simp: table_simps)

lemma add_arguments_options:
  "m_optional_arguments (fold add_argument as p) = m_optional_arguments p @ as"
  by (induction as arbitrary: p) (simp_all add: add_argument_def Let_def)

text \<open>Every name leads to the option that has it.\<close>

definition indexed :: "ArgumentParser \<Rightarrow> bool" where
  "indexed p \<longleftrightarrow>
     (\<forall>n i. map_of (m_argument_map p) n = Some i \<longleftrightarrow>
       i < length (m_optional_arguments p) \<and> n \<in> set (m_names (m_optional_arguments p ! i)))"

lemma indexed_add:
  assumes "indexed p" and "\<forall>b \<in> set (m_optional_arguments p). set (m_names b) \<inter> set (m_names a) = {}"
  shows "indexed (add_argument a p)"
proof -
  have "n \<notin> set (m_names (m_optional_arguments p ! i))" if "n \<in> set (m_names a)" "i < length (m_optional_arguments p)" for n i
    using assms(2) that nth_mem [OF that(2)] by blast
  then show ?thesis
    using assms(1) by (auto simp: indexed_def add_argument_def Let_def fold_put nth_append less_Suc_eq split: if_splits)
qed

lemma indexed_fold:
  "indexed p \<Longrightarrow> distinct (concat (map m_names (m_optional_arguments p @ as))) \<Longrightarrow> indexed (fold add_argument as p)"
proof (induction as arbitrary: p)
  case (Cons a as)
  have "\<forall>b \<in> set (m_optional_arguments p). set (m_names b) \<inter> set (m_names a) = {}"
    using Cons.prems(2) by auto
  then have "indexed (add_argument a p)" using indexed_add Cons.prems(1) by blast
  then show ?case using Cons.IH [of "add_argument a p"] Cons.prems(2) by (simp add: add_argument_def Let_def)
qed simp

lemma indexed_empty: "indexed \<lparr>m_optional_arguments = [], m_argument_map = []\<rparr>"
  by (simp add: indexed_def)

end
