(* ===== verification/CommandLine.thy ===== *)
theory CommandLine
  imports Config ArgParse
begin

text \<open>
  \<^verbatim>\<open>arguments::parse\<close> of \<^verbatim>\<open>candy-cli/src/config.cc\<close> from the argument vector on: the options the
  program declares, and what it reads of them after the option parser has run. The result is
  the \<open>command_line\<close> from which theory \<^verbatim>\<open>Config\<close> goes on.
\<close>

section \<open>The options\<close>

definition text_option :: "string list \<Rightarrow> Argument" where
  "text_option names = Argument_new (map str names)"

definition int_option :: "string list \<Rightarrow> int \<Rightarrow> Argument" where
  "int_option names d = nargs 1 (default_value (AInt d) (scan_int (Argument_new (map str names))))"

definition flag_option :: "string list \<Rightarrow> Argument" where
  "flag_option names = implicit_value (ABool True) (Argument_new (map str names))"

definition candy_options :: "Argument list" where
  "candy_options =
     [text_option [''-c'', ''--config''],
      text_option [''-m'', ''--mode''],
      text_option [''-w'', ''--websocket''],
      text_option [''-p'', ''--password''],
      text_option [''-n'', ''--name''],
      text_option [''-t'', ''--tun''],
      text_option [''-s'', ''--stun''],
      int_option [''--port''] 0,
      int_option [''--mtu''] 1400,
      int_option [''-r'', ''--route''] 0,
      int_option [''--discovery''] 0,
      text_option [''--localhost''],
      flag_option [''--p2p-only''],
      flag_option [''--userspace-stack''],
      flag_option [''--udp-port-convergence''],
      text_option [''-d'', ''--dhcp''],
      text_option [''--sdwan''],
      flag_option [''--no-timestamp''],
      flag_option [''--debug'']]"

definition candy_parser :: ArgumentParser where
  "candy_parser = fold add_argument candy_options ArgumentParser_new"

section \<open>What the program reads\<close>

fun raised_or :: "'a parsed \<Rightarrow> ('a \<Rightarrow> command_line) \<Rightarrow> command_line" where
  "raised_or (Parsed a) f = f a"
| "raised_or _ f = Rejected"

text \<open>
  An exception at any point, also one after the configuration file was read, ends the program
  with exit code 1.
\<close>

definition read_options :: "ArgumentParser \<Rightarrow> command_line" where
  "read_options p =
     (let s = (\<lambda>n. get_if_used as_str p (str n)); i = (\<lambda>n. get_if_used as_int p (str n));
          b = (\<lambda>n. get_if_used as_bool p (str n))
      in raised_or (s ''--config'') (\<lambda>config. raised_or (s ''--mode'') (\<lambda>mode.
         raised_or (s ''--websocket'') (\<lambda>websocket. raised_or (s ''--password'') (\<lambda>password.
         raised_or (b ''--no-timestamp'') (\<lambda>noTimestamp. raised_or (b ''--debug'') (\<lambda>debug.
         raised_or (s ''--dhcp'') (\<lambda>dhcp. raised_or (s ''--sdwan'') (\<lambda>sdwan.
         raised_or (s ''--name'') (\<lambda>name. raised_or (s ''--tun'') (\<lambda>tun.
         raised_or (s ''--stun'') (\<lambda>stun. raised_or (s ''--localhost'') (\<lambda>localhost.
         raised_or (i ''--port'') (\<lambda>port. raised_or (i ''--mtu'') (\<lambda>mtu.
         raised_or (i ''--discovery'') (\<lambda>discovery. raised_or (i ''--route'') (\<lambda>route.
         raised_or (b ''--p2p-only'') (\<lambda>p2p. raised_or (b ''--userspace-stack'') (\<lambda>userspace.
         raised_or (b ''--udp-port-convergence'') (\<lambda>convergence.
           Options \<lparr>co_config = config, co_mode = mode, co_websocket = websocket, co_password = password,
             co_noTimestamp = noTimestamp, co_debug = debug, co_dhcp = dhcp, co_sdwan = sdwan, co_name = name,
             co_tun = tun, co_stun = stun, co_localhost = localhost, co_port = port, co_mtu = mtu,
             co_discovery = discovery, co_route = route, co_p2pOnly = p2p, co_userspaceStack = userspace,
             co_udpPortConvergence = convergence\<rparr>))))))))))))))))))))"

text \<open>The help and the version end the program while the arguments are parsed.\<close>

definition command_line_of :: "bytes list \<Rightarrow> command_line" where
  "command_line_of argv =
     (case parse_args argv candy_parser of
        Parsed p \<Rightarrow> read_options p
      | Exited code \<Rightarrow> Informed
      | _ \<Rightarrow> Rejected)"

section \<open>The declared options\<close>

definition shown_option :: "string list \<Rightarrow> Argument" where
  "shown_option names = nargs 0 (implicit_value (ABool True) (default_value (ABool False)
     (set_action PrintAndExit (Argument_new (map str names)))))"

definition all_options :: "Argument list" where
  "all_options = [shown_option [''-h'', ''--help''], shown_option [''-v'', ''--version'']] @ candy_options"

lemmas option_kinds =
  text_option_def int_option_def flag_option_def shown_option_def Argument_new_def default_value_def implicit_value_def
  set_action_def scan_int_def nargs_def

lemma candy_fold: "candy_parser = fold add_argument all_options \<lparr>m_optional_arguments = [], m_argument_map = []\<rparr>"
  by (simp add: candy_parser_def ArgumentParser_new_def all_options_def shown_option_def Let_def)

lemma candy_opts: "m_optional_arguments candy_parser = all_options"
  by (simp add: candy_fold add_arguments_options)

lemma names_distinct: "distinct (concat (map m_names all_options))"
  by (simp add: all_options_def candy_options_def option_kinds inj_str)

lemma candy_indexed: "indexed candy_parser"
  unfolding candy_fold using names_distinct by (intro indexed_fold indexed_empty) simp

lemma candy_index:
  "map_of (m_argument_map candy_parser) n = Some i \<longleftrightarrow> i < length all_options \<and> n \<in> set (m_names (all_options ! i))"
  using candy_indexed by (simp add: indexed_def candy_opts)

lemma all_names: "\<forall>a \<in> set all_options. \<forall>n \<in> set (m_names a). \<not> is_positional n \<and> 61 \<notin> set n"
  by (simp add: all_options_def candy_options_def option_kinds str_def is_positional_def is_decimal_literal_def is_digit_def)

lemma candy_names_ok: "names_ok (m_argument_map candy_parser)"
  unfolding names_ok_def candy_index using all_names nth_mem by blast

lemma unused: "\<forall>a \<in> set all_options. \<not> m_is_used a \<and> m_values a = [] \<and> \<not> m_is_required a"
  by (simp add: all_options_def candy_options_def option_kinds)

text \<open>\<open>holds p a b\<close>: in the parser \<open>p\<close> the option declared as \<open>a\<close> has become \<open>b\<close>.\<close>

definition holds :: "ArgumentParser \<Rightarrow> Argument \<Rightarrow> Argument \<Rightarrow> bool" where
  "holds p a b \<longleftrightarrow> (\<exists>i. (\<forall>n \<in> set (m_names a). map_of (m_argument_map p) n = Some i) \<and> m_optional_arguments p ! i = b)"

lemma get_held:
  assumes "holds p a b" and "n \<in> set (m_names a)"
  shows "get_if_used cast p n =
    (if \<not> m_is_used b then Parsed None
     else case option_value b of None \<Rightarrow> Raised | Some v \<Rightarrow> (case cast v of None \<Rightarrow> Raised | Some x \<Rightarrow> Parsed (Some x)))"
  using assms by (auto simp: holds_def get_if_used_def option_at_def)

section \<open>Well-spelled command lines\<close>

definition text_names :: "string list list" where
  "text_names = [[''-c'', ''--config''], [''-m'', ''--mode''], [''-w'', ''--websocket''], [''-p'', ''--password''],
     [''-n'', ''--name''], [''-t'', ''--tun''], [''-s'', ''--stun''], [''--localhost''], [''-d'', ''--dhcp''], [''--sdwan'']]"

definition int_names :: "string list list" where
  "int_names = [[''--port''], [''--mtu''], [''-r'', ''--route''], [''--discovery'']]"

definition flag_names :: "string list list" where
  "flag_names = [[''--p2p-only''], [''--userspace-stack''], [''--udp-port-convergence''], [''--no-timestamp''], [''--debug'']]"

definition named :: "string list list \<Rightarrow> bytes \<Rightarrow> bool" where
  "named nss n \<longleftrightarrow> (\<exists>ns \<in> set nss. n \<in> set (map str ns))"

text \<open>The options the program has, values that do not look like options, numbers that are numbers.\<close>

fun fits :: "spelling \<Rightarrow> bool" where
  "fits (Flag n) \<longleftrightarrow> named flag_names n"
| "fits (Spaced n v) \<longleftrightarrow> is_positional v \<and> (named text_names n \<or> named int_names n \<and> parse_number v \<noteq> None)"
| "fits (Joined n v) \<longleftrightarrow> take 2 n = [45, 45] \<and> is_positional v \<and>
     (named text_names n \<or> named int_names n \<and> parse_number v \<noteq> None)"

text \<open>The spelling of the option with one of the given names.\<close>

definition chosen_as :: "string list \<Rightarrow> spelling list \<Rightarrow> spelling option" where
  "chosen_as ns chs = find (\<lambda>ch. opt_name ch \<in> set (map str ns)) chs"

definition text_chosen :: "string list \<Rightarrow> spelling list \<Rightarrow> bytes option" where
  "text_chosen ns chs = map_option opt_text (chosen_as ns chs)"

definition int_chosen :: "string list \<Rightarrow> spelling list \<Rightarrow> int option" where
  "int_chosen ns chs = Option.bind (chosen_as ns chs) (\<lambda>ch. parse_number (opt_text ch))"

definition flag_chosen :: "string list \<Rightarrow> spelling list \<Rightarrow> bool option" where
  "flag_chosen ns chs = map_option (\<lambda>_. True) (chosen_as ns chs)"

definition options_chosen :: "spelling list \<Rightarrow> cli_options" where
  "options_chosen chs =
     \<lparr>co_config = text_chosen [''-c'', ''--config''] chs, co_mode = text_chosen [''-m'', ''--mode''] chs,
      co_websocket = text_chosen [''-w'', ''--websocket''] chs, co_password = text_chosen [''-p'', ''--password''] chs,
      co_noTimestamp = flag_chosen [''--no-timestamp''] chs, co_debug = flag_chosen [''--debug''] chs,
      co_dhcp = text_chosen [''-d'', ''--dhcp''] chs, co_sdwan = text_chosen [''--sdwan''] chs,
      co_name = text_chosen [''-n'', ''--name''] chs, co_tun = text_chosen [''-t'', ''--tun''] chs,
      co_stun = text_chosen [''-s'', ''--stun''] chs, co_localhost = text_chosen [''--localhost''] chs,
      co_port = int_chosen [''--port''] chs, co_mtu = int_chosen [''--mtu''] chs,
      co_discovery = int_chosen [''--discovery''] chs, co_route = int_chosen [''-r'', ''--route''] chs,
      co_p2pOnly = flag_chosen [''--p2p-only''] chs, co_userspaceStack = flag_chosen [''--userspace-stack''] chs,
      co_udpPortConvergence = flag_chosen [''--udp-port-convergence''] chs\<rparr>"

lemma text_in: "ns \<in> set text_names \<Longrightarrow> text_option ns \<in> set all_options"
  by (auto simp: text_names_def all_options_def candy_options_def)

lemma flag_in: "ns \<in> set flag_names \<Longrightarrow> flag_option ns \<in> set all_options"
  by (auto simp: flag_names_def all_options_def candy_options_def)

lemma int_in: "ns \<in> set int_names \<Longrightarrow> \<exists>d. int_option ns d \<in> set all_options"
  by (auto simp: int_names_def all_options_def candy_options_def)

lemma option_named:
  assumes "a \<in> set all_options" and "n \<in> set (m_names a)"
  shows "\<exists>i. map_of (m_argument_map candy_parser) n = Some i \<and> i < length all_options \<and> all_options ! i = a"
  using assms candy_index by (auto simp: in_set_conv_nth)

lemma same_option:
  assumes "a \<in> set all_options" "b \<in> set all_options" "n \<in> set (m_names a)" "n \<in> set (m_names b)"
  shows "a = b"
  using option_named [OF assms(1,3)] option_named [OF assms(2,4)] by auto

text \<open>A name belongs to options of one kind only.\<close>

lemma one_kind:
  assumes "n \<in> set (map str ns)"
  shows "ns \<in> set text_names \<Longrightarrow> \<not> named flag_names n \<and> \<not> named int_names n"
    and "ns \<in> set flag_names \<Longrightarrow> \<not> named text_names n \<and> \<not> named int_names n"
    and "ns \<in> set int_names \<Longrightarrow> \<not> named text_names n \<and> \<not> named flag_names n"
proof -
  have names: "m_names (text_option ms) = map str ms" "m_names (flag_option ms) = map str ms"
    "m_names (int_option ms d) = map str ms" for ms d
    by (simp_all add: option_kinds)
  have ne: "text_option ms \<noteq> flag_option ms'" "text_option ms \<noteq> int_option ms' d" "flag_option ms \<noteq> int_option ms' d"
    for ms ms' d
    by (simp_all add: option_kinds)
  have u: "a = b" if "a \<in> set all_options" "b \<in> set all_options" "n \<in> set (m_names a)" "n \<in> set (m_names b)" for a b
    using same_option that by blast
  show "ns \<in> set text_names \<Longrightarrow> \<not> named flag_names n \<and> \<not> named int_names n"
    using assms u text_in flag_in int_in names ne unfolding named_def by metis
  show "ns \<in> set flag_names \<Longrightarrow> \<not> named text_names n \<and> \<not> named int_names n"
    using assms u text_in flag_in int_in names ne unfolding named_def by metis
  show "ns \<in> set int_names \<Longrightarrow> \<not> named text_names n \<and> \<not> named flag_names n"
    using assms u text_in flag_in int_in names ne unfolding named_def by metis
qed

lemma spelled_text:
  "fits ch \<Longrightarrow> opt_name ch \<in> set (map str ns) \<Longrightarrow> ns \<in> set text_names \<Longrightarrow>
    spelled_value (text_option ns) ch = Some (AStr (opt_text ch))"
  using one_kind(1) [of "opt_name ch" ns] by (cases ch) (auto simp: option_kinds)

lemma spelled_flag:
  "fits ch \<Longrightarrow> opt_name ch \<in> set (map str ns) \<Longrightarrow> ns \<in> set flag_names \<Longrightarrow>
    spelled_value (flag_option ns) ch = Some (ABool True)"
  using one_kind(2) [of "opt_name ch" ns] by (cases ch) (auto simp: option_kinds)

lemma spelled_int:
  "fits ch \<Longrightarrow> opt_name ch \<in> set (map str ns) \<Longrightarrow> ns \<in> set int_names \<Longrightarrow>
    \<exists>i. parse_number (opt_text ch) = Some i \<and> spelled_value (int_option ns d) ch = Some (AInt i)"
  using one_kind(3) [of "opt_name ch" ns] by (cases ch) (auto simp: option_kinds)

lemma fits_option:
  assumes "fits ch"
  shows "\<exists>a \<in> set all_options. opt_name ch \<in> set (m_names a) \<and> spelled_value a ch \<noteq> None"
proof -
  have "\<exists>ns. opt_name ch \<in> set (map str ns) \<and> (ns \<in> set text_names \<or> ns \<in> set int_names \<or> ns \<in> set flag_names)"
    using assms by (cases ch) (auto simp: named_def)
  then obtain ns where n: "opt_name ch \<in> set (map str ns)"
    and k: "ns \<in> set text_names \<or> ns \<in> set int_names \<or> ns \<in> set flag_names" by blast
  from k show ?thesis
  proof (elim disjE)
    assume t: "ns \<in> set text_names"
    then show ?thesis
      using text_in [OF t] spelled_text [OF assms n t] n by (intro bexI [of _ "text_option ns"]) (simp_all add: option_kinds)
  next
    assume t: "ns \<in> set int_names"
    then obtain d where "int_option ns d \<in> set all_options" using int_in by blast
    then show ?thesis
      using spelled_int [OF assms n t, of d] n by (intro bexI [of _ "int_option ns d"]) (auto simp: option_kinds)
  next
    assume t: "ns \<in> set flag_names"
    then show ?thesis
      using flag_in [OF t] spelled_flag [OF assms n t] n by (intro bexI [of _ "flag_option ns"]) (simp_all add: option_kinds)
  qed
qed

lemma fits_well_spelled: "fits ch \<Longrightarrow> well_spelled candy_parser ch"
proof -
  assume "fits ch"
  then obtain a where a: "a \<in> set all_options" "opt_name ch \<in> set (m_names a)" "spelled_value a ch \<noteq> None"
    using fits_option by blast
  obtain i where "map_of (m_argument_map candy_parser) (opt_name ch) = Some i" "i < length all_options" "all_options ! i = a"
    using option_named [OF a(1,2)] by blast
  then show ?thesis using a unused by (simp add: well_spelled_def option_index_def candy_opts)
qed

lemma spelled_held:
  assumes "list_all fits chs" and "distinct (map (option_index candy_parser) chs)" and "a \<in> set all_options"
    and "m_names a = map str ns" and "ns \<noteq> []"
  shows "holds (fold apply_spelling chs candy_parser) a
    (case chosen_as ns chs of None \<Rightarrow> a | Some ch \<Rightarrow> used_with (the (spelled_value a ch)) a)"
proof -
  obtain n where n: "n \<in> set (m_names a)" using assms(4,5) by (cases ns) auto
  obtain i where i: "i < length all_options" "all_options ! i = a" using option_named [OF assms(3) n] by blast
  have m: "map_of (m_argument_map candy_parser) n' = Some i \<longleftrightarrow> n' \<in> set (m_names a)" for n'
    using candy_index [of n' i] i by simp
  have "list_all (well_spelled candy_parser) chs"
    using assms(1) fits_well_spelled by (auto simp: list_all_iff)
  note fold_spelled_at [OF this assms(2), of i]
  moreover have "(\<lambda>ch. option_index candy_parser ch = Some i) = (\<lambda>ch. opt_name ch \<in> set (map str ns))"
    using m assms(4) by (simp add: option_index_def fun_eq_iff)
  ultimately have "m_optional_arguments (fold apply_spelling chs candy_parser) ! i =
      (case chosen_as ns chs of None \<Rightarrow> a | Some ch \<Rightarrow> used_with (the (spelled_value a ch)) a)"
    using i by (simp add: candy_opts chosen_as_def split: option.split)
  then show ?thesis using m unfolding holds_def by (intro exI [of _ i]) simp
qed

lemma chosenD:
  assumes "list_all fits chs" and "chosen_as ns chs = Some ch"
  shows "fits ch \<and> opt_name ch \<in> set (map str ns)"
  using assms by (auto simp: chosen_as_def find_Some_iff list_all_iff)

lemma read_text:
  assumes "list_all fits chs" and "distinct (map (option_index candy_parser) chs)" and "ns \<in> set text_names" and "m \<in> set ns"
  shows "get_if_used as_str (fold apply_spelling chs candy_parser) (str m) = Parsed (text_chosen ns chs)"
proof -
  let ?a = "text_option ns"
  have n: "m_names ?a = map str ns" "ns \<noteq> []" "str m \<in> set (m_names ?a)" using assms(4) by (auto simp: option_kinds)
  note get_held [OF spelled_held [OF assms(1,2) text_in [OF assms(3)] n(1,2)] n(3), of as_str]
  then show ?thesis
    using chosenD [OF assms(1), of ns] spelled_text [of _ ns] assms(3)
    by (auto simp: text_chosen_def used_with_def option_value_def option_kinds split: option.split)
qed

lemma read_flag:
  assumes "list_all fits chs" and "distinct (map (option_index candy_parser) chs)" and "ns \<in> set flag_names" and "m \<in> set ns"
  shows "get_if_used as_bool (fold apply_spelling chs candy_parser) (str m) = Parsed (flag_chosen ns chs)"
proof -
  let ?a = "flag_option ns"
  have n: "m_names ?a = map str ns" "ns \<noteq> []" "str m \<in> set (m_names ?a)" using assms(4) by (auto simp: option_kinds)
  note get_held [OF spelled_held [OF assms(1,2) flag_in [OF assms(3)] n(1,2)] n(3), of as_bool]
  then show ?thesis
    using chosenD [OF assms(1), of ns] spelled_flag [of _ ns] assms(3)
    by (auto simp: flag_chosen_def used_with_def option_value_def option_kinds split: option.split)
qed

lemma read_int:
  assumes "list_all fits chs" and "distinct (map (option_index candy_parser) chs)" and "ns \<in> set int_names" and "m \<in> set ns"
  shows "get_if_used as_int (fold apply_spelling chs candy_parser) (str m) = Parsed (int_chosen ns chs)"
proof -
  obtain d where a: "int_option ns d \<in> set all_options" using int_in assms(3) by blast
  let ?a = "int_option ns d"
  have n: "m_names ?a = map str ns" "ns \<noteq> []" "str m \<in> set (m_names ?a)" using assms(4) by (auto simp: option_kinds)
  note get_held [OF spelled_held [OF assms(1,2) a n(1,2)] n(3), of as_int]
  then show ?thesis
    using chosenD [OF assms(1), of ns] spelled_int [of _ ns d] assms(3)
    by (fastforce simp: int_chosen_def used_with_def option_value_def option_kinds split: option.split)
qed

lemmas kinds_simps = text_names_def int_names_def flag_names_def

lemma read_spelled:
  assumes "list_all fits chs" and "distinct (map (option_index candy_parser) chs)"
  shows "read_options (fold apply_spelling chs candy_parser) = Options (options_chosen chs)"
proof -
  let ?p = "fold apply_spelling chs candy_parser"
  have t: "get_if_used as_str ?p (str (last ns)) = Parsed (text_chosen ns chs)" if "ns \<in> set text_names" for ns
    using read_text [OF assms that] that by (auto simp: text_names_def)
  have f: "get_if_used as_bool ?p (str (last ns)) = Parsed (flag_chosen ns chs)" if "ns \<in> set flag_names" for ns
    using read_flag [OF assms that] that by (auto simp: flag_names_def)
  have i: "get_if_used as_int ?p (str (last ns)) = Parsed (int_chosen ns chs)" if "ns \<in> set int_names" for ns
    using read_int [OF assms that] that by (auto simp: int_names_def)
  have "\<forall>ns \<in> set text_names. get_if_used as_str ?p (str (last ns)) = Parsed (text_chosen ns chs)"
    "\<forall>ns \<in> set flag_names. get_if_used as_bool ?p (str (last ns)) = Parsed (flag_chosen ns chs)"
    "\<forall>ns \<in> set int_names. get_if_used as_int ?p (str (last ns)) = Parsed (int_chosen ns chs)"
    using t f i by blast+
  then show ?thesis
    by (simp add: read_options_def options_chosen_def Let_def kinds_simps)
qed

section \<open>Whole command lines\<close>

lemma apply_keeps_options:
  assumes "list_all (\<lambda>a. \<not> m_is_required a) (m_optional_arguments p)" and "well_spelled p ch"
  shows "list_all (\<lambda>a. \<not> m_is_required a) (m_optional_arguments (apply_spelling ch p))"
  using assms
  by (auto simp: apply_spelling_def well_spelled_def used_with_def Let_def list_all_length nth_list_update split: option.splits)

lemma fold_keeps_options:
  "list_all (\<lambda>a. \<not> m_is_required a) (m_optional_arguments p) \<Longrightarrow> list_all (well_spelled p) chs \<Longrightarrow>
    distinct (map (option_index p) chs) \<Longrightarrow>
    list_all (\<lambda>a. \<not> m_is_required a) (m_optional_arguments (fold apply_spelling chs p))"
proof (induction chs arbitrary: p)
  case (Cons ch chs)
  then have "list_all (well_spelled (apply_spelling ch p)) chs"
    using well_spelled_apply [of p ch] by (auto simp: list_all_iff image_iff)
  then show ?case using Cons apply_keeps_options [of p ch] by simp
qed simp

lemma parsed_spelled:
  assumes "list_all fits chs" and "distinct (map (option_index candy_parser) chs)" and "plain_program candy_parser prog"
  shows "parse_args (prog # concat (map spell chs)) candy_parser = Parsed (fold apply_spelling chs candy_parser)"
proof -
  have w: "list_all (well_spelled candy_parser) chs"
    using assms(1) fits_well_spelled by (auto simp: list_all_iff)
  have "list_all (\<lambda>a. \<not> m_is_required a) (m_optional_arguments candy_parser)"
    using unused by (simp add: candy_opts list_all_iff)
  then show ?thesis
    using parse_args_spelled [OF candy_names_ok w assms(2,3)] fold_keeps_options w assms(2) by blast
qed

text \<open>What follows well-spelled options is parsed in the state they lead to.\<close>

lemma parse_after:
  assumes "list_all fits chs" and "distinct (map (option_index candy_parser) chs)" and "plain_program candy_parser prog"
  shows "parse_args (prog # concat (map spell chs) @ rest) candy_parser =
    (case parse_loop (preprocess_arguments candy_parser rest) (fold apply_spelling chs candy_parser) of
       Parsed p' \<Rightarrow> if list_all validate (m_optional_arguments p') then Parsed p' else Raised
     | Raised \<Rightarrow> Raised | Exited c \<Rightarrow> Exited c | BeyondArgv \<Rightarrow> BeyondArgv)"
proof -
  have w: "list_all (well_spelled candy_parser) chs"
    using assms(1) fits_well_spelled by (auto simp: list_all_iff)
  show ?thesis
    using assms(3) preprocess_spelled [OF candy_names_ok w] parse_spelled [OF candy_names_ok w assms(2)]
    by (simp add: parse_args_def preprocess_arguments_def plain_program_def)
qed

lemma spelled_options:
  assumes "list_all fits chs" and "distinct (map (option_index candy_parser) chs)" and "plain_program candy_parser prog"
  shows "command_line_of (prog # concat (map spell chs)) = Options (options_chosen chs)"
  using parsed_spelled [OF assms] read_spelled [OF assms(1,2)] by (simp add: command_line_of_def)

text \<open>C17: from the argument vector to the settings. When the options are spelled properly, each at
  most once, the values alone, after a space or after an equals sign, short or long names, in any
  order, the program starts exactly when the file it names can be read without a bad number, the mode is
  known and there is an address of a server; its settings are then those of the file, overwritten by
  the options, and whatever is missing keeps its default.\<close>

theorem settings_from_argv:
  assumes "list_all fits chs" and "distinct (map (option_index candy_parser) chs)"
    and "plain_program candy_parser prog"
  shows "arguments_parse T files (command_line_of (prog # concat (map spell chs))) arguments_new =
    (let c = options_chosen chs; file = file_says T files c
     in if \<not> bad_number file \<and> chosen (co_mode c) file ''mode'' \<in> {str ''client'', str ''server''} \<and>
           chosen (co_websocket c) file ''websocket'' \<noteq> []
        then Inr (set_all_used c (settings_of file arguments_new)) else Inl 1)"
  unfolding spelled_options [OF assms] Let_def by (rule program_starts_iff)

section \<open>Command lines that are refused\<close>

text \<open>
  After the options \<open>chs\<close> were read without complaint, arguments at which the parser stops: a
  text that is no option, an unknown long option, an option for the second time, a text option as
  the last argument, an option in the place of a value, a number that is none, a value joined
  to an option that takes none.
\<close>

inductive refused :: "spelling list \<Rightarrow> bytes list \<Rightarrow> bool" where
  positional: "is_positional arg \<Longrightarrow> refused chs (arg # rest)"
| unknown: "take 2 arg = [45, 45] \<Longrightarrow> 61 \<notin> set arg \<Longrightarrow> \<forall>a \<in> set all_options. arg \<notin> set (m_names a) \<Longrightarrow>
    refused chs (arg # rest)"
| twice: "ch \<in> set chs \<Longrightarrow> map_of (m_argument_map candy_parser) n = option_index candy_parser ch \<Longrightarrow>
    refused chs (n # rest)"
| no_value: "named text_names n \<Longrightarrow> refused chs [n]"
| option_as_value: "named text_names n \<or> named int_names n \<Longrightarrow> \<not> is_positional v \<Longrightarrow> refused chs (n # v # rest)"
| not_a_number: "named int_names n \<Longrightarrow> is_positional v \<Longrightarrow> parse_number v = None \<Longrightarrow> refused chs (n # v # rest)"
| flag_with_value: "named flag_names n \<Longrightarrow> is_positional v \<Longrightarrow> refused chs ((n @ 61 # v) # rest)"

text \<open>The option behind a name, in the state the options before it lead to: used or not, of the same shape.\<close>

lemma shape_after:
  assumes "list_all fits chs" and "distinct (map (option_index candy_parser) chs)" and "a \<in> set all_options"
    and "m_names a = map str ns" and "n \<in> set (map str ns)"
  shows "\<exists>i. map_of (m_argument_map candy_parser) n = Some i \<and>
    (let b = m_optional_arguments (fold apply_spelling chs candy_parser) ! i
     in m_min b = m_min a \<and> m_max b = m_max a \<and> m_action b = m_action a \<and> m_default_value b = m_default_value a \<and>
       (chosen_as ns chs = None \<longrightarrow> b = a))"
proof -
  have "ns \<noteq> []" using assms(5) by auto
  then have "holds (fold apply_spelling chs candy_parser) a
    (case chosen_as ns chs of None \<Rightarrow> a | Some ch \<Rightarrow> used_with (the (spelled_value a ch)) a)"
    using spelled_held [OF assms(1-4)] by blast
  then show ?thesis
    using assms(4,5) by (auto simp: holds_def used_with_def split: option.splits)
qed

lemma namedD: "named nss n \<Longrightarrow> \<exists>ns \<in> set nss. n \<in> set (map str ns)"
  by (simp add: named_def)

lemma value_shape:
  assumes "list_all fits chs" and "distinct (map (option_index candy_parser) chs)"
    and "named text_names n \<or> named int_names n"
  shows "\<exists>i. map_of (m_argument_map candy_parser) n = Some i \<and>
    (let b = m_optional_arguments (fold apply_spelling chs candy_parser) ! i
     in m_min b = 1 \<and> m_max b = 1 \<and>
       (named text_names n \<longrightarrow> m_default_value b = None) \<and> (named int_names n \<longrightarrow> m_action b = ScanInt))"
  using assms(3)
proof (elim disjE)
  assume "named text_names n"
  then obtain ns where ns: "ns \<in> set text_names" "n \<in> set (map str ns)" using namedD by blast
  then show ?thesis
    using shape_after [OF assms(1,2) text_in [OF ns(1)] _ ns(2)] one_kind(1) [OF ns(2,1)]
    by (auto simp: option_kinds Let_def)
next
  assume "named int_names n"
  then obtain ns where ns: "ns \<in> set int_names" "n \<in> set (map str ns)" using namedD by blast
  then obtain d where "int_option ns d \<in> set all_options" using int_in by blast
  then show ?thesis
    using shape_after [OF assms(1,2) _ _ ns(2), of "int_option ns d"] one_kind(3) [OF ns(2,1)]
    by (auto simp: option_kinds Let_def)
qed

lemma flag_shape:
  assumes "list_all fits chs" and "distinct (map (option_index candy_parser) chs)" and "named flag_names n"
  shows "\<exists>i. map_of (m_argument_map candy_parser) n = Some i \<and> take 2 n = [45, 45] \<and> 61 \<notin> set n \<and>
    m_max (m_optional_arguments (fold apply_spelling chs candy_parser) ! i) = 0 \<and>
    m_action (m_optional_arguments (fold apply_spelling chs candy_parser) ! i) = Store"
proof -
  obtain ns where ns: "ns \<in> set flag_names" "n \<in> set (map str ns)" using assms(3) namedD by blast
  have "take 2 n = [45, 45]" using ns by (auto simp: flag_names_def str_def)
  moreover have "61 \<notin> set n" using ns by (auto simp: flag_names_def str_def)
  ultimately show ?thesis
    using shape_after [OF assms(1,2) flag_in [OF ns(1)] _ ns(2)]
    by (auto simp: option_kinds Let_def)
qed

lemma name_not_value: "map_of (m_argument_map candy_parser) n = Some i \<Longrightarrow> \<not> is_positional n \<and> 61 \<notin> set n"
  using candy_names_ok by (auto simp: names_ok_def)

lemma keep_value: "is_positional v \<Longrightarrow> preprocess_argument names v = [v]"
  using dashes_positional by (auto simp: preprocess_argument_def split: option.split)

lemma keep_plain: "61 \<notin> set n \<Longrightarrow> preprocess_argument names n = [n]"
  using find_byte_None [of 61 n] by (simp add: preprocess_argument_def)

lemma keep_option:
  assumes "\<not> is_positional v"
  shows "\<exists>w ws. preprocess_argument (m_argument_map candy_parser) v = w # ws \<and> \<not> is_positional w"
  using assms name_not_value by (auto simp: preprocess_argument_def split: option.splits)

lemma used_after:
  assumes "list_all fits chs" and "distinct (map (option_index candy_parser) chs)" and "ch \<in> set chs"
    and "option_index candy_parser ch = Some i"
  shows "m_is_used (m_optional_arguments (fold apply_spelling chs candy_parser) ! i) \<and>
    \<not> m_is_repeatable (m_optional_arguments (fold apply_spelling chs candy_parser) ! i)"
proof -
  have w: "list_all (well_spelled candy_parser) chs"
    using assms(1) fits_well_spelled by (auto simp: list_all_iff)
  have "i < length all_options" using assms(4) candy_index by (auto simp: option_index_def)
  moreover have "\<forall>a \<in> set all_options. \<not> m_is_repeatable a"
    by (simp add: all_options_def candy_options_def option_kinds)
  moreover have "find (\<lambda>ch. option_index candy_parser ch = Some i) chs \<noteq> None"
    using assms(3,4) by (auto simp: find_None_iff)
  ultimately show ?thesis
    using fold_spelled_at [OF w assms(2), of i] by (auto simp: candy_opts used_with_def)
qed

lemma refused_raises:
  assumes "list_all fits chs" and "distinct (map (option_index candy_parser) chs)" and "refused chs args"
  shows "parse_loop (preprocess_arguments candy_parser args) (fold apply_spelling chs candy_parser) = Raised"
  using assms(3)
proof cases
  case (positional arg rest)
  then show ?thesis by (simp add: preprocess_arguments_def keep_value)
next
  case (unknown arg rest)
  then obtain r where r: "arg = 45 # 45 # r" by (cases arg; cases "tl arg") (auto simp: numeral_2_eq_2)
  have "map_of (m_argument_map candy_parser) arg = None"
    using unknown(4) candy_index nth_mem by (cases "map_of (m_argument_map candy_parser) arg") auto
  then show ?thesis
    using unknown r by (simp add: preprocess_arguments_def keep_plain)
next
  case (twice ch n rest)
  have "well_spelled candy_parser ch" using assms(1) twice(2) fits_well_spelled by (auto simp: list_all_iff)
  then obtain i where i: "option_index candy_parser ch = Some i" by (auto simp: well_spelled_def split: option.splits)
  then show ?thesis
    using used_after [OF assms(1,2) twice(2) i] twice name_not_value [of n i]
    by (simp add: preprocess_arguments_def keep_plain consume_at_def consume_def)
next
  case (no_value n)
  then show ?thesis
    using value_shape [OF assms(1,2), of n] name_not_value [of n]
    by (auto simp: preprocess_arguments_def keep_plain consume_at_def consume_def Let_def)
next
  case (option_as_value n v rest)
  then show ?thesis
    using value_shape [OF assms(1,2), of n] name_not_value [of n] keep_option [of v]
    by (auto simp: preprocess_arguments_def keep_plain consume_at_def consume_def Let_def)
next
  case (not_a_number n v rest)
  then show ?thesis
    using value_shape [OF assms(1,2), of n] name_not_value [of n]
    by (auto simp: preprocess_arguments_def keep_plain keep_value consume_at_def consume_def Let_def)
next
  case (flag_with_value n v rest)
  then obtain i where i: "map_of (m_argument_map candy_parser) n = Some i" "take 2 n = [45, 45]" "61 \<notin> set n"
      "m_max (m_optional_arguments (fold apply_spelling chs candy_parser) ! i) = 0"
      "m_action (m_optional_arguments (fold apply_spelling chs candy_parser) ! i) = Store"
    using flag_shape [OF assms(1,2)] by blast
  then obtain r where r: "n = 45 # 45 # r" by (cases n; cases "tl n") (auto simp: numeral_2_eq_2)
  have "map_of (m_argument_map candy_parser) (n @ 61 # v) = None"
    using name_not_value [of "n @ 61 # v"] by (cases "map_of (m_argument_map candy_parser) (n @ 61 # v)") auto
  then have "preprocess_argument (m_argument_map candy_parser) (n @ 61 # v) = [n, v]"
    using i r find_first [of n v] by (simp add: preprocess_argument_def)
  then show ?thesis
    using i flag_with_value name_not_value [of n i]
    by (auto simp: preprocess_arguments_def consume_at_def consume_def Let_def)
qed

lemma refused_rejected:
  assumes "list_all fits chs" and "distinct (map (option_index candy_parser) chs)" and "plain_program candy_parser prog"
    and "refused chs args"
  shows "command_line_of (prog # concat (map spell chs) @ args) = Rejected"
  using parse_after [OF assms(1-3), of args] refused_raises [OF assms(1,2,4)] by (simp add: command_line_of_def)


section \<open>A number option left bare\<close>

definition reads_alike :: "ArgumentParser \<Rightarrow> ArgumentParser \<Rightarrow> bool" where
  "reads_alike q p \<longleftrightarrow> m_argument_map q = m_argument_map p \<and>
     (\<forall>i. m_is_used (m_optional_arguments q ! i) = m_is_used (m_optional_arguments p ! i) \<and>
       (m_is_used (m_optional_arguments p ! i) \<longrightarrow>
         option_value (m_optional_arguments q ! i) = option_value (m_optional_arguments p ! i)))"

lemma get_alike: "reads_alike q p \<Longrightarrow> get_if_used cast q n = get_if_used cast p n"
  by (auto simp: reads_alike_def get_if_used_def option_at_def split: option.splits)

lemma read_alike: "reads_alike q p \<Longrightarrow> read_options q = read_options p"
  by (simp only: read_options_def get_alike)

lemma bare_number:
  assumes "list_all fits chs" and "distinct (map (option_index candy_parser) chs)" and "plain_program candy_parser prog"
    and "ns \<in> set int_names" and "int_option ns dv \<in> set all_options" and "n \<in> set ns"
    and "is_positional d" and "parse_number d = Some dv"
  shows "command_line_of (prog # concat (map spell chs) @ [str n]) =
    command_line_of (prog # concat (map spell chs) @ [str n, d])"
proof -
  let ?p = "fold apply_spelling chs candy_parser"
  let ?a = "int_option ns dv"
  have n: "m_names ?a = map str ns" "str n \<in> set (map str ns)" using assms(6) by (simp_all add: option_kinds)
  obtain i where i: "map_of (m_argument_map candy_parser) (str n) = Some i"
    and shape: "m_min (m_optional_arguments ?p ! i) = 1" "m_max (m_optional_arguments ?p ! i) = 1"
      "m_action (m_optional_arguments ?p ! i) = ScanInt" "m_default_value (m_optional_arguments ?p ! i) = Some (AInt dv)"
    and fresh: "chosen_as ns chs = None \<longrightarrow> m_optional_arguments ?p ! i = ?a"
    using shape_after [OF assms(1,2,5) n] by (auto simp: Let_def option_kinds)
  have p: "m_argument_map ?p = m_argument_map candy_parser" by simp
  have il: "i < length (m_optional_arguments ?p)"
    using i candy_index by (simp add: candy_opts)
  have pre: "preprocess_arguments candy_parser [str n] = [str n]" "preprocess_arguments candy_parser [str n, d] = [str n, d]"
    using name_not_value [OF i] assms(7) by (simp_all add: preprocess_arguments_def keep_plain keep_value)
  note after = parse_after [OF assms(1-3)]
  show ?thesis
  proof (cases "chosen_as ns chs")
    case None
    then have a: "m_optional_arguments ?p ! i = ?a" using fresh by simp
    let ?q = "\<lambda>b. ?p\<lparr>m_optional_arguments := (m_optional_arguments ?p)[i := b]\<rparr>"
    let ?bare = "?a\<lparr>m_is_used := True\<rparr>" and ?full = "used_with (AInt dv) ?a"
    have loops: "parse_loop [str n] ?p = Parsed (?q ?bare)" "parse_loop [str n, d] ?p = Parsed (?q ?full)"
      using i name_not_value [OF i] assms(7,8) a
      by (simp_all add: consume_at_def consume_def option_kinds used_with_def)
    have valid: "list_all validate (m_optional_arguments (?q ?bare)) = list_all validate (m_optional_arguments (?q ?full))"
      using il by (auto simp: list_all_length nth_list_update validate_def used_with_def option_kinds)
    have "reads_alike (?q ?bare) (?q ?full)"
      using il by (auto simp: reads_alike_def nth_list_update option_value_def used_with_def option_kinds)
    then show ?thesis
      using after [of "[str n]"] after [of "[str n, d]"] pre loops valid read_alike
      by (simp add: command_line_of_def)
  next
    case (Some ch)
    have "all_options ! i = ?a" "i < length all_options"
      using option_named [OF assms(5), of "str n"] n i by auto
    then have "option_index candy_parser ch = Some i"
      using chosenD [OF assms(1) Some] candy_index [of "opt_name ch" i] n(1) by (simp add: option_index_def)
    moreover have "ch \<in> set chs" using Some by (auto simp: chosen_as_def find_Some_iff)
    ultimately have "refused chs [str n]" "refused chs [str n, d]"
      using i by (auto intro: refused.twice)
    then show ?thesis using refused_rejected [OF assms(1-3)] by simp
  qed
qed

text \<open>An option that takes a number may be the last argument without one. It then counts as used with its
  default: the line means the same as with the default written out, and the default overwrites the number
  of the configuration file.\<close>

theorem bare_number_is_default:
  assumes "list_all fits chs" and "distinct (map (option_index candy_parser) chs)"
    and "plain_program candy_parser prog"
    and "(n, d) \<in> {(''--port'', ''0''), (''--mtu'', ''1400''), (''-r'', ''0''), (''--route'', ''0''), (''--discovery'', ''0'')}"
  shows "command_line_of (prog # concat (map spell chs) @ [str n]) =
    command_line_of (prog # concat (map spell chs) @ [str n, str d])"
proof -
  have o: "int_option [''--port''] 0 \<in> set all_options" "int_option [''--mtu''] 1400 \<in> set all_options"
    "int_option [''-r'', ''--route''] 0 \<in> set all_options" "int_option [''--discovery''] 0 \<in> set all_options"
    by (simp_all add: all_options_def candy_options_def)
  have v: "parse_number (str ''0'') = Some 0" "parse_number (str ''1400'') = Some 1400"
    "is_positional (str ''0'')" "is_positional (str ''1400'')"
    by code_simp+
  note bare = bare_number [OF assms(1-3)]
  from assms(4) show ?thesis
    using bare [OF _ o(1), of "''--port''"] bare [OF _ o(2), of "''--mtu''"] bare [OF _ o(3), of "''-r''"]
      bare [OF _ o(3), of "''--route''"] bare [OF _ o(4), of "''--discovery''"] v
    by (auto simp: int_names_def)
qed

section \<open>Concrete command lines\<close>

definition demo_chs :: "spelling list" where
  "demo_chs = [Spaced (str ''-m'') (str ''client''), Joined (str ''--mtu'') (str ''1300''), Flag (str ''--debug''),
     Spaced (str ''-w'') (str ''ws://s/ws'')]"

lemma demo_fits: "list_all fits demo_chs"
  by code_simp

lemma demo_distinct: "distinct (map (option_index candy_parser) demo_chs)"
  by code_simp

lemma demo_plain: "plain_program candy_parser (str ''candy'')"
  by code_simp

lemma demo_refused: "refused demo_chs [str ''--mtu'', str ''1200'']"
  by (rule refused.twice [of "Joined (str ''--mtu'') (str ''1300'')"]) code_simp+

theorem settings_from_argv_witness:
  "\<exists>a. arguments_parse plain_text (\<lambda>_. None) (command_line_of (str ''candy'' # concat (map spell demo_chs))) arguments_new
      = Inr a \<and> ag_mtu a = 1300 \<and> ag_debug a"
proof -
  let ?c = "options_chosen demo_chs"
  let ?f = "file_says plain_text (\<lambda>_. None) ?c"
  have "\<not> bad_number ?f" "chosen (co_mode ?c) ?f ''mode'' \<in> {str ''client'', str ''server''}"
    "chosen (co_websocket ?c) ?f ''websocket'' \<noteq> []"
    "ag_mtu (set_all_used ?c (settings_of ?f arguments_new)) = 1300"
    "ag_debug (set_all_used ?c (settings_of ?f arguments_new))"
    by code_simp+
  then show ?thesis
    using settings_from_argv [OF demo_fits demo_distinct demo_plain, of plain_text "\<lambda>_. None"]
    by (simp add: Let_def)
qed


theorem bare_number_is_default_witness:
  "command_line_of (str ''candy'' # concat (map spell demo_chs) @ [str ''--port'']) =
   command_line_of (str ''candy'' # concat (map spell demo_chs) @ [str ''--port'', str ''0''])"
  using bare_number_is_default [OF demo_fits demo_distinct demo_plain, of "''--port''" "''0''"] by simp

text \<open>
  Numbers in a file and on the command line: the same for decimal numbers, not for
  numbers with a leading zero, which the command line reads in base eight.
\<close>

theorem leading_zero_read_differently:
  "stoi (str ''010'') = Some 10 \<and> parse_number (str ''010'') = Some 8 \<and> parse_number (str ''09'') = None"
  by code_simp

end
