(* ===== verification/HelpText.thy ===== *)
theory HelpText
  imports CommandLine
begin

text \<open>
  What the option parser (\<^verbatim>\<open>candy-cli/src/argparse.h\<close>) prints: the usage line, which the user sees when the
  program ends because of its arguments, and the help, with positional arguments, groups, exclusive
  groups, a maximal width and subcommands; and the texts \<^verbatim>\<open>arguments::parse\<close> (\<^verbatim>\<open>config.cc\<close>) declares.
  An exclusive group is the list of the positions of its options.
\<close>

section \<open>What is shown of an argument\<close>

record ShownArgument = Argument +
  m_help :: bytes
  m_metavar :: bytes
  m_default_value_repr :: bytes
  m_is_hidden :: bool
  m_usage_newline_counter :: int
  m_group_idx :: nat

text \<open>The largest \<^verbatim>\<open>std::size_t\<close>, which stands for no bound.\<close>

definition size_max :: nat where "size_max = 2 ^ 64 - 1"

definition contains :: "bytes \<Rightarrow> bytes \<Rightarrow> bool" where
  "contains t s \<longleftrightarrow> list_ex (\<lambda>i. take (length t) (drop i s) = t) [0..<Suc (length s)]"

definition longest_name :: "bytes list \<Rightarrow> bytes" where
  "longest_name names = foldl (\<lambda>l s. if length l < length s then s else l) (hd names) names"

definition get_inline_usage :: "'a ShownArgument_scheme \<Rightarrow> bytes" where
  "get_inline_usage a =
     (if m_is_required a then [] else str ''['') @ longest_name (m_names a) @
     (if m_max a > 0
      then str '' '' @ (if m_metavar a = [] then str ''VAR'' else m_metavar a) @
        (if m_max a > 1 \<and> \<not> contains (str ''> <'') (m_metavar a) then str ''...'' else [])
      else []) @
     (if m_is_required a then [] else str '']'') @ (if m_is_repeatable a then str ''...'' else [])"

definition get_arguments_length :: "'a ShownArgument_scheme \<Rightarrow> nat" where
  "get_arguments_length a =
     (let names_size = sum_list (map length (m_names a))
      in if is_positional (hd (m_names a))
         then (if m_metavar a \<noteq> [] then 2 + length (m_metavar a) else 2 + names_size + (length (m_names a) - 1))
         else (let size = names_size + 2 * (length (m_names a) - 1);
                   size = (if m_metavar a \<noteq> [] \<and> m_min a = 1 \<and> m_max a = 1 then size + (length (m_metavar a) + 1) else size)
               in size + 2))"

text \<open>How many values an argument takes, \<^verbatim>\<open>join\<close>, and a text filled up to a width.\<close>

definition show_range :: "nat \<Rightarrow> nat \<Rightarrow> bytes" where
  "show_range lo hi =
     (if lo = hi then (if lo \<noteq> 0 \<and> lo \<noteq> 1 then str ''[nargs: '' @ show_nat lo @ str ''] '' else [])
      else if hi = size_max then str ''[nargs: '' @ show_nat lo @ str '' or more] ''
      else str ''[nargs='' @ show_nat lo @ str ''..'' @ show_nat hi @ str ''] '')"

fun join :: "bytes list \<Rightarrow> bytes \<Rightarrow> bytes" where
  "join [] separator = []"
| "join (x # xs) separator = x @ concat (map (\<lambda>y. separator @ y) xs)"

definition filled :: "nat \<Rightarrow> bytes \<Rightarrow> bytes" where
  "filled w s = s @ replicate (w - length s) 32"

text \<open>The lines of a text with their ends, and what follows the last end.\<close>

fun ended_lines :: "bytes \<Rightarrow> bytes list \<times> bytes" where
  "ended_lines [] = ([], [])"
| "ended_lines (c # cs) =
     (let (ls, rest) = ended_lines cs
      in if c = 10 then ([c] # ls, rest)
         else case ls of [] \<Rightarrow> ([], c # rest) | l # ls' \<Rightarrow> ((c # l) # ls', rest))"

text \<open>One argument in the help; \<open>w\<close> is the width that was set for it.\<close>

definition argument_names :: "'a ShownArgument_scheme \<Rightarrow> bytes" where
  "argument_names a =
     str ''  '' @
     (if is_positional (hd (m_names a))
      then (if m_metavar a \<noteq> [] then m_metavar a else join (m_names a) (str '' ''))
      else join (m_names a) (str '', '') @
        (if m_metavar a \<noteq> [] \<and> m_min a = 1 \<and> m_max a = 1 then str '' '' @ m_metavar a
         else if m_metavar a \<noteq> [] \<and> m_min a = m_max a \<and> contains (str ''> <'') (m_metavar a) then str '' '' @ m_metavar a
         else []))"

definition show_argument :: "nat \<Rightarrow> 'a ShownArgument_scheme \<Rightarrow> bytes" where
  "show_argument w a =
     (let name = argument_names a; hspace = str ''  ''; (ls, leftover) = ended_lines (m_help a);
          further = (\<lambda>l. filled w (replicate (length name) 32) @ hspace @ l);
          text = (case ls of
                    [] \<Rightarrow> hspace @ m_help a
                  | l # ls' \<Rightarrow> hspace @ l @ concat (map further ls') @ (if leftover = [] then [] else further leftover));
          said = m_default_value a \<noteq> None \<and> \<not> (m_min a = 0 \<and> m_max a = 0) \<or> m_is_required a
      in filled w name @ text @ (if m_help a = [] then [] else str '' '') @ show_range (m_min a) (m_max a) @
         (if m_default_value a \<noteq> None \<and> \<not> (m_min a = 0 \<and> m_max a = 0)
          then str ''[default: '' @ m_default_value_repr a @ str '']''
          else if m_is_required a then str ''[required]'' else []) @
         (if m_is_repeatable a then (if said then str '' '' else []) @ str ''[may be repeated]'' else []) @ [10])"

section \<open>The usage\<close>

record HelpParser =
  hp_program_name :: bytes
  hp_description :: bytes
  hp_epilog :: bytes
  hp_positional :: "ShownArgument list"
  hp_optional :: "ShownArgument list"
  hp_subparsers :: "(bytes \<times> bool \<times> bytes) list"
  hp_mutex :: "nat list list"
  hp_width :: nat
  hp_break_on_mutex :: bool
  hp_groups :: "bytes list"

text \<open>The exclusive group of the option at a position.\<close>

definition get_belonging_mutex :: "HelpParser \<Rightarrow> nat \<Rightarrow> nat option" where
  "get_belonging_mutex p i = find (\<lambda>g. i \<in> set (hp_mutex p ! g)) [0..<length (hp_mutex p)]"

text \<open>Lines already printed, the line being built, the exclusive group it is in, the counter of line breaks.\<close>

record usage_state =
  us_stream :: bytes
  us_curline :: bytes
  us_mutex :: "nat option"
  us_counter :: int
  us_found :: bool

definition flush :: "nat \<Rightarrow> usage_state \<Rightarrow> usage_state" where
  "flush indent s = s\<lparr>us_stream := us_stream s @ us_curline s @ [10], us_curline := replicate indent 32\<rparr>"

definition put :: "bytes \<Rightarrow> usage_state \<Rightarrow> usage_state" where
  "put t s = s\<lparr>us_curline := us_curline s @ t\<rparr>"

definition multiline_usage :: "HelpParser \<Rightarrow> bool" where
  "multiline_usage p \<longleftrightarrow> hp_width p < size_max"

definition usage_newline :: "HelpParser \<Rightarrow> nat \<Rightarrow> 'a ShownArgument_scheme \<Rightarrow> usage_state \<Rightarrow> usage_state" where
  "usage_newline p indent a s =
     (if multiline_usage p \<and> us_counter s \<noteq> m_usage_newline_counter a
      then (let s = (if us_counter s \<ge> 0 \<and> length (us_curline s) > indent then flush indent s else s)
            in s\<lparr>us_counter := m_usage_newline_counter a\<rparr>)
      else s)"

definition usage_mutex :: "HelpParser \<Rightarrow> nat \<Rightarrow> bytes \<Rightarrow> nat option \<Rightarrow> usage_state \<Rightarrow> usage_state" where
  "usage_mutex p indent u arg_mutex s =
     (case (us_mutex s, arg_mutex) of
        (Some _, None) \<Rightarrow> (let s = put (str '']'') s in if hp_break_on_mutex p then flush indent s else s)
      | (None, Some _) \<Rightarrow>
          (let s = (if hp_break_on_mutex p \<and> length (us_curline s) > indent \<or> length (us_curline s) + 3 + length u > hp_width p
                    then flush indent s else s)
           in put (str '' ['') s)
      | (Some m, Some m') \<Rightarrow>
          (if m \<noteq> m'
           then (let s = put (str '']'') s;
                     s = (if hp_break_on_mutex p \<or> length (us_curline s) + 3 + length u > hp_width p then flush indent s else s)
                 in put (str '' ['') s)
           else put (str ''|'') s)
      | (None, None) \<Rightarrow> s)"

definition usage_option :: "HelpParser \<Rightarrow> nat \<Rightarrow> nat \<Rightarrow> nat \<times> ShownArgument \<Rightarrow> usage_state \<Rightarrow> usage_state" where
  "usage_option p indent gi ia s =
     (let (i, a) = ia
      in if m_is_hidden a then s
         else if multiline_usage p \<and> m_group_idx a \<noteq> gi then s
         else let s = (usage_newline p indent a s)\<lparr>us_found := True\<rparr>;
                  u = get_inline_usage a; arg_mutex = get_belonging_mutex p i;
                  s = (usage_mutex p indent u arg_mutex s)\<lparr>us_mutex := arg_mutex\<rparr>;
                  s = (if length (us_curline s) + 1 + length u > hp_width p then put (str '' '') (flush indent s)
                       else if us_mutex s = None then put (str '' '') s else s)
              in put u s)"

definition deal_with_options_of_group :: "HelpParser \<Rightarrow> nat \<Rightarrow> nat \<Rightarrow> usage_state \<Rightarrow> usage_state" where
  "deal_with_options_of_group p indent gi s =
     (let s = fold (usage_option p indent gi) (enumerate 0 (hp_optional p)) (s\<lparr>us_mutex := None, us_counter := -1, us_found := False\<rparr>)
      in if us_mutex s \<noteq> None then put (str '']'') s else s)"

definition positional_name :: "'a ShownArgument_scheme \<Rightarrow> bytes" where
  "positional_name a = (if m_metavar a \<noteq> [] then m_metavar a else hd (m_names a))"

definition positional_usage :: "'a ShownArgument_scheme \<Rightarrow> bytes" where
  "positional_usage a =
     (if m_min a = 0 \<and> m_max a = size_max then str ''['' @ positional_name a @ str '']...''
      else if m_min a = 1 \<and> m_max a = size_max then positional_name a @ str ''...''
      else positional_name a)"

definition usage_positional :: "HelpParser \<Rightarrow> nat \<Rightarrow> ShownArgument \<Rightarrow> usage_state \<Rightarrow> usage_state" where
  "usage_positional p indent a s =
     (if m_is_hidden a then s
      else put (str '' '' @ positional_usage a)
        (if length (us_curline s) + 1 + length (positional_name a) > hp_width p then flush indent s else s))"

text \<open>The parts for the groups, when lines are broken, and for the subcommands.\<close>

definition usage_group :: "HelpParser \<Rightarrow> nat \<Rightarrow> nat \<times> bytes \<Rightarrow> usage_state \<Rightarrow> usage_state" where
  "usage_group p indent ig s =
     (let (i, name) = ig
      in deal_with_options_of_group p indent (i + 1)
           (s\<lparr>us_stream := us_stream s @ us_curline s @ [10, 10] @ name @ str '':'' @ [10], us_curline := replicate indent 32\<rparr>))"

definition usage_subcommands :: "(bytes \<times> bool \<times> bytes) list \<Rightarrow> bytes" where
  "usage_subcommands m =
     (if m = [] then []
      else str '' {'' @ join (map fst (filter (\<lambda>(_, suppress, _). \<not> suppress) m)) (str '','') @ str ''}'')"

definition usage :: "HelpParser \<Rightarrow> bytes" where
  "usage p =
     (let curline = str ''Usage: '' @ hp_program_name p; indent = length curline;
          s = deal_with_options_of_group p indent 0
                \<lparr>us_stream = [], us_curline = curline, us_mutex = None, us_counter = -1, us_found = False\<rparr>;
          s = (if us_found s \<and> multiline_usage p \<and> hp_positional p \<noteq> [] then flush indent s else s);
          s = fold (usage_positional p indent) (hp_positional p) s;
          s = (if multiline_usage p then fold (usage_group p indent) (enumerate 0 (hp_groups p)) s else s)
      in us_stream s @ us_curline s @ usage_subcommands (hp_subparsers p))"

section \<open>The help\<close>

definition get_length_of_longest_argument :: "HelpParser \<Rightarrow> nat" where
  "get_length_of_longest_argument p =
     (if hp_optional p = [] \<and> hp_positional p = [] then 0
      else fold max (map length (map fst (hp_subparsers p)))
        (fold max (map get_arguments_length (hp_positional p @ hp_optional p)) 0))"

definition group_help :: "HelpParser \<Rightarrow> nat \<Rightarrow> bytes" where
  "group_help p gi =
     concat (map (show_argument (get_length_of_longest_argument p))
       (filter (\<lambda>a. m_group_idx a = gi \<and> \<not> m_is_hidden a) (hp_optional p)))"

definition subcommands_help :: "HelpParser \<Rightarrow> bytes" where
  "subcommands_help p =
     (let shown = filter (\<lambda>(_, suppress, _). \<not> suppress) (hp_subparsers p)
      in if shown = [] then []
         else (if hp_positional p = [] then (if hp_optional p = [] then [] else [10]) else [10]) @ str ''Subcommands:'' @ [10] @
           concat (map (\<lambda>(command, _, description).
             str ''  '' @ filled (get_length_of_longest_argument p - 2) command @ str '' '' @ description @ [10]) shown))"

definition help_text :: "HelpParser \<Rightarrow> bytes" where
  "help_text p =
     (let shown = filter (\<lambda>a. \<not> m_is_hidden a) (hp_positional p)
      in usage p @ [10, 10] @
         (if hp_description p = [] then [] else hp_description p @ [10, 10]) @
         (if shown = [] then [] else str ''Positional arguments:'' @ [10]) @
         concat (map (show_argument (get_length_of_longest_argument p)) shown) @
         (if hp_optional p = [] then [] else (if shown = [] then [] else [10]) @ str ''Optional arguments:'' @ [10]) @
         group_help p 0 @
         concat (map (\<lambda>(i, name). [10] @ name @ str '' (detailed usage):'' @ [10] @ group_help p (i + 1)) (enumerate 0 (hp_groups p))) @
         subcommands_help p @
         (if hp_epilog p = [] then [] else [10] @ hp_epilog p @ [10, 10]))"

section \<open>Declaring arguments with their texts\<close>

definition repr :: "any \<Rightarrow> bytes" where
  "repr v = (case v of ABool b \<Rightarrow> str (if b then ''true'' else ''false'') | AStr s \<Rightarrow> 34 # s @ [34] | AInt i \<Rightarrow> to_string i)"

definition add_description :: "bytes \<Rightarrow> HelpParser \<Rightarrow> HelpParser" where
  "add_description t p = p\<lparr>hp_description := t\<rparr>"

definition add_epilog :: "bytes \<Rightarrow> HelpParser \<Rightarrow> HelpParser" where
  "add_epilog t p = p\<lparr>hp_epilog := t\<rparr>"

definition add_group :: "bytes \<Rightarrow> HelpParser \<Rightarrow> HelpParser" where
  "add_group g p = p\<lparr>hp_groups := hp_groups p @ [g]\<rparr>"

text \<open>An argument, as \<^verbatim>\<open>add_argument\<close> and the calls that follow it leave it; its names are not those of another.\<close>

definition add_shown :: "Argument \<Rightarrow> bytes \<Rightarrow> bytes \<Rightarrow> HelpParser \<Rightarrow> HelpParser" where
  "add_shown a metavar t p =
     (let a = Argument.extend a
            \<lparr>m_help = t, m_metavar = metavar,
             m_default_value_repr = (case m_default_value a of None \<Rightarrow> [] | Some v \<Rightarrow> repr v),
             m_is_hidden = False, m_usage_newline_counter = 0, m_group_idx = length (hp_groups p)\<rparr>
      in if list_ex (\<lambda>n. \<not> is_positional n) (m_names a) then p\<lparr>hp_optional := hp_optional p @ [a]\<rparr>
         else p\<lparr>hp_positional := hp_positional p @ [a]\<rparr>)"

definition HelpParser_new :: "bytes \<Rightarrow> HelpParser" where
  "HelpParser_new name =
     add_shown (shown_option [''-v'', ''--version'']) [] (str ''prints version information and exits'')
      (add_shown (shown_option [''-h'', ''--help'']) [] (str ''shows help message and exits'')
        \<lparr>hp_program_name = name, hp_description = [], hp_epilog = [], hp_positional = [], hp_optional = [],
         hp_subparsers = [], hp_mutex = [], hp_width = size_max, hp_break_on_mutex = False, hp_groups = []\<rparr>)"

section \<open>The texts of the program\<close>

definition lines_of :: "string list \<Rightarrow> bytes" where
  "lines_of ls = join (map str ls) [10]"

definition candy_help :: HelpParser where
  \<open>candy_help = fold (\<lambda>f p. f p)
    [add_description (str ''A simple P2P VPN / SD-WAN networking tool.''),
     add_shown (text_option [''-c'', ''--config'']) (str ''<path>'')
      (lines_of [''config file path (key=value format, same keys as CLI args)'']),
     add_shown (text_option [''-m'', ''--mode'']) (str ''<mode>'')
      (lines_of [''working mode: "client" or "server"'']),
     add_shown (text_option [''-w'', ''--websocket'']) (str ''<url>'')
      (lines_of [''WebSocket signaling address (e.g. "ws://host:port/ws").'',
        ''Client supports ws:// and wss://; server supports ws:// only.'']),
     add_shown (text_option [''-p'', ''--password'']) (str ''<secret>'')
      (lines_of [''pre-shared key for authentication and P2P encryption.'',
        ''Password is never transmitted in plaintext; only HMAC-SHA256 hashes are sent.'']),
     add_group (str ''Client options''),
     add_shown (text_option [''-n'', ''--name'']) (str ''<iface>'')
      (lines_of [''TUN interface name suffix. Device will be named "candy-<name>".'',
        ''Useful when running multiple clients on one host. (client only)'']),
     add_shown (text_option [''-t'', ''--tun'']) (str ''<cidr>'')
      (lines_of [''static TUN address in CIDR notation (e.g. "192.168.202.1/24").'',
        ''If omitted, the client requests a dynamic address from the server via DHCP. (client only)'']),
     add_shown (text_option [''-s'', ''--stun'']) (str ''<url>'')
      (lines_of [''STUN server address for NAT traversal (e.g. "stun://stun.example.org").'',
        ''If omitted: P2P works only on the local network (LAN);'',
        ''public internet peer-to-peer connections will fail.'',
        ''Also disables periodic discovery broadcasts. (client only)'']),
     add_shown (int_option [''--port''] 0) (str ''<int>'')
      (lines_of [''local UDP port for P2P communication.'',
        ''Default is 0 (OS assigns a random port).'',
        ''Specify a fixed port when firewall rules require it. (client only)'']),
     add_shown (int_option [''--mtu''] 1400) (str ''<int>'')
      (lines_of [''maximum transmission unit for the TUN device.'',
        ''Default is 1400. (client only)'']),
     add_shown (int_option [''-r'', ''--route''] 0) (str ''<int>'')
      (lines_of [''routing cost (0-1000), added to measured RTT when advertising routes.'',
        ''Default is 0 (relay disabled): this node does not forward traffic for other peers.'',
        ''Set > 0 to enable relay mode. (client only)'']),
     add_shown (int_option [''--discovery''] 0) (str ''<int>'')
      (lines_of [''periodic P2P discovery interval in seconds.'',
        ''Default is 0 (disabled). Requires STUN to be configured.'',
        ''When enabled, periodically broadcasts discovery to trigger P2P attempts. (client only)'']),
     add_shown (text_option [''--localhost'']) (str ''<ip>'')
      (lines_of [''local IPv4 address used for P2P peering.'',
        ''If omitted, auto-detected from the first physical network interface. (client only)'']),
     add_shown (flag_option [''--p2p-only'']) []
      (lines_of [''allow business packets only over direct P2P links.'',
        ''WebSocket remains available for signaling, but relay forwarding is disabled.'',
        ''Default is false (fall back to WebSocket relay when P2P is unavailable). (client only)'']),
     add_shown (flag_option [''--userspace-stack'']) []
      (lines_of [''terminate landing traffic with the built-in userspace network stack (lwIP)'',
        ''instead of the kernel stack. Default is false (kernel). (client only)'']),
     add_shown (flag_option [''--udp-port-convergence'']) []
      (lines_of [''converge all inner UDP sources onto a single landing socket/port (single-port mode)'',
        ''instead of one socket per source. Requires --userspace-stack.'',
        ''Default is false (per-source full-cone). (client only)'']),
     add_group (str ''Server options''),
     add_shown (text_option [''-d'', ''--dhcp'']) (str ''<cidr>'')
      (lines_of [''DHCP address pool for dynamic client address allocation'',
        ''(e.g. "192.168.202.0/24"). Also enables directed broadcast detection.'',
        ''If omitted, clients must use a static --tun address. (server only)'']),
     add_shown (text_option [''--sdwan'']) (str ''<rules>'')
      (lines_of [''software-defined routing rules.'',
        ''Format: "dev_cidr,dst_cidr,nexthop;..." (semicolon-separated).'',
        ''Pushes sys route entries to matching clients on connect. (server only)'']),
     add_group (str ''Logging options''),
     add_shown (flag_option [''--no-timestamp'']) []
      (lines_of [''omit timestamps from log output (shows only log level and message).'']),
     add_shown (flag_option [''--debug'']) []
      (lines_of [''enable debug-level logging.'']),
     add_epilog (lines_of [''Examples:'',
        ''  Client with static address:'',
        ''    candy -m client -w wss://server.example.com/ws -p mysecret -t 192.168.202.1/24'',
        ''  Client with DHCP (dynamic address):'',
        ''    candy -m client -w wss://server.example.com/ws -p mysecret -s stun://stun.example.com'',
        ''  Server:'',
        ''    candy -m server -w ws://0.0.0.0:8080/ws -p mysecret -d 192.168.202.0/24'',
        ''  Using config file:'',
        ''    candy -c candy.cfg''])]
    (HelpParser_new (str ''candy''))\<close>

lemmas declaring = candy_help_def HelpParser_new_def add_shown_def add_group_def add_description_def add_epilog_def Let_def

text \<open>They describe the options the program parses.\<close>

lemma described_options: "map Argument.truncate (hp_optional candy_help) = all_options"
  by (simp add: declaring Argument.defs option_kinds all_options_def candy_options_def str_def is_positional_def is_decimal_literal_def is_digit_def)

section \<open>What the user reads\<close>

lemma usage_option_line:
  assumes "hp_mutex p = []" and "\<not> multiline_usage p" and "us_mutex s = None"
    and "length (us_curline s) + 1 + length (get_inline_usage a) \<le> hp_width p"
  shows "usage_option p indent g (i, a) s =
    (if m_is_hidden a then s else s\<lparr>us_curline := us_curline s @ 32 # get_inline_usage a, us_found := True\<rparr>)"
  using assms by (auto simp: usage_option_def usage_newline_def usage_mutex_def get_belonging_mutex_def put_def Let_def str_def)

text \<open>What the options and the positional arguments add to a line that is long enough.\<close>

definition inline_options :: "ShownArgument list \<Rightarrow> bytes" where
  "inline_options as = concat (map (\<lambda>a. 32 # get_inline_usage a) (filter (\<lambda>a. \<not> m_is_hidden a) as))"

definition inline_positional :: "ShownArgument list \<Rightarrow> bytes" where
  "inline_positional as = concat (map (\<lambda>a. 32 # positional_usage a) (filter (\<lambda>a. \<not> m_is_hidden a) as))"

lemma options_line:
  assumes "hp_mutex p = []" and "\<not> multiline_usage p"
  shows "us_mutex s = None \<Longrightarrow> length (us_curline s @ inline_options (map snd ias)) \<le> hp_width p \<Longrightarrow>
    \<exists>found. fold (usage_option p indent g) ias s = s\<lparr>us_curline := us_curline s @ inline_options (map snd ias), us_found := found\<rparr>"
proof (induction ias arbitrary: s)
  case Nil
  then show ?case by (intro exI [of _ "us_found s"]) (simp add: inline_options_def)
next
  case (Cons ia ias)
  obtain i a where ia: "ia = (i, a)" by (cases ia)
  show ?case
  proof (cases "m_is_hidden a")
    case True
    then have "usage_option p indent g ia s = s" by (simp add: ia usage_option_def)
    then show ?thesis using Cons.IH [of s] Cons.prems True by (simp add: ia inline_options_def)
  next
    case False
    have l: "length (us_curline s) + 1 + length (get_inline_usage a) \<le> hp_width p"
      using Cons.prems(2) False by (simp add: ia inline_options_def)
    let ?s = "s\<lparr>us_curline := us_curline s @ 32 # get_inline_usage a, us_found := True\<rparr>"
    have "usage_option p indent g ia s = ?s"
      using usage_option_line [OF assms Cons.prems(1) l] False by (simp add: ia)
    then show ?thesis using Cons.IH [of ?s] Cons.prems False by (simp add: ia inline_options_def)
  qed
qed

lemma positional_line:
  "length (us_curline s @ inline_positional as) \<le> hp_width p \<Longrightarrow>
    fold (usage_positional p indent) as s = s\<lparr>us_curline := us_curline s @ inline_positional as\<rparr>"
proof (induction as arbitrary: s)
  case Nil
  then show ?case by (simp add: inline_positional_def)
next
  case (Cons a as)
  have n: "length (positional_name a) \<le> length (positional_usage a)"
    by (simp add: positional_usage_def)
  show ?case
    using Cons.IH [of s] Cons.IH [of "put (str '' '' @ positional_usage a) s"] Cons.prems n
    by (auto simp: usage_positional_def inline_positional_def put_def str_def)
qed

text \<open>Without a maximal width and exclusive groups, the usage is one line, with every visible argument in it.\<close>

theorem usage_is_one_line:
  assumes "hp_mutex p = []" and "hp_width p = size_max"
    and "length (str ''Usage: '' @ hp_program_name p @ inline_options (hp_optional p) @ inline_positional (hp_positional p)) \<le> size_max"
  shows "usage p = str ''Usage: '' @ hp_program_name p @ inline_options (hp_optional p) @
    inline_positional (hp_positional p) @ usage_subcommands (hp_subparsers p)"
proof -
  let ?c = "str ''Usage: '' @ hp_program_name p"
  let ?s = "\<lparr>us_stream = [], us_curline = ?c, us_mutex = None, us_counter = -1, us_found = False\<rparr>"
  have m: "\<not> multiline_usage p" by (simp add: multiline_usage_def assms(2))
  have "\<exists>found. fold (usage_option p (length ?c) 0) (enumerate 0 (hp_optional p)) ?s =
      ?s\<lparr>us_curline := ?c @ inline_options (hp_optional p), us_found := found\<rparr>"
    using options_line [OF assms(1) m, of ?s "enumerate 0 (hp_optional p)" "length ?c" 0] assms by simp
  then obtain found where f: "deal_with_options_of_group p (length ?c) 0 ?s =
      ?s\<lparr>us_curline := ?c @ inline_options (hp_optional p), us_found := found\<rparr>"
    by (auto simp: deal_with_options_of_group_def)
  show ?thesis
    using assms m positional_line [of "?s\<lparr>us_curline := ?c @ inline_options (hp_optional p), us_found := found\<rparr>" "hp_positional p" p "length ?c"]
    unfolding usage_def Let_def f by simp
qed

text \<open>The options of the program, in the order of their declaration.\<close>

text \<open>The options of the program, in the order of their declaration.\<close>

definition option_usages :: "string list" where
  "option_usages =
     [''[--help]'', ''[--version]'', ''[--config <path>]'', ''[--mode <mode>]'', ''[--websocket <url>]'',
      ''[--password <secret>]'', ''[--name <iface>]'', ''[--tun <cidr>]'', ''[--stun <url>]'', ''[--port <int>]'',
      ''[--mtu <int>]'', ''[--route <int>]'', ''[--discovery <int>]'', ''[--localhost <ip>]'', ''[--p2p-only]'',
      ''[--userspace-stack]'', ''[--udp-port-convergence]'', ''[--dhcp <cidr>]'', ''[--sdwan <rules>]'',
      ''[--no-timestamp]'', ''[--debug]'']"

lemma candy_usages:
  "\<forall>a \<in> set (hp_optional candy_help). \<not> m_is_hidden a"
  "map get_inline_usage (hp_optional candy_help) = map str option_usages"
  by (simp_all add: declaring Argument.defs option_kinds str_def is_positional_def is_decimal_literal_def is_digit_def
      get_inline_usage_def longest_name_def option_usages_def)

theorem candy_usage: "usage candy_help = str (''Usage: candy'' @ concat (map (\<lambda>u. CHR '' '' # u) option_usages))"
proof -
  have "inline_options (hp_optional candy_help) = concat (map (\<lambda>u. 32 # u) (map get_inline_usage (hp_optional candy_help)))"
    using candy_usages(1) by (simp add: inline_options_def o_def)
  also have "\<dots> = str (concat (map (\<lambda>u. CHR '' '' # u) option_usages))"
    by (simp add: candy_usages(2) str_def map_concat o_def)
  finally have o: "inline_options (hp_optional candy_help) = str (concat (map (\<lambda>u. CHR '' '' # u) option_usages))" .
  have p: "hp_mutex candy_help = []" "hp_width candy_help = size_max" "hp_program_name candy_help = str ''candy''"
    "hp_positional candy_help = []" "hp_subparsers candy_help = []"
    by (simp_all add: declaring Argument.defs option_kinds str_def is_positional_def is_decimal_literal_def is_digit_def)
  have "length (concat (map (\<lambda>u. CHR '' '' # u) option_usages)) \<le> 1000" by (simp add: option_usages_def)
  then show ?thesis
    using usage_is_one_line [of candy_help] unfolding o p
    by (simp add: inline_positional_def usage_subcommands_def str_def size_max_def)
qed

text \<open>The help begins with the usage, and shows every visible option of a group that exists.\<close>

lemma show_among:
  assumes "a \<in> set as" and "P a"
  shows "\<exists>before after. concat (map f (filter P as)) = before @ f a @ after"
proof -
  obtain xs ys where "as = xs @ a # ys" using split_list [OF assms(1)] by blast
  then show ?thesis using assms(2) by (auto intro: exI [of _ "concat (map f (filter P xs))"])
qed

theorem help_shows_options:
  assumes "a \<in> set (hp_optional p)" and "\<not> m_is_hidden a" and "m_group_idx a \<le> length (hp_groups p)"
  shows "\<exists>before after. help_text p = usage p @ before @ show_argument (get_length_of_longest_argument p) a @ after"
proof -
  let ?w = "get_length_of_longest_argument p"
  obtain b c where g: "group_help p (m_group_idx a) = b @ show_argument ?w a @ c"
    using show_among [OF assms(1), of "\<lambda>x. m_group_idx x = m_group_idx a \<and> \<not> m_is_hidden x" "show_argument ?w"] assms(2)
    by (auto simp: group_help_def)
  show ?thesis
  proof (cases "m_group_idx a")
    case 0
    then show ?thesis using g unfolding help_text_def Let_def by (metis append.assoc)
  next
    case (Suc i)
    then have i: "(i, hp_groups p ! i) \<in> set (enumerate 0 (hp_groups p))"
      using assms(3) by (auto simp: in_set_enumerate_eq)
    let ?f = "\<lambda>(i, name). [10] @ name @ str '' (detailed usage):'' @ [10] @ group_help p (i + 1)"
    obtain x y where "concat (map ?f (enumerate 0 (hp_groups p))) = x @ ?f (i, hp_groups p ! i) @ y"
      using show_among [OF i, of "\<lambda>_. True" ?f] by auto
    then have "concat (map ?f (enumerate 0 (hp_groups p))) =
        x @ ([10] @ hp_groups p ! i @ str '' (detailed usage):'' @ [10] @ b) @ show_argument ?w a @ (c @ y)"
      using g Suc by simp
    then show ?thesis unfolding help_text_def Let_def by (metis append.assoc)
  qed
qed

end
