(* ===== verification/Suggest.thy ===== *)
theory Suggest
  imports HelpText
begin

text \<open>
  What else the option parser (\<^verbatim>\<open>candy-cli/src/argparse.h\<close>) tells and accepts: the name it
  suggests for a mistyped one, by the distance of Levenshtein; the complaints about positional arguments
  and exclusive groups; parsing that leaves aside what it does not know, against parsing that refuses it.
\<close>

section \<open>Distance of two texts\<close>

definition levenshtein_cell :: "'a list \<Rightarrow> 'a list \<Rightarrow> nat \<Rightarrow> nat \<Rightarrow> (nat \<Rightarrow> nat \<Rightarrow> nat) \<Rightarrow> nat \<Rightarrow> nat \<Rightarrow> nat" where
  "levenshtein_cell s1 s2 i j dp =
     dp(i := (dp i)(j :=
       (if i = 0 then j
        else if j = 0 then i
        else if s1 ! (i - 1) = s2 ! (j - 1) then dp (i - 1) (j - 1)
        else 1 + min (min (dp (i - 1) j) (dp i (j - 1))) (dp (i - 1) (j - 1)))))"

definition levenshtein_row :: "'a list \<Rightarrow> 'a list \<Rightarrow> nat \<Rightarrow> (nat \<Rightarrow> nat \<Rightarrow> nat) \<Rightarrow> nat \<Rightarrow> nat \<Rightarrow> nat" where
  "levenshtein_row s1 s2 i dp = fold (levenshtein_cell s1 s2 i) [0..<length s2 + 1] dp"

definition get_levenshtein_distance :: "'a list \<Rightarrow> 'a list \<Rightarrow> nat" where
  "get_levenshtein_distance s1 s2 =
     fold (levenshtein_row s1 s2) [0..<length s1 + 1] (\<lambda>_ _. 0) (length s1) (length s2)"

text \<open>The map of names as their list in its order.\<close>

definition get_most_similar_string :: "bytes list \<Rightarrow> bytes \<Rightarrow> bytes" where
  "get_most_similar_string names input =
     fst (fold (\<lambda>entry (most_similar, min_distance).
            (let distance = get_levenshtein_distance entry input
             in if distance < min_distance then (entry, distance) else (most_similar, min_distance)))
          names ([], size_max))"

text \<open>One text becomes another by keeping, changing, adding and leaving out characters; the last three count.\<close>

inductive turned :: "nat \<Rightarrow> 'a list \<Rightarrow> 'a list \<Rightarrow> bool" where
  nothing: "turned 0 [] []"
| kept: "turned n xs ys \<Longrightarrow> turned n (x # xs) (x # ys)"
| changed: "turned n xs ys \<Longrightarrow> turned (Suc n) (x # xs) (y # ys)"
| added: "turned n xs ys \<Longrightarrow> turned (Suc n) xs (y # ys)"
| dropped: "turned n xs ys \<Longrightarrow> turned (Suc n) (x # xs) ys"

lemma turned_append: "turned n xs ys \<Longrightarrow> turned m as bs \<Longrightarrow> turned (n + m) (xs @ as) (ys @ bs)"
  by (induction rule: turned.induct) (auto intro: turned.intros)

lemma turned_one: "turned 0 [x] [x]" "turned 1 [x] [y]" "turned 1 [] [y]" "turned 1 [x] []"
  using turned.intros(1) [THEN turned.intros(2)] turned.intros(1) [THEN turned.intros(3)]
    turned.intros(1) [THEN turned.intros(4)] turned.intros(1) [THEN turned.intros(5)] by simp_all

lemma turned_rev: "turned n xs ys \<Longrightarrow> turned n (rev xs) (rev ys)"
proof (induction rule: turned.induct)
  case nothing
  then show ?case by (simp add: turned.nothing)
next
  case (kept n xs ys x)
  then show ?case using turned_append [OF kept.IH turned_one(1)] by simp
next
  case (changed n xs ys x y)
  then show ?case using turned_append [OF changed.IH turned_one(2) [of x y]] by simp
next
  case (added n xs ys y)
  then show ?case using turned_append [OF added.IH turned_one(3)] by simp
next
  case (dropped n xs ys x)
  then show ?case using turned_append [OF dropped.IH turned_one(4)] by simp
qed

text \<open>The recursion the table stands for, from the front of the texts.\<close>

fun fewest :: "'a list \<Rightarrow> 'a list \<Rightarrow> nat" where
  "fewest [] ys = length ys"
| "fewest (x # xs) [] = Suc (length xs)"
| "fewest (x # xs) (y # ys) =
     (if x = y then fewest xs ys else 1 + min (min (fewest xs (y # ys)) (fewest (x # xs) ys)) (fewest xs ys))"

lemma turned_length: "turned (length ys) [] ys" "turned (length xs) xs []"
  by (induction ys; auto intro: turned.intros) (induction xs; auto intro: turned.intros)

lemma fewest_turned: "turned (fewest xs ys) xs ys"
proof (induction xs ys rule: fewest.induct)
  case (2 x xs)
  then show ?case using turned_length(2) [of "x # xs"] by simp
next
  case (3 x xs y ys)
  then show ?case
    by (cases "x = y") (auto simp: min_def intro: turned.intros)
qed (simp add: turned_length)

lemma fewest_nil [simp]: "fewest xs [] = length xs"
  by (cases xs) simp_all

lemma fewest_close:
  "fewest (x # xs) ys \<le> Suc (fewest xs ys) \<and> fewest xs ys \<le> Suc (fewest (x # xs) ys) \<and>
   fewest xs (y # ys) \<le> Suc (fewest xs ys) \<and> fewest xs ys \<le> Suc (fewest xs (y # ys))"
proof (induction "length xs + length ys" arbitrary: x xs y ys rule: less_induct)
  case less
  have a: "fewest (x # xs) ys \<le> Suc (fewest xs ys) \<and> fewest xs ys \<le> Suc (fewest (x # xs) ys)"
  proof (cases ys)
    case (Cons z zs)
    then have "length xs + length zs < length xs + length ys" by simp
    from less.hyps [OF this, of x z] show ?thesis using Cons by (auto simp: min_def)
  qed simp
  have b: "fewest xs (y # ys) \<le> Suc (fewest xs ys) \<and> fewest xs ys \<le> Suc (fewest xs (y # ys))"
  proof (cases xs)
    case (Cons z zs)
    then have "length zs + length ys < length xs + length ys" by simp
    from less.hyps [OF this, of z y] show ?thesis using Cons by (auto simp: min_def)
  qed simp
  show ?case using a b by blast
qed

lemma fewest_least: "turned n xs ys \<Longrightarrow> fewest xs ys \<le> n"
proof (induction rule: turned.induct)
  case (added n xs ys y)
  then show ?case using fewest_close by (metis Suc_le_mono le_trans)
next
  case (dropped n xs ys x)
  then show ?case using fewest_close by (metis Suc_le_mono le_trans)
qed auto

lemma turned_rev_iff: "turned n (rev xs) (rev ys) \<longleftrightarrow> turned n xs ys"
  using turned_rev [of n xs ys] turned_rev [of n "rev xs" "rev ys"] by auto

text \<open>The table holds the distances of the prefixes.\<close>

definition prefix_distance :: "'a list \<Rightarrow> 'a list \<Rightarrow> nat \<Rightarrow> nat \<Rightarrow> nat" where
  "prefix_distance s1 s2 i j = fewest (rev (take i s1)) (rev (take j s2))"

lemma prefix_distance_step:
  assumes "i \<le> length s1" and "j \<le> length s2"
  shows "prefix_distance s1 s2 i j =
    (if i = 0 then j
     else if j = 0 then i
     else if s1 ! (i - 1) = s2 ! (j - 1) then prefix_distance s1 s2 (i - 1) (j - 1)
     else 1 + min (min (prefix_distance s1 s2 (i - 1) j) (prefix_distance s1 s2 i (j - 1))) (prefix_distance s1 s2 (i - 1) (j - 1)))"
proof (cases "i = 0 \<or> j = 0")
  case False
  then obtain i' j' where ij: "i = Suc i'" "j = Suc j'" by (metis not0_implies_Suc)
  then have t: "rev (take i s1) = s1 ! i' # rev (take i' s1)" "rev (take j s2) = s2 ! j' # rev (take j' s2)"
    using assms by (simp_all add: take_Suc_conv_app_nth)
  show ?thesis using t by (simp add: prefix_distance_def ij)
qed (use assms in \<open>auto simp: prefix_distance_def\<close>)

lemma levenshtein_cell_other: "k \<noteq> i \<or> l \<noteq> j \<Longrightarrow> levenshtein_cell s1 s2 i j dp k l = dp k l"
  by (auto simp: levenshtein_cell_def)

lemma levenshtein_cell_correct:
  assumes "i \<le> length s1" and "j \<le> length s2"
    and old: "\<forall>k<i. \<forall>l\<le>length s2. dp k l = prefix_distance s1 s2 k l" and row: "\<forall>l<j. dp i l = prefix_distance s1 s2 i l"
  shows "levenshtein_cell s1 s2 i j dp i j = prefix_distance s1 s2 i j"
proof -
  have "dp (i - 1) l = prefix_distance s1 s2 (i - 1) l" if "i \<noteq> 0" "l \<le> length s2" for l
    using old that by simp
  moreover have "dp i (j - 1) = prefix_distance s1 s2 i (j - 1)" if "j \<noteq> 0"
    using row that by simp
  ultimately show ?thesis
    using assms(2) unfolding prefix_distance_step [OF assms(1,2)] levenshtein_cell_def by simp
qed

lemma levenshtein_row_correct:
  assumes i: "i \<le> length s1" and rows: "\<forall>k<i. \<forall>l\<le>length s2. dp k l = prefix_distance s1 s2 k l"
  shows "n \<le> length s2 + 1 \<Longrightarrow>
    (\<forall>k<i. \<forall>l\<le>length s2. fold (levenshtein_cell s1 s2 i) [0..<n] dp k l = prefix_distance s1 s2 k l) \<and>
    (\<forall>l<n. fold (levenshtein_cell s1 s2 i) [0..<n] dp i l = prefix_distance s1 s2 i l)"
proof (induction n)
  case 0
  show ?case using rows by simp
next
  case (Suc n)
  define dp' where "dp' = fold (levenshtein_cell s1 s2 i) [0..<n] dp"
  have s: "fold (levenshtein_cell s1 s2 i) [0..<Suc n] dp = levenshtein_cell s1 s2 i n dp'"
    by (simp add: dp'_def)
  have ih: "\<forall>k<i. \<forall>l\<le>length s2. dp' k l = prefix_distance s1 s2 k l" "\<forall>l<n. dp' i l = prefix_distance s1 s2 i l"
    using Suc by (simp_all add: dp'_def)
  show ?case
    unfolding s using ih levenshtein_cell_correct [OF i _ ih] Suc.prems
    by (auto simp: levenshtein_cell_other less_Suc_eq)
qed

lemma levenshtein_table:
  "n \<le> length s1 + 1 \<Longrightarrow> \<forall>k<n. \<forall>l\<le>length s2. fold (levenshtein_row s1 s2) [0..<n] (\<lambda>_ _. 0) k l = prefix_distance s1 s2 k l"
proof (induction n)
  case (Suc n)
  define dp where "dp = fold (levenshtein_row s1 s2) [0..<n] (\<lambda>_ _. 0)"
  have s: "fold (levenshtein_row s1 s2) [0..<Suc n] (\<lambda>_ _. 0) = levenshtein_row s1 s2 n dp"
    by (simp add: dp_def)
  have "\<forall>k<n. \<forall>l\<le>length s2. dp k l = prefix_distance s1 s2 k l" using Suc by (simp add: dp_def)
  then show ?case
    unfolding s unfolding levenshtein_row_def
    using levenshtein_row_correct [of n s1 s2 dp "length s2 + 1"] Suc.prems
    by (auto simp: less_Suc_eq le_less simp del: upt_Suc)
qed simp

theorem distance_is_least:
  "turned (get_levenshtein_distance s1 s2) s1 s2 \<and> (turned n s1 s2 \<longrightarrow> get_levenshtein_distance s1 s2 \<le> n)"
proof -
  have d: "get_levenshtein_distance s1 s2 = fewest (rev s1) (rev s2)"
    using levenshtein_table [of "length s1 + 1" s1 s2]
    by (simp add: get_levenshtein_distance_def prefix_distance_def)
  show ?thesis
    using fewest_turned [of "rev s1" "rev s2"] fewest_least [of n "rev s1" "rev s2"] by (simp add: d turned_rev_iff)
qed

lemma fold_nearest:
  "fold (\<lambda>n (m, k). if d n < k then (n, d n) else (m, k)) ns (m, d m) = (m', k) \<Longrightarrow>
     k = d m' \<and> m' \<in> insert m (set ns) \<and> (\<forall>n \<in> insert m (set ns). k \<le> (d n :: nat))"
proof (induction ns arbitrary: m)
  case (Cons n ns)
  show ?case
    using Cons.IH [of n] Cons.IH [of m] Cons.prems by (cases "d n < d m") fastforce+
qed auto

text \<open>The suggestion is a name of the map, and no name is nearer.\<close>

theorem suggestion_is_nearest:
  assumes "names \<noteq> []" and "\<forall>n \<in> set names. get_levenshtein_distance n input < size_max"
  shows "get_most_similar_string names input \<in> set names \<and>
    (\<forall>n \<in> set names. get_levenshtein_distance (get_most_similar_string names input) input \<le> get_levenshtein_distance n input)"
proof -
  define d where "d = (\<lambda>n. get_levenshtein_distance n input)"
  obtain n ns where n: "names = n # ns" using assms(1) by (cases names) auto
  obtain m k where f: "fold (\<lambda>n (m, k). if d n < k then (n, d n) else (m, k)) ns (n, d n) = (m, k)" by fastforce
  have d: "get_levenshtein_distance n input = d n" for n by (simp add: d_def)
  have "get_most_similar_string names input = m"
    using assms(2) f n by (simp add: get_most_similar_string_def d Let_def)
  then show ?thesis using fold_nearest [OF f] n by (auto simp: d)
qed

section \<open>Complaints\<close>

definition get_names_csv :: "u8 \<Rightarrow> 'a Argument_scheme \<Rightarrow> bytes" where
  "get_names_csv separator a = foldl (\<lambda>result name. if result = [] then name else result @ separator # name) [] (m_names a)"

definition get_usage_full :: "'a ShownArgument_scheme \<Rightarrow> bytes" where
  "get_usage_full a =
     get_names_csv 47 a @
     (if m_max a > 0
      then 32 # (if m_metavar a = [] then str ''VAR'' else m_metavar a) @ (if m_max a > 1 then str ''...'' else [])
      else [])"

text \<open>What a parser without positional arguments says to one.\<close>

definition positional_complaint :: "HelpParser \<Rightarrow> bytes \<Rightarrow> bytes" where
  "positional_complaint p current_argument =
     (if hp_subparsers p \<noteq> []
      then str (''Failed to parse '' @ [CHR 39]) @ current_argument @ str ([CHR 39] @ '', did you mean '' @ [CHR 39]) @
        get_most_similar_string (map fst (hp_subparsers p)) current_argument @ [39]
      else case find (\<lambda>opt. m_implicit_value opt = None \<and> \<not> m_is_used opt) (hp_optional p) of
             Some opt \<Rightarrow> str ''Zero positional arguments expected, did you mean '' @ get_usage_full opt
           | None \<Rightarrow> str ''Zero positional arguments expected'')"

text \<open>An exclusive group: whether one of its options has to be used, and its options.\<close>

fun exclusive_loop :: "'a ShownArgument_scheme list \<Rightarrow> 'a ShownArgument_scheme option \<Rightarrow> bytes + 'a ShownArgument_scheme option" where
  "exclusive_loop [] used = Inr used"
| "exclusive_loop (arg # args) used =
     (case used of
        None \<Rightarrow> exclusive_loop args (if m_is_used arg then Some arg else None)
      | Some it \<Rightarrow>
          if m_is_used arg
          then Inl (str (''Argument '' @ [CHR 39]) @ get_usage_full arg @ str ([CHR 39] @ '' not allowed with '' @ [CHR 39]) @
            get_usage_full it @ [39])
          else exclusive_loop args used)"

fun quoted_usages :: "'a ShownArgument_scheme list \<Rightarrow> bytes" where
  "quoted_usages [] = []"
| "quoted_usages [a] = [39] @ get_usage_full a @ [39, 32]"
| "quoted_usages (a # as) = [39] @ get_usage_full a @ [39] @ str '' or '' @ quoted_usages as"

definition group_complaint :: "bool \<Rightarrow> 'a ShownArgument_scheme list \<Rightarrow> bytes option" where
  "group_complaint required elements =
     (case exclusive_loop elements None of
        Inl complaint \<Rightarrow> Some complaint
      | Inr None \<Rightarrow> if required then Some (str ''One of the arguments '' @ quoted_usages elements @ str ''is required'') else None
      | Inr (Some _) \<Rightarrow> None)"

lemma exclusive_loop_some:
  "exclusive_loop as (Some it) = Inr r \<longleftrightarrow> r = Some it \<and> filter m_is_used as = []"
  by (induction as) auto

lemma exclusive_loop_none:
  "exclusive_loop as None = Inr r \<longleftrightarrow> (case filter m_is_used as of [] \<Rightarrow> r = None | [a] \<Rightarrow> r = Some a | _ \<Rightarrow> False)"
  by (induction as) (auto simp: exclusive_loop_some split: list.split)

theorem exclusive_group:
  "group_complaint required elements = None \<longleftrightarrow>
     length (filter m_is_used elements) \<le> 1 \<and> (required \<longrightarrow> filter m_is_used elements \<noteq> [])"
proof (cases "exclusive_loop elements None")
  case (Inl c)
  have "\<not> length (filter m_is_used elements) \<le> 1"
    using exclusive_loop_none [of elements "case filter m_is_used elements of [] \<Rightarrow> None | a # _ \<Rightarrow> Some a"] Inl
    by (auto split: list.splits)
  then show ?thesis by (simp add: group_complaint_def Inl)
next
  case (Inr r)
  then show ?thesis
    using exclusive_loop_none [of elements r] by (auto simp: group_complaint_def split: list.splits option.split)
qed

section \<open>Leaving aside what is unknown\<close>

text \<open>The letters of a single-dash argument, until one that is no option.\<close>

fun compound_known :: "bytes \<Rightarrow> bytes list \<Rightarrow> ArgumentParser \<Rightarrow> (ArgumentParser \<times> bytes list \<times> bool) parsed" where
  "compound_known [] args p = Parsed (p, args, True)"
| "compound_known (c # cs) args p =
     (case map_of (m_argument_map p) [45, c] of
        None \<Rightarrow> Parsed (p, args, False)
      | Some i \<Rightarrow>
          (case consume_at i args p of
             Parsed (p', rest) \<Rightarrow> compound_known cs rest p'
           | Raised \<Rightarrow> Raised | Exited c \<Rightarrow> Exited c | BeyondArgv \<Rightarrow> BeyondArgv))"

lemma compound_known_length: "compound_known cs args p = Parsed (p', rest, b) \<Longrightarrow> length rest \<le> length args"
proof (induction cs args p rule: compound_known.induct)
  case (2 c cs args p)
  then show ?case using consume_at_length by (fastforce split: option.splits parsed.splits prod.splits)
qed simp

text \<open>For a parser that has only options. The unknown arguments in their order.\<close>

function parse_known_loop :: "bytes list \<Rightarrow> ArgumentParser \<Rightarrow> bytes list \<Rightarrow> (ArgumentParser \<times> bytes list) parsed" where
  "parse_known_loop [] p unknown = Parsed (p, unknown)"
| "parse_known_loop (arg # args) p unknown =
     (if is_positional arg then parse_known_loop args p (unknown @ [arg])
      else case map_of (m_argument_map p) arg of
        Some i \<Rightarrow>
          (case consume_at i args p of
             Parsed (p', rest) \<Rightarrow> parse_known_loop rest p' unknown
           | Raised \<Rightarrow> Raised | Exited c \<Rightarrow> Exited c | BeyondArgv \<Rightarrow> BeyondArgv)
      | None \<Rightarrow>
          if 1 < length arg \<and> arg ! 0 = 45 \<and> arg ! 1 \<noteq> 45 then
            (case compound_known (tl arg) args p of
               Parsed (p', rest, known) \<Rightarrow> parse_known_loop rest p' (if known then unknown else unknown @ [arg])
             | Raised \<Rightarrow> Raised | Exited c \<Rightarrow> Exited c | BeyondArgv \<Rightarrow> BeyondArgv)
          else parse_known_loop args p (unknown @ [arg]))"
  by pat_completeness auto
termination
  by (relation "measure (\<lambda>(args, p, unknown). length args)") (auto dest: consume_at_length compound_known_length)

definition parse_known_args :: "bytes list \<Rightarrow> ArgumentParser \<Rightarrow> (ArgumentParser \<times> bytes list) parsed" where
  "parse_known_args raw_arguments p =
     (case preprocess_arguments p raw_arguments of
        [] \<Rightarrow> BeyondArgv
      | _ # args \<Rightarrow>
          (case parse_known_loop args p [] of
             Parsed (p', unknown) \<Rightarrow> if list_all validate (m_optional_arguments p') then Parsed (p', unknown) else Raised
           | Raised \<Rightarrow> Raised | Exited c \<Rightarrow> Exited c | BeyondArgv \<Rightarrow> BeyondArgv))"

lemma compound_known_all: "compound_known cs args p = Parsed (p', rest, True) \<longleftrightarrow> compound cs args p = Parsed (p', rest)"
  by (induction cs args p rule: compound.induct) (auto split: option.split parsed.split prod.split)

lemma unknown_grows: "parse_known_loop args p unknown = Parsed (p', us) \<Longrightarrow> \<exists>more. us = unknown @ more"
  by (induction args p unknown rule: parse_known_loop.induct)
    (fastforce split: if_splits option.splits parsed.splits prod.splits)+

lemma nothing_unknown: "parse_known_loop args p (unknown @ [u]) \<noteq> Parsed (p', unknown)"
  using unknown_grows by fastforce

lemma known_loop: "parse_known_loop args p unknown = Parsed (p', unknown) \<longleftrightarrow> parse_loop args p = Parsed p'"
proof (induction args p rule: parse_loop.induct)
  case (2 arg args p)
  show ?case
  proof (cases "is_positional arg")
    case True
    then show ?thesis using nothing_unknown by simp
  next
    case pos: False
    show ?thesis
    proof (cases "map_of (m_argument_map p) arg")
      case (Some i)
      show ?thesis
      proof (cases "consume_at i args p")
        case (Parsed r)
        obtain q rest where r: "r = (q, rest)" by (cases r)
        then show ?thesis using 2(2) [OF pos Some Parsed r [symmetric]] Parsed pos Some by simp
      qed (use pos Some in simp_all)
    next
      case None
      show ?thesis
      proof (cases "1 < length arg \<and> arg ! 0 = 45 \<and> arg ! 1 \<noteq> 45")
        case False
        then have "parse_loop (arg # args) p = Raised" "parse_known_loop (arg # args) p unknown = parse_known_loop args p (unknown @ [arg])"
          using pos None by auto
        then show ?thesis using nothing_unknown by simp
      next
        case True
        then have e: "parse_loop (arg # args) p =
            (case compound (tl arg) args p of Parsed (p', rest) \<Rightarrow> parse_loop rest p'
             | Raised \<Rightarrow> Raised | Exited c \<Rightarrow> Exited c | BeyondArgv \<Rightarrow> BeyondArgv)"
          "parse_known_loop (arg # args) p unknown =
            (case compound_known (tl arg) args p of
               Parsed (p', rest, known) \<Rightarrow> parse_known_loop rest p' (if known then unknown else unknown @ [arg])
             | Raised \<Rightarrow> Raised | Exited c \<Rightarrow> Exited c | BeyondArgv \<Rightarrow> BeyondArgv)"
          using pos None by simp_all
        show ?thesis
        proof (cases "compound (tl arg) args p")
          case (Parsed r)
          obtain q rest where r: "r = (q, rest)" by (cases r)
          then show ?thesis
            using 2(1) [OF pos None True Parsed r [symmetric]] Parsed r compound_known_all [of "tl arg" args p q rest] unfolding e by simp
        next
          case Raised
          then show ?thesis
            using compound_known_all [of "tl arg" args p] nothing_unknown unfolding e
            by (auto split: parsed.split prod.split)
        next
          case (Exited c)
          then show ?thesis
            using compound_known_all [of "tl arg" args p] nothing_unknown unfolding e
            by (auto split: parsed.split prod.split)
        next
          case BeyondArgv
          then show ?thesis
            using compound_known_all [of "tl arg" args p] nothing_unknown unfolding e
            by (auto split: parsed.split prod.split)
        qed
      qed
    qed
  qed
qed simp

text \<open>Both ways of parsing succeed together, with the same result, when nothing is left aside.\<close>

theorem parsing_knows_all: "parse_known_args args p = Parsed (p', []) \<longleftrightarrow> parse_args args p = Parsed p'"
proof (cases "preprocess_arguments p args")
  case (Cons a as)
  have "parse_known_args args p = Parsed (p', []) \<longleftrightarrow>
      parse_known_loop as p [] = Parsed (p', []) \<and> list_all validate (m_optional_arguments p')"
    by (auto simp: parse_known_args_def Cons split: parsed.split prod.split)
  also have "\<dots> \<longleftrightarrow> parse_loop as p = Parsed p' \<and> list_all validate (m_optional_arguments p')"
    by (simp add: known_loop)
  also have "\<dots> \<longleftrightarrow> parse_args args p = Parsed p'"
    by (auto simp: parse_args_def Cons split: parsed.split)
  finally show ?thesis .
qed (simp add: parse_known_args_def parse_args_def)

end
