(* ===== verification/WsListener.thy ===== *)
theory WsListener
  imports WsServer
begin

text \<open>
  The HTTP side of the websocket server (\<^verbatim>\<open>websocket/server.cc\<close>): a request is made a websocket by
  Poco, its connection runs until the loop is left, and the request is answered with 403 when
  anything throws. After \<^verbatim>\<open>shutdown\<close> every connection leaves in its next pass.
\<close>

section \<open>One request\<close>

record http_reply =
  re_status :: int
  re_reason :: bytes
  re_length :: nat

definition forbidden :: http_reply where
  "forbidden = \<lparr>re_status = 403, re_reason = str ''Forbidden'', re_length = 0\<rparr>"

text \<open>
  The passes of one connection, one per event; \<open>None\<close>: it is still open after them. The local
  \<^verbatim>\<open>WsCtx\<close> ends with the function.
\<close>

fun handleWebsocket ::
  "crypto \<Rightarrow> poco \<Rightarrow> u64 \<Rightarrow> (nat \<Rightarrow> bytes \<Rightarrow> sent) \<Rightarrow> nat \<Rightarrow> ws_event list \<Rightarrow> WebSocketServer \<Rightarrow>
   WebSocketServer \<times> frames \<times> ending option" where
  "handleWebsocket C P now tx c [] s = (s, [], None)"
| "handleWebsocket C P now tx c (ev # evs) s =
     (case handleWebsocket_pass C P now tx c ev s of
        (s1, fs, e) \<Rightarrow>
          if e = Crashed \<or> map_of (sv_ctxs s1) c = None then (s1, fs, Some e)
          else (case handleWebsocket C P now tx c evs s1 of (s2, fs', e') \<Rightarrow> (s2, fs @ fs', e')))"

text \<open>
  \<open>upgraded\<close>: Poco makes the request a websocket, \<open>closed\<close>: its \<^verbatim>\<open>close\<close> returns; both throw
  otherwise. The result: whether the request has ended, and the reply of the handler itself.
\<close>

definition ws_handleRequest ::
  "crypto \<Rightarrow> poco \<Rightarrow> u64 \<Rightarrow> (nat \<Rightarrow> bytes \<Rightarrow> sent) \<Rightarrow> nat \<Rightarrow> bool \<Rightarrow> bool \<Rightarrow> ws_event list \<Rightarrow> WebSocketServer \<Rightarrow>
   WebSocketServer \<times> frames \<times> bool \<times> http_reply option" where
  "ws_handleRequest C P now tx c upgraded closed evs s =
     (if \<not> upgraded then (s, [], True, Some forbidden)
      else case handleWebsocket C P now tx c evs (connect_ctx c s) of
             (s', fs, None) \<Rightarrow> (s', fs, False, None)
           | (s', fs, Some e) \<Rightarrow> (s', fs, True, if closed then None else Some forbidden))"

section \<open>A connection is a run of passes\<close>

lemma handleWebsocket_reach:
  assumes "handleWebsocket C P now tx c evs s = (s', fs, e)" and "sv_reach C P (\<lambda>_ _ _. True) s" and "map_of (sv_ctxs s) c \<noteq> None"
  shows "sv_reach C P (\<lambda>_ _ _. True) s'"
  using assms
proof (induction evs arbitrary: s fs)
  case (Cons ev evs)
  obtain s1 fs1 e1 where p: "handleWebsocket_pass C P now tx c ev s = (s1, fs1, e1)" by (metis prod_cases3)
  have r: "sv_reach C P (\<lambda>_ _ _. True) s1" by (rule sv_reach.pass [OF Cons.prems(2,3) TrueI p])
  show ?case
    using Cons.prems(1) Cons.IH [OF _ r] r by (auto simp: p split: if_splits prod.splits)
qed simp

lemma handleWebsocket_gone:
  "handleWebsocket C P now tx c evs s = (s', fs, Some e) \<Longrightarrow> e = Crashed \<or> map_of (sv_ctxs s') c = None"
  by (induction evs arbitrary: s fs) (auto split: if_splits prod.splits)

text \<open>A request that is no websocket changes nothing; one that has ended has no connection left.\<close>

theorem request_handled:
  assumes "sv_reach C P (\<lambda>_ _ _. True) s" and "map_of (sv_ctxs s) c = None"
    and "ws_handleRequest C P now tx c upgraded closed evs s = (s', fs, ended, reply)"
  shows "sv_reach C P (\<lambda>_ _ _. True) s'" and "\<not> upgraded \<Longrightarrow> s' = s \<and> fs = [] \<and> reply = Some forbidden"
    and "reply \<noteq> None \<Longrightarrow> \<not> upgraded \<or> \<not> closed"
proof -
  have r: "sv_reach C P (\<lambda>_ _ _. True) (connect_ctx c s)" by (rule sv_reach.connect [OF assms(1,2)])
  have m: "map_of (sv_ctxs (connect_ctx c s)) c \<noteq> None" by (simp add: connect_ctx_def table_simps)
  show "sv_reach C P (\<lambda>_ _ _. True) s'"
    using assms(3) handleWebsocket_reach [OF _ r m] assms(1)
    by (auto simp: ws_handleRequest_def split: if_splits prod.splits option.splits)
  show "\<not> upgraded \<Longrightarrow> s' = s \<and> fs = [] \<and> reply = Some forbidden" and "reply \<noteq> None \<Longrightarrow> \<not> upgraded \<or> \<not> closed"
    using assms(3) by (auto simp: ws_handleRequest_def split: if_splits prod.splits option.splits)
qed

section \<open>After the shutdown\<close>

text \<open>A pass of each of some connections, with whatever their websockets do.\<close>

fun last_passes ::
  "crypto \<Rightarrow> poco \<Rightarrow> u64 \<Rightarrow> (nat \<Rightarrow> bytes \<Rightarrow> sent) \<Rightarrow> (nat \<times> ws_event) list \<Rightarrow> WebSocketServer \<Rightarrow> WebSocketServer" where
  "last_passes C P now tx [] s = s"
| "last_passes C P now tx ((c, ev) # ces) s = last_passes C P now tx ces (fst (handleWebsocket_pass C P now tx c ev s))"

lemma stopped_pass: "\<not> sv_running s \<Longrightarrow> handleWebsocket_pass C P now tx c ev s = (leave c s, [], Done)"
  by (simp add: handleWebsocket_pass_def)

lemma leave_ctxs: "map_of (sv_ctxs (leave c s)) d = (if d = c then None else map_of (sv_ctxs s) d)" "sv_running (leave c s) = sv_running s"
  by (simp_all add: leave_def table_simps Let_def)

lemma last_passes_leave:
  "registry_ok s \<Longrightarrow> \<not> sv_running s \<Longrightarrow>
     registry_ok (last_passes C P now tx ces s) \<and>
     (\<forall>d. map_of (sv_ctxs (last_passes C P now tx ces s)) d = (if d \<in> fst ` set ces then None else map_of (sv_ctxs s) d))"
proof (induction ces arbitrary: s)
  case (Cons ce ces)
  obtain c ev where ce: "ce = (c, ev)" by (cases ce)
  show ?case
    using Cons.IH [of "leave c s"] Cons.prems by (simp add: ce stopped_pass leave_ctxs registry_ok_leave)
qed simp

lemma no_keys: "(\<forall>k. map_of m k = None) \<longleftrightarrow> m = []"
  by (cases m) auto

text \<open>When the server has been shut down, one pass of every connection leaves neither connections nor addresses.\<close>

theorem stopped_server_lets_go:
  assumes "registry_ok s" and "fst ` set (sv_ctxs s) \<subseteq> fst ` set ces"
  shows "sv_ctxs (last_passes C P now tx ces (server_shutdown s)) = [] \<and>
    ipCtxMap (last_passes C P now tx ces (server_shutdown s)) = []"
proof -
  let ?s = "last_passes C P now tx ces (server_shutdown s)"
  have r: "registry_ok (server_shutdown s)" "\<not> sv_running (server_shutdown s)" "sv_ctxs (server_shutdown s) = sv_ctxs s"
    using assms(1) by (simp_all add: registry_ok_def server_shutdown_def)
  have "map_of (sv_ctxs ?s) d = None" for d
    using last_passes_leave [OF r(1,2), of C P now tx ces] assms(2) by (auto simp: r(3) map_of_eq_None_iff)
  then have c: "sv_ctxs ?s = []" using no_keys by blast
  have "map_of (ipCtxMap ?s) ip = None" for ip
    using last_passes_leave [OF r(1,2), of C P now tx ces] c by (auto simp: registry_ok_def)
  then have "ipCtxMap ?s = []" using no_keys by blast
  then show ?thesis using c by simp
qed

end
