(* ===== verification/ServerRuns.thy ===== *)
theory ServerRuns
  imports Instances WsServer
begin

text \<open>
  \<^verbatim>\<open>core/server.cc\<close>, \<^verbatim>\<open>candy/server.cc\<close>: the one server of a process. Its loop is like that of
  a client instance, but the object is a global pointer that is empty until the loop has made
  the first server, keeps pointing to the old one while the loop pauses, and is followed by
  \<open>shutdown\<close> without a test. \<open>listens\<close>: the HTTP server could be started.
\<close>

section \<open>The server object\<close>

record Server =
  sr_ws :: WebSocketServer
  sr_running :: bool

text \<open>The port and the flag of the websocket server start indeterminate.\<close>

definition Server_new :: "u16 \<Rightarrow> bool \<Rightarrow> Server" where
  "Server_new port ws_flag =
     \<lparr>sr_ws = \<lparr>sv_host = [], sv_port = port, sv_password = [], sv_dhcp = Address0, sv_routes = [],
               sv_running = ws_flag, ipCtxMap = [], sv_ctxs = []\<rparr>,
      sr_running = False\<rparr>"

definition Server_setWebSocket :: "poco \<Rightarrow> bytes \<Rightarrow> Server \<Rightarrow> Server" where
  "Server_setWebSocket P u s = s\<lparr>sr_ws := fst (setWebSocket P u (sr_ws s))\<rparr>"

definition Server_setPassword :: "bytes \<Rightarrow> Server \<Rightarrow> Server" where
  "Server_setPassword password s = s\<lparr>sr_ws := fst (setPassword password (sr_ws s))\<rparr>"

definition Server_setDHCP :: "poco \<Rightarrow> bytes \<Rightarrow> Server \<Rightarrow> Server res" where
  "Server_setDHCP P cidr s = bind_res (setDHCP P cidr (sr_ws s)) (\<lambda>(w, r). Ok (s\<lparr>sr_ws := w\<rparr>))"

definition Server_setSdwan :: "poco \<Rightarrow> bytes \<Rightarrow> Server \<Rightarrow> Server res" where
  "Server_setSdwan P sdwan s = bind_res (setSdwan P sdwan (sr_ws s)) (\<lambda>(w, r). Ok (s\<lparr>sr_ws := w\<rparr>))"

definition ws_listen :: "bool \<Rightarrow> WebSocketServer \<Rightarrow> WebSocketServer \<times> int" where
  "ws_listen listens w = (if listens then (w\<lparr>sv_running := True\<rparr>, 0) else (w, -1))"

definition ws_server_run :: "bool \<Rightarrow> WebSocketServer \<Rightarrow> WebSocketServer \<times> int" where
  "ws_server_run listens w = (fst (ws_listen listens w), 0)"

text \<open>\<^verbatim>\<open>Server::run\<close> up to its wait, and what follows it when the flag has been cleared.\<close>

definition Server_start :: "bool \<Rightarrow> Server \<Rightarrow> Server" where
  "Server_start listens s = s\<lparr>sr_running := True, sr_ws := fst (ws_server_run listens (sr_ws s))\<rparr>"

definition Server_stop :: "Server \<Rightarrow> Server option" where
  "Server_stop s = (if sr_running s then None else Some (s\<lparr>sr_ws := server_shutdown (sr_ws s)\<rparr>))"

definition Server_shutdown :: "Server \<Rightarrow> Server" where
  "Server_shutdown s = s\<lparr>sr_running := False\<rparr>"

section \<open>The loop\<close>

datatype server_phase = SvAtLoop | SvAsleep | SvBuilt | SvInRun | SvReturned

record server_lib =
  sl_running :: bool
  sl_server :: "Server option"
  sl_phase :: server_phase

definition server_lib_new :: server_lib where
  "server_lib_new = \<lparr>sl_running = True, sl_server = None, sl_phase = SvAtLoop\<rparr>"

definition server_settings :: "json_lib \<Rightarrow> poco \<Rightarrow> json \<Rightarrow> (Server \<Rightarrow> Server res) list" where
  "server_settings J P config =
     [set_text J config ''websocket'' (Server_setWebSocket P),
      set_text J config ''password'' Server_setPassword,
      (\<lambda>s. bind_res (getValue (js_string J) config ''dhcp'') (\<lambda>v. Server_setDHCP P v s)),
      (\<lambda>s. bind_res (getValue (js_string J) config ''sdwan'') (\<lambda>v. Server_setSdwan P v s))]"

definition configure_server :: "json_lib \<Rightarrow> poco \<Rightarrow> json \<Rightarrow> Server \<Rightarrow> Server res" where
  "configure_server J P config s = foldl bind_res (Ok s) (server_settings J P config)"

record server_env =
  ve_json :: json_lib
  ve_poco :: poco
  ve_junk :: "u16 \<times> bool"
  ve_listens :: bool

definition server_loop_step :: "server_env \<Rightarrow> json \<Rightarrow> server_lib \<Rightarrow> server_lib res" where
  "server_loop_step E config l =
     (case sl_phase l of
        SvAtLoop \<Rightarrow> Ok (l\<lparr>sl_phase := (if sl_running l then SvAsleep else SvReturned)\<rparr>)
      | SvAsleep \<Rightarrow>
          let (port, ws_flag) = ve_junk E
          in bind_res (configure_server (ve_json E) (ve_poco E) config (Server_new port ws_flag)) (\<lambda>s.
               Ok (l\<lparr>sl_server := Some s, sl_phase := SvBuilt\<rparr>))
      | SvBuilt \<Rightarrow>
          (case sl_server l of
             None \<Rightarrow> Undef
           | Some s \<Rightarrow> Ok (l\<lparr>sl_server := Some (Server_start (ve_listens E) s), sl_phase := SvInRun\<rparr>))
      | SvInRun \<Rightarrow>
          (case sl_server l of
             None \<Rightarrow> Undef
           | Some s \<Rightarrow> (case Server_stop s of
                 None \<Rightarrow> Ok l
               | Some s' \<Rightarrow> Ok (l\<lparr>sl_server := Some s', sl_phase := SvAtLoop\<rparr>)))
      | SvReturned \<Rightarrow> Ok l)"

definition server_lib_shutdown :: "server_lib \<Rightarrow> server_lib res" where
  "server_lib_shutdown l =
     (case sl_server l of
        None \<Rightarrow> Undef
      | Some s \<Rightarrow> Ok (l\<lparr>sl_running := False, sl_server := Some (Server_shutdown s)\<rparr>))"

text \<open>
  The events of a process that serves. A connection is handed to the server that listens; its
  passes go on after the wait has ended, until they see that the flag is cleared.
\<close>

record pass_env =
  va_crypto :: crypto
  va_poco :: poco
  va_now :: u64
  va_tx :: "nat \<Rightarrow> bytes \<Rightarrow> sent"

datatype server_event =
    SvStep server_env
  | SvConnect nat
  | SvPass pass_env nat ws_event
  | SvShutdown

definition on_server :: "(WebSocketServer \<Rightarrow> WebSocketServer) \<Rightarrow> server_lib \<Rightarrow> server_lib" where
  "on_server f l =
     (case sl_server l of None \<Rightarrow> l | Some s \<Rightarrow> l\<lparr>sl_server := Some (s\<lparr>sr_ws := f (sr_ws s)\<rparr>)\<rparr>)"

definition can_connect :: "nat \<Rightarrow> server_lib \<Rightarrow> bool" where
  "can_connect c l \<longleftrightarrow>
     sl_phase l = SvInRun \<and>
     (case sl_server l of None \<Rightarrow> False | Some s \<Rightarrow> map_of (sv_ctxs (sr_ws s)) c = None)"

definition has_connection :: "nat \<Rightarrow> server_lib \<Rightarrow> bool" where
  "has_connection c l \<longleftrightarrow>
     (case sl_server l of None \<Rightarrow> False | Some s \<Rightarrow> map_of (sv_ctxs (sr_ws s)) c \<noteq> None)"

fun server_step :: "json \<Rightarrow> server_event \<Rightarrow> server_lib \<Rightarrow> server_lib res" where
  "server_step config (SvStep E) l = server_loop_step E config l"
| "server_step config (SvConnect c) l = Ok (if can_connect c l then on_server (connect_ctx c) l else l)"
| "server_step config (SvPass V c ev) l =
     Ok (if has_connection c l
         then on_server (\<lambda>w. fst (handleWebsocket_pass (va_crypto V) (va_poco V) (va_now V) (va_tx V) c ev w)) l
         else l)"
| "server_step config SvShutdown l = server_lib_shutdown l"

fun server_run :: "json \<Rightarrow> server_event list \<Rightarrow> server_lib \<Rightarrow> server_lib res" where
  "server_run config [] l = Ok l"
| "server_run config (e # es) l = bind_res (server_step config e l) (server_run config es)"

section \<open>The server is always a fresh one\<close>

definition fresh_ws :: "WebSocketServer \<Rightarrow> bool" where
  "fresh_ws w \<longleftrightarrow> ipCtxMap w = [] \<and> sv_ctxs w = [] \<and> is_prefix_mask (a_mask (sv_dhcp w))"

lemma no_mask_is_prefix: "is_prefix_mask ip4_zero"
  by code_simp

lemma fromCidr_keeps_prefix_mask:
  "fromCidr P cidr a = Ok (a', r) \<Longrightarrow> is_prefix_mask (a_mask a) \<Longrightarrow> is_prefix_mask (a_mask a')"
  by (auto simp: fromCidr_def bind_res_Ok_iff fromPrefix_is_prefix_mask split: prod.splits option.splits)

lemma setSdwan_loop_fresh: "setSdwan_loop P stream w = Ok (w', r) \<Longrightarrow> fresh_ws w \<Longrightarrow> fresh_ws w'"
proof (induction P stream w rule: setSdwan_loop.induct)
  case (1 P stream w)
  then show ?case
    by (subst (asm) setSdwan_loop.simps) (auto simp: fresh_ws_def split: option.splits res.splits)
qed

lemma setter_fresh:
  "fresh_ws (fst (setWebSocket P u w)) \<longleftrightarrow> fresh_ws w" "fresh_ws (fst (setPassword p w)) \<longleftrightarrow> fresh_ws w"
  "setDHCP P cidr w = Ok (w', r) \<Longrightarrow> fresh_ws w \<Longrightarrow> fresh_ws w'"
  "setSdwan P t w = Ok (w', r) \<Longrightarrow> fresh_ws w \<Longrightarrow> fresh_ws w'"
proof -
  show "setDHCP P cidr w = Ok (w', r) \<Longrightarrow> fresh_ws w \<Longrightarrow> fresh_ws w'"
    using fromCidr_keeps_prefix_mask by (auto simp: setDHCP_def fresh_ws_def bind_res_Ok_iff split: if_splits)
  show "setSdwan P t w = Ok (w', r) \<Longrightarrow> fresh_ws w \<Longrightarrow> fresh_ws w'"
    using setSdwan_loop_fresh by (auto simp: setSdwan_def split: if_splits)
qed (simp_all add: setWebSocket_def setPassword_def fresh_ws_def split: option.split)

lemma settings_fresh: "f \<in> set (server_settings J P config) \<Longrightarrow> f s = Ok s' \<Longrightarrow> fresh_ws (sr_ws s) \<Longrightarrow> fresh_ws (sr_ws s')"
  by (auto simp: server_settings_def set_text_def bind_res_Ok_iff Server_setWebSocket_def Server_setPassword_def
      Server_setDHCP_def Server_setSdwan_def setter_fresh(1,2))
    (blast intro: setter_fresh(3,4))+

lemma Server_new_fresh: "fresh_ws (sr_ws (Server_new port flag))"
  by (simp add: Server_new_def fresh_ws_def Address0_def no_mask_is_prefix)

lemma configure_server_fresh:
  assumes "configure_server J P config (Server_new port flag) = Ok s"
  shows "fresh_ws (sr_ws s) \<and> \<not> sr_running s"
proof
  show "fresh_ws (sr_ws s)"
    using assms unfolding configure_server_def
    by (rule foldl_bind_preserves) (auto simp: Server_new_fresh settings_fresh)
  show "\<not> sr_running s"
    using assms unfolding configure_server_def
    by (rule foldl_bind_preserves)
      (auto simp: server_settings_def set_text_def bind_res_Ok_iff Server_setWebSocket_def Server_setPassword_def
        Server_setDHCP_def Server_setSdwan_def Server_new_def)
qed

text \<open>Runs in which every message is one \<open>allowed\<close>.\<close>

fun server_event_ok ::
  "crypto \<Rightarrow> poco \<Rightarrow> (WebSocketServer \<Rightarrow> nat \<Rightarrow> ws_event \<Rightarrow> bool) \<Rightarrow> server_lib \<Rightarrow> server_event \<Rightarrow> bool" where
  "server_event_ok C P allowed l (SvPass V c ev) =
     (va_crypto V = C \<and> va_poco V = P \<and>
      (case sl_server l of None \<Rightarrow> True | Some s \<Rightarrow> allowed (sr_ws s) c ev))"
| "server_event_ok C P allowed l _ = True"

inductive server_reach ::
  "crypto \<Rightarrow> poco \<Rightarrow> (WebSocketServer \<Rightarrow> nat \<Rightarrow> ws_event \<Rightarrow> bool) \<Rightarrow> json \<Rightarrow> server_lib \<Rightarrow> bool"
  for C P allowed config where
  new: "server_reach C P allowed config server_lib_new"
| step: "server_reach C P allowed config l \<Longrightarrow> server_event_ok C P allowed l e \<Longrightarrow>
    server_step config e l = Ok l' \<Longrightarrow> server_reach C P allowed config l'"

definition server_lib_ok ::
  "crypto \<Rightarrow> poco \<Rightarrow> (WebSocketServer \<Rightarrow> nat \<Rightarrow> ws_event \<Rightarrow> bool) \<Rightarrow> server_lib \<Rightarrow> bool" where
  "server_lib_ok C P allowed l \<longleftrightarrow>
     (case sl_server l of
        None \<Rightarrow> sl_phase l \<in> {SvAtLoop, SvAsleep} \<and> sl_running l
      | Some s \<Rightarrow>
          sv_reach C P allowed (sr_ws s) \<and> (sl_phase l = SvBuilt \<longrightarrow> fresh_ws (sr_ws s)) \<and> sl_phase l \<noteq> SvAsleep \<and>
          (sl_phase l \<in> {SvAtLoop, SvReturned} \<longrightarrow> \<not> sl_running l) \<and>
          (sl_phase l = SvInRun \<and> \<not> sr_running s \<longrightarrow> \<not> sl_running l))"

lemma fresh_reach: "fresh_ws w \<Longrightarrow> sv_reach C P allowed w"
  by (simp add: fresh_ws_def sv_reach.start)

lemma server_loop_step_ok:
  assumes "server_lib_ok C P allowed l" and "server_loop_step E config l = Ok l'"
  shows "server_lib_ok C P allowed l'"
proof (cases "sl_phase l")
  case SvAsleep
  then obtain s port flag where "configure_server (ve_json E) (ve_poco E) config (Server_new port flag) = Ok s"
    "l' = l\<lparr>sl_server := Some s, sl_phase := SvBuilt\<rparr>"
    using assms(2) by (auto simp: server_loop_step_def bind_res_Ok_iff split: prod.splits)
  then show ?thesis using configure_server_fresh [of "ve_json E" "ve_poco E" config] by (auto simp: server_lib_ok_def fresh_reach)
next
  case SvBuilt
  then obtain s where s: "sl_server l = Some s" "fresh_ws (sr_ws s)"
    "l' = l\<lparr>sl_server := Some (Server_start (ve_listens E) s), sl_phase := SvInRun\<rparr>"
    using assms by (auto simp: server_loop_step_def server_lib_ok_def split: option.splits)
  then have "fresh_ws (sr_ws (Server_start (ve_listens E) s))"
    by (simp add: Server_start_def ws_server_run_def ws_listen_def fresh_ws_def)
  then show ?thesis using s by (simp add: server_lib_ok_def fresh_reach) (simp add: Server_start_def)
next
  case SvInRun
  then show ?thesis
    using assms
    by (auto simp: server_loop_step_def server_lib_ok_def Server_stop_def sv_reach.stop split: option.splits if_splits)
qed (use assms in \<open>auto simp: server_loop_step_def server_lib_ok_def split: option.splits if_splits\<close>)

lemma server_reach_ok: "server_reach C P allowed config l \<Longrightarrow> server_lib_ok C P allowed l"
proof (induction rule: server_reach.induct)
  case new
  then show ?case by (simp add: server_lib_ok_def server_lib_new_def)
next
  case (step l e l')
  show ?case
  proof (cases e)
    case (SvStep E)
    then show ?thesis using step server_loop_step_ok by simp
  next
    case (SvConnect c)
    then show ?thesis
      using step by (auto simp: server_lib_ok_def can_connect_def on_server_def sv_reach.connect split: option.splits if_splits)
  next
    case (SvPass V c ev)
    have "sv_reach C P allowed (fst (handleWebsocket_pass (va_crypto V) (va_poco V) (va_now V) (va_tx V) c ev (sr_ws s)))"
      if "sl_server l = Some s" "map_of (sv_ctxs (sr_ws s)) c \<noteq> None" for s
      using sv_reach.pass [of C P allowed "sr_ws s" c ev] that step.IH step.hyps(2) SvPass
      by (simp add: server_lib_ok_def) (metis prod.collapse)
    then show ?thesis
      using step SvPass
      by (auto simp: server_lib_ok_def has_connection_def on_server_def fresh_ws_def split: option.splits if_splits)
  next
    case SvShutdown
    then show ?thesis
      using step by (auto simp: server_lib_ok_def server_lib_shutdown_def Server_shutdown_def split: option.splits)
  qed
qed



text \<open>A server that cannot listen does not fail: it waits for a shutdown like any other.\<close>

lemma listen_failure_unnoticed:
  assumes "sl_phase l = SvBuilt" and "sl_server l = Some s" and "\<not> ve_listens E" and "\<not> sv_running (sr_ws s)"
  shows "\<exists>l'. server_run config (SvStep E # replicate n (SvStep E')) l = Ok l' \<and> sl_phase l' = SvInRun \<and>
    (\<exists>s'. sl_server l' = Some s' \<and> \<not> sv_running (sr_ws s'))"
proof -
  let ?l = "l\<lparr>sl_server := Some (Server_start False s), sl_phase := SvInRun\<rparr>"
  have 1: "server_loop_step E config l = Ok ?l" using assms by (simp add: server_loop_step_def)
  have "server_loop_step E' config ?l = Ok ?l" by (simp add: server_loop_step_def Server_stop_def Server_start_def)
  then have "server_run config (replicate n (SvStep E')) ?l = Ok ?l" by (induction n) simp_all
  then show ?thesis using 1 assms(4) by (simp add: Server_start_def ws_server_run_def ws_listen_def)
qed

section \<open>A server written out\<close>

definition demo_server_config :: json where
  "demo_server_config =
     [(str ''websocket'', JString (str ''ws://s'')), (str ''password'', JString (str ''pw'')),
      (str ''dhcp'', JString (str ''10.0.0.0/24'')), (str ''sdwan'', JString [])]"

definition demo_server_env :: server_env where
  "demo_server_env = \<lparr>ve_json = strict_json, ve_poco = demo_uri_poco, ve_junk = (7, True), ve_listens = True\<rparr>"

definition demo_run :: "server_event list \<Rightarrow> server_lib" where
  "demo_run es = (case server_run demo_server_config es server_lib_new of Ok l \<Rightarrow> l | _ \<Rightarrow> server_lib_new)"

fun quiet_event :: "server_event \<Rightarrow> bool" where
  "quiet_event (SvPass V c ev) = False"
| "quiet_event _ = True"

lemma server_run_reach:
  "server_reach C P allowed config l \<Longrightarrow> list_all quiet_event es \<Longrightarrow> server_run config es l = Ok l' \<Longrightarrow>
   server_reach C P allowed config l'"
proof (induction es arbitrary: l)
  case (Cons e es)
  then obtain l1 where l1: "server_step config e l = Ok l1" "server_run config es l1 = Ok l'"
    by (auto simp: bind_res_Ok_iff)
  have "server_event_ok C P allowed l e" using Cons.prems(2) by (cases e) simp_all
  then have "server_reach C P allowed config l1" by (rule server_reach.step [OF Cons.prems(1) _ l1(1)])
  then show ?case using Cons.IH [OF _ _ l1(2)] Cons.prems(2) by simp
qed simp

lemma demo_run_reach: "list_all quiet_event es \<Longrightarrow> server_reach C P allowed demo_server_config (demo_run es)"
  using server_run_reach [OF server_reach.new] by (auto simp: demo_run_def server_reach.new split: res.split)

abbreviation demo_step :: server_event where "demo_step \<equiv> SvStep demo_server_env"

lemma demo_run_phases:
  "sl_phase (demo_run [demo_step, demo_step, demo_step]) = SvInRun"
  "(case sl_server (demo_run [demo_step, demo_step, demo_step, SvConnect 0]) of None \<Rightarrow> False
    | Some s \<Rightarrow> map_of (sv_ctxs (sr_ws s)) 0 \<noteq> None)"
  by code_simp+



end
