(* ===== verification/Service.thy ===== *)
theory Service
  imports Instances
begin

text \<open>
  \<^verbatim>\<open>candy-service/src/main.cc\<close>: a process that runs clients on request. It keeps the threads it
  has started by id; such a thread calls the library's \<^verbatim>\<open>run\<close> some time after the request was
  answered. The HTTP server has one thread, so requests are handled one after the other. What
  the JSON parser makes of the body of a request, and of its \<^verbatim>\<open>config\<close> member, is part of the
  request; writing the answer is the library's.
\<close>

section \<open>Requests and answers\<close>

text \<open>
  \<open>bd_fields\<close>: the members of the body but \<^verbatim>\<open>config\<close>; \<open>bd_config\<close>: the object under that
  name, \<open>None\<close> for a null pointer. \<open>rq_body\<close> is \<open>None\<close> when the body is not a JSON object.
\<close>

record body =
  bd_fields :: json
  bd_config :: "json option"

record request =
  rq_uri :: bytes
  rq_post :: bool
  rq_body :: "body option"

datatype handler = RunHandler | StatusHandler | ShutdownHandler

text \<open>\<open>Answer m s\<close>: the members of the request with \<^verbatim>\<open>message\<close> set to \<open>m\<close>, and \<^verbatim>\<open>status\<close> to \<open>s\<close>.\<close>

datatype response = NoHandler | MethodNotAllowed | RequestThrows | Answer bytes "json option"

definition createRequestHandler :: "bytes \<Rightarrow> handler option" where
  "createRequestHandler uri =
     (if uri = str ''/api/run'' then Some RunHandler
      else if uri = str ''/api/status'' then Some StatusHandler
      else if uri = str ''/api/shutdown'' then Some ShutdownHandler
      else None)"

section \<open>The state of the service\<close>

text \<open>
  \<open>ss_threads\<close>: the ids in the map of threads; \<open>ss_entering\<close>: threads that have not called
  \<^verbatim>\<open>run\<close> yet, with what they will call it with.
\<close>

record service =
  ss_threads :: "bytes list"
  ss_entering :: "(bytes \<times> json option) list"
  ss_lib :: library

definition service_new :: service where
  "service_new = \<lparr>ss_threads = [], ss_entering = [], ss_lib = []\<rparr>"

definition handle_run :: "bytes \<Rightarrow> json option \<Rightarrow> service \<Rightarrow> service \<times> response" where
  "handle_run name config s =
     (if name \<in> set (ss_threads s) then (s, Answer (str ''id already exists'') None)
      else (s\<lparr>ss_threads := ss_threads s @ [name], ss_entering := ss_entering s @ [(name, config)]\<rparr>,
            Answer (str ''success'') None))"

definition handle_status :: "bytes \<Rightarrow> service \<Rightarrow> service \<times> response" where
  "handle_status name s =
     (if name \<in> set (ss_threads s)
      then (case lib_status name (ss_lib s) of
              Some st \<Rightarrow> (s, Answer (str ''success'') (Some st))
            | None \<Rightarrow> (s, Answer (str ''unable to get status'') None))
      else (s, Answer (str ''id does not exist'') None))"

definition handle_shutdown :: "bytes \<Rightarrow> service \<Rightarrow> service \<times> response" where
  "handle_shutdown name s =
     (let s1 = s\<lparr>ss_lib := fst (lib_shutdown name (ss_lib s))\<rparr>
      in if name \<in> set (ss_threads s1)
         then (s1\<lparr>ss_threads := removeAll name (ss_threads s1)\<rparr>, Answer (str ''success'') None)
         else (s1, Answer (str ''id does not exist'') None))"

definition handleRequest :: "json_lib \<Rightarrow> request \<Rightarrow> service \<Rightarrow> service \<times> response" where
  "handleRequest J rq s =
     (case createRequestHandler (rq_uri rq) of
        None \<Rightarrow> (s, NoHandler)
      | Some h \<Rightarrow>
          if \<not> rq_post rq then (s, MethodNotAllowed)
          else case rq_body rq of
                 None \<Rightarrow> (s, RequestThrows)
               | Some b \<Rightarrow>
                   (case getValue (js_string J) (bd_fields b) ''id'' of
                      Ok name \<Rightarrow>
                        (case h of
                           RunHandler \<Rightarrow> handle_run name (bd_config b) s
                         | StatusHandler \<Rightarrow> handle_status name s
                         | ShutdownHandler \<Rightarrow> handle_shutdown name s)
                    | _ \<Rightarrow> (s, RequestThrows)))"

text \<open>
  The \<open>n\<close>-th waiting thread calls \<^verbatim>\<open>run\<close>; following a null pointer throws, and nobody catches
  an exception of that thread, so the process ends.
\<close>

definition thread_enters :: "nat \<Rightarrow> service \<Rightarrow> service res" where
  "thread_enters n s =
     (if n < length (ss_entering s)
      then let (name, config) = ss_entering s ! n;
               s1 = s\<lparr>ss_entering := take n (ss_entering s) @ drop (Suc n) (ss_entering s)\<rparr>
           in case config of
                None \<Rightarrow> Throw
              | Some c \<Rightarrow> bind_res (lib_step (RunCall name c) (ss_lib s1)) (\<lambda>l. Ok (s1\<lparr>ss_lib := l\<rparr>))
      else Ok s)"

datatype service_event =
    Request request
  | ThreadEnters nat
  | LoopOf loop_env bytes
  | TurnOf turn bytes

fun service_step :: "json_lib \<Rightarrow> service_event \<Rightarrow> service \<Rightarrow> (service \<times> response list) res" where
  "service_step J (Request rq) s = (let (s', r) = handleRequest J rq s in Ok (s', [r]))"
| "service_step J (ThreadEnters n) s = bind_res (thread_enters n s) (\<lambda>s'. Ok (s', []))"
| "service_step J (LoopOf E name) s =
     bind_res (lib_step (LoopStep E name) (ss_lib s)) (\<lambda>l. Ok (s\<lparr>ss_lib := l\<rparr>, []))"
| "service_step J (TurnOf t name) s =
     bind_res (lib_step (ThreadTurn t name) (ss_lib s)) (\<lambda>l. Ok (s\<lparr>ss_lib := l\<rparr>, []))"

fun service_run :: "json_lib \<Rightarrow> service_event list \<Rightarrow> service \<Rightarrow> (service \<times> response list) res" where
  "service_run J [] s = Ok (s, [])"
| "service_run J (e # es) s =
     bind_res (service_step J e s) (\<lambda>(s1, r1). bind_res (service_run J es s1) (\<lambda>(s2, r2). Ok (s2, r1 @ r2)))"

section \<open>The bind address\<close>

text \<open>
  \<^verbatim>\<open>handleBind\<close>: \<open>Inl\<close> is the exit code of the process. \<^verbatim>\<open>std::stoi\<close> reads a number at the front
  of its text.
\<close>

definition handleBind :: "bytes \<Rightarrow> int + (bytes \<times> int)" where
  "handleBind value =
     (case find_byte 58 value of
        None \<Rightarrow> Inl 1
      | Some pos \<Rightarrow>
          (case stoi (drop (Suc pos) value) of
             None \<Rightarrow> Inl 1
           | Some port \<Rightarrow> Inr (take pos value, port)))"

definition bind_default :: "bytes \<times> int \<Rightarrow> bytes \<times> int" where
  "bind_default b = (if fst b = [] then (str ''localhost'', 26817) else b)"

section \<open>A configuration that does not fit\<close>

definition request_of :: "string \<Rightarrow> bytes \<Rightarrow> json option \<Rightarrow> request" where
  "request_of path name config =
     \<lparr>rq_uri = str path, rq_post = True,
      rq_body = Some \<lparr>bd_fields = [(str ''id'', JString name)], bd_config = config\<rparr>\<rparr>"

lemma handleRequest_of:
  assumes "json_ok J"
  shows "handleRequest J (request_of ''/api/run'' name config) s = handle_run name config s"
    and "handleRequest J (request_of ''/api/status'' name config) s = handle_status name s"
    and "handleRequest J (request_of ''/api/shutdown'' name config) s = handle_shutdown name s"
proof -
  have "getValue (js_string J) [(str ''id'', JString name)] ''id'' = Ok name"
    using assms by (simp add: getValue_def json_ok_def)
  then show "handleRequest J (request_of ''/api/run'' name config) s = handle_run name config s"
    and "handleRequest J (request_of ''/api/status'' name config) s = handle_status name s"
    and "handleRequest J (request_of ''/api/shutdown'' name config) s = handle_shutdown name s"
    by (simp_all add: handleRequest_def request_of_def createRequestHandler_def inj_str)
qed

lemma untyped_throws: "\<not> config_typed J P config \<Longrightarrow> configure_client J P config c = Throw"
  using configure_Ok_typed [of J P config c] configure_not_Undef [of J P config c]
  by (cases "configure_client J P config c") auto

text \<open>C31: a request to run a new id is answered with success whatever its configuration is, and when
  that is missing, or not of the type the library expects, the thread that was started for it
  ends the whole process, with the clients of all other ids, by an exception nobody catches:
  at once, or after the pause of the loop.\<close>

theorem bad_configuration_ends_service:
  assumes "json_ok J" and "name \<notin> set (ss_threads s)" and "map_of (ss_lib s) name = None" and "ss_entering s = []"
    and "config = None \<or> (\<exists>c. config = Some c \<and> \<not> config_typed (le_json E) (le_poco E) c)"
  shows "snd (handleRequest J (request_of ''/api/run'' name config) s) = Answer (str ''success'') None \<and>
    service_run J [Request (request_of ''/api/run'' name config), ThreadEnters 0, LoopOf E' name, LoopOf E name] s = Throw"
proof -
  let ?s = "s\<lparr>ss_threads := ss_threads s @ [name], ss_entering := [(name, config)]\<rparr>"
  have r: "handleRequest J (request_of ''/api/run'' name config) s = (?s, Answer (str ''success'') None)"
    using assms(2,4) by (simp add: handleRequest_of [OF assms(1)] handle_run_def)
  show ?thesis
  proof (cases config)
    case None
    then show ?thesis using r by (simp add: thread_enters_def)
  next
    case (Some c)
    let ?l = "tbl_put name \<lparr>in_running = True, in_config = c, in_phase = AtLoop\<rparr> (ss_lib s)"
    have "\<not> config_typed (le_json E) (le_poco E) c" using assms(5) Some by simp
    then have "configure_client (le_json E) (le_poco E) c (Client_new (le_junk E)) = Throw" by (rule untyped_throws)
    then have "loop_step E name (tbl_put name \<lparr>in_running = True, in_config = c, in_phase = Asleep\<rparr> ?l) = Throw"
      by (simp add: loop_step_def loop_phase_def)
    moreover have "thread_enters 0 ?s = Ok (?s\<lparr>ss_entering := [], ss_lib := ?l\<rparr>)"
      using Some assms(3) by (simp add: thread_enters_def try_create_instance_def)
    moreover have "loop_step E' name ?l = Ok (tbl_put name \<lparr>in_running = True, in_config = c, in_phase = Asleep\<rparr> ?l, [])"
      by (simp add: loop_step_def loop_phase_def)
    ultimately show ?thesis using r by simp
  qed
qed

theorem bad_configuration_ends_service_witness:
  "service_run strict_json [Request (request_of ''/api/run'' (str ''b'') (Some [])), ThreadEnters 0,
     LoopOf demo_loop_env (str ''b''), LoopOf demo_loop_env (str ''b'')] service_new = Throw"
proof -
  have "\<not> config_typed (le_json demo_loop_env) (le_poco demo_loop_env) []" by code_simp
  then show ?thesis
    using bad_configuration_ends_service [OF strict_json_ok, of "str ''b''" service_new "Some []" demo_loop_env demo_loop_env]
    by (simp add: service_new_def)
qed

section \<open>An id that is stopped and run again\<close>

text \<open>
  The service knows a thread for the id, no thread is about to run it, and what the library may still
  run under it is the old configuration, for the last time.
\<close>

definition swallowed :: "bytes \<Rightarrow> json \<Rightarrow> service \<Rightarrow> bool" where
  "swallowed name config s \<longleftrightarrow>
     name \<in> set (ss_threads s) \<and> list_all (\<lambda>e. fst e \<noteq> name) (ss_entering s) \<and>
     (case map_of (ss_lib s) name of None \<Rightarrow> True | Some i \<Rightarrow> in_config i = config \<and> \<not> in_running i)"

definition asks_shutdown :: "json_lib \<Rightarrow> bytes \<Rightarrow> service_event \<Rightarrow> bool" where
  "asks_shutdown J name e \<longleftrightarrow>
     (case e of
        Request rq \<Rightarrow>
          rq_uri rq = str ''/api/shutdown'' \<and>
          (case rq_body rq of None \<Rightarrow> False | Some b \<Rightarrow> getValue (js_string J) (bd_fields b) ''id'' = Ok name)
      | _ \<Rightarrow> False)"

lemma shutdown_other: "n \<noteq> name \<Longrightarrow> map_of (fst (lib_shutdown n l)) name = map_of l name"
  by (auto simp: lib_shutdown_def split: option.split)

lemma lib_step_winds_down:
  assumes "lib_step e l = Ok l'" and "\<forall>c. e \<noteq> RunCall name c" and "map_of l' name = Some i'"
  shows "\<exists>i. map_of l name = Some i \<and> in_config i' = in_config i \<and> (in_running i' \<longrightarrow> in_running i)"
  using assms
  by (cases e) (auto simp: try_create_instance_def try_erase_instance_def lib_shutdown_def loop_step_def thread_step_def
      bind_res_Ok_iff Instance_exit_def split: option.splits if_splits)

lemma swallowed_lib:
  assumes "swallowed name config s" and "lib_step e (ss_lib s) = Ok l" and "\<forall>c. e \<noteq> RunCall name c"
  shows "swallowed name config (s\<lparr>ss_lib := l\<rparr>)"
  using assms(1) lib_step_winds_down [OF assms(2,3)] by (fastforce simp: swallowed_def split: option.splits)

lemma swallowed_request:
  assumes "swallowed name config s" and "\<not> asks_shutdown J name (Request rq)"
  shows "swallowed name config (fst (handleRequest J rq s))"
proof -
  have sd: "swallowed name config (fst (handle_shutdown n s))" if "n \<noteq> name" for n
    using assms(1) that shutdown_other [OF that, of "ss_lib s"] by (simp add: swallowed_def handle_shutdown_def Let_def)
  have run: "swallowed name config (fst (handle_run n c s))" for n c
    using assms(1) by (auto simp: swallowed_def handle_run_def)
  have st: "swallowed name config (fst (handle_status n s))" for n
    using assms(1) by (auto simp: handle_status_def split: option.split)
  show ?thesis
  proof (cases "createRequestHandler (rq_uri rq) = None \<or> \<not> rq_post rq \<or> rq_body rq = None")
    case True
    then show ?thesis using assms(1) by (auto simp: handleRequest_def split: option.splits)
  next
    case False
    then obtain h b where h: "createRequestHandler (rq_uri rq) = Some h" "rq_post rq" "rq_body rq = Some b" by auto
    have "rq_uri rq = str ''/api/shutdown''" if "h = ShutdownHandler"
      using h(1) that by (auto simp: createRequestHandler_def split: if_splits)
    then have "getValue (js_string J) (bd_fields b) ''id'' \<noteq> Ok name" if "h = ShutdownHandler"
      using that h assms(2) by (simp add: asks_shutdown_def)
    then show ?thesis
      using h assms(1) sd run st by (cases h; cases "getValue (js_string J) (bd_fields b) ''id''") (auto simp: handleRequest_def)
  qed
qed

lemma swallowed_enters:
  assumes "swallowed name config s" and "thread_enters n s = Ok s'"
  shows "swallowed name config s'"
proof (cases "n < length (ss_entering s)")
  case True
  obtain m c where m: "ss_entering s ! n = (m, c)" by fastforce
  then have "m \<noteq> name" using assms(1) True by (force simp: swallowed_def list_all_length)
  let ?s1 = "s\<lparr>ss_entering := take n (ss_entering s) @ drop (Suc n) (ss_entering s)\<rparr>"
  obtain c' l where l: "lib_step (RunCall m c') (ss_lib ?s1) = Ok l" "s' = ?s1\<lparr>ss_lib := l\<rparr>"
    using assms(2) True m
    by (auto simp: thread_enters_def Let_def bind_res_Ok_iff simp del: lib_step.simps split: option.splits)
  have "swallowed name config ?s1"
    using assms(1) by (auto simp: swallowed_def list_all_iff dest: in_set_takeD in_set_dropD)
  from swallowed_lib [OF this l(1)] show ?thesis using l(2) \<open>m \<noteq> name\<close> by simp
qed (use assms in \<open>simp add: thread_enters_def\<close>)

lemma swallowed_step:
  assumes "swallowed name config s" and "\<not> asks_shutdown J name e" and "service_step J e s = Ok (s', rs)"
  shows "swallowed name config s'"
proof (cases e)
  case (Request rq)
  then show ?thesis using swallowed_request [OF assms(1), of J rq] assms by (auto split: prod.splits)
next
  case (ThreadEnters n)
  then show ?thesis using swallowed_enters [OF assms(1)] assms(3) by (auto simp: bind_res_Ok_iff)
next
  case (LoopOf E m)
  then obtain l where "lib_step (LoopStep E m) (ss_lib s) = Ok l" "s' = s\<lparr>ss_lib := l\<rparr>"
    using assms(3) by (auto simp: bind_res_Ok_iff simp del: lib_step.simps)
  then show ?thesis using swallowed_lib [OF assms(1)] by blast
next
  case (TurnOf t m)
  then obtain l where "lib_step (ThreadTurn t m) (ss_lib s) = Ok l" "s' = s\<lparr>ss_lib := l\<rparr>"
    using assms(3) by (auto simp: bind_res_Ok_iff simp del: lib_step.simps)
  then show ?thesis using swallowed_lib [OF assms(1)] by blast
qed

lemma swallowed_run:
  "swallowed name config s \<Longrightarrow> list_all (\<lambda>e. \<not> asks_shutdown J name e) es \<Longrightarrow> service_run J es s = Ok (s', rs) \<Longrightarrow>
   swallowed name config s'"
proof (induction es arbitrary: s rs)
  case (Cons e es)
  then obtain s1 r1 r2 where "service_step J e s = Ok (s1, r1)" "service_run J es s1 = Ok (s', r2)"
    by (auto simp: bind_res_Ok_iff simp del: service_step.simps)
  then show ?case using Cons swallowed_step [of name config s J e s1 r1] by simp
qed simp

lemma service_run_append:
  "service_run J (es @ fs) s =
     bind_res (service_run J es s) (\<lambda>(s1, r1). bind_res (service_run J fs s1) (\<lambda>(s2, r2). Ok (s2, r1 @ r2)))"
proof (induction es arbitrary: s)
  case Nil
  show ?case by (cases "service_run J fs s") auto
next
  case (Cons e es)
  show ?case
  proof (cases "service_step J e s")
    case (Ok x)
    obtain s1 r1 where x: "x = (s1, r1)" by (cases x)
    show ?thesis
    proof (cases "service_run J es s1")
      case (Ok y)
      obtain s2 r2 where y: "y = (s2, r2)" by (cases y)
      then show ?thesis
        using \<open>service_step J e s = Ok x\<close> x Ok Cons.IH by (cases "service_run J fs s2") auto
    qed (use \<open>service_step J e s = Ok x\<close> x Cons.IH in simp_all)
  qed simp_all
qed

text \<open>When a client is stopped and run again before its loop has ended, both requests are
  answered with success, but the second run does nothing: whatever happens then, as long as
  nobody asks for another shutdown of that id, its new configuration is never used, the old
  client is the last one, and when its loop has ended every status request is answered with
  ``unable to get status'' and every run request with ``id already exists''.\<close>

theorem restart_is_swallowed:
  assumes "json_ok J" and "name \<in> set (ss_threads s)" and "map_of (ss_lib s) name = Some i" and "ss_entering s = []"
    and "list_all (\<lambda>e. \<not> asks_shutdown J name e) es"
    and "service_run J ([Request (request_of ''/api/shutdown'' name None),
       Request (request_of ''/api/run'' name (Some config)), ThreadEnters 0] @ es) s = Ok (s', rs)"
  shows "take 2 rs = [Answer (str ''success'') None, Answer (str ''success'') None] \<and>
    (case map_of (ss_lib s') name of
       Some i' \<Rightarrow> in_config i' = in_config i \<and> \<not> in_running i'
     | None \<Rightarrow> snd (handleRequest J (request_of ''/api/status'' name None) s') = Answer (str ''unable to get status'') None) \<and>
    snd (handleRequest J (request_of ''/api/run'' name (Some config')) s') = Answer (str ''id already exists'') None"
proof -
  let ?l = "tbl_put name (Instance_exit i) (ss_lib s)"
  let ?s1 = "s\<lparr>ss_lib := ?l, ss_threads := removeAll name (ss_threads s)\<rparr>"
  let ?s2 = "?s1\<lparr>ss_threads := ss_threads ?s1 @ [name], ss_entering := [(name, Some config)]\<rparr>"
  have "handle_shutdown name s = (?s1, Answer (str ''success'') None)"
    using assms(2) by (simp add: handle_shutdown_def shutdown_found [OF assms(3)])
  moreover have "handle_run name (Some config) ?s1 = (?s2, Answer (str ''success'') None)"
    using assms(4) by (simp add: handle_run_def)
  moreover have "thread_enters 0 ?s2 = Ok (?s2\<lparr>ss_entering := []\<rparr>)"
    by (simp add: thread_enters_def try_create_instance_def)
  ultimately have "service_run J [Request (request_of ''/api/shutdown'' name None),
       Request (request_of ''/api/run'' name (Some config)), ThreadEnters 0] s =
       Ok (?s2\<lparr>ss_entering := []\<rparr>, [Answer (str ''success'') None, Answer (str ''success'') None])"
    by (simp add: handleRequest_of [OF assms(1)])
  then obtain rs' where rs: "service_run J es (?s2\<lparr>ss_entering := []\<rparr>) = Ok (s', rs')"
    "rs = [Answer (str ''success'') None, Answer (str ''success'') None] @ rs'"
    using assms(6) unfolding service_run_append by (auto simp: bind_res_Ok_iff)
  have "swallowed name (in_config i) (?s2\<lparr>ss_entering := []\<rparr>)"
    by (simp add: swallowed_def Instance_exit_def)
  then have "swallowed name (in_config i) s'" by (rule swallowed_run [OF _ assms(5) rs(1)])
  then show ?thesis
    using rs(2) by (auto simp: handleRequest_of [OF assms(1)] handle_status_def handle_run_def swallowed_def lib_status_def
        split: option.splits)
qed

text \<open>A service with one client in its pause, and the steps that end it.\<close>

definition demo_service :: service where
  "demo_service = \<lparr>ss_threads = [str ''a''], ss_entering = [],
     ss_lib = [(str ''a'', \<lparr>in_running = True, in_config = demo_config, in_phase = AtLoop\<rparr>)]\<rparr>"

theorem restart_is_swallowed_witness:
  "\<exists>s' rs. service_run strict_json ([Request (request_of ''/api/shutdown'' (str ''a'') None),
       Request (request_of ''/api/run'' (str ''a'') (Some [])), ThreadEnters 0] @ [LoopOf demo_loop_env (str ''a'')])
       demo_service = Ok (s', rs) \<and>
     snd (handleRequest strict_json (request_of ''/api/run'' (str ''a'') (Some demo_config)) s') =
       Answer (str ''id already exists'') None"
proof -
  let ?es = "[Request (request_of ''/api/shutdown'' (str ''a'') None),
       Request (request_of ''/api/run'' (str ''a'') (Some [])), ThreadEnters 0] @ [LoopOf demo_loop_env (str ''a'')]"
  obtain s' rs where r: "service_run strict_json ?es demo_service = Ok (s', rs)"
    by (simp add: handleRequest_of [OF strict_json_ok] demo_service_def handle_shutdown_def lib_shutdown_def handle_run_def
        thread_enters_def try_create_instance_def loop_step_def Instance_exit_def tbl_put_def)
  have "list_all (\<lambda>e. \<not> asks_shutdown strict_json (str ''a'') e) [LoopOf demo_loop_env (str ''a'')]"
    by (simp add: asks_shutdown_def)
  from restart_is_swallowed [OF strict_json_ok _ _ _ this r] r show ?thesis by (auto simp: demo_service_def)
qed

end
