(* ===== verification/ServiceMain.thy ===== *)
theory ServiceMain
  imports Service Config
begin

text \<open>
  The rest of \<^verbatim>\<open>candy-service/src/main.cc\<close>: the options, what they make of the log and of the address to
  listen on, and how the process ends when it is asked to: the main thread stops the clients and
  joins their threads one after the other. For this the threads in the map are followed on
  their way through the library's \<^verbatim>\<open>run\<close>. The option processor, the channels of the log and the HTTP server
  are Poco's; which callbacks the option processor makes, and whether the calls fail, are inputs.
\<close>

section \<open>Options\<close>

record service_options =
  so_bindAddress :: bytes
  so_port :: int
  so_helpRequested :: bool
  so_logdir :: bytes
  so_loglevel :: bytes

definition service_options_new :: service_options where
  "service_options_new = \<lparr>so_bindAddress = [], so_port = 0, so_helpRequested = False, so_logdir = [], so_loglevel = []\<rparr>"

datatype callback = HelpOption | BindOption bytes | LogDirOption bytes | LogLevelOption bytes

text \<open>\<open>Inl\<close>: the process ends itself with this code.\<close>

fun option_callback :: "callback \<Rightarrow> service_options \<Rightarrow> int + service_options" where
  "option_callback HelpOption a = Inr (a\<lparr>so_helpRequested := True\<rparr>)"
| "option_callback (BindOption v) a =
     (case handleBind v of Inl code \<Rightarrow> Inl code | Inr (h, p) \<Rightarrow> Inr (a\<lparr>so_bindAddress := h, so_port := p\<rparr>))"
| "option_callback (LogDirOption v) a = Inr (a\<lparr>so_logdir := v\<rparr>)"
| "option_callback (LogLevelOption v) a = Inr (a\<lparr>so_loglevel := v\<rparr>)"

text \<open>After \<^verbatim>\<open>stopOptionsProcessing\<close> there are no more callbacks.\<close>

fun process_options :: "callback list \<Rightarrow> service_options \<Rightarrow> int + service_options" where
  "process_options [] a = Inr a"
| "process_options (o1 # os) a =
     (case option_callback o1 a of
        Inl code \<Rightarrow> Inl code
      | Inr a' \<Rightarrow> if o1 = HelpOption then Inr a' else process_options os a')"

section \<open>The start of main\<close>

datatype priority = PRIO_FATAL | PRIO_ERROR | PRIO_WARNING | PRIO_INFORMATION | PRIO_DEBUG | PRIO_TRACE

definition log_priority :: "bytes \<Rightarrow> priority option" where
  "log_priority loglevel =
     (if loglevel = str ''debug'' then Some PRIO_DEBUG
      else if loglevel = str ''information'' \<or> loglevel = str ''info'' then Some PRIO_INFORMATION
      else if loglevel = str ''warning'' \<or> loglevel = str ''warn'' then Some PRIO_WARNING
      else if loglevel = str ''error'' then Some PRIO_ERROR
      else if loglevel = str ''fatal'' \<or> loglevel = str ''critical'' then Some PRIO_FATAL
      else if loglevel = str ''trace'' then Some PRIO_TRACE
      else None)"

text \<open>
  \<open>Escapes\<close>: an exception of \<^verbatim>\<open>createDirectories\<close>, which is outside the \<^verbatim>\<open>try\<close> block. \<open>Listens\<close>:
  the HTTP server runs, with the log file and the level that were set (\<open>None\<close>: the console, Poco's default).
\<close>

datatype start_result = Ends int | Escapes | Listens bytes u16 "bytes option" "priority option"

text \<open>\<open>mkdir\<close>, \<open>listens\<close>: the calls do not throw. \<^verbatim>\<open>EXIT_SOFTWARE\<close> is 70.\<close>

definition service_start :: "bool \<Rightarrow> bool \<Rightarrow> service_options \<Rightarrow> start_result" where
  "service_start mkdir listens a =
     (if so_helpRequested a then Ends 0
      else if so_logdir a \<noteq> [] \<and> \<not> mkdir then Escapes
      else let file = (if so_logdir a \<noteq> [] then Some (so_logdir a @ str ''/app.log'') else None);
               level = (if so_loglevel a \<noteq> [] then log_priority (so_loglevel a) else None);
               (bindAddress, port) = bind_default (so_bindAddress a, so_port a)
           in if listens then Listens bindAddress (word_of_int port) file level else Ends 70)"

definition service_main :: "bool \<Rightarrow> bool \<Rightarrow> callback list \<Rightarrow> start_result" where
  "service_main mkdir listens os =
     (case process_options os service_options_new of
        Inl code \<Rightarrow> Ends code
      | Inr a \<Rightarrow> service_start mkdir listens a)"

section \<open>The process\<close>

text \<open>
  A thread of the map has not called \<^verbatim>\<open>run\<close> yet, runs the instance of its id, or has returned. The
  map is ordered. \<open>Stopping ids\<close>: the main thread has stopped the server, the clients of \<open>ids\<close>
  are still to be stopped; \<open>Joining name ids\<close>: it waits for the thread of \<open>name\<close>.
\<close>

datatype thread_state = Starting | Inside | Returned

datatype stage = Serving | Stopping "bytes list" | Joining bytes "bytes list" | Exit int

record process =
  pr_service :: service
  pr_threads :: "(bytes, thread_state) table"
  pr_stage :: stage

definition process_new :: process where
  "process_new = \<lparr>pr_service = service_new, pr_threads = [], pr_stage = Serving\<rparr>"

text \<open>A request puts a new thread into the map or takes one out.\<close>

definition threads_after :: "service \<Rightarrow> service \<Rightarrow> (bytes, thread_state) table \<Rightarrow> (bytes, thread_state) table" where
  "threads_after s s' t =
     fold (\<lambda>n. smap_put n Starting) (filter (\<lambda>n. n \<notin> set (ss_threads s)) (ss_threads s'))
       (filter (\<lambda>e. fst e \<in> set (ss_threads s')) t)"

text \<open>
  The \<open>n\<close>-th waiting thread is the one in the map when it is the last that was started for its id; the others are detached.
\<close>

definition thread_entered :: "nat \<Rightarrow> service \<Rightarrow> (bytes, thread_state) table \<Rightarrow> (bytes, thread_state) table" where
  "thread_entered n s t =
     (if n < length (ss_entering s)
      then let name = fst (ss_entering s ! n)
           in if map_of t name = Some Starting \<and> list_all (\<lambda>e. fst e \<noteq> name) (drop (Suc n) (ss_entering s))
              then smap_put name (if map_of (ss_lib s) name = None then Inside else Returned) t
              else t
      else t)"

definition loop_ended :: "bytes \<Rightarrow> service \<Rightarrow> service \<Rightarrow> (bytes, thread_state) table \<Rightarrow> (bytes, thread_state) table" where
  "loop_ended name s s' t =
     (if map_of t name = Some Inside \<and> map_of (ss_lib s) name \<noteq> None \<and> map_of (ss_lib s') name = None
      then smap_put name Returned t else t)"

fun threads_step :: "service_event \<Rightarrow> service \<Rightarrow> service \<Rightarrow> (bytes, thread_state) table \<Rightarrow> (bytes, thread_state) table" where
  "threads_step (Request rq) s s' t = threads_after s s' t"
| "threads_step (ThreadEnters n) s s' t = thread_entered n s t"
| "threads_step (LoopOf E name) s s' t = loop_ended name s s' t"
| "threads_step (TurnOf tn name) s s' t = t"

datatype process_event = Event service_event | ExitSignal | MainStep

definition main_step :: "process \<Rightarrow> process" where
  "main_step p =
     (case pr_stage p of
        Stopping [] \<Rightarrow> p\<lparr>pr_stage := Exit 0\<rparr>
      | Stopping (name # ids) \<Rightarrow>
          p\<lparr>pr_service := (pr_service p)\<lparr>ss_lib := fst (lib_shutdown name (ss_lib (pr_service p)))\<rparr>,
            pr_stage := Joining name ids\<rparr>
      | Joining name ids \<Rightarrow> if map_of (pr_threads p) name = Some Returned then p\<lparr>pr_stage := Stopping ids\<rparr> else p
      | _ \<Rightarrow> p)"

text \<open>The stopped server handles no requests; when main has returned the process is gone.\<close>

fun accepts :: "stage \<Rightarrow> service_event \<Rightarrow> bool" where
  "accepts Serving e = True"
| "accepts (Exit code) e = False"
| "accepts _ e = (case e of Request rq \<Rightarrow> False | _ \<Rightarrow> True)"

fun process_step :: "json_lib \<Rightarrow> process_event \<Rightarrow> process \<Rightarrow> process res" where
  "process_step J (Event e) p =
     (if \<not> accepts (pr_stage p) e then Ok p
      else bind_res (service_step J e (pr_service p)) (\<lambda>(s', rs).
             Ok (p\<lparr>pr_service := s', pr_threads := threads_step e (pr_service p) s' (pr_threads p)\<rparr>)))"
| "process_step J ExitSignal p =
     Ok (if pr_stage p = Serving then p\<lparr>pr_stage := Stopping (map fst (pr_threads p))\<rparr> else p)"
| "process_step J MainStep p = Ok (main_step p)"

fun process_run :: "json_lib \<Rightarrow> process_event list \<Rightarrow> process \<Rightarrow> process res" where
  "process_run J [] p = Ok p"
| "process_run J (e # es) p = bind_res (process_step J e p) (process_run J es)"

section \<open>A thread that had not started yet\<close>

lemma lib_step_absent:
  "lib_step e l = Ok l' \<Longrightarrow> \<forall>c. e \<noteq> RunCall name c \<Longrightarrow> map_of l name = None \<Longrightarrow> map_of l' name = None"
  by (cases e) (auto simp: try_create_instance_def try_erase_instance_def lib_shutdown_def loop_step_def thread_step_def
      bind_res_Ok_iff split: option.splits if_splits)

lemma lib_step_keeps_running:
  "lib_step e l = Ok l' \<Longrightarrow> e \<noteq> ShutdownCall name \<Longrightarrow> map_of l name = Some i \<Longrightarrow> in_running i \<Longrightarrow>
    \<exists>i'. map_of l' name = Some i' \<and> in_running i'"
  by (cases e) (auto simp: try_create_instance_def try_erase_instance_def lib_shutdown_def loop_step_def thread_step_def
      bind_res_Ok_iff split: option.splits if_splits)

text \<open>
  The main thread waits for \<open>name\<close>, whose thread has yet to call \<^verbatim>\<open>run\<close>, as the only one for this id,
  or runs an instance that nobody has asked to stop.
\<close>

definition waits_in_vain :: "bytes \<Rightarrow> bytes list \<Rightarrow> process \<Rightarrow> bool" where
  "waits_in_vain name ids p \<longleftrightarrow>
     pr_stage p = Joining name ids \<and>
     (case map_of (ss_lib (pr_service p)) name of
        None \<Rightarrow> map_of (pr_threads p) name = Some Starting \<and>
          map fst (filter (\<lambda>e. fst e = name) (ss_entering (pr_service p))) = [name]
      | Some i \<Rightarrow> map_of (pr_threads p) name = Some Inside \<and> in_running i)"

lemma map_of_smap_put_other: "n \<noteq> k \<Longrightarrow> map_of (smap_put k v t) n = map_of t n"
  by (simp add: map_of_smap_put)

lemma filter_without:
  assumes "n < length xs"
  shows "filter P xs = filter P (take n xs) @ (if P (xs ! n) then [xs ! n] else []) @ filter P (drop (Suc n) xs)"
    and "filter P (take n xs @ drop (Suc n) xs) = filter P (take n xs) @ filter P (drop (Suc n) xs)"
proof -
  show "filter P xs = filter P (take n xs) @ (if P (xs ! n) then [xs ! n] else []) @ filter P (drop (Suc n) xs)"
    by (subst id_take_nth_drop [OF assms]) simp
qed simp

lemma vain_enters:
  assumes "waits_in_vain name ids p" and "thread_enters n (pr_service p) = Ok s'"
  shows "waits_in_vain name ids (p\<lparr>pr_service := s', pr_threads := thread_entered n (pr_service p) (pr_threads p)\<rparr>)"
proof (cases "n < length (ss_entering (pr_service p))")
  case True
  let ?s = "pr_service p"
  obtain m c where m: "ss_entering ?s ! n = (m, c)" by fastforce
  let ?s1 = "?s\<lparr>ss_entering := take n (ss_entering ?s) @ drop (Suc n) (ss_entering ?s)\<rparr>"
  obtain c' l where l: "lib_step (RunCall m c') (ss_lib ?s) = Ok l" "s' = ?s1\<lparr>ss_lib := l\<rparr>"
    using assms(2) True m
    by (auto simp: thread_enters_def Let_def bind_res_Ok_iff simp del: lib_step.simps split: option.splits)
  note f = filter_without [OF True, of "\<lambda>e. fst e = name"]
  let ?t = "thread_entered n ?s (pr_threads p)"
  have te: "?t = (if map_of (pr_threads p) m = Some Starting \<and> list_all (\<lambda>e. fst e \<noteq> m) (drop (Suc n) (ss_entering ?s))
      then smap_put m (if map_of (ss_lib ?s) m = None then Inside else Returned) (pr_threads p) else pr_threads p)"
    using True m by (simp add: thread_entered_def)
  show ?thesis
  proof (cases "m = name")
    case False
    have "map_of l name = map_of (ss_lib ?s) name"
      using l(1) False by (simp add: try_create_instance_def split: if_splits) (auto simp: try_create_instance_def)
    moreover have "map_of ?t name = map_of (pr_threads p) name" using False by (simp add: te map_of_smap_put_other)
    moreover have "filter (\<lambda>e. fst e = name) (ss_entering ?s1) = filter (\<lambda>e. fst e = name) (ss_entering ?s)"
      using f m False by simp
    ultimately show ?thesis using assms(1) l(2) by (simp add: waits_in_vain_def split: option.splits)
  next
    case True': True
    show ?thesis
    proof (cases "map_of (ss_lib ?s) name")
      case None
      then have "map_of l name = Some \<lparr>in_running = True, in_config = c', in_phase = AtLoop\<rparr>"
        using l(1) True' by (simp add: try_create_instance_def) auto
      moreover have e: "map_of (pr_threads p) name = Some Starting" "filter (\<lambda>e. fst e = name) (drop (Suc n) (ss_entering ?s)) = []"
        using assms(1) None f(1) m True' by (auto simp: waits_in_vain_def append_eq_Cons_conv)
      moreover from e(2) have "list_all (\<lambda>e. fst e \<noteq> m) (drop (Suc n) (ss_entering ?s))"
        by (auto simp: True' filter_empty_conv list_all_iff)
      then have "map_of ?t name = Some Inside" using te e(1) None True' by (simp add: map_of_smap_put)
      ultimately show ?thesis using assms(1) l(2) by (simp add: waits_in_vain_def)
    next
      case (Some i)
      then have "l = ss_lib ?s" using l(1) True' by (simp add: try_create_instance_def)
      moreover have "map_of (pr_threads p) name = Some Inside" using assms(1) Some by (simp add: waits_in_vain_def)
      then have "?t = pr_threads p" using te True' by simp
      ultimately show ?thesis using assms(1) Some l(2) by (simp add: waits_in_vain_def)
    qed
  qed
qed (use assms in \<open>simp add: thread_enters_def thread_entered_def waits_in_vain_def split: option.splits\<close>)

lemma vain_lib:
  assumes "waits_in_vain name ids p" and "lib_step e (ss_lib (pr_service p)) = Ok l"
    and "\<forall>c. e \<noteq> RunCall name c" and "e \<noteq> ShutdownCall name"
  shows "waits_in_vain name ids (p\<lparr>pr_service := (pr_service p)\<lparr>ss_lib := l\<rparr>\<rparr>)"
proof (cases "map_of (ss_lib (pr_service p)) name")
  case None
  then show ?thesis
    using assms(1) lib_step_absent [OF assms(2,3) None] by (simp add: waits_in_vain_def)
next
  case (Some i)
  then have "in_running i" using assms(1) by (simp add: waits_in_vain_def)
  then show ?thesis
    using assms(1) Some lib_step_keeps_running [OF assms(2,4) Some] by (auto simp: waits_in_vain_def)
qed

lemma vain_not_ended:
  "waits_in_vain name ids p \<Longrightarrow> waits_in_vain name ids (p\<lparr>pr_service := (pr_service p)\<lparr>ss_lib := l\<rparr>\<rparr>) \<Longrightarrow>
    waits_in_vain name ids (p\<lparr>pr_service := (pr_service p)\<lparr>ss_lib := l\<rparr>,
      pr_threads := loop_ended m (pr_service p) ((pr_service p)\<lparr>ss_lib := l\<rparr>) (pr_threads p)\<rparr>)"
  by (auto simp: waits_in_vain_def loop_ended_def map_of_smap_put split: option.splits)

lemma vain_step:
  assumes "waits_in_vain name ids p" and "process_step J e p = Ok p'"
  shows "waits_in_vain name ids p'"
proof (cases e)
  case (Event ev)
  have st: "pr_stage p = Joining name ids" using assms(1) by (simp add: waits_in_vain_def)
  show ?thesis
  proof (cases ev)
    case (Request rq)
    then show ?thesis using assms st Event by simp
  next
    case (ThreadEnters n)
    then show ?thesis using assms st Event vain_enters [OF assms(1)] by (auto simp: bind_res_Ok_iff)
  next
    case (LoopOf E m)
    then obtain l where l: "lib_step (LoopStep E m) (ss_lib (pr_service p)) = Ok l"
      "p' = p\<lparr>pr_service := (pr_service p)\<lparr>ss_lib := l\<rparr>,
        pr_threads := loop_ended m (pr_service p) ((pr_service p)\<lparr>ss_lib := l\<rparr>) (pr_threads p)\<rparr>"
      using assms st Event by (auto simp: bind_res_Ok_iff simp del: lib_step.simps)
    then show ?thesis using vain_not_ended [OF assms(1)] vain_lib [OF assms(1) l(1)] by blast
  next
    case (TurnOf t m)
    then obtain l where l: "lib_step (ThreadTurn t m) (ss_lib (pr_service p)) = Ok l"
      "p' = p\<lparr>pr_service := (pr_service p)\<lparr>ss_lib := l\<rparr>\<rparr>"
      using assms st Event by (auto simp: bind_res_Ok_iff simp del: lib_step.simps)
    then show ?thesis using vain_lib [OF assms(1) l(1)] by blast
  qed
next
  case MainStep
  then show ?thesis using assms by (auto simp: waits_in_vain_def main_step_def split: option.splits)
qed (use assms in \<open>auto simp: waits_in_vain_def\<close>)

lemma vain_run: "waits_in_vain name ids p \<Longrightarrow> process_run J es p = Ok p' \<Longrightarrow> waits_in_vain name ids p'"
proof (induction es arbitrary: p)
  case (Cons e es)
  then show ?case using vain_step by (fastforce simp: bind_res_Ok_iff simp del: process_step.simps)
qed simp


section \<open>Clients that run\<close>

text \<open>The steps that stop one client: the main thread, one turn of each of its threads, its loop, the join.\<close>

definition stop_schedule :: "turn list \<Rightarrow> loop_env \<Rightarrow> ns_env \<Rightarrow> int \<Rightarrow> ns_op \<Rightarrow> bytes \<Rightarrow> process_event list" where
  "stop_schedule ts E En now op name =
     MainStep # map (\<lambda>t. Event (TurnOf t name)) ts @
     [Event (LoopOf E name), Event (TurnOf (TStack En now op) name), Event (LoopOf E name), Event (LoopOf E name), MainStep]"

lemma process_run_append:
  "process_run J (es @ fs) p = bind_res (process_run J es p) (process_run J fs)"
proof (induction es arbitrary: p)
  case (Cons e es)
  then show ?case by (cases "process_step J e p") simp_all
qed simp

text \<open>While the main thread waits, the steps of a client are those of the library.\<close>

fun own_event :: "bytes \<Rightarrow> lib_event \<Rightarrow> process_event option" where
  "own_event name (LoopStep E m) = (if m = name then Some (Event (LoopOf E m)) else None)"
| "own_event name (ThreadTurn t m) = (if m = name then Some (Event (TurnOf t m)) else None)"
| "own_event name _ = None"

definition waiting :: "bytes \<Rightarrow> bytes list \<Rightarrow> service \<Rightarrow> (bytes, thread_state) table \<Rightarrow> process" where
  "waiting name ids s t = \<lparr>pr_service = s, pr_threads = t, pr_stage = Joining name ids\<rparr>"

definition in_step :: "bytes \<Rightarrow> library \<Rightarrow> (bytes, thread_state) table \<Rightarrow> bool" where
  "in_step name l t \<longleftrightarrow> map_of t name = Some (if map_of l name = None then Returned else Inside)"

lemma own_step:
  assumes "own_event name e = Some pe" and "lib_step e l = Ok l'" and "in_step name l t"
  shows "\<exists>t'. process_step J pe (waiting n ids (s\<lparr>ss_lib := l\<rparr>) t) = Ok (waiting n ids (s\<lparr>ss_lib := l'\<rparr>) t') \<and>
    in_step name l' t' \<and> (\<forall>m. m \<noteq> name \<longrightarrow> map_of t' m = map_of t m)"
proof (cases e)
  case (LoopStep E m)
  then have m: "m = name" "pe = Event (LoopOf E name)" using assms(1) by (simp_all split: if_splits)
  obtain os where l: "loop_step E name l = Ok (l', os)" using assms(2) LoopStep m by (auto simp: bind_res_Ok_iff)
  have "map_of l name = None \<Longrightarrow> map_of l' name = None"
    using l by (simp add: loop_step_def)
  then have "in_step name l' (loop_ended name (s\<lparr>ss_lib := l\<rparr>) (s\<lparr>ss_lib := l'\<rparr>) t)"
    using assms(3) by (auto simp: in_step_def loop_ended_def map_of_smap_put)
  then show ?thesis
    using l m by (auto simp: waiting_def loop_ended_def map_of_smap_put)
next
  case (ThreadTurn tn m)
  then have m: "m = name" "pe = Event (TurnOf tn name)" using assms(1) by (simp_all split: if_splits)
  obtain os where l: "thread_step tn name l = Ok (l', os)" using assms(2) ThreadTurn m by (auto simp: bind_res_Ok_iff)
  have "map_of l' name = None \<longleftrightarrow> map_of l name = None"
    using l by (auto simp: thread_step_def bind_res_Ok_iff split: option.splits)
  then show ?thesis using assms(3) l m by (auto simp: waiting_def in_step_def)
qed (use assms(1) in simp_all)

lemma own_steps:
  assumes "map (own_event name) es = map Some pes" and "lib_run es l = Ok l'" and "in_step name l t"
  shows "\<exists>t'. process_run J pes (waiting n ids (s\<lparr>ss_lib := l\<rparr>) t) = Ok (waiting n ids (s\<lparr>ss_lib := l'\<rparr>) t') \<and>
    in_step name l' t' \<and> (\<forall>m. m \<noteq> name \<longrightarrow> map_of t' m = map_of t m)"
  using assms
proof (induction es arbitrary: pes l t)
  case (Cons e es)
  obtain pe pes' where pe: "pes = pe # pes'" "own_event name e = Some pe" "map (own_event name) es = map Some pes'"
    using Cons.prems(1) by (cases pes) auto
  obtain l1 where l1: "lib_step e l = Ok l1" "lib_run es l1 = Ok l'"
    using Cons.prems(2) by (auto simp: bind_res_Ok_iff simp del: lib_step.simps)
  obtain t1 where t1: "process_step J pe (waiting n ids (s\<lparr>ss_lib := l\<rparr>) t) = Ok (waiting n ids (s\<lparr>ss_lib := l1\<rparr>) t1)"
    "in_step name l1 t1" "\<forall>m. m \<noteq> name \<longrightarrow> map_of t1 m = map_of t m"
    using own_step [OF pe(2) l1(1) Cons.prems(3), of J n ids s] by blast
  show ?case using Cons.IH [OF pe(3) l1(2) t1(2)] t1(1,3) pe(1) by auto
qed auto

lemma stop_one:
  assumes "pr_stage p = Stopping (name # ids)" and "map_of (pr_threads p) name = Some Inside"
    and "map_of (ss_lib (pr_service p)) name = Some i" and "in_phase i = InRun c"
    and "\<forall>th. th = ThStack \<or> th \<in> thread_of ` set ts"
  shows "\<exists>p'. process_run J (stop_schedule ts E En now op name) p = Ok p' \<and> pr_stage p' = Stopping ids \<and>
    map_of (ss_lib (pr_service p')) = (map_of (ss_lib (pr_service p)))(name := None) \<and>
    (\<forall>m. m \<noteq> name \<longrightarrow> map_of (pr_threads p') m = map_of (pr_threads p) m)"
proof -
  let ?l = "ss_lib (pr_service p)"
  let ?es = "map (\<lambda>t. ThreadTurn t name) ts @
        [LoopStep E name, ThreadTurn (TStack En now op) name, LoopStep E name, LoopStep E name]"
  let ?pes = "map (\<lambda>t. Event (TurnOf t name)) ts @
        [Event (LoopOf E name), Event (TurnOf (TStack En now op) name), Event (LoopOf E name), Event (LoopOf E name)]"
  let ?l1 = "fst (lib_shutdown name ?l)"
  have "\<forall>th \<in> set (cl_live c). th = ThStack \<or> th \<in> thread_of ` set ts" using assms(5) by blast
  from shutdown_winds_up [OF assms(3,4) this, of E En now op] obtain l' where
    l': "lib_run ?es ?l1 = Ok l'" "map_of l' = (map_of ?l)(name := None)" by auto
  have "in_step name ?l1 (pr_threads p)"
    using assms(2,3) by (simp add: in_step_def shutdown_found)
  moreover have "map (own_event name) ?es = map Some ?pes" by simp
  ultimately obtain t' where t': "process_run J ?pes (waiting name ids ((pr_service p)\<lparr>ss_lib := ?l1\<rparr>) (pr_threads p)) =
      Ok (waiting name ids ((pr_service p)\<lparr>ss_lib := l'\<rparr>) t')" "in_step name l' t'"
      "\<forall>m. m \<noteq> name \<longrightarrow> map_of t' m = map_of (pr_threads p) m"
    using own_steps [OF _ l'(1), of name ?pes "pr_threads p" J name ids "pr_service p"] by blast
  have m: "main_step p = waiting name ids ((pr_service p)\<lparr>ss_lib := ?l1\<rparr>) (pr_threads p)"
    using assms(1) by (simp add: main_step_def waiting_def)
  have j: "main_step (waiting name ids s t') = \<lparr>pr_service = s, pr_threads = t', pr_stage = Stopping ids\<rparr>" for s
    using t'(2) l'(2) by (simp add: main_step_def waiting_def in_step_def)
  define pes where "pes = ?pes"
  have "stop_schedule ts E En now op name = MainStep # pes @ [MainStep]" by (simp add: stop_schedule_def pes_def)
  moreover have "process_run J pes (main_step p) = Ok (waiting name ids ((pr_service p)\<lparr>ss_lib := l'\<rparr>) t')"
    using t'(1) unfolding m pes_def .
  ultimately show ?thesis using t'(3) l'(2) j by (simp add: process_run_append)
qed

lemma stop_all:
  assumes "pr_stage p = Stopping ids" and "distinct ids" and "\<forall>th. th = ThStack \<or> th \<in> thread_of ` set ts"
    and "\<forall>name \<in> set ids. map_of (pr_threads p) name = Some Inside \<and>
      (\<exists>i c. map_of (ss_lib (pr_service p)) name = Some i \<and> in_phase i = InRun c)"
  shows "\<exists>p'. process_run J (concat (map (stop_schedule ts E En now op) ids) @ [MainStep]) p = Ok p' \<and> pr_stage p' = Exit 0"
  using assms(1,2,4)
proof (induction ids arbitrary: p)
  case Nil
  then show ?case by (simp add: main_step_def)
next
  case (Cons name ids)
  obtain i c where i: "map_of (ss_lib (pr_service p)) name = Some i" "in_phase i = InRun c"
    "map_of (pr_threads p) name = Some Inside"
    using Cons.prems(3) by auto
  obtain p1 where p1: "process_run J (stop_schedule ts E En now op name) p = Ok p1" "pr_stage p1 = Stopping ids"
    "map_of (ss_lib (pr_service p1)) = (map_of (ss_lib (pr_service p)))(name := None)"
    "\<forall>m. m \<noteq> name \<longrightarrow> map_of (pr_threads p1) m = map_of (pr_threads p) m"
    using stop_one [OF Cons.prems(1) i(3,1,2) assms(3), of J E En now op] by blast
  have "\<forall>n \<in> set ids. map_of (pr_threads p1) n = Some Inside \<and>
      (\<exists>i c. map_of (ss_lib (pr_service p1)) n = Some i \<and> in_phase i = InRun c)"
  proof
    fix n assume n: "n \<in> set ids"
    then have "n \<noteq> name" using Cons.prems(2) by auto
    then show "map_of (pr_threads p1) n = Some Inside \<and>
      (\<exists>i c. map_of (ss_lib (pr_service p1)) n = Some i \<and> in_phase i = InRun c)"
      using p1(3,4) Cons.prems(3) n by simp
  qed
  from Cons.IH [OF p1(2) _ this] Cons.prems(2) p1(1) show ?case by (auto simp: process_run_append)
qed

section \<open>The map of threads\<close>

inductive process_reach :: "json_lib \<Rightarrow> process \<Rightarrow> bool" for J where
  new: "process_reach J process_new"
| step: "process_reach J p \<Longrightarrow> process_step J e p = Ok p' \<Longrightarrow> process_reach J p'"

text \<open>The map is ordered, and a thread that runs an instance has one.\<close>

definition threads_ok :: "service \<Rightarrow> (bytes, thread_state) table \<Rightarrow> bool" where
  "threads_ok s t \<longleftrightarrow>
     smap_ok t \<and> set (map fst t) = set (ss_threads s) \<and>
     (\<forall>name. map_of t name = Some Inside \<longrightarrow> map_of (ss_lib s) name \<noteq> None)"

lemma smap_ok_filter: "smap_ok t \<Longrightarrow> smap_ok (filter (\<lambda>e. P (fst e)) t)"
  using sorted_wrt_filter [of bytes_less "map fst t" P] by (simp add: smap_ok_def filter_map o_def)

lemma fold_starting_ok: "smap_ok t \<Longrightarrow> smap_ok (fold (\<lambda>n. smap_put n Starting) ns t)"
  by (induction ns arbitrary: t) (simp_all add: smap_ok_put)

lemma fold_starting_map:
  "map_of (fold (\<lambda>n. smap_put n Starting) ns t) name = (if name \<in> set ns then Some Starting else map_of t name)"
  by (induction ns arbitrary: t) (simp_all add: map_of_smap_put)

lemma fold_starting_set: "set (map fst (fold (\<lambda>n. smap_put n Starting) ns t)) = set (map fst t) \<union> set ns"
proof -
  have "map_of (fold (\<lambda>n. smap_put n Starting) ns t) name = None \<longleftrightarrow> name \<notin> set (map fst t) \<union> set ns" for name
    by (simp add: fold_starting_map map_of_eq_None_iff)
  then show ?thesis by (auto simp: map_of_eq_None_iff)
qed

lemma map_of_filter: "map_of (filter (\<lambda>e. P (fst e)) t) n = (if P n then map_of t n else None)"
  by (induction t) auto

lemma request_lib_dom:
  "map_of (ss_lib (fst (handleRequest J rq s))) name = None \<longleftrightarrow> map_of (ss_lib s) name = None"
proof -
  have "map_of (ss_lib (fst (handle_shutdown n s))) name = None \<longleftrightarrow> map_of (ss_lib s) name = None" for n
    by (auto simp: handle_shutdown_def lib_shutdown_def Let_def split: option.splits)
  moreover have "ss_lib (fst (handle_run n c s)) = ss_lib s" "ss_lib (fst (handle_status n s)) = ss_lib s" for n c
    by (simp_all add: handle_run_def handle_status_def split: option.splits)
  ultimately show ?thesis
    by (auto simp: handleRequest_def split: option.splits res.splits handler.splits)
qed

lemma threads_after_ok:
  assumes "threads_ok s t" and "\<And>name. map_of (ss_lib s') name = None \<longleftrightarrow> map_of (ss_lib s) name = None"
  shows "threads_ok s' (threads_after s s' t)"
proof -
  let ?f = "filter (\<lambda>e. fst e \<in> set (ss_threads s')) t"
  have "smap_ok t" using assms(1) by (simp add: threads_ok_def)
  then have "smap_ok ?f" by (rule smap_ok_filter [where P = "\<lambda>n. n \<in> set (ss_threads s')"])
  then have 1: "smap_ok (threads_after s s' t)" by (simp add: threads_after_def fold_starting_ok)
  have "set (map fst ?f) = set (ss_threads s) \<inter> set (ss_threads s')"
    using assms(1) by (auto simp: threads_ok_def)
  then have 2: "set (map fst (threads_after s s' t)) = set (ss_threads s')"
    unfolding threads_after_def fold_starting_set by auto
  have 3: "map_of t name = Some Inside" if "map_of (threads_after s s' t) name = Some Inside" for name
    using that map_of_filter [of "\<lambda>n. n \<in> set (ss_threads s')" t name]
    by (simp add: threads_after_def fold_starting_map split: if_splits)
  show ?thesis using 1 2 3 assms unfolding threads_ok_def by blast
qed

lemma threads_put_ok:
  assumes "threads_ok s t" and "ss_threads s' = ss_threads s" and "name \<in> set (map fst t)"
    and "\<And>n. n \<noteq> name \<Longrightarrow> map_of (ss_lib s) n \<noteq> None \<Longrightarrow> map_of (ss_lib s') n \<noteq> None"
    and "st = Inside \<longrightarrow> map_of (ss_lib s') name \<noteq> None"
  shows "threads_ok s' (smap_put name st t)"
  using assms by (auto simp: threads_ok_def smap_ok_put map_of_smap_put set_smap_put simp del: set_map)

lemma threads_kept:
  assumes "threads_ok s t" and "ss_threads s' = ss_threads s"
    and "\<And>n. map_of t n = Some Inside \<Longrightarrow> map_of (ss_lib s) n \<noteq> None \<Longrightarrow> map_of (ss_lib s') n \<noteq> None"
  shows "threads_ok s' t"
  using assms by (simp add: threads_ok_def)

lemma key_in: "map_of t k = Some v \<Longrightarrow> k \<in> set (map fst t)"
  by (force dest: map_of_SomeD)

lemma key_value: "k \<in> set (map fst t) \<Longrightarrow> \<exists>v. map_of t k = Some v"
  by (cases "map_of t k") (simp_all add: map_of_eq_None_iff)

lemma shutdown_dom: "map_of (fst (lib_shutdown n l)) k = None \<longleftrightarrow> map_of l k = None"
  by (auto simp: lib_shutdown_def split: option.split)

lemma lib_step_dom:
  "lib_step e l = Ok l' \<Longrightarrow> map_of l n \<noteq> None \<Longrightarrow> map_of l' n = None \<Longrightarrow> \<exists>E. e = LoopStep E n"
  by (cases e) (auto simp: try_create_instance_def try_erase_instance_def lib_shutdown_def loop_step_def thread_step_def
      bind_res_Ok_iff split: option.splits if_splits)

lemma entered_ok:
  assumes "threads_ok s t" and "thread_enters n s = Ok s'"
  shows "threads_ok s' (thread_entered n s t)"
proof (cases "n < length (ss_entering s)")
  case True
  obtain m c where m: "ss_entering s ! n = (m, c)" by fastforce
  obtain c' l where l: "lib_step (RunCall m c') (ss_lib s) = Ok l"
    "s' = s\<lparr>ss_entering := take n (ss_entering s) @ drop (Suc n) (ss_entering s)\<rparr>\<lparr>ss_lib := l\<rparr>"
    using assms(2) True m
    by (auto simp: thread_enters_def Let_def bind_res_Ok_iff simp del: lib_step.simps split: option.splits)
  have d: "map_of (ss_lib s') k \<noteq> None" if "map_of (ss_lib s) k \<noteq> None" for k
    using lib_step_dom [OF l(1) that] l(2) by auto
  have new: "map_of (ss_lib s') m \<noteq> None" using l by (auto simp: try_create_instance_def)
  have th: "ss_threads s' = ss_threads s" using l(2) by simp
  show ?thesis
  proof (cases "map_of t m = Some Starting \<and> list_all (\<lambda>e. fst e \<noteq> m) (drop (Suc n) (ss_entering s))")
    case True'': True
    then have "m \<in> set (map fst t)" by (blast intro: key_in)
    from threads_put_ok [OF assms(1) th this d] new True True'' m show ?thesis by (simp add: thread_entered_def)
  next
    case False
    then show ?thesis using threads_kept [OF assms(1) th d] True m by (auto simp: thread_entered_def Let_def)
  qed
next
  case False
  then have "s' = s" using assms(2) by (simp add: thread_enters_def)
  then show ?thesis using assms(1) False by (simp add: thread_entered_def)
qed

lemma ended_ok:
  assumes "threads_ok s t" and "lib_step (LoopStep E name) (ss_lib s) = Ok l"
  shows "threads_ok (s\<lparr>ss_lib := l\<rparr>) (loop_ended name s (s\<lparr>ss_lib := l\<rparr>) t)"
proof -
  have d: "map_of l n \<noteq> None" if "n \<noteq> name" "map_of (ss_lib s) n \<noteq> None" for n
    using lib_step_dom [OF assms(2), of n] that by auto
  show ?thesis
  proof (cases "map_of t name = Some Inside \<and> map_of (ss_lib s) name \<noteq> None \<and> map_of l name = None")
    case True
    then have "name \<in> set (map fst t)" by (blast intro: key_in)
    with threads_put_ok [OF assms(1), of "s\<lparr>ss_lib := l\<rparr>" name Returned] d True show ?thesis by (simp add: loop_ended_def)
  next
    case False
    have "map_of l n \<noteq> None" if "map_of t n = Some Inside" "map_of (ss_lib s) n \<noteq> None" for n
      using that d [of n] False by (cases "n = name") auto
    then show ?thesis
      using threads_kept [OF assms(1), of "s\<lparr>ss_lib := l\<rparr>"] False by (auto simp: loop_ended_def)
  qed
qed

lemma threads_step_ok:
  assumes "threads_ok s t" and "service_step J e s = Ok (s', rs)"
  shows "threads_ok s' (threads_step e s s' t)"
proof (cases e)
  case (Request rq)
  then have "s' = fst (handleRequest J rq s)" using assms(2) by (auto split: prod.splits)
  then show ?thesis using threads_after_ok [OF assms(1), of s'] request_lib_dom Request by simp
next
  case (ThreadEnters n)
  then show ?thesis using assms entered_ok by (auto simp: bind_res_Ok_iff)
next
  case (LoopOf E name)
  then show ?thesis using assms ended_ok by (auto simp: bind_res_Ok_iff simp del: lib_step.simps)
next
  case (TurnOf tn name)
  then obtain l where l: "lib_step (ThreadTurn tn name) (ss_lib s) = Ok l" "s' = s\<lparr>ss_lib := l\<rparr>"
    using assms(2) by (auto simp: bind_res_Ok_iff simp del: lib_step.simps)
  have "map_of l n \<noteq> None" if "map_of (ss_lib s) n \<noteq> None" for n using lib_step_dom [OF l(1) that] by auto
  then show ?thesis using threads_kept [OF assms(1), of s'] l(2) TurnOf by simp
qed

lemma process_threads_ok: "process_reach J p \<Longrightarrow> threads_ok (pr_service p) (pr_threads p)"
proof (induction rule: process_reach.induct)
  case new
  show ?case by (simp add: process_new_def service_new_def threads_ok_def smap_ok_def)
next
  case (step p e p')
  show ?case
  proof (cases e)
    case (Event ev)
    then show ?thesis
      using step threads_step_ok [of "pr_service p" "pr_threads p" J ev]
      by (auto simp: bind_res_Ok_iff simp del: service_step.simps threads_step.simps split: if_splits)
  next
    case MainStep
    have "threads_ok ((pr_service p)\<lparr>ss_lib := fst (lib_shutdown n (ss_lib (pr_service p)))\<rparr>) (pr_threads p)" for n
      using step.IH by (simp add: threads_ok_def shutdown_dom)
    then show ?thesis
      using step MainStep by (auto simp: main_step_def split: stage.splits list.splits if_splits)
  qed (use step in auto)
qed

text \<open>C32: an exit signal ends the service. When every thread in the map runs its client, the main thread
  asks the clients to stop one after the other, in the order of their ids, and joins each thread before it turns to the next;
  once the threads of the client it waits for have noticed (one turn each, in any order and with any
  inputs) and its loop has made its last steps the join returns, and in the end the process exits
  with code 0.\<close>

theorem exit_signal_ends_service:
  assumes "process_reach J p" and "pr_stage p = Serving"
    and "\<forall>th. th = ThStack \<or> th \<in> thread_of ` set ts"
    and "\<forall>name i. map_of (pr_threads p) name \<noteq> Some Starting \<and> map_of (pr_threads p) name \<noteq> Some Returned \<and>
      (map_of (ss_lib (pr_service p)) name = Some i \<longrightarrow> (\<exists>c. in_phase i = InRun c))"
  shows "\<exists>p'. process_run J (ExitSignal # concat (map (stop_schedule ts E En now op) (map fst (pr_threads p))) @ [MainStep]) p =
      Ok p' \<and> pr_stage p' = Exit 0"
proof -
  have ok: "threads_ok (pr_service p) (pr_threads p)" using process_threads_ok [OF assms(1)] .
  have inside: "map_of (pr_threads p) name = Some Inside" if "name \<in> set (map fst (pr_threads p))" for name
  proof -
    note n = that
    obtain st where "map_of (pr_threads p) name = Some st"
      using key_value [OF n] by blast
    then show ?thesis using assms(4) by (cases st) auto
  qed
  then have "\<exists>i c. map_of (ss_lib (pr_service p)) name = Some i \<and> in_phase i = InRun c"
    if "name \<in> set (map fst (pr_threads p))" for name
    using that ok assms(4) unfolding threads_ok_def by blast
  moreover have "distinct (map fst (pr_threads p))" using ok smap_ok_distinct [of "pr_threads p"] by (simp add: threads_ok_def)
  ultimately show ?thesis
    using stop_all [of "p\<lparr>pr_stage := Stopping (map fst (pr_threads p))\<rparr>" "map fst (pr_threads p)" ts J E En now op]
      assms(2,3) inside by (simp del: set_map)
qed

section \<open>A service with one client\<close>

definition demo_started :: process where
  "demo_started = \<lparr>pr_service = \<lparr>ss_threads = [str ''a''], ss_entering = [(str ''a'', Some demo_config)], ss_lib = []\<rparr>,
     pr_threads = [(str ''a'', Starting)], pr_stage = Serving\<rparr>"

lemma demo_run_request:
  "process_step strict_json (Event (Request (request_of ''/api/run'' (str ''a'') (Some demo_config)))) process_new = Ok demo_started"
  by (simp add: process_new_def service_new_def handleRequest_of [OF strict_json_ok] handle_run_def threads_after_def demo_started_def)

lemma demo_request_reach: "process_reach strict_json demo_started"
  using process_reach.step [OF process_reach.new demo_run_request] .

definition demo_inside :: "phase \<Rightarrow> process" where
  "demo_inside ph = \<lparr>pr_service = \<lparr>ss_threads = [str ''a''], ss_entering = [],
       ss_lib = [(str ''a'', \<lparr>in_running = True, in_config = demo_config, in_phase = ph\<rparr>)]\<rparr>,
     pr_threads = [(str ''a'', Inside)], pr_stage = Serving\<rparr>"

lemma demo_enters: "process_step strict_json (Event (ThreadEnters 0)) demo_started = Ok (demo_inside AtLoop)"
  by (simp add: demo_started_def demo_inside_def thread_enters_def thread_entered_def try_create_instance_def tbl_put_def
      bytes_less_irrefl Let_def)

lemma demo_loops:
  assumes "loop_phase demo_loop_env demo_config ph = Ok (ph', os)"
  shows "process_step strict_json (Event (LoopOf demo_loop_env (str ''a''))) (demo_inside ph) = Ok (demo_inside ph')"
  using assms by (simp add: demo_inside_def loop_step_def loop_ended_def tbl_put_def)

lemma demo_inside_reach:
  assumes "configure_client strict_json demo_uri_poco demo_config (Client_new 7) = Ok c0"
    and "client_start demo_start c0 = Ok (c, os, True)"
  shows "process_reach strict_json (demo_inside (InRun c))"
proof -
  note st = process_reach.step
  have p: "loop_phase demo_loop_env demo_config AtLoop = Ok (Asleep, [])"
    "loop_phase demo_loop_env demo_config Asleep = Ok (Built c0, [])"
    "loop_phase demo_loop_env demo_config (Built c0) = Ok (InRun c, os)"
    using assms by (simp_all add: loop_phase_def demo_loop_env_def)
  show ?thesis
    using st [OF st [OF st [OF st [OF demo_request_reach demo_enters] demo_loops [OF p(1)]] demo_loops [OF p(2)]] demo_loops [OF p(3)]] .
qed


theorem exit_signal_ends_service_witness:
  "\<exists>ts c p'. process_run strict_json (ExitSignal #
      stop_schedule ts demo_loop_env demo_ns_env 0 NsIdle (str ''a'') @ [MainStep]) (demo_inside (InRun c)) = Ok p' \<and>
    cl_running c \<and> pr_stage p' = Exit 0"
proof -
  obtain c0 c os where c: "configure_client strict_json demo_uri_poco demo_config (Client_new 7) = Ok c0"
    "client_start demo_start c0 = Ok (c, os, True)" "\<not> cl_userspaceStack c0" by (rule demo_in_run)
  have run: "cl_running c" using started_client_runs [OF c(2)] c(3) by simp
  let ?ts = "[TWsMsg demo_ws_env, TWs demo_ws_env PollError, TTunMsg demo_tun_env, TTunDev demo_tun_env None,
    TPeerMsg (demo_env_pm True), TPeerTick (demo_env_pm True), TPeerPoll (demo_env_pm True) NoDatagram, TStackMsg demo_ns_env 0]"
  have "th = ThStack \<or> th \<in> thread_of ` set ?ts" for th by (cases th) simp_all
  then have ts: "\<forall>th. th = ThStack \<or> th \<in> thread_of ` set ?ts" by blast
  have "\<exists>p'. process_run strict_json (ExitSignal # concat (map (stop_schedule ?ts demo_loop_env demo_ns_env 0 NsIdle)
      (map fst (pr_threads (demo_inside (InRun c))))) @ [MainStep]) (demo_inside (InRun c)) = Ok p' \<and> pr_stage p' = Exit 0"
    by (rule exit_signal_ends_service [OF demo_inside_reach [OF c(1,2)] _ ts]) (simp_all add: demo_inside_def)
  then have "\<exists>p'. process_run strict_json (ExitSignal #
      stop_schedule ?ts demo_loop_env demo_ns_env 0 NsIdle (str ''a'') @ [MainStep]) (demo_inside (InRun c)) = Ok p' \<and> pr_stage p' = Exit 0"
    by (simp add: demo_inside_def del: process_run.simps)
  then show ?thesis using run by blast
qed

section \<open>Where the service listens\<close>

text \<open>
  An address and a port as the help asks for them. The port is read as an \<^verbatim>\<open>int\<close> and cut to sixteen
  bits without a test; when the address is empty, the port that was given is dropped as well.
\<close>

theorem listens_where_asked:
  assumes "58 \<notin> set a" and "int_range port"
  shows "service_main mkdir True [BindOption (a @ 58 # to_string port)] =
    (if a = [] then Listens (str ''localhost'') 26817 None None else Listens a (word_of_int port) None None)"
proof -
  have "handleBind (a @ 58 # to_string port) = Inr (a, port)"
    using assms find_byte_append [of 58 a "to_string port"] stoi_to_string_int [of port]
    by (simp add: handleBind_def int_range_def)
  then show ?thesis
    by (simp add: service_main_def service_start_def service_options_new_def bind_default_def)
qed

theorem listens_where_asked_witness:
  "service_main True True [BindOption (str ''0.0.0.0'' @ 58 # to_string 70000)] = Listens (str ''0.0.0.0'') 4464 None None"
proof -
  have "58 \<notin> set (str ''0.0.0.0'')" "str ''0.0.0.0'' \<noteq> []" "int_range 70000"
    by (simp_all add: str_def int_range_def)
  then show ?thesis using listens_where_asked [of "str ''0.0.0.0''" 70000 True] by simp
qed

end
