(* ===== verification/Handles.thy ===== *)
theory Handles
  imports Prelude
begin

text \<open>
  Handles of the operating system (descriptors, sockets, adapters): which of them a trace of system calls
  leaves open. The models of the devices and of the landing sockets record every call in a
  trace; which handles a call opens or closes is read off the call and its answer.
\<close>

section \<open>Events\<close>

datatype 'h handle_event = Acquire 'h | Release 'h

text \<open>
  The handles held after a trace, given those held before: a handle may only be released while
  it is held. \<open>fresh\<close> says that the system never hands out a handle that is still held.
\<close>

fun ledger :: "'h handle_event list \<Rightarrow> 'h set \<Rightarrow> 'h set option" where
  "ledger [] S = Some S"
| "ledger (Acquire h # es) S = ledger es (insert h S)"
| "ledger (Release h # es) S = (if h \<in> S then ledger es (S - {h}) else None)"

fun fresh :: "'h handle_event list \<Rightarrow> 'h set \<Rightarrow> bool" where
  "fresh [] S \<longleftrightarrow> True"
| "fresh (Acquire h # es) S \<longleftrightarrow> h \<notin> S \<and> fresh es (insert h S)"
| "fresh (Release h # es) S \<longleftrightarrow> fresh es (S - {h})"

lemma ledger_append: "ledger (a @ b) S = (case ledger a S of None \<Rightarrow> None | Some S' \<Rightarrow> ledger b S')"
  by (induction a S rule: ledger.induct) auto

lemma fresh_appendD1: "fresh (a @ b) S \<Longrightarrow> fresh a S"
  by (induction a S rule: fresh.induct) auto

lemma fresh_append: "ledger a S = Some S' \<Longrightarrow> fresh (a @ b) S \<longleftrightarrow> fresh a S \<and> fresh b S'"
  by (induction a S rule: ledger.induct) (auto split: if_splits)

definition handle_events :: "('c \<Rightarrow> 'h handle_event list) \<Rightarrow> 'c list \<Rightarrow> 'h handle_event list" where
  "handle_events ev cs = concat (map ev cs)"

lemma handle_events_simps [simp]:
  "handle_events ev [] = []"
  "handle_events ev (c # cs) = ev c @ handle_events ev cs"
  "handle_events ev (cs @ ds) = handle_events ev cs @ handle_events ev ds"
  by (simp_all add: handle_events_def)

section \<open>Descriptors of POSIX systems\<close>

text \<open>Numbers below zero are failures; closing one is harmless.\<close>

definition opened :: "int \<Rightarrow> int handle_event list" where
  "opened fd = (if fd < 0 then [] else [Acquire fd])"

definition closed :: "int \<Rightarrow> int handle_event list" where
  "closed fd = (if fd < 0 then [] else [Release fd])"

definition fd_own :: "int \<Rightarrow> int set" where
  "fd_own fd = (if fd < 0 then {} else {fd})"

text \<open>Events that give back what they take.\<close>

definition balanced :: "'h handle_event list \<Rightarrow> bool" where
  "balanced es \<longleftrightarrow> (\<forall>S. fresh es S \<longrightarrow> ledger es S = Some S)"

lemma balanced_Nil [simp]: "balanced []"
  by (simp add: balanced_def)

lemma balanced_open_close [simp]: "balanced (opened fd @ closed fd)"
  by (auto simp: balanced_def opened_def closed_def)

lemma balanced_append: "balanced a \<Longrightarrow> balanced b \<Longrightarrow> balanced (a @ b)"
  unfolding balanced_def by (metis fresh_append fresh_appendD1 ledger_append option.simps(5))

lemma ledger_balanced: "balanced a \<Longrightarrow> fresh a S \<Longrightarrow> ledger (a @ b) S = ledger b S"
  by (simp add: balanced_def ledger_append)

lemma open_ledger:
  assumes "balanced es" and "fresh (opened fd @ es) S"
  shows "ledger (opened fd @ es) S = Some (S \<union> fd_own fd) \<and> fd_own fd \<inter> S = {}"
  using assms by (auto simp: opened_def fd_own_def balanced_def)

lemma close_ledger: "fd_own fd \<inter> S = {} \<Longrightarrow> ledger (closed fd) (S \<union> fd_own fd) = Some S"
  by (auto simp: closed_def fd_own_def)

lemma open_close_ledger:
  assumes "balanced es" and "fresh (opened fd @ es @ closed fd) S"
  shows "ledger (opened fd @ es @ closed fd) S = Some S"
proof -
  have "fresh (opened fd @ es) S" using assms(2) fresh_appendD1 by (metis append.assoc)
  note o = open_ledger [OF assms(1) this]
  have "ledger ((opened fd @ es) @ closed fd) S = Some S"
    using o close_ledger [of fd S] by (simp only: ledger_append option.simps(5))
  then show ?thesis by simp
qed

end
