(* ===== verification/Device.thy ===== *)
theory Device
  imports Tun Handles
begin

text \<open>
  What the devices of the three systems (\<^verbatim>\<open>tun/linux.cc\<close>, \<^verbatim>\<open>tun/macos.cc\<close>, \<^verbatim>\<open>tun/windows.cc\<close>)
  have in common, as interfaces: the handles a device holds of the system between \<open>up\<close> and
  \<open>down\<close>, and the packets its reads deliver to the thread of \<^verbatim>\<open>tun.cc\<close>.
\<close>

section \<open>The life of a device\<close>

text \<open>
  A client brings its device up at most once. When that fails, nothing further is called on it
  (\<^verbatim>\<open>Tun::handleTunAddr\<close> returns); otherwise routes are added while it runs and the device thread
  takes it down at its end. \<open>'k\<close> are the system's answers, \<open>ev\<close> the handle events of a call.
\<close>

fun routes_added ::
  "('k \<Rightarrow> SysRouteEntry \<Rightarrow> 'd \<Rightarrow> 'd \<times> 'c list \<times> int) \<Rightarrow> ('k \<Rightarrow> 'c \<Rightarrow> 'h handle_event list) \<Rightarrow>
    ('k \<times> SysRouteEntry) list \<Rightarrow> 'd \<Rightarrow> 'd \<times> 'h handle_event list" where
  "routes_added add_route ev [] d = (d, [])"
| "routes_added add_route ev ((K, rt) # rts) d =
     (case add_route K rt d of (d1, cs, _) \<Rightarrow>
        case routes_added add_route ev rts d1 of (d2, es) \<Rightarrow> (d2, handle_events (ev K) cs @ es))"

definition device_life ::
  "('k \<Rightarrow> 'd \<Rightarrow> 'd \<times> 'c list \<times> int) \<Rightarrow> ('d \<Rightarrow> 'd \<times> 'c list \<times> int) \<Rightarrow>
    ('k \<Rightarrow> SysRouteEntry \<Rightarrow> 'd \<Rightarrow> 'd \<times> 'c list \<times> int) \<Rightarrow> ('k \<Rightarrow> 'c \<Rightarrow> 'h handle_event list) \<Rightarrow>
    'k \<Rightarrow> ('k \<times> SysRouteEntry) list \<Rightarrow> 'd \<Rightarrow> 'h handle_event list" where
  "device_life up down add_route ev K rts d =
     (case up K d of (d1, cs, r) \<Rightarrow>
        handle_events (ev K) cs @
        (if r \<noteq> 0 then []
         else case routes_added add_route ev rts d1 of (d2, es) \<Rightarrow>
                es @ (case down d2 of (d3, ds, _) \<Rightarrow> handle_events (ev K) ds)))"

text \<open>
  The contract. \<open>own\<close>: the handles a device is responsible for; \<open>idle\<close>: a device that was just
  constructed; \<open>inv\<close>: what its state satisfies while it is up.
\<close>

locale tun_device =
  fixes up :: "'k \<Rightarrow> 'd \<Rightarrow> 'd \<times> 'c list \<times> int"
    and down :: "'d \<Rightarrow> 'd \<times> 'c list \<times> int"
    and add_route :: "'k \<Rightarrow> SysRouteEntry \<Rightarrow> 'd \<Rightarrow> 'd \<times> 'c list \<times> int"
    and ev :: "'k \<Rightarrow> 'c \<Rightarrow> 'h handle_event list"
    and own :: "'d \<Rightarrow> 'h set"
    and idle :: "'d \<Rightarrow> bool"
    and inv :: "'d \<Rightarrow> bool"
  assumes up_acquires:
      "idle d \<Longrightarrow> up K d = (d', cs, 0) \<Longrightarrow> fresh (handle_events (ev K) cs) S \<Longrightarrow>
        ledger (handle_events (ev K) cs) S = Some (S \<union> own d') \<and> own d' \<inter> S = {} \<and> inv d'"
    and route_keeps:
      "inv d \<Longrightarrow> own d \<inter> S = {} \<Longrightarrow> add_route K rt d = (d', cs, r) \<Longrightarrow> fresh (handle_events (ev K) cs) (S \<union> own d) \<Longrightarrow>
        ledger (handle_events (ev K) cs) (S \<union> own d) = Some (S \<union> own d') \<and> own d' \<inter> S = {} \<and> inv d'"
    and down_releases:
      "inv d \<Longrightarrow> own d \<inter> S = {} \<Longrightarrow> down d = (d', cs, r) \<Longrightarrow>
        ledger (handle_events (ev K) cs) (S \<union> own d) = Some S"
begin

lemma routes_balanced:
  "inv d \<Longrightarrow> own d \<inter> S = {} \<Longrightarrow> routes_added add_route ev rts d = (d', es) \<Longrightarrow> fresh es (S \<union> own d) \<Longrightarrow>
    ledger es (S \<union> own d) = Some (S \<union> own d') \<and> own d' \<inter> S = {} \<and> inv d'"
proof (induction rts arbitrary: d es)
  case (Cons a rts)
  obtain K rt where a: "a = (K, rt)" by (cases a)
  obtain d1 cs r where r: "add_route K rt d = (d1, cs, r)" by (metis prod_cases3)
  obtain fs where fs: "routes_added add_route ev rts d1 = (d', fs)" and es: "es = handle_events (ev K) cs @ fs"
    using Cons.prems(3) by (auto simp: a r split: prod.splits)
  have "fresh (handle_events (ev K) cs) (S \<union> own d)" using Cons.prems(4) es fresh_appendD1 by blast
  note k = route_keeps [OF Cons.prems(1,2) r this]
  then have "fresh fs (S \<union> own d1)" using Cons.prems(4) es fresh_append by blast
  then show ?case using Cons.IH [of d1 fs] k fs es by (simp add: ledger_append)
qed simp

theorem life_balanced:
  assumes "idle d" and "snd (snd (up K d)) = 0"
    and "fresh (device_life up down add_route ev K rts d) S"
  shows "ledger (device_life up down add_route ev K rts d) S = Some S"
proof -
  obtain d1 cs where u: "up K d = (d1, cs, 0)" using assms(2) by (cases "up K d") auto
  obtain d2 es where r: "routes_added add_route ev rts d1 = (d2, es)" by fastforce
  obtain d3 ds q where w: "down d2 = (d3, ds, q)" by (metis prod_cases3)
  let ?a = "handle_events (ev K) cs" and ?c = "handle_events (ev K) ds"
  have life: "device_life up down add_route ev K rts d = ?a @ es @ ?c"
    by (simp add: device_life_def u r w)
  note a = up_acquires [OF assms(1) u fresh_appendD1 [OF assms(3) [unfolded life]]]
  then have f: "fresh (es @ ?c) (S \<union> own d1)" using assms(3) life fresh_append by metis
  note b = routes_balanced [OF _ _ r fresh_appendD1 [OF f]]
  show ?thesis using a b down_releases [OF _ _ w, where S = S and K = K] by (simp add: life ledger_append)
qed

end

text \<open>A device that also gives everything back when it cannot be brought up.\<close>

locale closing_device = tun_device +
  assumes up_fails:
    "idle d \<Longrightarrow> up K d = (d', cs, r) \<Longrightarrow> r \<noteq> 0 \<Longrightarrow> fresh (handle_events (ev K) cs) S \<Longrightarrow>
      ledger (handle_events (ev K) cs) S = Some S"
begin

theorem every_life_balanced:
  assumes "idle d" and "fresh (device_life up down add_route ev K rts d) S"
  shows "ledger (device_life up down add_route ev K rts d) S = Some S"
proof (cases "snd (snd (up K d)) = 0")
  case True
  then show ?thesis using life_balanced [OF assms(1) _ assms(2)] by simp
next
  case False
  then have l: "device_life up down add_route ev K rts d = handle_events (ev K) (fst (snd (up K d)))"
    by (simp add: device_life_def case_prod_unfold)
  show ?thesis
    using up_fails [OF assms(1), of K "fst (up K d)" "fst (snd (up K d))" "snd (snd (up K d))"] False assms(2)
    by (simp add: l)
qed

end

section \<open>Packets\<close>

text \<open>
  The start of \<^verbatim>\<open>Tun::handleTunDevice\<close>: one read of the device, and the routing of what came.
  An exception of the read ends the device thread.
\<close>

definition device_turn ::
  "('a \<Rightarrow> 'd \<Rightarrow> (bytes \<times> 'd \<times> 'c list \<times> int) res) \<Rightarrow> tun_env \<Rightarrow> 'a \<Rightarrow> 'd \<Rightarrow> tun \<Rightarrow> ('d \<times> tun_out) res" where
  "device_turn read E a d t =
     bind_res (read a d) (\<lambda>(buffer, d', cs, error).
       if error \<le> 0 then Ok (d', t, []) else Ok (d', handleTunDevice E (Some buffer) t))"

locale packet_source =
  fixes read :: "'a \<Rightarrow> 'd \<Rightarrow> (bytes \<times> 'd \<times> 'c list \<times> int) res"
    and delivered :: "'d \<Rightarrow> 'a \<Rightarrow> bytes option"
  assumes reads_packet: "read a d = Ok (buffer, d', cs, n) \<Longrightarrow> 0 < n \<Longrightarrow> delivered d a = Some buffer"
    and reads_nothing: "read a d = Ok (buffer, d', cs, n) \<Longrightarrow> n \<le> 0 \<Longrightarrow> delivered d a = None \<or> delivered d a = Some []"
begin

lemma turn_routes_delivered:
  assumes "device_turn read E a d t = Ok (d', t', fx)"
  shows "handleTunDevice E (delivered d a) t = (t', fx)"
proof -
  obtain b d1 cs n where r: "read a d = Ok (b, d1, cs, n)"
    using assms by (auto simp: device_turn_def bind_res_Ok_iff)
  show ?thesis
  proof (cases "n \<le> 0")
    case True
    then show ?thesis
      using assms r reads_nothing [OF r] by (auto simp: device_turn_def handleTunDevice_def sizeof_IP4Header_def)
  next
    case False
    then show ?thesis using assms r reads_packet [OF r] by (simp add: device_turn_def)
  qed
qed

end

text \<open>
  \<^verbatim>\<open>strncpy\<close> into a cleared field of \<open>n\<close> bytes: the text up to its first zero byte, cut at the
  end of the field.
\<close>

definition strncpy_field :: "nat \<Rightarrow> bytes \<Rightarrow> bytes" where
  "strncpy_field n s = resize n (takeWhile (\<lambda>c. c \<noteq> 0) s)"

definition IFNAMSIZ :: nat where "IFNAMSIZ = 16"

text \<open>A text that fills the field leaves no room for the terminating zero byte.\<close>

lemma strncpy_field_full: "n \<le> length (takeWhile (\<lambda>c. c \<noteq> 0) s) \<Longrightarrow> 0 \<notin> set (strncpy_field n s)"
  by (auto simp: strncpy_field_def resize_def dest!: in_set_takeD set_takeWhileD)

end
