(* ===== verification/LinuxTun.thy ===== *)
theory LinuxTun
  imports Device
begin

text \<open>
  \<^verbatim>\<open>tun/linux.cc\<close>: the device behind \<^verbatim>\<open>Tun\<close> on Linux. Every system call appears in a trace, in
  the order it is made and with the values it is given; what the kernel answers is an argument.
  \<^verbatim>\<open>struct ifreq\<close> is a name of sixteen bytes and a union, of which the trace shows the member
  the call is about.
\<close>

section \<open>System calls\<close>

datatype syscall =
    OpenTun
  | FcntlGetFl int
  | FcntlSetFl int u32
  | TunSetIff int bytes u16
  | SocketInet
  | SetIfAddr int bytes ip4
  | SetIfNetmask int bytes ip4
  | SetIfMtu int bytes int
  | GetIfFlags int bytes
  | SetIfFlags int bytes u16
  | AddRoute int SysRouteEntry
  | CloseFd int
  | ReadTun int nat
  | SelectRead int
  | WriteTun int bytes

text \<open>
  The kernel's answers: descriptors (negative on failure), flags (\<open>None\<close> on failure), and
  whether a call succeeds.
\<close>

record kernel =
  kn_open :: int
  kn_getfl :: "u32 option"
  kn_setfl :: bool
  kn_tunsetiff :: bool
  kn_socket :: int
  kn_addr :: bool
  kn_mask :: bool
  kn_mtu :: bool
  kn_getflags :: "u16 option"
  kn_setflags :: bool
  kn_addrt :: bool

datatype read_answer = ReadBytes bytes | ReadAgain | ReadFails

definition O_NONBLOCK :: u32 where "O_NONBLOCK = 0x800"
definition IFF_TUN_NO_PI :: u16 where "IFF_TUN_NO_PI = 0x1001"
definition IFF_UP_RUNNING :: u16 where "IFF_UP_RUNNING = 0x41"

definition ifr_name :: "bytes \<Rightarrow> bytes" where
  "ifr_name name = strncpy_field IFNAMSIZ name"

section \<open>The device\<close>

text \<open>The device with the number of its descriptor; results are the trace and the return value.\<close>

record LinuxTun =
  lt_tun :: tun
  tunFd :: int

definition configure_interface :: "kernel \<Rightarrow> LinuxTun \<Rightarrow> int \<Rightarrow> syscall list \<times> int" where
  "configure_interface K d sockfd =
     (let name = ifr_name (tn_name (lt_tun d));
          failed = [CloseFd sockfd, CloseFd (tunFd d)];
          t1 = [SetIfAddr sockfd name (tn_ip (lt_tun d))];
          t2 = t1 @ [SetIfNetmask sockfd name (tn_mask (lt_tun d))];
          t3 = t2 @ [SetIfMtu sockfd name (tn_mtu (lt_tun d))];
          t4 = t3 @ [GetIfFlags sockfd name]
      in if \<not> kn_addr K then (t1 @ failed, -1)
         else if \<not> kn_mask K then (t2 @ failed, -1)
         else if \<not> kn_mtu K then (t3 @ failed, -1)
         else case kn_getflags K of
                None \<Rightarrow> (t4 @ failed, -1)
              | Some flags \<Rightarrow>
                  let t5 = t4 @ [SetIfFlags sockfd name (flags OR IFF_UP_RUNNING)]
                  in if \<not> kn_setflags K then (t5 @ failed, -1)
                     else (t5 @ [CloseFd sockfd], 0))"

definition linux_up :: "kernel \<Rightarrow> LinuxTun \<Rightarrow> LinuxTun \<times> syscall list \<times> int" where
  "linux_up K d0 =
     (let d = d0\<lparr>tunFd := kn_open K\<rparr>; fd = kn_open K;
          t1 = [OpenTun, FcntlGetFl fd]
      in if fd < 0 then (d, [OpenTun, CloseFd fd], -1)
         else case kn_getfl K of
           None \<Rightarrow> (d, t1 @ [CloseFd fd], -1)
         | Some flags \<Rightarrow>
             let t2 = t1 @ [FcntlSetFl fd (flags OR O_NONBLOCK)];
                 t3 = t2 @ [TunSetIff fd (ifr_name (tn_name (lt_tun d))) IFF_TUN_NO_PI];
                 t4 = t3 @ [SocketInet]
             in if \<not> kn_setfl K then (d, t2 @ [CloseFd fd], -1)
                else if \<not> kn_tunsetiff K then (d, t3 @ [CloseFd fd], -1)
                else if kn_socket K = -1 then (d, t4 @ [CloseFd fd], -1)
                else let (t5, r) = configure_interface K d (kn_socket K) in (d, t4 @ t5, r))"

definition linux_down :: "LinuxTun \<Rightarrow> syscall list \<times> int" where
  "linux_down d = ([CloseFd (tunFd d)], 0)"

text \<open>
  A buffer of one MTU is offered, so at most that many bytes are read; when there is nothing
  to read, the call waits up to a second for the next one. A negative MTU makes \<^verbatim>\<open>resize\<close> throw.
\<close>

definition linux_read :: "read_answer \<Rightarrow> LinuxTun \<Rightarrow> (bytes \<times> syscall list \<times> int) res" where
  "linux_read a d =
     (let mtu = tn_mtu (lt_tun d); buffer = replicate (nat mtu) 0
      in if mtu < 0 then Throw
         else case a of
                ReadBytes s \<Rightarrow> Ok (s, [ReadTun (tunFd d) (length buffer)], int (length s))
              | ReadAgain \<Rightarrow> Ok (buffer, [ReadTun (tunFd d) (length buffer), SelectRead (tunFd d)], 0)
              | ReadFails \<Rightarrow> Ok (buffer, [ReadTun (tunFd d) (length buffer)], -1))"

definition linux_write :: "bytes \<Rightarrow> int \<Rightarrow> LinuxTun \<Rightarrow> syscall list \<times> int" where
  "linux_write buffer answer d = ([WriteTun (tunFd d) buffer], answer)"

definition linux_setSysRtTable :: "kernel \<Rightarrow> SysRouteEntry \<Rightarrow> syscall list \<times> int" where
  "linux_setSysRtTable K rt =
     (let sockfd = kn_socket K
      in if sockfd = -1 then ([SocketInet], -1)
         else if \<not> kn_addrt K then ([SocketInet, AddRoute sockfd rt, CloseFd sockfd], -1)
         else ([SocketInet, AddRoute sockfd rt, CloseFd sockfd], 0))"

section \<open>Descriptors\<close>

fun linux_events :: "kernel \<Rightarrow> syscall \<Rightarrow> int handle_event list" where
  "linux_events K OpenTun = opened (kn_open K)"
| "linux_events K SocketInet = opened (kn_socket K)"
| "linux_events K (CloseFd fd) = closed fd"
| "linux_events K _ = []"

lemma configure_events:
  assumes "configure_interface K d s = (cs, r)"
  shows "handle_events (linux_events K) cs = closed s @ (if r = 0 then [] else closed (tunFd d))"
  using assms by (auto simp: configure_interface_def Let_def split: if_splits option.splits)

lemma linux_up_events:
  assumes "linux_up K d0 = (d, cs, r)"
  shows "tunFd d = kn_open K \<and>
    (\<exists>es. balanced es \<and>
      handle_events (linux_events K) cs = opened (kn_open K) @ es @ (if r = 0 then [] else closed (kn_open K)))"
proof (cases "kn_open K < 0 \<or> kn_getfl K = None \<or> \<not> kn_setfl K \<or> \<not> kn_tunsetiff K \<or> kn_socket K = -1")
  case True
  then show ?thesis
    using assms
    by (intro conjI exI [of _ "[]"]; auto simp: linux_up_def Let_def opened_def closed_def split: option.splits if_splits)
next
  case False
  let ?d = "d0\<lparr>tunFd := kn_open K\<rparr>" and ?s = "kn_socket K"
  obtain flags cs' where c: "configure_interface K ?d ?s = (cs', r)" and d: "d = ?d"
    and cs: "cs = [OpenTun, FcntlGetFl (kn_open K), FcntlSetFl (kn_open K) (flags OR O_NONBLOCK),
        TunSetIff (kn_open K) (ifr_name (tn_name (lt_tun ?d))) IFF_TUN_NO_PI, SocketInet] @ cs'"
    using False assms by (auto simp: linux_up_def Let_def split: prod.splits)
  then show ?thesis
    using configure_events [OF c] by (intro conjI exI [of _ "opened ?s @ closed ?s"]) simp_all
qed

text \<open>The device of Linux honours both contracts, whichever of the system calls fails.\<close>

interpretation linux: closing_device linux_up "\<lambda>d. (d, linux_down d)" "\<lambda>K rt d. (d, linux_setSysRtTable K rt)"
  linux_events "\<lambda>d. fd_own (tunFd d)" "\<lambda>_. True" "\<lambda>_. True"
proof unfold_locales
  fix K d d' cs and S :: "int set"
  assume u: "linux_up K d = (d', cs, 0)" and f: "fresh (handle_events (linux_events K) cs) S"
  show "ledger (handle_events (linux_events K) cs) S = Some (S \<union> fd_own (tunFd d')) \<and> fd_own (tunFd d') \<inter> S = {} \<and> True"
    using linux_up_events [OF u] f open_ledger by fastforce
next
  fix K d d' cs r and S :: "int set"
  assume u: "linux_up K d = (d', cs, r)" "r \<noteq> 0" and f: "fresh (handle_events (linux_events K) cs) S"
  show "ledger (handle_events (linux_events K) cs) S = Some S"
    using linux_up_events [OF u(1)] f u(2) open_close_ledger by fastforce
next
  fix K rt cs r and d d' :: LinuxTun and S
  assume a: "fd_own (tunFd d) \<inter> S = {}" "(d, linux_setSysRtTable K rt) = (d', cs, r)"
    and f: "fresh (handle_events (linux_events K) cs) (S \<union> fd_own (tunFd d))"
  have "balanced (handle_events (linux_events K) cs)"
    using a(2) by (auto simp: linux_setSysRtTable_def Let_def opened_def closed_def balanced_def split: if_splits)
  then show "ledger (handle_events (linux_events K) cs) (S \<union> fd_own (tunFd d)) = Some (S \<union> fd_own (tunFd d')) \<and>
      fd_own (tunFd d') \<inter> S = {} \<and> True"
    using a f by (simp add: balanced_def)
next
  fix d d' :: LinuxTun and cs r K S
  assume "fd_own (tunFd d) \<inter> S = {}" "(d, linux_down d) = (d', cs, r)"
  then show "ledger (handle_events (linux_events K) cs) (S \<union> fd_own (tunFd d)) = Some S"
    using close_ledger by (auto simp: linux_down_def)
qed

section \<open>Packets\<close>

text \<open>A buffer of one MTU is offered: a longer packet is cut by the system.\<close>

fun linux_delivered :: "read_answer \<Rightarrow> bytes option" where
  "linux_delivered (ReadBytes s) = Some s"
| "linux_delivered _ = None"

interpretation linux_reads: packet_source
  "\<lambda>a d. bind_res (linux_read a d) (\<lambda>(b, cs, n). Ok (b, d, cs, n))" "\<lambda>_. linux_delivered"
  by unfold_locales (auto simp: linux_read_def Let_def split: if_splits read_answer.splits)

definition demo_kernel :: kernel where
  "demo_kernel = \<lparr>kn_open = 7, kn_getfl = Some 2, kn_setfl = True, kn_tunsetiff = True, kn_socket = 8,
     kn_addr = True, kn_mask = True, kn_mtu = False, kn_getflags = Some 0x10, kn_setflags = True, kn_addrt = True\<rparr>"

text \<open>On success the interface has been given the name, address, mask and MTU of the device.\<close>

lemma device_configured:
  assumes "linux_up K d0 = (d, cs, 0)"
  shows "{TunSetIff (tunFd d) (ifr_name (tn_name (lt_tun d0))) IFF_TUN_NO_PI,
      SetIfAddr (kn_socket K) (ifr_name (tn_name (lt_tun d0))) (tn_ip (lt_tun d0)),
      SetIfNetmask (kn_socket K) (ifr_name (tn_name (lt_tun d0))) (tn_mask (lt_tun d0)),
      SetIfMtu (kn_socket K) (ifr_name (tn_name (lt_tun d0))) (tn_mtu (lt_tun d0))} \<subseteq> set cs"
  using assms
  by (auto simp: linux_up_def configure_interface_def Let_def case_prod_unfold split: option.splits if_splits)

text \<open>A device name that fills the field leaves no room for the terminating zero byte.\<close>

lemma ifr_name_long: "16 \<le> length (takeWhile (\<lambda>c. c \<noteq> 0) name) \<Longrightarrow> 0 \<notin> set (ifr_name name)"
  by (simp add: ifr_name_def IFNAMSIZ_def strncpy_field_full)

end
