(* ===== verification/MacTun.thy ===== *)
theory MacTun
  imports Device
begin

text \<open>
  \<^verbatim>\<open>tun/macos.cc\<close>: the device behind \<^verbatim>\<open>Tun\<close> on macOS, a control socket of the kernel
  whose interface name the kernel chooses. As for Linux, every system call appears in a trace with
  the values it is given, and the kernel's answers are arguments. Each packet of the socket is
  preceded by four bytes with its protocol family; the code reads them into, and writes them
  from, the same member.
\<close>

section \<open>System calls\<close>

datatype mac_call =
    MacSocketSystem
  | MacGetFl int
  | MacSetFl int u32
  | MacCtlInfo int bytes
  | MacConnect int u32
  | MacIfName int
  | MacSocketInet
  | MacAlias int bytes ip4 ip4 ip4
  | MacSetMtu int bytes int
  | MacGetIfFlags int bytes
  | MacSetIfFlags int bytes u16
  | MacSocketRoute
  | MacAddRoute int u32 u32 "ip4 list"
  | MacClose int
  | MacReadv int nat nat
  | MacSelect int
  | MacWritev int bytes bytes

record mac_kernel =
  mk_socket :: int
  mk_getfl :: "u32 option"
  mk_setfl :: bool
  mk_info :: "u32 option"
  mk_connect :: bool
  mk_ifname :: "bytes option"
  mk_inet :: int
  mk_alias :: bool
  mk_mtu :: bool
  mk_getflags :: "u16 option"
  mk_setflags :: bool
  mk_route :: int
  mk_addrt :: bool

definition MAC_O_NONBLOCK :: u32 where "MAC_O_NONBLOCK = 4"
definition MAC_IFF_UP_RUNNING :: u16 where "MAC_IFF_UP_RUNNING = 0x41"
definition MAX_KCTL_NAME :: nat where "MAX_KCTL_NAME = 96"
definition UTUN_CONTROL_NAME :: bytes where "UTUN_CONTROL_NAME = str ''com.apple.net.utun_control''"

text \<open>Of a route message: the addresses it carries, its flags.\<close>

definition RTA_DST_GATEWAY_NETMASK :: u32 where "RTA_DST_GATEWAY_NETMASK = 7"
definition RTF_UP_GATEWAY :: u32 where "RTF_UP_GATEWAY = 3"

section \<open>The device\<close>

record MacTun =
  mac_name :: bytes
  mac_ifname :: bytes
  mac_ip :: ip4
  mac_mask :: ip4
  mac_mtu :: int
  mac_tunFd :: int
  packetinfo :: bytes

definition mac_setName :: "bytes \<Rightarrow> MacTun \<Rightarrow> MacTun \<times> int" where
  "mac_setName name d = (d\<lparr>mac_name := (if name = [] then str ''candy'' else str ''candy-'' @ name)\<rparr>, 0)"

definition mac_setMTU :: "int \<Rightarrow> MacTun \<Rightarrow> MacTun \<times> int" where
  "mac_setMTU mtu d = (d\<lparr>mac_mtu := mtu\<rparr>, 0)"

definition mac_getIP :: "MacTun \<Rightarrow> ip4" where
  "mac_getIP d = mac_ip d"

definition mac_getMTU :: "MacTun \<Rightarrow> int" where
  "mac_getMTU d = mac_mtu d"

definition mac_setAddress :: "poco \<Rightarrow> bytes \<Rightarrow> MacTun \<Rightarrow> (MacTun \<times> int) res" where
  "mac_setAddress P cidr d =
     bind_res (fromCidr P cidr Address0) (\<lambda>(a, r).
       if r \<noteq> 0 then Ok (d, -1) else Ok (d\<lparr>mac_ip := a_host a, mac_mask := a_mask a\<rparr>, 0))"

definition mac_setSysRtTable :: "mac_kernel \<Rightarrow> ip4 \<Rightarrow> ip4 \<Rightarrow> ip4 \<Rightarrow> mac_call list \<times> int" where
  "mac_setSysRtTable K dst netmask nexthop =
     (let routefd = mk_route K;
          add = MacAddRoute routefd RTA_DST_GATEWAY_NETMASK RTF_UP_GATEWAY [dst, nexthop, netmask]
      in if routefd < 0 then ([MacSocketRoute], -1)
         else if \<not> mk_addrt K then ([MacSocketRoute, add, MacClose routefd], -1)
         else ([MacSocketRoute, add, MacClose routefd], 0))"

text \<open>Address, MTU and flags of the interface, through an internet socket.\<close>

definition mac_configure :: "mac_kernel \<Rightarrow> MacTun \<Rightarrow> int \<Rightarrow> mac_call list \<times> int" where
  "mac_configure K d sockfd =
     (let name = strncpy_field IFNAMSIZ (mac_ifname d);
          failed = [MacClose sockfd, MacClose (mac_tunFd d)];
          t1 = [MacAlias sockfd name (mac_ip d) (mac_mask d) (ip4_and (mac_ip d) (mac_mask d))];
          t2 = t1 @ [MacSetMtu sockfd name (mac_mtu d)];
          t3 = t2 @ [MacGetIfFlags sockfd name]
      in if \<not> mk_alias K then (t1 @ failed, -1)
         else if \<not> mk_mtu K then (t2 @ failed, -1)
         else case mk_getflags K of
                None \<Rightarrow> (t3 @ failed, -1)
              | Some flags \<Rightarrow>
                  let t4 = t3 @ [MacSetIfFlags sockfd name (flags OR MAC_IFF_UP_RUNNING)]
                  in if \<not> mk_setflags K then (t4 @ failed, -1)
                     else let (t5, r) = mac_setSysRtTable K (ip4_and (mac_ip d) (mac_mask d)) (mac_mask d) (mac_ip d)
                          in if r \<noteq> 0 then (t4 @ [MacClose sockfd] @ t5 @ [MacClose (mac_tunFd d)], -1)
                             else (t4 @ [MacClose sockfd] @ t5, 0))"

text \<open>The control socket: made non-blocking, looked up by name, connected, asked for its name.\<close>

definition mac_connect :: "mac_kernel \<Rightarrow> int \<Rightarrow> mac_call list \<times> bytes option" where
  "mac_connect K fd =
     (case mk_getfl K of
        None \<Rightarrow> ([MacGetFl fd], None)
      | Some flags \<Rightarrow>
          let t1 = [MacGetFl fd, MacSetFl fd (flags OR MAC_O_NONBLOCK)];
              t2 = t1 @ [MacCtlInfo fd (strncpy_field MAX_KCTL_NAME UTUN_CONTROL_NAME)]
          in if \<not> mk_setfl K then (t1, None)
             else case mk_info K of
               None \<Rightarrow> (t2, None)
             | Some ctl_id \<Rightarrow>
                 if \<not> mk_connect K then (t2 @ [MacConnect fd ctl_id], None)
                 else (t2 @ [MacConnect fd ctl_id, MacIfName fd], mk_ifname K))"

definition mac_up :: "mac_kernel \<Rightarrow> MacTun \<Rightarrow> MacTun \<times> mac_call list \<times> int" where
  "mac_up K d0 =
     (let fd = mk_socket K; d1 = d0\<lparr>mac_tunFd := fd\<rparr>
      in if fd < 0 then (d1, [MacSocketSystem], -1)
         else case mac_connect K fd of
           (t, None) \<Rightarrow> (d1, MacSocketSystem # t @ [MacClose fd], -1)
         | (t, Some ifname) \<Rightarrow>
             let d = d1\<lparr>mac_ifname := ifname\<rparr>; t1 = MacSocketSystem # t @ [MacSocketInet]
             in if mk_inet K = -1 then (d, t1 @ [MacClose fd], -1)
                else let (t2, r) = mac_configure K d (mk_inet K) in (d, t1 @ t2, r))"

definition mac_down :: "MacTun \<Rightarrow> mac_call list \<times> int" where
  "mac_down d = ([MacClose (mac_tunFd d)], 0)"

section \<open>Packets\<close>

datatype mac_answer = MacBytes bytes | MacAgain | MacFails

text \<open>
  \<^verbatim>\<open>readv\<close> fills the four bytes of \<^verbatim>\<open>packetinfo\<close> first, then the buffer. Fewer than four bytes
  make \<^verbatim>\<open>resize(n - sizeof(packetinfo))\<close> ask for nearly \<open>2 ^ 64\<close> bytes, which throws.
\<close>

definition mac_read :: "mac_answer \<Rightarrow> MacTun \<Rightarrow> (bytes \<times> MacTun \<times> mac_call list \<times> int) res" where
  "mac_read a d =
     (let mtu = mac_mtu d; buffer = replicate (nat mtu) 0;
          t = [MacReadv (mac_tunFd d) (length (packetinfo d)) (length buffer)]
      in if mtu < 0 then Throw
         else case a of
                MacBytes s \<Rightarrow>
                  if length s < 4 then Throw
                  else Ok (drop 4 s, d\<lparr>packetinfo := take 4 s\<rparr>, t, int (length s))
              | MacAgain \<Rightarrow> Ok (buffer, d, t @ [MacSelect (mac_tunFd d)], 0)
              | MacFails \<Rightarrow> Ok (buffer, d, t, -1))"

text \<open>
  What the code subtracts from the result of \<^verbatim>\<open>writev\<close> is \<^verbatim>\<open>sizeof(sizeof(packetinfo))\<close>, the size
  of a \<^verbatim>\<open>size_t\<close>.
\<close>

definition mac_write :: "bytes \<Rightarrow> int \<Rightarrow> MacTun \<Rightarrow> mac_call list \<times> int" where
  "mac_write buffer answer d = ([MacWritev (mac_tunFd d) (packetinfo d) buffer], answer - 8)"

definition MacTun_new :: MacTun where
  "MacTun_new = \<lparr>mac_name = [], mac_ifname = replicate IFNAMSIZ 0, mac_ip = ip4_zero, mac_mask = ip4_zero, mac_mtu = 0,
     mac_tunFd = 0, packetinfo = [0x00, 0x00, 0x00, 0x02]\<rparr>"

section \<open>Descriptors\<close>

fun mac_events :: "mac_kernel \<Rightarrow> mac_call \<Rightarrow> int handle_event list" where
  "mac_events K MacSocketSystem = opened (mk_socket K)"
| "mac_events K MacSocketInet = opened (mk_inet K)"
| "mac_events K MacSocketRoute = opened (mk_route K)"
| "mac_events K (MacClose fd) = closed fd"
| "mac_events K _ = []"

lemma mac_route_balanced: "balanced (handle_events (mac_events K) (fst (mac_setSysRtTable K dst m nexthop)))"
  by (auto simp: mac_setSysRtTable_def Let_def balanced_def opened_def closed_def)

lemma mac_configure_events:
  assumes "mac_configure K d s = (cs, r)"
  shows "\<exists>es. balanced es \<and>
    handle_events (mac_events K) cs = closed s @ es @ (if r = 0 then [] else closed (mac_tunFd d))"
proof (cases "\<not> mk_alias K \<or> \<not> mk_mtu K \<or> mk_getflags K = None \<or> \<not> mk_setflags K")
  case True
  then show ?thesis
    using assms by (intro exI [of _ "[]"]) (auto simp: mac_configure_def Let_def split: if_splits option.splits)
next
  case False
  let ?rt = "mac_setSysRtTable K (ip4_and (mac_ip d) (mac_mask d)) (mac_mask d) (mac_ip d)"
  show ?thesis
    using False assms mac_route_balanced
    by (intro exI [of _ "handle_events (mac_events K) (fst ?rt)"])
      (auto simp: mac_configure_def Let_def case_prod_unfold split: if_splits option.splits)
qed

lemma mac_connect_events: "handle_events (mac_events K) (fst (mac_connect K fd)) = []"
  by (simp add: mac_connect_def Let_def split: option.split)

lemma mac_up_events:
  assumes "mac_up K d0 = (d, cs, r)"
  shows "mac_tunFd d = mk_socket K \<and>
    (\<exists>es. balanced es \<and>
      handle_events (mac_events K) cs = opened (mk_socket K) @ es @ (if r = 0 then [] else closed (mk_socket K)))"
proof (cases "mk_socket K < 0 \<or> snd (mac_connect K (mk_socket K)) = None \<or> mk_inet K = -1")
  case True
  then show ?thesis
    using assms mac_connect_events [of K "mk_socket K"]
    by (intro conjI exI [of _ "[]"]; auto simp: mac_up_def Let_def opened_def closed_def split: prod.splits option.splits if_splits)
next
  case False
  let ?s = "mk_inet K"
  obtain t ifname where c: "mac_connect K (mk_socket K) = (t, Some ifname)"
    using False by (cases "mac_connect K (mk_socket K)") auto
  let ?d = "d0\<lparr>mac_tunFd := mk_socket K, mac_ifname := ifname\<rparr>"
  obtain cs' where m: "mac_configure K ?d ?s = (cs', r)" and d: "d = ?d"
    and cs: "cs = (MacSocketSystem # t @ [MacSocketInet]) @ cs'"
    using False assms c by (auto simp: mac_up_def Let_def split: prod.splits)
  obtain es where es: "balanced es"
    "handle_events (mac_events K) cs' = closed ?s @ es @ (if r = 0 then [] else closed (mac_tunFd ?d))"
    using mac_configure_events [OF m] by blast
  have "balanced ((opened ?s @ closed ?s) @ es)" using es(1) balanced_append balanced_open_close by blast
  then show ?thesis
    using es d cs mac_connect_events [of K "mk_socket K"] c
    by (intro conjI exI [of _ "(opened ?s @ closed ?s) @ es"]) simp_all
qed

interpretation macos: closing_device mac_up "\<lambda>d. (d, mac_down d)"
  "\<lambda>K rt d. (d, mac_setSysRtTable K (rt_dst rt) (rt_mask rt) (rt_nexthop rt))"
  mac_events "\<lambda>d. fd_own (mac_tunFd d)" "\<lambda>_. True" "\<lambda>_. True"
proof unfold_locales
  fix K d d' cs and S :: "int set"
  assume u: "mac_up K d = (d', cs, 0)" and f: "fresh (handle_events (mac_events K) cs) S"
  show "ledger (handle_events (mac_events K) cs) S = Some (S \<union> fd_own (mac_tunFd d')) \<and>
      fd_own (mac_tunFd d') \<inter> S = {} \<and> True"
    using mac_up_events [OF u] f open_ledger by fastforce
next
  fix K d d' cs r and S :: "int set"
  assume u: "mac_up K d = (d', cs, r)" "r \<noteq> 0" and f: "fresh (handle_events (mac_events K) cs) S"
  show "ledger (handle_events (mac_events K) cs) S = Some S"
    using mac_up_events [OF u(1)] f u(2) open_close_ledger by fastforce
next
  fix K rt cs r and d d' :: MacTun and S
  assume a: "fd_own (mac_tunFd d) \<inter> S = {}"
      "(d, mac_setSysRtTable K (rt_dst rt) (rt_mask rt) (rt_nexthop rt)) = (d', cs, r)"
    and f: "fresh (handle_events (mac_events K) cs) (S \<union> fd_own (mac_tunFd d))"
  then show "ledger (handle_events (mac_events K) cs) (S \<union> fd_own (mac_tunFd d)) = Some (S \<union> fd_own (mac_tunFd d')) \<and>
      fd_own (mac_tunFd d') \<inter> S = {} \<and> True"
    using mac_route_balanced [of K "rt_dst rt" "rt_mask rt" "rt_nexthop rt"] by (simp add: balanced_def)
next
  fix d d' :: MacTun and cs r K S
  assume "fd_own (mac_tunFd d) \<inter> S = {}" "(d, mac_down d) = (d', cs, r)"
  then show "ledger (handle_events (mac_events K) cs) (S \<union> fd_own (mac_tunFd d)) = Some S"
    using close_ledger by (auto simp: mac_down_def)
qed

section \<open>What is read and written\<close>

fun mac_delivered :: "mac_answer \<Rightarrow> bytes option" where
  "mac_delivered (MacBytes s) = Some (drop 4 s)"
| "mac_delivered _ = None"

interpretation mac_reads: packet_source mac_read "\<lambda>_. mac_delivered"
  by unfold_locales (auto simp: mac_read_def Let_def split: if_splits mac_answer.splits)

fun mac_reading :: "mac_answer list \<Rightarrow> MacTun \<Rightarrow> MacTun res" where
  "mac_reading [] d = Ok d"
| "mac_reading (a # as) d = bind_res (mac_read a d) (\<lambda>(_, d', _, _). mac_reading as d')"

text \<open>The family in front of each packet that was read.\<close>

fun families :: "mac_answer list \<Rightarrow> bytes list" where
  "families [] = []"
| "families (MacBytes s # as) = take 4 s # families as"
| "families (_ # as) = families as"

lemma mac_reading_family:
  "mac_reading as d = Ok d' \<Longrightarrow> packetinfo d' = last (packetinfo d # families as) \<and> mac_tunFd d' = mac_tunFd d"
proof (induction as arbitrary: d)
  case (Cons a as)
  obtain b d1 cs n where r: "mac_read a d = Ok (b, d1, cs, n)" and rest: "mac_reading as d1 = Ok d'"
    using Cons.prems by (auto simp: bind_res_Ok_iff)
  have "mac_tunFd d1 = mac_tunFd d \<and> packetinfo d1 # families as = (case a of MacBytes s \<Rightarrow> families (a # as) | _ \<Rightarrow> packetinfo d # families as)"
    using r by (auto simp: mac_read_def Let_def split: if_splits mac_answer.splits)
  then show ?case
    using Cons.IH [OF rest] by (auto split: mac_answer.splits)
qed simp

text \<open>On macOS the family in front of a packet that is written is not that of the packet: it is
  the family of the last packet read from the device, because \<^verbatim>\<open>readv\<close> and \<^verbatim>\<open>writev\<close> share the
  member \<^verbatim>\<open>packetinfo\<close>; only while nothing has been read is it that of IPv4, which all
  packets of the network are.\<close>

theorem written_family_is_last_read:
  assumes "mac_reading as d0 = Ok d" and "packetinfo d0 = packetinfo MacTun_new"
  shows "fst (mac_write packet r d) =
    [MacWritev (mac_tunFd d0) (if families as = [] then [0, 0, 0, 2] else last (families as)) packet]"
  using mac_reading_family [OF assms(1)] assms(2) by (simp add: mac_write_def MacTun_new_def)

definition demo_mac :: MacTun where
  "demo_mac = fst (mac_setMTU 1400 (fst (mac_setName [] MacTun_new)))\<lparr>mac_tunFd := 7\<rparr>"

theorem written_family_is_last_read_witness:
  "\<exists>d. mac_reading [MacBytes [0, 0, 0, 2, 0x45], MacAgain, MacBytes [0, 0, 0, 30, 0x60]] demo_mac = Ok d \<and>
     fst (mac_write [0x45] 5 d) = [MacWritev 7 [0, 0, 0, 30] [0x45]]"
proof -
  let ?as = "[MacBytes [0, 0, 0, 2, 0x45], MacAgain, MacBytes [0, 0, 0, 30, 0x60]]"
  note demo = demo_mac_def mac_setMTU_def mac_setName_def MacTun_new_def
  have "mac_reading ?as demo_mac \<noteq> Throw" "mac_reading ?as demo_mac \<noteq> Undef"
    by (simp_all add: mac_read_def demo)
  then obtain d where "mac_reading ?as demo_mac = Ok d" by (cases "mac_reading ?as demo_mac") auto
  then show ?thesis using written_family_is_last_read [of ?as demo_mac d "[0x45]" 5] by (auto simp: demo)
qed

text \<open>A datagram shorter than its family ends the device thread, and with it the client.\<close>

lemma mac_short_read_throws: "length s < 4 \<Longrightarrow> mac_read (MacBytes s) d = Throw"
  by (simp add: mac_read_def Let_def)

end
