(* ===== verification/WinTun.thy ===== *)
theory WinTun
  imports Device
begin

text \<open>
  \<^verbatim>\<open>tun/windows.cc\<close> and the text conversion it uses (\<^verbatim>\<open>utils/codecvt.cc\<close>): the device behind
  \<^verbatim>\<open>Tun\<close> on Windows, an adapter and a session of the Wintun library, which is loaded once per
  process. The calls of the library and of the system appear in a trace; their answers are
  arguments, as are SHA-256 and the system's conversion to UTF-16.
\<close>

section \<open>Calls and answers\<close>

record win_route =
  wr_dest :: ip4
  wr_mask :: ip4
  wr_nexthop :: ip4
  wr_ifindex :: u32
  wr_type :: u32
  wr_metric1 :: u32

datatype win_call =
    WinLoadLibrary
  | WinGetProc string
  | WinFreeLibrary
  | WinCreateAdapter "u16 list" bytes
  | WinGetLUID int
  | WinCreateUnicast u64 ip4 u32
  | WinGetIpInterface u64
  | WinSetIpInterface u64 u32
  | WinStartSession int
  | WinEndSession int
  | WinCloseAdapter int
  | WinCreateRoute win_route
  | WinDeleteRoute win_route
  | WinReceive int
  | WinReleaseReceive int
  | WinWaitRead int
  | WinAllocate int nat
  | WinSend int bytes

text \<open>Handles that may be \<^verbatim>\<open>NULL\<close> are options; error codes are zero on success.\<close>

record win_system =
  ws_load :: bool
  ws_proc :: "string \<Rightarrow> bool"
  ws_adapter :: "int option"
  ws_luid :: u64
  ws_unicast :: int
  ws_getif :: int
  ws_ifindex :: u32
  ws_setif :: int
  ws_session :: "int option"
  ws_addroute :: "win_route \<Rightarrow> int"
  ws_sha256 :: "bytes \<Rightarrow> bytes"
  ws_mb2wc :: "bytes \<Rightarrow> u16 list"

section \<open>Text\<close>

text \<open>
  \<^verbatim>\<open>MultiByteToWideChar\<close> converts a text up to its terminating zero, which it includes in
  the result; an empty result is its failure.
\<close>

definition UTF8ToUTF16 :: "(bytes \<Rightarrow> u16 list) \<Rightarrow> bytes \<Rightarrow> u16 list" where
  "UTF8ToUTF16 mb2wc utf8Str =
     (if utf8Str = [] then []
      else let utf16Str = mb2wc (takeWhile (\<lambda>c. c \<noteq> 0) utf8Str)
           in if length utf16Str = 0 then [] else take (length utf16Str - 1) utf16Str)"

definition UTF16ToUTF8 :: "(u16 list \<Rightarrow> bytes) \<Rightarrow> u16 list \<Rightarrow> bytes" where
  "UTF16ToUTF8 wc2mb utf16Str =
     (if utf16Str = [] then []
      else let utf8Str = wc2mb (takeWhile (\<lambda>c. c \<noteq> 0) utf16Str)
           in if length utf8Str = 0 then [] else take (length utf8Str - 1) utf8Str)"

section \<open>The library\<close>

definition wintun_functions :: "string list" where
  "wintun_functions =
     [''WintunCreateAdapter'', ''WintunCloseAdapter'', ''WintunOpenAdapter'', ''WintunGetAdapterLUID'',
      ''WintunGetRunningDriverVersion'', ''WintunDeleteDriver'', ''WintunSetLogger'', ''WintunStartSession'',
      ''WintunEndSession'', ''WintunGetReadWaitEvent'', ''WintunReceivePacket'', ''WintunReleaseReceivePacket'',
      ''WintunAllocateSendPacket'', ''WintunSendPacket'']"

text \<open>The functions are looked up in order, up to the first that is missing.\<close>

fun lookups :: "(string \<Rightarrow> bool) \<Rightarrow> string list \<Rightarrow> win_call list \<times> bool" where
  "lookups proc [] = ([], True)"
| "lookups proc (f # fs) =
     (if \<not> proc f then ([WinGetProc f], False)
      else let (cs, ok) = lookups proc fs in (WinGetProc f # cs, ok))"

definition Holder_new :: "win_system \<Rightarrow> win_call list \<times> bool" where
  "Holder_new K =
     (if \<not> ws_load K then ([WinLoadLibrary], False)
      else let (cs, ok) = lookups (ws_proc K) wintun_functions
           in if ok then (WinLoadLibrary # cs, True) else (WinLoadLibrary # cs @ [WinFreeLibrary], False))"

text \<open>A static object: constructed by the first call of the process, asked by all.\<close>

type_synonym Holder = "bool option"

definition Holder_Ok :: "win_system \<Rightarrow> Holder \<Rightarrow> Holder \<times> win_call list \<times> bool" where
  "Holder_Ok K h =
     (case h of
        Some ok \<Rightarrow> (h, [], ok)
      | None \<Rightarrow> let (cs, ok) = Holder_new K in (Some ok, cs, ok))"

section \<open>The device\<close>

record WindowsTun =
  win_name :: bytes
  win_ip :: ip4
  win_prefix :: u32
  win_mtu :: int
  win_ifindex :: u32
  win_routes :: "win_route list"
  win_adapter :: "int option"
  win_session :: "int option"

definition WindowsTun_new :: WindowsTun where
  "WindowsTun_new = \<lparr>win_name = [], win_ip = ip4_zero, win_prefix = 0, win_mtu = 0, win_ifindex = 0, win_routes = [],
     win_adapter = None, win_session = None\<rparr>"

definition win_setName :: "bytes \<Rightarrow> WindowsTun \<Rightarrow> WindowsTun \<times> int" where
  "win_setName name d = (d\<lparr>win_name := (if name = [] then str ''candy'' else name)\<rparr>, 0)"

definition win_setMTU :: "int \<Rightarrow> WindowsTun \<Rightarrow> WindowsTun \<times> int" where
  "win_setMTU mtu d = (d\<lparr>win_mtu := mtu\<rparr>, 0)"

definition win_getIP :: "WindowsTun \<Rightarrow> ip4" where
  "win_getIP d = win_ip d"

definition win_getMTU :: "WindowsTun \<Rightarrow> int" where
  "win_getMTU d = win_mtu d"

definition win_setAddress :: "poco \<Rightarrow> bytes \<Rightarrow> WindowsTun \<Rightarrow> (WindowsTun \<times> int) res" where
  "win_setAddress P cidr d =
     bind_res (fromCidr P cidr Address0) (\<lambda>(a, r).
       if r \<noteq> 0 then Ok (d, -1)
       else Ok (d\<lparr>win_ip := a_host a, win_prefix := of_nat (toPrefix (a_mask a))\<rparr>, 0))"

text \<open>Address and MTU of a new adapter, and its session; a failure leaves the adapter as it is.\<close>

definition win_configure :: "win_system \<Rightarrow> int \<Rightarrow> WindowsTun \<Rightarrow> WindowsTun \<times> win_call list \<times> int" where
  "win_configure K a d =
     (let luid = ws_luid K;
          t1 = [WinGetLUID a, WinCreateUnicast luid (win_ip d) (win_prefix d)];
          t2 = t1 @ [WinGetIpInterface luid];
          t3 = t2 @ [WinSetIpInterface luid (of_int (win_mtu d))];
          d1 = d\<lparr>win_ifindex := ws_ifindex K\<rparr>
      in if ws_unicast K \<noteq> 0 then (d, t1, -1)
         else if ws_getif K \<noteq> 0 then (d, t2, -1)
         else if ws_setif K \<noteq> 0 then (d1, t3, -1)
         else case ws_session K of
                None \<Rightarrow> (d1\<lparr>win_session := None\<rparr>, t3 @ [WinStartSession a], -1)
              | Some s \<Rightarrow> (d1\<lparr>win_session := Some s\<rparr>, t3 @ [WinStartSession a], 0))"

definition win_up ::
  "win_system \<Rightarrow> Holder \<times> WindowsTun \<Rightarrow> (Holder \<times> WindowsTun) \<times> win_call list \<times> int" where
  "win_up K hw =
     (let (h, d) = hw; (h1, t, ok) = Holder_Ok K h
      in if \<not> ok then ((h1, d), t, -1)
         else let Guid = take 16 (ws_sha256 K (str ''CandyGuid'' @ win_name d));
                  t1 = t @ [WinCreateAdapter (UTF8ToUTF16 (ws_mb2wc K) (win_name d)) Guid];
                  d1 = d\<lparr>win_adapter := ws_adapter K\<rparr>
              in case ws_adapter K of
                   None \<Rightarrow> ((h1, d1), t1, -1)
                 | Some a \<Rightarrow> let (d2, t2, r) = win_configure K a d1 in ((h1, d2), t1 @ t2, r))"

text \<open>Routes are on a stack, its top first.\<close>

definition win_down :: "WindowsTun \<Rightarrow> WindowsTun \<times> win_call list \<times> int" where
  "win_down d =
     (d\<lparr>win_routes := [], win_session := None, win_adapter := None\<rparr>,
      map WinDeleteRoute (win_routes d) @
      (case win_session d of None \<Rightarrow> [] | Some s \<Rightarrow> [WinEndSession s]) @
      (case win_adapter d of None \<Rightarrow> [] | Some a \<Rightarrow> [WinCloseAdapter a]), 0)"

definition win_route_of :: "ip4 \<Rightarrow> ip4 \<Rightarrow> ip4 \<Rightarrow> WindowsTun \<Rightarrow> win_route" where
  "win_route_of dst netmask nexthop d =
     \<lparr>wr_dest = dst, wr_mask = netmask, wr_nexthop = nexthop, wr_ifindex = win_ifindex d, wr_type = 4, wr_metric1 = 5\<rparr>"

definition win_setSysRtTable ::
  "win_system \<Rightarrow> ip4 \<Rightarrow> ip4 \<Rightarrow> ip4 \<Rightarrow> WindowsTun \<Rightarrow> WindowsTun \<times> win_call list \<times> int" where
  "win_setSysRtTable K dst netmask nexthop d =
     (let route = win_route_of dst netmask nexthop d
      in (if ws_addroute K route = 0 then d\<lparr>win_routes := route # win_routes d\<rparr> else d, [WinCreateRoute route], 0))"

datatype win_answer = WinPacket bytes | WinNoMoreItems | WinReceiveFails

definition win_read :: "win_answer \<Rightarrow> WindowsTun \<Rightarrow> (bytes \<times> WindowsTun \<times> win_call list \<times> int) res" where
  "win_read a d =
     (case win_session d of
        None \<Rightarrow> Ok ([], d, [], -1)
      | Some s \<Rightarrow>
          (case a of
             WinPacket packet \<Rightarrow> Ok (packet, d, [WinReceive s, WinReleaseReceive s], int (length packet))
           | WinNoMoreItems \<Rightarrow> Ok ([], d, [WinReceive s, WinWaitRead s], 0)
           | WinReceiveFails \<Rightarrow> Ok ([], d, [WinReceive s], -1)))"

datatype win_alloc = WinAllocated | WinOverflow | WinAllocFails

definition win_write :: "bytes \<Rightarrow> win_alloc \<Rightarrow> WindowsTun \<Rightarrow> win_call list \<times> int" where
  "win_write buffer a d =
     (case win_session d of
        None \<Rightarrow> ([], -1)
      | Some s \<Rightarrow>
          (let alloc = WinAllocate s (length buffer)
           in case a of
                WinAllocated \<Rightarrow> ([alloc, WinSend s buffer], int (length buffer))
              | WinOverflow \<Rightarrow> ([alloc], 0)
              | WinAllocFails \<Rightarrow> ([alloc], -1)))"

text \<open>The library is tried once: a process whose first attempt failed never brings a device up.\<close>

lemma Holder_Ok_again: "Holder_Ok K h = (h1, cs, ok) \<Longrightarrow> Holder_Ok K' h1 = (h1, [], ok)"
  by (auto simp: Holder_Ok_def split: option.splits prod.splits)

lemma library_tried_once:
  "win_up K (Some False, d) = ((Some False, d), [], -1)"
  by (simp add: win_up_def Holder_Ok_def)

section \<open>Handles\<close>

datatype win_handle = Adapter int | Session int | Route_entry win_route

fun win_events :: "win_system \<Rightarrow> win_call \<Rightarrow> win_handle handle_event list" where
  "win_events K (WinCreateAdapter n g) = (case ws_adapter K of None \<Rightarrow> [] | Some a \<Rightarrow> [Acquire (Adapter a)])"
| "win_events K (WinStartSession a) = (case ws_session K of None \<Rightarrow> [] | Some s \<Rightarrow> [Acquire (Session s)])"
| "win_events K (WinCreateRoute r) = (if ws_addroute K r = 0 then [Acquire (Route_entry r)] else [])"
| "win_events K (WinDeleteRoute r) = [Release (Route_entry r)]"
| "win_events K (WinEndSession s) = [Release (Session s)]"
| "win_events K (WinCloseAdapter a) = [Release (Adapter a)]"
| "win_events K _ = []"

definition win_own :: "WindowsTun \<Rightarrow> win_handle set" where
  "win_own d = Route_entry ` set (win_routes d) \<union> Session ` set_option (win_session d) \<union> Adapter ` set_option (win_adapter d)"

definition win_idle :: "WindowsTun \<Rightarrow> bool" where
  "win_idle d \<longleftrightarrow> win_routes d = [] \<and> win_session d = None \<and> win_adapter d = None"

lemma lookups_events: "handle_events (win_events K) (fst (lookups proc fs)) = []"
  by (induction fs) (auto split: prod.splits)

lemma Holder_events: "handle_events (win_events K) (fst (snd (Holder_Ok K h))) = []"
  using lookups_events [of K "ws_proc K" wintun_functions]
  by (auto simp: Holder_Ok_def Holder_new_def split: option.splits prod.splits if_splits)

text \<open>What bringing the device up opens: the adapter, whatever happens after that, and the session.\<close>

lemma win_up_events:
  assumes "win_up K (h, d) = ((h', d'), cs, r)" and "win_idle d"
  shows "handle_events (win_events K) cs =
      (case win_adapter d' of None \<Rightarrow> [] | Some a \<Rightarrow> [Acquire (Adapter a)]) @
      (case win_session d' of None \<Rightarrow> [] | Some s \<Rightarrow> [Acquire (Session s)])"
    and "win_routes d' = []" and "r = 0 \<longleftrightarrow> win_session d' \<noteq> None"
proof -
  obtain h1 t ok where k: "Holder_Ok K h = (h1, t, ok)" by (metis prod_cases3)
  have t: "handle_events (win_events K) t = []" using Holder_events [of K h] by (simp add: k)
  let ?goal = "handle_events (win_events K) cs =
      (case win_adapter d' of None \<Rightarrow> [] | Some a \<Rightarrow> [Acquire (Adapter a)]) @
      (case win_session d' of None \<Rightarrow> [] | Some s \<Rightarrow> [Acquire (Session s)]) \<and>
    win_routes d' = [] \<and> (r = 0 \<longleftrightarrow> win_session d' \<noteq> None)"
  have ?goal
  proof (cases "ok \<and> ws_adapter K \<noteq> None")
    case False
    then show ?thesis
      using assms t by (auto simp: win_up_def k win_idle_def Let_def split: if_splits option.splits)
  next
    case True
    then obtain a where a: "ws_adapter K = Some a" by auto
    let ?d = "d\<lparr>win_adapter := Some a\<rparr>"
    obtain t2 where c: "win_configure K a ?d = (d', t2, r)"
      and cs: "handle_events (win_events K) cs = [Acquire (Adapter a)] @ handle_events (win_events K) t2"
      using assms(1) True t a by (auto simp: win_up_def k Let_def split: prod.splits)
    have "handle_events (win_events K) t2 = (case win_session d' of None \<Rightarrow> [] | Some s \<Rightarrow> [Acquire (Session s)])"
      "win_adapter d' = Some a" "win_routes d' = []" "r = 0 \<longleftrightarrow> win_session d' \<noteq> None"
      using c assms(2) by (auto simp: win_configure_def win_idle_def Let_def split: if_splits option.splits)
    then show ?thesis using cs by simp
  qed
  then show "handle_events (win_events K) cs =
      (case win_adapter d' of None \<Rightarrow> [] | Some a \<Rightarrow> [Acquire (Adapter a)]) @
      (case win_session d' of None \<Rightarrow> [] | Some s \<Rightarrow> [Acquire (Session s)])"
    and "win_routes d' = []" and "r = 0 \<longleftrightarrow> win_session d' \<noteq> None" by blast+
qed

lemma win_acquired:
  assumes "win_up K (h, d) = ((h', d'), cs, r)" and "win_idle d" and "fresh (handle_events (win_events K) cs) S"
  shows "ledger (handle_events (win_events K) cs) S = Some (S \<union> win_own d') \<and> win_own d' \<inter> S = {}"
  using win_up_events [OF assms(1,2)] assms(3)
  by (cases "win_adapter d'"; cases "win_session d'") (auto simp: win_own_def)

lemma delete_routes:
  "distinct rs \<Longrightarrow> Route_entry ` set rs \<inter> S = {} \<Longrightarrow>
    ledger (handle_events (win_events K) (map WinDeleteRoute rs)) (S \<union> Route_entry ` set rs) = Some S"
proof (induction rs)
  case (Cons r rs)
  then have "insert (Route_entry r) (S \<union> Route_entry ` set rs) - {Route_entry r} = S \<union> Route_entry ` set rs"
    by auto
  then show ?case using Cons by simp
qed simp

text \<open>Windows honours the first contract, with the routes among the handles, not the second.\<close>

interpretation windows: tun_device win_up "\<lambda>(h, d). case win_down d of (d', cs, r) \<Rightarrow> ((h, d'), cs, r)"
  "\<lambda>K rt (h, d). case win_setSysRtTable K (rt_dst rt) (rt_mask rt) (rt_nexthop rt) d of (d', cs, r) \<Rightarrow> ((h, d'), cs, r)"
  win_events "\<lambda>(h, d). win_own d" "\<lambda>(h, d). win_idle d" "\<lambda>(h, d). distinct (win_routes d)"
proof (unfold_locales, goal_cases)
  case (1 w K w' cs S)
  obtain h d h' d' where w: "w = (h, d)" "w' = (h', d')" by fastforce
  show ?case using 1 win_acquired [of K h d h' d' cs 0 S] win_up_events [of K h d h' d' cs 0] by (simp add: w)
next
  case (2 w S K rt w' cs r)
  obtain h d h' d' where w: "w = (h, d)" "w' = (h', d')" by fastforce
  let ?r = "win_route_of (rt_dst rt) (rt_mask rt) (rt_nexthop rt) d"
  show ?case
  proof (cases "ws_addroute K ?r = 0")
    case True
    then have d': "d' = d\<lparr>win_routes := ?r # win_routes d\<rparr>" "cs = [WinCreateRoute ?r]"
      using 2(3) by (auto simp: w win_setSysRtTable_def Let_def)
    then have "Route_entry ?r \<notin> S \<union> win_own d" using 2(4) True by (simp add: w)
    then show ?thesis using 2(1,2) True d' by (auto simp: w win_own_def)
  next
    case False
    then show ?thesis using 2 by (auto simp: w win_setSysRtTable_def Let_def)
  qed
next
  case (3 w S w' cs r K)
  obtain h d where w: "w = (h, d)" by fastforce
  let ?T = "Session ` set_option (win_session d) \<union> Adapter ` set_option (win_adapter d)"
  have "distinct (win_routes d)" "win_own d \<inter> S = {}" using 3(1,2) by (simp_all add: w)
  then have "ledger (handle_events (win_events K) (map WinDeleteRoute (win_routes d))) (S \<union> win_own d) = Some (S \<union> ?T)"
    using delete_routes [of "win_routes d" "S \<union> ?T" K] by (auto simp: win_own_def Un_ac)
  moreover have "ledger (handle_events (win_events K) ((case win_session d of None \<Rightarrow> [] | Some s \<Rightarrow> [WinEndSession s]) @
      (case win_adapter d of None \<Rightarrow> [] | Some a \<Rightarrow> [WinCloseAdapter a]))) (S \<union> ?T) = Some S"
    using 3(2) by (cases "win_session d"; cases "win_adapter d") (auto simp: w win_own_def)
  ultimately show ?case using 3(3) by (auto simp: w win_down_def ledger_append)
qed

text \<open>The handle events of one start, the adapter it created, and whether it failed after that.\<close>

type_synonym win_start = "win_system \<times> Holder \<times> WindowsTun"

definition start_events :: "win_start \<Rightarrow> win_handle handle_event list" where
  "start_events w = (case w of (K, h, d) \<Rightarrow> handle_events (win_events K) (fst (snd (win_up K (h, d)))))"

definition start_adapter :: "win_start \<Rightarrow> int option" where
  "start_adapter w = (case w of (K, h, d) \<Rightarrow> win_adapter (snd (fst (win_up K (h, d)))))"

definition start_fails :: "win_start \<Rightarrow> bool" where
  "start_fails w \<longleftrightarrow> (case w of (K, h, d) \<Rightarrow> win_idle d \<and> snd (snd (win_up K (h, d))) \<noteq> 0)"

lemma failed_start_events:
  assumes "start_fails w" and "start_adapter w = Some a"
  shows "start_events w = [Acquire (Adapter a)]"
proof -
  obtain K h d where w: "w = (K, h, d)" by (cases w)
  obtain h' d' cs r where u: "win_up K (h, d) = ((h', d'), cs, r)" by (metis prod.collapse)
  show ?thesis
    using assms win_up_events [OF u]
    by (simp add: w u start_events_def start_adapter_def start_fails_def)
qed

text \<open>On Windows a start that fails after the adapter was created (address, MTU or session
  refused) leaves the adapter open, since nothing is called on a device that failed; a client
  that is restarted until it works leaves one behind for each attempt.\<close>

theorem failed_starts_keep_adapters:
  assumes "\<forall>w \<in> set ws. start_fails w \<and> start_adapter w \<noteq> None"
  shows "ledger (concat (map start_events ws)) S = Some (S \<union> Adapter ` the ` start_adapter ` set ws)"
  using assms
proof (induction ws arbitrary: S)
  case (Cons w ws)
  then obtain a where a: "start_adapter w = Some a" by auto
  have "start_events w = [Acquire (Adapter a)]" using Cons.prems a failed_start_events by simp
  then show ?case using Cons.IH [of "insert (Adapter a) S"] Cons.prems a by (simp add: insert_commute)
qed simp

definition demo_windows :: "int \<Rightarrow> win_system" where
  "demo_windows a = \<lparr>ws_load = True, ws_proc = (\<lambda>_. True), ws_adapter = Some a, ws_luid = 1, ws_unicast = 0, ws_getif = 0,
     ws_ifindex = 9, ws_setif = 87, ws_session = Some 3, ws_addroute = (\<lambda>_. 0), ws_sha256 = (\<lambda>_. replicate 32 0),
     ws_mb2wc = (\<lambda>s. map (\<lambda>c. ucast c) s @ [0])\<rparr>"

theorem failed_starts_keep_adapters_witness:
  "ledger (concat (map start_events [(demo_windows 5, None, WindowsTun_new), (demo_windows 6, Some True, WindowsTun_new)])) {} =
    Some {Adapter 5, Adapter 6}"
proof -
  let ?ws = "[(demo_windows 5, None, WindowsTun_new), (demo_windows 6, Some True, WindowsTun_new)]"
  note ev = win_up_def Holder_Ok_def Holder_new_def win_configure_def demo_windows_def WindowsTun_new_def Let_def
    wintun_functions_def
  have "\<forall>w \<in> set ?ws. start_fails w \<and> start_adapter w \<noteq> None" and a: "map start_adapter ?ws = [Some 5, Some 6]"
    by (simp_all add: start_fails_def start_adapter_def win_idle_def ev)
  then show ?thesis using failed_starts_keep_adapters [of ?ws "{}"] by simp
qed

section \<open>Packets\<close>

definition win_delivered :: "WindowsTun \<Rightarrow> win_answer \<Rightarrow> bytes option" where
  "win_delivered d a = (case a of WinPacket p \<Rightarrow> if win_session d = None then None else Some p | _ \<Rightarrow> None)"

interpretation win_reads: packet_source win_read win_delivered
  by unfold_locales (auto simp: win_read_def win_delivered_def split: if_splits option.splits win_answer.splits)

end
