(* ===== verification/Devices.thy ===== *)
theory Devices
  imports LinuxTun MacTun WinTun
begin

text \<open>
  The devices of the three systems together: each honours the contracts of theory \<^verbatim>\<open>Device\<close>
  that its own theory shows by interpretation.
\<close>

abbreviation linux_life :: "kernel \<Rightarrow> (kernel \<times> SysRouteEntry) list \<Rightarrow> LinuxTun \<Rightarrow> int handle_event list" where
  "linux_life \<equiv> device_life linux_up (\<lambda>d. (d, linux_down d)) (\<lambda>K rt d. (d, linux_setSysRtTable K rt)) linux_events"

abbreviation mac_life :: "mac_kernel \<Rightarrow> (mac_kernel \<times> SysRouteEntry) list \<Rightarrow> MacTun \<Rightarrow> int handle_event list" where
  "mac_life \<equiv> device_life mac_up (\<lambda>d. (d, mac_down d))
     (\<lambda>K rt d. (d, mac_setSysRtTable K (rt_dst rt) (rt_mask rt) (rt_nexthop rt))) mac_events"

abbreviation win_life ::
  "win_system \<Rightarrow> (win_system \<times> SysRouteEntry) list \<Rightarrow> Holder \<times> WindowsTun \<Rightarrow> win_handle handle_event list" where
  "win_life \<equiv> device_life win_up (\<lambda>(h, d). case win_down d of (d', cs, r) \<Rightarrow> ((h, d'), cs, r))
     (\<lambda>K rt (h, d). case win_setSysRtTable K (rt_dst rt) (rt_mask rt) (rt_nexthop rt) d of (d', cs, r) \<Rightarrow> ((h, d'), cs, r))
     win_events"

text \<open>C36: whichever system calls fail, a device of Linux or macOS has given back every descriptor
  when its life is over, whether it could be brought up or not, and has closed none twice and
  none it did not open; on Windows the same holds of adapter, session and routes of a device that
  was brought up.\<close>

theorem devices_give_back:
  "(fresh (linux_life K rts d) S \<longrightarrow> ledger (linux_life K rts d) S = Some S) \<and>
   (fresh (mac_life K' rts' d') S \<longrightarrow> ledger (mac_life K' rts' d') S = Some S) \<and>
   (win_idle (snd w) \<and> snd (snd (win_up K'' w)) = 0 \<and> fresh (win_life K'' rts'' w) T \<longrightarrow>
      ledger (win_life K'' rts'' w) T = Some T)"
  using linux.every_life_balanced [where d = d and K = K and rts = rts and S = S]
    macos.every_life_balanced [where d = d' and K = K' and rts = rts' and S = S]
    windows.life_balanced [where d = w and K = K'' and rts = rts'' and S = T]
  by (auto simp: case_prod_unfold)

definition demo_mac_kernel :: mac_kernel where
  "demo_mac_kernel = \<lparr>mk_socket = 7, mk_getfl = Some 2, mk_setfl = True, mk_info = Some 5, mk_connect = True,
     mk_ifname = Some (str ''utun3''), mk_inet = 8, mk_alias = True, mk_mtu = True, mk_getflags = Some 0x10,
     mk_setflags = True, mk_route = 8, mk_addrt = False\<rparr>"

definition demo_linux :: LinuxTun where
  "demo_linux = \<lparr>lt_tun = demo_tun, tunFd = 0\<rparr>"

definition demo_route :: SysRouteEntry where
  "demo_route = \<lparr>rt_dst = IP4 172 16 0 0, rt_mask = IP4 255 255 0 0, rt_nexthop = IP4 10 0 0 2\<rparr>"

lemmas devices_eval =
  device_life_def Let_def opened_def closed_def
  linux_up_def configure_interface_def demo_kernel_def demo_linux_def
  mac_up_def mac_connect_def mac_configure_def mac_setSysRtTable_def demo_mac_kernel_def
  win_up_def Holder_Ok_def Holder_new_def wintun_functions_def win_configure_def win_setSysRtTable_def win_route_of_def
  win_down_def demo_windows_def WindowsTun_new_def win_idle_def

theorem devices_give_back_witness:
  "ledger (linux_life demo_kernel [] demo_linux) {0, 1, 2} = Some {0, 1, 2} \<and>
   ledger (mac_life demo_mac_kernel [] demo_mac) {0, 1, 2} = Some {0, 1, 2} \<and>
   ledger (win_life (demo_windows 5\<lparr>ws_setif := 0\<rparr>) [(demo_windows 5, demo_route)] (None, WindowsTun_new)) {} = Some {}"
proof -
  let ?K = "demo_windows 5\<lparr>ws_setif := 0\<rparr>" and ?w = "(None, WindowsTun_new)"
  have "fresh (linux_life demo_kernel [] demo_linux) {0, 1, 2}"
    by (simp add: devices_eval)
  moreover have "fresh (mac_life demo_mac_kernel [] demo_mac) {0, 1, 2}"
    by (simp add: devices_eval)
  moreover have "win_idle (snd ?w) \<and> snd (snd (win_up ?K ?w)) = 0"
    by (simp add: devices_eval)
  moreover have "fresh (win_life ?K [(demo_windows 5, demo_route)] ?w) {}"
    by (simp add: devices_eval)
  ultimately show ?thesis
    using devices_give_back [of demo_kernel "[]" demo_linux "{0, 1, 2}" demo_mac_kernel "[]" demo_mac ?w ?K
        "[(demo_windows 5, demo_route)]" "{}"] by blast
qed

text \<open>On every system the device thread routes exactly the packets the system delivers.\<close>

lemmas device_threads = linux_reads.turn_routes_delivered mac_reads.turn_routes_delivered win_reads.turn_routes_delivered

end
