(* ===== verification/Reactor.thy ===== *)
theory Reactor
  imports Prelude
begin

text \<open>
  \<^verbatim>\<open>netstack/reactor.h\<close>, \<^verbatim>\<open>reactor.cc\<close>: the event loop of the landing sockets. A watcher holds
  what a session wants to hear about its socket; the poll set holds the same in Poco's terms.
  Tasks posted by other threads run in order between two polls. The handler of a watcher is the
  session it belongs to and is not part of the state here; Poco's poll set is modelled by what
  its documentation says of \<^verbatim>\<open>add\<close>, \<^verbatim>\<open>update\<close> and \<^verbatim>\<open>remove\<close>, a table of modes.
\<close>

type_synonym ReactorEvent = u32

definition EV_NONE :: ReactorEvent where "EV_NONE = 0"
definition EV_READ :: ReactorEvent where "EV_READ = 1"
definition EV_WRITE :: ReactorEvent where "EV_WRITE = 2"
definition EV_FAILURE :: ReactorEvent where "EV_FAILURE = 4"

definition ev_has :: "ReactorEvent \<Rightarrow> ReactorEvent \<Rightarrow> bool" where
  "ev_has a b \<longleftrightarrow> a AND b \<noteq> 0"

definition POLL_READ :: u32 where "POLL_READ = 1"
definition POLL_WRITE :: u32 where "POLL_WRITE = 2"
definition POLL_ERROR :: u32 where "POLL_ERROR = 4"

definition toPocoMode :: "ReactorEvent \<Rightarrow> u32" where
  "toPocoMode events =
     (if ev_has events EV_READ then POLL_READ else 0) OR (if ev_has events EV_WRITE then POLL_WRITE else 0)"

definition fromPocoMode :: "u32 \<Rightarrow> ReactorEvent" where
  "fromPocoMode mode =
     (if mode AND POLL_READ \<noteq> 0 then EV_READ else EV_NONE) OR
     (if mode AND POLL_WRITE \<noteq> 0 then EV_WRITE else EV_NONE) OR
     (if mode AND POLL_ERROR \<noteq> 0 then EV_FAILURE else EV_NONE)"

record Reactor =
  ioWatchers :: "(int, ReactorEvent) table"
  pollSet :: "(int, u32) table"

definition Reactor_new :: Reactor where
  "Reactor_new = \<lparr>ioWatchers = [], pollSet = []\<rparr>"

definition applyAdd :: "int \<Rightarrow> ReactorEvent \<Rightarrow> Reactor \<Rightarrow> Reactor" where
  "applyAdd fd events r =
     r\<lparr>ioWatchers := tbl_put fd events (ioWatchers r), pollSet := tbl_put fd (toPocoMode events) (pollSet r)\<rparr>"

definition applyMod :: "int \<Rightarrow> ReactorEvent \<Rightarrow> Reactor \<Rightarrow> Reactor" where
  "applyMod fd events r =
     (case map_of (ioWatchers r) fd of
        None \<Rightarrow> r
      | Some ev \<Rightarrow>
          if ev = events then r
          else r\<lparr>ioWatchers := tbl_put fd events (ioWatchers r), pollSet := tbl_put fd (toPocoMode events) (pollSet r)\<rparr>)"

definition applyDel :: "int \<Rightarrow> Reactor \<Rightarrow> Reactor" where
  "applyDel fd r =
     (case map_of (ioWatchers r) fd of
        None \<Rightarrow> r
      | Some ev \<Rightarrow> r\<lparr>ioWatchers := tbl_erase fd (ioWatchers r), pollSet := tbl_erase fd (pollSet r)\<rparr>)"

text \<open>
  What the handler of \<open>fd\<close> is told when the kernel reports \<open>ready\<close>: the poll set passes on what
  it was asked for, and errors always; without a watcher nothing is called.
\<close>

definition reactor_poll :: "int \<Rightarrow> u32 \<Rightarrow> Reactor \<Rightarrow> ReactorEvent option" where
  "reactor_poll fd ready r =
     (case (map_of (pollSet r) fd, map_of (ioWatchers r) fd) of
        (Some mode, Some ev) \<Rightarrow>
          (let m = ready AND (mode OR POLL_ERROR) in if m = 0 then None else Some (fromPocoMode m))
      | _ \<Rightarrow> None)"

definition in_step :: "Reactor \<Rightarrow> bool" where
  "in_step r \<longleftrightarrow> (\<forall>fd. map_of (pollSet r) fd = map_option toPocoMode (map_of (ioWatchers r) fd))"

lemma in_step_new: "in_step Reactor_new"
  by (simp add: in_step_def Reactor_new_def)

lemma in_step_apply:
  "in_step r \<Longrightarrow> in_step (applyAdd fd ev r)"
  "in_step r \<Longrightarrow> in_step (applyMod fd ev r)"
  "in_step r \<Longrightarrow> in_step (applyDel fd r)"
  by (auto simp: in_step_def applyAdd_def applyMod_def applyDel_def table_simps split: option.split)

lemma watcher_apply [table_simps]:
  "map_of (ioWatchers (applyAdd fd ev r)) fd' = (if fd' = fd then Some ev else map_of (ioWatchers r) fd')"
  "map_of (ioWatchers (applyMod fd ev r)) fd' =
     (if fd' = fd \<and> map_of (ioWatchers r) fd \<noteq> None then Some ev else map_of (ioWatchers r) fd')"
  "map_of (ioWatchers (applyDel fd r)) fd' = (if fd' = fd then None else map_of (ioWatchers r) fd')"
  by (auto simp: applyAdd_def applyMod_def applyDel_def table_simps split: option.split)

lemma poll_needs_watcher: "reactor_poll fd ready r = Some ev \<Longrightarrow> map_of (ioWatchers r) fd \<noteq> None"
  by (auto simp: reactor_poll_def split: option.splits)

text \<open>A socket whose watcher does not ask for writability is never reported writable.\<close>

lemma poll_write:
  assumes "in_step r" and "reactor_poll fd ready r = Some ev" and "ev_has ev EV_WRITE"
  shows "\<exists>want. map_of (ioWatchers r) fd = Some want \<and> ev_has want EV_WRITE"
proof -
  obtain want where w: "map_of (ioWatchers r) fd = Some want"
    using poll_needs_watcher [OF assms(2)] by auto
  then have m: "map_of (pollSet r) fd = Some (toPocoMode want)"
    using assms(1) by (simp add: in_step_def)
  let ?m = "ready AND (toPocoMode want OR POLL_ERROR)"
  have ev: "ev = fromPocoMode ?m"
    using assms(2) w m by (simp add: reactor_poll_def Let_def split: if_splits)
  have "?m AND POLL_WRITE \<noteq> 0"
    using assms(3) unfolding ev
    by (auto simp: fromPocoMode_def ev_has_def EV_NONE_def EV_READ_def EV_WRITE_def EV_FAILURE_def split: if_splits)
  moreover have "?m AND POLL_WRITE = 0" if "\<not> ev_has want EV_WRITE"
    using that by (simp add: toPocoMode_def POLL_READ_def POLL_WRITE_def POLL_ERROR_def bit.conj_disj_distrib bit.conj_disj_distrib2 and.assoc)
  ultimately show ?thesis using w by auto
qed

lemmas reactor_eval =
  ev_has_def EV_NONE_def EV_READ_def EV_WRITE_def EV_FAILURE_def POLL_READ_def POLL_WRITE_def POLL_ERROR_def
  toPocoMode_def fromPocoMode_def reactor_poll_def applyAdd_def applyMod_def applyDel_def Reactor_new_def

end
