(* ===== verification/SessionTcp.thy ===== *)
theory SessionTcp
  imports Reactor Net
begin

text \<open>
  \<^verbatim>\<open>netstack/session_tcp.h\<close>, \<^verbatim>\<open>session_tcp.cc\<close>: one TCP connection that lwIP ends, joined to a
  kernel socket. The stack thread talks to lwIP, the reactor thread to the socket; each posts
  tasks to the other. The model keeps both task queues and lets the threads take turns in any
  order, a callback or a task at a time. lwIP and the socket are not part of the sources: what
  their calls return is input of a step, and the bytes that cross the two borders are logged.
\<close>

section \<open>State\<close>

record SessionTcp =
  ts_pcb :: bool
  ts_fd :: int
  ts_connected :: bool
  ts_closing :: bool
  forwardBuf :: bytes
  wantWrite :: bool
  pendingRecved :: nat
  backwardBuf :: bytes
  readPaused :: bool
  fdEof :: bool
  backwardBytes :: int

datatype stack_task = WriteToLwip bytes | FdEofTask | AckRecved | CloseFromStack
datatype reactor_task = FlushForward | CloseFromReactor | ResumeRead int | ShutdownFd

text \<open>
  \<open>lw_in\<close>, \<open>lw_out\<close>: the bytes lwIP delivered and took; \<open>lw_acked\<close>: how many of the delivered
  bytes were confirmed (\<^verbatim>\<open>tcp_recved\<close>); \<open>fd_out\<close>, \<open>fd_in\<close>: the bytes the socket took and gave.
\<close>

record tcp_conn =
  ses :: SessionTcp
  rea :: Reactor
  stackTasks :: "stack_task list"
  reactorTasks :: "reactor_task list"
  in_sessions :: bool
  lw_in :: bytes
  lw_out :: bytes
  lw_acked :: nat
  fd_out :: bytes
  fd_in :: bytes

definition HIGH_WATER :: int where "HIGH_WATER = 256 * 1024"
definition LOW_WATER :: int where "LOW_WATER = 64 * 1024"

text \<open>A result of \<^verbatim>\<open>netSend\<close>, of \<^verbatim>\<open>netRecv\<close>, of \<^verbatim>\<open>tcp_write\<close>.\<close>

datatype send_res = Sent nat | SendAgain | SendError
datatype recv_res = Recvd bytes | RecvAgain | RecvError
datatype werr = WOk | WMem | WErr

definition SessionTcp_new :: SessionTcp where
  "SessionTcp_new = \<lparr>ts_pcb = True, ts_fd = -1, ts_connected = False, ts_closing = False, forwardBuf = [],
     wantWrite = False, pendingRecved = 0, backwardBuf = [], readPaused = False, fdEof = False, backwardBytes = 0\<rparr>"

definition set_ses :: "(SessionTcp \<Rightarrow> SessionTcp) \<Rightarrow> tcp_conn \<Rightarrow> tcp_conn" where
  "set_ses f c = c\<lparr>ses := f (ses c)\<rparr>"

definition set_rea :: "(Reactor \<Rightarrow> Reactor) \<Rightarrow> tcp_conn \<Rightarrow> tcp_conn" where
  "set_rea f c = c\<lparr>rea := f (rea c)\<rparr>"

definition post_stack :: "stack_task \<Rightarrow> tcp_conn \<Rightarrow> tcp_conn" where
  "post_stack t c = c\<lparr>stackTasks := stackTasks c @ [t]\<rparr>"

definition post_reactor :: "reactor_task \<Rightarrow> tcp_conn \<Rightarrow> tcp_conn" where
  "post_reactor t c = c\<lparr>reactorTasks := reactorTasks c @ [t]\<rparr>"

text \<open>\<open>dial\<close>: the socket \<^verbatim>\<open>dialTcp\<close> returned, negative on failure. On success the caller
  (\<^verbatim>\<open>NetStack::onAccept\<close>) puts the session into its table.\<close>

definition tcp_start :: "int \<Rightarrow> tcp_conn \<Rightarrow> tcp_conn \<times> int" where
  "tcp_start dial c =
     (let c1 = set_ses (\<lambda>s. s\<lparr>ts_fd := dial\<rparr>) c
      in if dial < 0 then (c1, -1) else (set_rea (applyAdd dial EV_WRITE) c1, 0))"

definition onAccept :: "bool \<Rightarrow> int \<Rightarrow> tcp_conn option" where
  "onAccept running dial =
     (if \<not> running then None
      else let (c, r) = tcp_start dial \<lparr>ses = SessionTcp_new, rea = Reactor_new, stackTasks = [], reactorTasks = [],
                 in_sessions = False, lw_in = [], lw_out = [], lw_acked = 0, fd_out = [], fd_in = []\<rparr>
           in if r \<noteq> 0 then None else Some (c\<lparr>in_sessions := True\<rparr>))"

section \<open>Closing\<close>

definition tcp_closeFromStack :: "tcp_conn \<Rightarrow> tcp_conn" where
  "tcp_closeFromStack c =
     (let closedPcb = ts_pcb (ses c);
          c1 = post_reactor CloseFromReactor (set_ses (\<lambda>s. s\<lparr>ts_pcb := False\<rparr>) c)
      in if closedPcb then c1\<lparr>in_sessions := False\<rparr> else c1)"

definition tcp_closeFromReactor :: "tcp_conn \<Rightarrow> tcp_conn" where
  "tcp_closeFromReactor c =
     (if ts_closing (ses c) then c
      else let c1 = set_ses (\<lambda>s. s\<lparr>ts_closing := True\<rparr>) c;
               c2 = (if ts_fd (ses c1) \<ge> 0
                     then set_ses (\<lambda>s. s\<lparr>ts_fd := -1\<rparr>) (set_rea (applyDel (ts_fd (ses c1))) c1) else c1)
           in if ts_pcb (ses c2) then post_stack CloseFromStack c2 else c2)"

text \<open>\<^verbatim>\<open>onErr\<close>: lwIP has freed the control block.\<close>

definition tcp_onErr :: "tcp_conn \<Rightarrow> tcp_conn" where
  "tcp_onErr c =
     (let c1 = set_ses (\<lambda>s. s\<lparr>ts_pcb := False\<rparr>) c
      in tcp_closeFromReactor (if ts_pcb (ses c) then c1\<lparr>in_sessions := False\<rparr> else c1))"

definition tcp_shutdownFromStack :: "tcp_conn \<Rightarrow> tcp_conn" where
  "tcp_shutdownFromStack c =
     (let c1 = set_ses (\<lambda>s. s\<lparr>ts_pcb := False\<rparr>) c
      in if \<not> ts_closing (ses c1) then post_reactor ShutdownFd (set_ses (\<lambda>s. s\<lparr>ts_closing := True\<rparr>) c1) else c1)"

definition shutdown_fd :: "tcp_conn \<Rightarrow> tcp_conn" where
  "shutdown_fd c =
     (if ts_fd (ses c) \<ge> 0
      then set_ses (\<lambda>s. s\<lparr>ts_fd := -1\<rparr>) (set_rea (applyDel (ts_fd (ses c))) c) else c)"

section \<open>From lwIP to the socket\<close>

definition tcp_onRecv :: "bytes \<Rightarrow> tcp_conn \<Rightarrow> tcp_conn" where
  "tcp_onRecv data c =
     post_reactor FlushForward
       (set_ses (\<lambda>s. s\<lparr>forwardBuf := forwardBuf s @ data\<rparr>) (c\<lparr>lw_in := lw_in c @ data\<rparr>))"

datatype flush_end = Flushed | Blocked | Broken

text \<open>The send loop: what remains, what the socket took, how it ended. When the script of results
  runs out the socket would block.\<close>

fun flush_loop :: "send_res list \<Rightarrow> bytes \<Rightarrow> bytes \<Rightarrow> bytes \<times> bytes \<times> flush_end" where
  "flush_loop rs [] out = ([], out, Flushed)"
| "flush_loop [] (x # b) out = (x # b, out, Blocked)"
| "flush_loop (Sent n # rs) (x # b) out =
     (if n = 0 then (x # b, out, Broken) else flush_loop rs (drop n (x # b)) (out @ take n (x # b)))"
| "flush_loop (SendAgain # rs) (x # b) out = (x # b, out, Blocked)"
| "flush_loop (SendError # rs) (x # b) out = (x # b, out, Broken)"

text \<open>After the loop: ask for writability when the socket is full, stop asking when all is sent.\<close>

definition flush_interest :: "int \<Rightarrow> flush_end \<Rightarrow> tcp_conn \<Rightarrow> tcp_conn" where
  "flush_interest fd how c =
     (let c1 = (if how = Blocked
                then set_rea (applyMod fd (EV_READ OR EV_WRITE)) (set_ses (\<lambda>s. s\<lparr>wantWrite := True\<rparr>) c)
                else c)
      in if forwardBuf (ses c1) = [] \<and> wantWrite (ses c1)
         then set_rea (applyMod fd EV_READ) (set_ses (\<lambda>s. s\<lparr>wantWrite := False\<rparr>) c1)
         else c1)"

definition add_pending :: "nat \<Rightarrow> tcp_conn \<Rightarrow> tcp_conn" where
  "add_pending acked c =
     (if acked > 0
      then post_stack AckRecved (set_ses (\<lambda>s. s\<lparr>pendingRecved := pendingRecved s + acked\<rparr>) c)
      else c)"

definition flushForwardLocked :: "send_res list \<Rightarrow> tcp_conn \<Rightarrow> tcp_conn" where
  "flushForwardLocked rs c =
     (if ts_fd (ses c) < 0 \<or> \<not> ts_connected (ses c) then c
      else let (rest, out, how) = flush_loop rs (forwardBuf (ses c)) [];
               c1 = set_ses (\<lambda>s. s\<lparr>forwardBuf := rest\<rparr>) (c\<lparr>fd_out := fd_out c @ out\<rparr>)
           in if how = Broken then tcp_closeFromReactor c1
              else add_pending (length out) (flush_interest (ts_fd (ses c)) how c1))"

text \<open>The confirmation goes to lwIP in pieces of at most 65535 bytes.\<close>

function recved_chunks :: "nat \<Rightarrow> nat list" where
  "recved_chunks acked =
     (if acked > 0 then min acked 0xFFFF # recved_chunks (acked - min acked 0xFFFF) else [])"
  by pat_completeness auto
termination by (relation "measure id") auto

declare recved_chunks.simps [simp del]

definition ackRecvedToLwip :: "tcp_conn \<Rightarrow> tcp_conn" where
  "ackRecvedToLwip c =
     (if \<not> ts_pcb (ses c) then c
      else let acked = pendingRecved (ses c);
               c1 = set_ses (\<lambda>s. s\<lparr>pendingRecved := 0\<rparr>) c
           in if acked = 0 then c1
              else c1\<lparr>lw_acked := fold (\<lambda>n a. a + n) (recved_chunks acked) (lw_acked c1)\<rparr>)"

section \<open>From the socket to lwIP\<close>

datatype pump_end = Pumped | PumpError

text \<open>
  The write loop: for every turn the free space of the send buffer and the result of
  \<^verbatim>\<open>tcp_write\<close>. It counts how far it got; the caller erases that prefix. When the script runs out
  there is no space.
\<close>

fun pump_loop :: "(u16 \<times> werr) list \<Rightarrow> nat \<Rightarrow> bytes \<Rightarrow> nat \<times> pump_end" where
  "pump_loop ws offset buf =
     (if \<not> offset < length buf then (offset, Pumped)
      else case ws of
             [] \<Rightarrow> (offset, Pumped)
           | (space, e) # ws' \<Rightarrow>
               if space = 0 then (offset, Pumped)
               else let chunk = min (unat space) (length buf - offset)
                    in case e of
                         WMem \<Rightarrow> (offset, Pumped)
                       | WErr \<Rightarrow> (offset, PumpError)
                       | WOk \<Rightarrow> pump_loop ws' (offset + chunk) buf)"

declare pump_loop.simps [simp del]

definition updateReadInterest :: "tcp_conn \<Rightarrow> tcp_conn" where
  "updateReadInterest c =
     (if readPaused (ses c) \<and> backwardBytes (ses c) \<le> LOW_WATER
      then post_reactor (ResumeRead (ts_fd (ses c))) (set_ses (\<lambda>s. s\<lparr>readPaused := False\<rparr>) c)
      else c)"

definition pumpToLwip :: "(u16 \<times> werr) list \<Rightarrow> tcp_conn \<Rightarrow> tcp_conn" where
  "pumpToLwip ws c =
     (if \<not> ts_pcb (ses c) then c
      else let (offset, how) = pump_loop ws 0 (backwardBuf (ses c));
               c1 = c\<lparr>lw_out := lw_out c @ take offset (backwardBuf (ses c))\<rparr>
           in if how = PumpError then c1
              else let c2 = set_ses (\<lambda>s. s\<lparr>backwardBuf := drop offset (backwardBuf s),
                                         backwardBytes := backwardBytes s - int offset\<rparr>) c1;
                       c3 = updateReadInterest c2
                   in if fdEof (ses c3) \<and> backwardBuf (ses c3) = [] then tcp_closeFromStack c3 else c3)"

definition writeToLwip :: "(u16 \<times> werr) list \<Rightarrow> bytes \<Rightarrow> tcp_conn \<Rightarrow> tcp_conn" where
  "writeToLwip ws data c =
     (if \<not> ts_pcb (ses c) then c
      else pumpToLwip ws (set_ses (\<lambda>s. s\<lparr>backwardBuf := backwardBuf s @ data\<rparr>) c))"

definition onFdEofFromStack :: "(u16 \<times> werr) list \<Rightarrow> tcp_conn \<Rightarrow> tcp_conn" where
  "onFdEofFromStack ws c =
     (let c1 = pumpToLwip ws (set_ses (\<lambda>s. s\<lparr>fdEof := True\<rparr>) c)
      in if backwardBuf (ses c1) = [] then tcp_closeFromStack c1 else c1)"

text \<open>The read loop; a read fills a buffer of 65536 bytes at most, an empty one is the end of the
  stream. When the script runs out there is nothing to read.\<close>

fun read_loop :: "recv_res list \<Rightarrow> tcp_conn \<Rightarrow> tcp_conn" where
  "read_loop rs c =
     (if backwardBytes (ses c) \<ge> HIGH_WATER
      then set_rea (applyMod (ts_fd (ses c)) EV_NONE) (set_ses (\<lambda>s. s\<lparr>readPaused := True\<rparr>) c)
      else case rs of
             [] \<Rightarrow> c
           | RecvAgain # rs' \<Rightarrow> c
           | RecvError # rs' \<Rightarrow> tcp_closeFromReactor c
           | Recvd d # rs' \<Rightarrow>
               let data = take 65536 d
               in if data = [] then set_rea (applyDel (ts_fd (ses c))) (post_stack FdEofTask c)
                  else read_loop rs' (post_stack (WriteToLwip data)
                         (set_ses (\<lambda>s. s\<lparr>backwardBytes := backwardBytes s + int (length data)\<rparr>)
                           (c\<lparr>fd_in := fd_in c @ data\<rparr>))))"

declare read_loop.simps [simp del]

section \<open>Events\<close>

definition onConnected :: "bool \<Rightarrow> send_res list \<Rightarrow> tcp_conn \<Rightarrow> tcp_conn" where
  "onConnected good ss c =
     (if \<not> good then tcp_closeFromReactor c
      else flushForwardLocked ss
             (set_rea (applyMod (ts_fd (ses c)) EV_READ) (set_ses (\<lambda>s. s\<lparr>ts_connected := True\<rparr>) c)))"

definition onFdEvent :: "ReactorEvent \<Rightarrow> bool \<Rightarrow> recv_res list \<Rightarrow> send_res list \<Rightarrow> tcp_conn \<Rightarrow> tcp_conn" where
  "onFdEvent ev good rs ss c =
     (if \<not> ts_connected (ses c)
      then if ev_has ev EV_FAILURE then tcp_closeFromReactor c
           else if ev_has ev EV_WRITE then onConnected good ss c else c
      else let c1 = (if ev_has ev (EV_READ OR EV_FAILURE) then read_loop rs c else c)
           in if ev_has ev EV_WRITE then flushForwardLocked ss c1 else c1)"

fun run_stack_task :: "(u16 \<times> werr) list \<Rightarrow> stack_task \<Rightarrow> tcp_conn \<Rightarrow> tcp_conn" where
  "run_stack_task ws (WriteToLwip data) c = writeToLwip ws data c"
| "run_stack_task ws FdEofTask c = onFdEofFromStack ws c"
| "run_stack_task ws AckRecved c = ackRecvedToLwip c"
| "run_stack_task ws CloseFromStack c = tcp_closeFromStack c"

fun run_reactor_task :: "send_res list \<Rightarrow> reactor_task \<Rightarrow> tcp_conn \<Rightarrow> tcp_conn" where
  "run_reactor_task ss FlushForward c = flushForwardLocked ss c"
| "run_reactor_task ss CloseFromReactor c = tcp_closeFromReactor c"
| "run_reactor_task ss (ResumeRead fd) c =
     (if fd \<ge> 0 \<and> \<not> ts_closing (ses c) then set_rea (applyMod fd EV_READ) c else c)"
| "run_reactor_task ss ShutdownFd c = shutdown_fd c"

text \<open>
  The turns. lwIP calls back while the control block lives: data (\<open>LwData\<close>), the end of the
  stream (\<open>LwFin\<close>), freed send space (\<open>LwSent\<close>), the loss of the block (\<open>LwDead\<close>). The kernel
  reports the socket (\<open>FdReady\<close>); the threads run their next task; the stack is torn down.
\<close>

datatype tcp_op =
    LwData bytes
  | LwFin
  | LwSent "(u16 \<times> werr) list"
  | LwDead
  | FdReady u32 bool "recv_res list" "send_res list"
  | RunStack "(u16 \<times> werr) list"
  | RunReactor "send_res list"
  | StackDown

definition tcp_step :: "tcp_op \<Rightarrow> tcp_conn \<Rightarrow> tcp_conn" where
  "tcp_step op c =
     (case op of
        LwData data \<Rightarrow> if ts_pcb (ses c) then tcp_onRecv data c else c
      | LwFin \<Rightarrow> if ts_pcb (ses c) then tcp_closeFromStack c else c
      | LwSent ws \<Rightarrow> if ts_pcb (ses c) then pumpToLwip ws c else c
      | LwDead \<Rightarrow> if ts_pcb (ses c) then tcp_onErr c else c
      | FdReady ready good rs ss \<Rightarrow>
          (case reactor_poll (ts_fd (ses c)) ready (rea c) of
             None \<Rightarrow> c
           | Some ev \<Rightarrow> onFdEvent ev good rs ss c)
      | RunStack ws \<Rightarrow>
          (case stackTasks c of [] \<Rightarrow> c | t # ts \<Rightarrow> run_stack_task ws t (c\<lparr>stackTasks := ts\<rparr>))
      | RunReactor ss \<Rightarrow>
          (case reactorTasks c of [] \<Rightarrow> c | t # ts \<Rightarrow> run_reactor_task ss t (c\<lparr>reactorTasks := ts\<rparr>))
      | StackDown \<Rightarrow> tcp_shutdownFromStack c)"

fun tcp_run :: "tcp_op list \<Rightarrow> tcp_conn \<Rightarrow> tcp_conn" where
  "tcp_run [] c = c"
| "tcp_run (op # ops) c = tcp_run ops (tcp_step op c)"

definition tcp_open :: "int \<Rightarrow> tcp_conn" where
  "tcp_open fd = the (onAccept True fd)"

section \<open>The forward direction\<close>

text \<open>What the forward direction depends on, and the operations that do not touch it.\<close>

definition fwd :: "tcp_conn \<Rightarrow> bytes \<times> bytes \<times> bytes \<times> nat \<times> nat" where
  "fwd c = (lw_in c, fd_out c, forwardBuf (ses c), lw_acked c, pendingRecved (ses c))"

definition fwd_inv :: "tcp_conn \<Rightarrow> bool" where
  "fwd_inv c \<longleftrightarrow> lw_in c = fd_out c @ forwardBuf (ses c) \<and> lw_acked c + pendingRecved (ses c) \<le> length (fd_out c)"

lemma fwd_inv_cong: "fwd c' = fwd c \<Longrightarrow> fwd_inv c' = fwd_inv c"
  by (simp add: fwd_def fwd_inv_def)

lemma fwd_basic [simp]:
  "fwd (post_stack t c) = fwd c" "fwd (post_reactor r c) = fwd c" "fwd (set_rea f c) = fwd c"
  "fwd (c\<lparr>stackTasks := ts\<rparr>) = fwd c" "fwd (c\<lparr>reactorTasks := rs\<rparr>) = fwd c" "fwd (c\<lparr>in_sessions := b\<rparr>) = fwd c"
  by (simp_all add: fwd_def post_stack_def post_reactor_def set_rea_def)

lemma fwd_close [simp]:
  "fwd (tcp_closeFromStack c) = fwd c" "fwd (tcp_closeFromReactor c) = fwd c" "fwd (tcp_onErr c) = fwd c"
  "fwd (tcp_shutdownFromStack c) = fwd c" "fwd (shutdown_fd c) = fwd c"
proof -
  have s: "fwd (set_ses f d) = fwd d"
    if "\<And>x. forwardBuf (f x) = forwardBuf x" "\<And>x. pendingRecved (f x) = pendingRecved x" for f d
    using that by (simp add: fwd_def set_ses_def)
  show "fwd (tcp_closeFromStack c) = fwd c" by (simp add: tcp_closeFromStack_def Let_def s)
  show r: "fwd (tcp_closeFromReactor c) = fwd c" for c by (simp add: tcp_closeFromReactor_def Let_def s)
  show "fwd (tcp_onErr c) = fwd c" by (simp add: tcp_onErr_def Let_def s r)
  show "fwd (tcp_shutdownFromStack c) = fwd c" by (simp add: tcp_shutdownFromStack_def Let_def s)
  show "fwd (shutdown_fd c) = fwd c" by (simp add: shutdown_fd_def s)
qed

lemma fwd_backward [simp]:
  "fwd (pumpToLwip ws c) = fwd c" "fwd (writeToLwip ws d c) = fwd c" "fwd (onFdEofFromStack ws c) = fwd c"
proof -
  have s: "fwd (set_ses f d) = fwd d"
    if "\<And>x. forwardBuf (f x) = forwardBuf x" "\<And>x. pendingRecved (f x) = pendingRecved x" for f d
    using that by (simp add: fwd_def set_ses_def)
  have l: "fwd (d\<lparr>lw_out := x\<rparr>) = fwd d" for d x by (simp add: fwd_def)
  have u: "fwd (updateReadInterest d) = fwd d" for d by (simp add: updateReadInterest_def s)
  show p: "fwd (pumpToLwip ws c) = fwd c" for ws c
    by (simp add: pumpToLwip_def case_prod_unfold Let_def s u l)
  show "fwd (writeToLwip ws d c) = fwd c" by (simp add: writeToLwip_def p s)
  show "fwd (onFdEofFromStack ws c) = fwd c" by (simp add: onFdEofFromStack_def Let_def p s)
qed

lemma fwd_read [simp]: "fwd (read_loop rs c) = fwd c"
proof (induction rs c rule: read_loop.induct)
  case (1 rs c)
  have s: "fwd (set_ses f d) = fwd d"
    if "\<And>x. forwardBuf (f x) = forwardBuf x" "\<And>x. pendingRecved (f x) = pendingRecved x" for f d
    using that by (simp add: fwd_def set_ses_def)
  have l: "fwd (d\<lparr>fd_in := x\<rparr>) = fwd d" for d x by (simp add: fwd_def)
  show ?case
    using 1 by (subst read_loop.simps) (auto simp: Let_def s l split: list.split recv_res.split)
qed

lemma flush_loop_bytes: "flush_loop rs b out = (rest, out', how) \<Longrightarrow> out' @ rest = out @ b"
proof (induction rs b out arbitrary: rest out' rule: flush_loop.induct)
  case (3 n rs x b out)
  show ?case
  proof (cases "n = 0")
    case True
    then show ?thesis using 3(2) by auto
  next
    case False
    from 3(1) [OF this] 3(2) False show ?thesis by simp
  qed
qed auto

lemma flush_loop_grows: "flush_loop rs b out = (rest, out', how) \<Longrightarrow> length out \<le> length out'"
proof (induction rs b out arbitrary: rest out' rule: flush_loop.induct)
  case (3 n rs x b out)
  then show ?case by (cases "n = 0") fastforce+
qed auto

lemma fwd_interest [simp]: "fwd (flush_interest fd how c) = fwd c"
  by (simp add: flush_interest_def Let_def fwd_def set_ses_def set_rea_def)

lemma fwd_inv_flush:
  assumes "fwd_inv c"
  shows "fwd_inv (flushForwardLocked ss c)"
proof -
  obtain rest out how where f: "flush_loop ss (forwardBuf (ses c)) [] = (rest, out, how)"
    by (cases "flush_loop ss (forwardBuf (ses c)) []") auto
  let ?c1 = "set_ses (\<lambda>s. s\<lparr>forwardBuf := rest\<rparr>) (c\<lparr>fd_out := fd_out c @ out\<rparr>)"
  have c1: "fwd_inv ?c1" "lw_acked ?c1 + pendingRecved (ses ?c1) + length out \<le> length (fd_out ?c1)"
    using assms flush_loop_bytes [OF f] by (auto simp: fwd_inv_def set_ses_def)
  have "fwd_inv (add_pending (length out) d)" if "fwd d = fwd ?c1" for d
    using c1 that by (auto simp: add_pending_def fwd_inv_def fwd_def set_ses_def post_stack_def)
  moreover have "fwd_inv (tcp_closeFromReactor ?c1)"
    using c1(1) by (simp add: fwd_inv_cong [of "tcp_closeFromReactor ?c1" ?c1])
  ultimately show ?thesis
    using assms by (simp add: flushForwardLocked_def f Let_def)
qed

lemma sum_recved_chunks: "fold (\<lambda>n a. a + n) (recved_chunks k) a = a + k"
proof (induction k arbitrary: a rule: recved_chunks.induct)
  case (1 k)
  then show ?case by (cases "k > 0") (simp_all add: recved_chunks.simps [of k] recved_chunks.simps [of 0])
qed

lemma fwd_inv_step:
  assumes "fwd_inv c"
  shows "fwd_inv (tcp_step op c)"
proof -
  have keep: "fwd_inv d" if "fwd d = fwd c" for d
    using assms that fwd_inv_cong by blast
  have con: "fwd (set_ses (\<lambda>s. s\<lparr>ts_connected := True\<rparr>) d) = fwd d" for d
    by (simp add: fwd_def set_ses_def)
  have flush: "fwd_inv (flushForwardLocked ss d)" if "fwd d = fwd c" for ss d
    using fwd_inv_flush keep [OF that] by blast
  have ack: "fwd_inv (ackRecvedToLwip d)" if "fwd d = fwd c" for d
    using keep [OF that] by (auto simp: ackRecvedToLwip_def fwd_inv_def set_ses_def sum_recved_chunks Let_def)
  have stk: "fwd_inv (run_stack_task ws t d)" if "fwd d = fwd c" for ws t d
    using that by (cases t) (auto intro: keep simp: ack)
  have rct: "fwd_inv (run_reactor_task ss t d)" if "fwd d = fwd c" for ss t d
    using that by (cases t) (auto intro: keep simp: flush)
  have ev: "fwd_inv (onFdEvent e good rs ss c)" for e good rs ss
    by (auto simp: onFdEvent_def onConnected_def Let_def con intro!: keep flush)
  have recv: "fwd_inv (tcp_onRecv data c)" for data
    using assms by (auto simp: tcp_onRecv_def fwd_inv_def post_reactor_def set_ses_def)
  show ?thesis
    by (cases op) (auto simp: tcp_step_def recv ev intro!: keep stk rct split: option.split list.split)
qed

lemma fwd_inv_run: "fwd_inv c \<Longrightarrow> fwd_inv (tcp_run ops c)"
  by (induction ops c rule: tcp_run.induct) (simp_all add: fwd_inv_step)

lemma fwd_inv_open: "0 \<le> fd \<Longrightarrow> fwd_inv (tcp_open fd)"
  by (simp add: tcp_open_def onAccept_def tcp_start_def fwd_inv_def set_ses_def set_rea_def SessionTcp_new_def Let_def)

text \<open>lwIP keeps the window: it never delivers more than \<open>W\<close> bytes that were not confirmed.\<close>

fun windowed :: "nat \<Rightarrow> tcp_op list \<Rightarrow> tcp_conn \<Rightarrow> bool" where
  "windowed W [] c = True"
| "windowed W (op # ops) c =
     ((case op of LwData data \<Rightarrow> length (lw_in c) + length data \<le> lw_acked c + W | _ \<Rightarrow> True) \<and>
      windowed W ops (tcp_step op c))"

lemma window_step:
  assumes "length (lw_in c) \<le> lw_acked c + W"
    and "case op of LwData data \<Rightarrow> length (lw_in c) + length data \<le> lw_acked c + W | _ \<Rightarrow> True"
  shows "length (lw_in (tcp_step op c)) \<le> lw_acked (tcp_step op c) + W"
proof -
  let ?ok = "\<lambda>d. length (lw_in d) \<le> lw_acked d + W"
  have keep: "?ok d" if "fwd d = fwd c" for d
    using assms(1) that by (simp add: fwd_def)
  have con: "fwd (set_ses (\<lambda>s. s\<lparr>ts_connected := True\<rparr>) d) = fwd d" for d
    by (simp add: fwd_def set_ses_def)
  have close: "lw_in (tcp_closeFromReactor d) = lw_in d" "lw_acked (tcp_closeFromReactor d) = lw_acked d" for d
    using fwd_close(2) [of d] by (simp_all add: fwd_def)
  have intr: "lw_in (flush_interest x how d) = lw_in d" "lw_acked (flush_interest x how d) = lw_acked d" for x how d
    using fwd_interest [of x how d] by (simp_all add: fwd_def)
  have pend: "lw_in (add_pending n d) = lw_in d" "lw_acked (add_pending n d) = lw_acked d" for n d
    by (simp_all add: add_pending_def post_stack_def set_ses_def)
  have same: "lw_in (flushForwardLocked ss d) = lw_in d \<and> lw_acked (flushForwardLocked ss d) = lw_acked d" for ss d
    by (simp add: flushForwardLocked_def case_prod_unfold Let_def close intr pend) (simp add: set_ses_def)
  have flush: "?ok (flushForwardLocked ss d)" if "fwd d = fwd c" for ss d
    using same [of ss d] keep [OF that] by simp
  have ack: "?ok (ackRecvedToLwip d)" if "fwd d = fwd c" for d
    using keep [OF that] by (auto simp: ackRecvedToLwip_def set_ses_def sum_recved_chunks Let_def)
  have stk: "?ok (run_stack_task ws t d)" if "fwd d = fwd c" for ws t d
    using that by (cases t) (auto intro!: keep ack simp del: One_nat_def)
  have rct: "?ok (run_reactor_task ss t d)" if "fwd d = fwd c" for ss t d
    using that by (cases t) (auto intro!: keep flush)
  have ev: "?ok (onFdEvent e good rs ss c)" for e good rs ss
    by (auto simp: onFdEvent_def onConnected_def Let_def con intro!: keep flush)
  have recv: "?ok (tcp_onRecv data c)" if "op = LwData data" for data
    using assms(2) that by (simp add: tcp_onRecv_def post_reactor_def set_ses_def)
  show ?thesis
    using assms(1)
    by (cases op) (auto simp: tcp_step_def recv ev intro!: keep stk rct split: option.split list.split)
qed

lemma window_run:
  "length (lw_in c) \<le> lw_acked c + W \<Longrightarrow> windowed W ops c \<Longrightarrow>
   length (lw_in (tcp_run ops c)) \<le> lw_acked (tcp_run ops c) + W"
  by (induction ops arbitrary: c) (simp_all add: window_step)

text \<open>C12: in every interleaving of the two threads the socket takes the bytes lwIP delivered, in
  order, without loss or duplication up to what is buffered; lwIP is told of no byte that the
  socket has not taken; so, if lwIP keeps to its window of \<open>W\<close> bytes, the buffer between them
  never holds more than \<open>W\<close> bytes, however slow the socket is.\<close>

theorem tcp_forward_flow_control:
  assumes "0 \<le> fd" and "windowed W ops (tcp_open fd)" and "c = tcp_run ops (tcp_open fd)"
  shows "lw_in c = fd_out c @ forwardBuf (ses c) \<and> lw_acked c \<le> length (fd_out c) \<and>
    length (forwardBuf (ses c)) \<le> W"
proof -
  have f: "fwd_inv c" using fwd_inv_run [OF fwd_inv_open [OF assms(1)]] assms(3) by simp
  have "lw_in (tcp_open fd) = []"
    using assms(1) by (simp add: tcp_open_def onAccept_def tcp_start_def set_ses_def set_rea_def Let_def)
  then have "length (lw_in c) \<le> lw_acked c + W"
    using window_run [OF _ assms(2)] assms(3) by simp
  with f show ?thesis by (auto simp: fwd_inv_def)
qed

lemmas tcp_eval =
  reactor_eval table_simps tcp_open_def onAccept_def tcp_start_def SessionTcp_new_def set_ses_def set_rea_def
  post_stack_def post_reactor_def tcp_closeFromStack_def tcp_closeFromReactor_def tcp_onRecv_def flush_interest_def
  add_pending_def flushForwardLocked_def ackRecvedToLwip_def sum_recved_chunks updateReadInterest_def pumpToLwip_def
  writeToLwip_def onFdEofFromStack_def onConnected_def onFdEvent_def tcp_step_def HIGH_WATER_def LOW_WATER_def
  read_loop.simps pump_loop.simps Let_def

text \<open>A connection that carries three bytes out and one byte back and ends.\<close>

definition demo_tcp_ops :: "tcp_op list" where
  "demo_tcp_ops =
     [FdReady 2 True [] [], LwData [1, 2, 3], RunReactor [Sent 2, SendAgain], RunStack [],
      FdReady 3 True [Recvd [9], Recvd []] [Sent 1], RunStack [(100, WOk)], RunStack [], RunStack []]"

theorem tcp_forward_flow_control_witness:
  "length (forwardBuf (ses (tcp_run demo_tcp_ops (tcp_open 7)))) \<le> 3 \<and>
   fd_out (tcp_run demo_tcp_ops (tcp_open 7)) = [1, 2, 3]"
proof
  have h: "windowed 3 demo_tcp_ops (tcp_open 7)" by (simp add: demo_tcp_ops_def tcp_eval)
  show "length (forwardBuf (ses (tcp_run demo_tcp_ops (tcp_open 7)))) \<le> 3"
    using tcp_forward_flow_control [OF _ h refl] by simp
  show "fd_out (tcp_run demo_tcp_ops (tcp_open 7)) = [1, 2, 3]" by (simp add: demo_tcp_ops_def tcp_eval)
qed

section \<open>The backward direction\<close>

fun writes_of :: "stack_task list \<Rightarrow> bytes" where
  "writes_of [] = []"
| "writes_of (t # ts) = (case t of WriteToLwip d \<Rightarrow> d | _ \<Rightarrow> []) @ writes_of ts"

lemma writes_of_append [simp]: "writes_of (p @ q) = writes_of p @ writes_of q"
  by (induction p) auto

definition bwd :: "tcp_conn \<Rightarrow> bytes \<times> bytes \<times> bytes \<times> bytes \<times> int" where
  "bwd c = (fd_in c, lw_out c, backwardBuf (ses c), writes_of (stackTasks c), backwardBytes (ses c))"

text \<open>The backlog counter covers what is buffered and what is queued, and stays below the mark
  plus one read.\<close>

definition backlog_inv :: "tcp_conn \<Rightarrow> bool" where
  "backlog_inv c \<longleftrightarrow>
     int (length (backwardBuf (ses c)) + length (writes_of (stackTasks c))) \<le> backwardBytes (ses c) \<and>
     backwardBytes (ses c) < HIGH_WATER + 65536"

definition order_inv :: "tcp_conn \<Rightarrow> bool" where
  "order_inv c \<longleftrightarrow>
     (ts_pcb (ses c) \<longrightarrow> fd_in c = lw_out c @ backwardBuf (ses c) @ writes_of (stackTasks c)) \<and>
     take (length (lw_out c)) (fd_in c) = lw_out c"

text \<open>Operations that leave the backward direction alone, except that they may give up the control
  block.\<close>

definition idle_backward :: "tcp_conn \<Rightarrow> tcp_conn \<Rightarrow> bool" where
  "idle_backward c c' \<longleftrightarrow> bwd c' = bwd c \<and> (ts_pcb (ses c') \<longrightarrow> ts_pcb (ses c))"

lemma idle_backward_refl [simp]: "idle_backward c c"
  by (simp add: idle_backward_def)

lemma idle_backward_trans: "idle_backward a b \<Longrightarrow> idle_backward b c \<Longrightarrow> idle_backward a c"
  by (simp add: idle_backward_def)

lemma idle_backward_inv:
  "idle_backward c c' \<Longrightarrow> backlog_inv c \<Longrightarrow> backlog_inv c'"
  "idle_backward c c' \<Longrightarrow> order_inv c \<Longrightarrow> order_inv c'"
  by (auto simp: idle_backward_def bwd_def backlog_inv_def order_inv_def)

lemma idle_backward_ops:
  "idle_backward c (set_rea f c)" "idle_backward c (post_reactor r c)" "idle_backward c (c\<lparr>in_sessions := b\<rparr>)"
  "idle_backward c (tcp_closeFromStack c)" "idle_backward c (tcp_closeFromReactor c)" "idle_backward c (tcp_onErr c)"
  "idle_backward c (tcp_shutdownFromStack c)" "idle_backward c (shutdown_fd c)" "idle_backward c (tcp_onRecv data c)"
  "idle_backward c (updateReadInterest c)" "idle_backward c (flush_interest fd how c)" "idle_backward c (add_pending n c)"
  "idle_backward c (ackRecvedToLwip c)" "idle_backward c (post_stack FdEofTask c)" "idle_backward c (set_ses (\<lambda>s. s\<lparr>readPaused := p\<rparr>) c)"
  "idle_backward c (set_ses (\<lambda>s. s\<lparr>ts_connected := p\<rparr>) c)" "idle_backward c (set_ses (\<lambda>s. s\<lparr>fdEof := p\<rparr>) c)"
  by (simp_all add: idle_backward_def bwd_def set_ses_def set_rea_def post_reactor_def post_stack_def tcp_closeFromStack_def
      tcp_closeFromReactor_def tcp_onErr_def tcp_shutdownFromStack_def shutdown_fd_def tcp_onRecv_def
      updateReadInterest_def flush_interest_def add_pending_def ackRecvedToLwip_def Let_def)

lemma idle_backward_flush: "idle_backward c (flushForwardLocked ss c)"
proof -
  have "idle_backward c (set_ses (\<lambda>s. s\<lparr>forwardBuf := rest\<rparr>) (c\<lparr>fd_out := x\<rparr>))" for rest x
    by (simp add: idle_backward_def bwd_def set_ses_def)
  then show ?thesis
    by (auto simp: flushForwardLocked_def Let_def case_prod_unfold
        intro: idle_backward_trans [OF _ idle_backward_ops(5)] idle_backward_trans [OF idle_backward_trans [OF _ idle_backward_ops(11)] idle_backward_ops(12)])
qed

lemma pump_loop_le: "off \<le> length buf \<Longrightarrow> fst (pump_loop ws off buf) \<le> length buf"
proof (induction ws off buf rule: pump_loop.induct)
  case (1 ws off buf)
  then show ?case
    by (subst pump_loop.simps) (auto simp: Let_def split: list.split werr.split)
qed

lemma pump_loop_good: "\<forall>w \<in> set ws. snd w \<noteq> WErr \<Longrightarrow> snd (pump_loop ws off buf) = Pumped"
proof (induction ws off buf rule: pump_loop.induct)
  case (1 ws off buf)
  then show ?case
    by (subst pump_loop.simps) (auto simp: Let_def split: list.split werr.split)
qed

text \<open>A pump either fails, and has then written bytes that stay in the buffer, or moves a prefix of
  the buffer into lwIP.\<close>

definition pumped :: "nat \<Rightarrow> tcp_conn \<Rightarrow> tcp_conn" where
  "pumped n c =
     set_ses (\<lambda>s. s\<lparr>backwardBuf := drop n (backwardBuf s), backwardBytes := backwardBytes s - int n\<rparr>)
       (c\<lparr>lw_out := lw_out c @ take n (backwardBuf (ses c))\<rparr>)"

lemma pump_cases:
  obtains (no_pcb) "\<not> ts_pcb (ses c)" "pumpToLwip ws c = c"
  | (failed) n where "\<exists>w \<in> set ws. snd w = WErr"
      "pumpToLwip ws c = c\<lparr>lw_out := lw_out c @ take n (backwardBuf (ses c))\<rparr>"
  | (moved) n where "ts_pcb (ses c)" "n \<le> length (backwardBuf (ses c))"
      "pumpToLwip ws c =
        (let c3 = updateReadInterest (pumped n c)
         in if fdEof (ses c) \<and> drop n (backwardBuf (ses c)) = [] then tcp_closeFromStack c3 else c3)"
proof -
  obtain n how where p: "pump_loop ws 0 (backwardBuf (ses c)) = (n, how)"
    by (cases "pump_loop ws 0 (backwardBuf (ses c))") auto
  have n: "n \<le> length (backwardBuf (ses c))" using pump_loop_le [of 0 "backwardBuf (ses c)" ws] p by simp
  have u: "fdEof (ses (updateReadInterest d)) = fdEof (ses d)"
    "backwardBuf (ses (updateReadInterest d)) = backwardBuf (ses d)" for d
    by (simp_all add: updateReadInterest_def post_reactor_def set_ses_def)
  show thesis
  proof (cases "ts_pcb (ses c)")
    case False
    then show thesis by (intro no_pcb) (simp_all add: pumpToLwip_def)
  next
    case pcb: True
    show thesis
    proof (cases how)
      case PumpError
      then have "\<exists>w \<in> set ws. snd w = WErr" using pump_loop_good [of ws 0 "backwardBuf (ses c)"] p by auto
      then show thesis using PumpError pcb p by (intro failed [of n]) (simp_all add: pumpToLwip_def)
    next
      case Pumped
      show thesis
      proof (intro moved [of n] pcb n)
        have e: "fdEof (ses (pumped n c)) = fdEof (ses c)" "backwardBuf (ses (pumped n c)) = drop n (backwardBuf (ses c))"
          by (simp_all add: pumped_def set_ses_def)
        have "pumpToLwip ws c =
            (let c3 = updateReadInterest (pumped n c)
             in if fdEof (ses c3) \<and> backwardBuf (ses c3) = [] then tcp_closeFromStack c3 else c3)"
          unfolding pumpToLwip_def p Pumped prod.case Let_def pumped_def using pcb by (simp only: not_True_eq_False if_False pump_end.distinct)
        then show "pumpToLwip ws c =
            (let c3 = updateReadInterest (pumped n c)
             in if fdEof (ses c) \<and> drop n (backwardBuf (ses c)) = [] then tcp_closeFromStack c3 else c3)"
          unfolding Let_def u e .
      qed
    qed
  qed
qed

lemma backlog_pump:
  assumes "backlog_inv c"
  shows "backlog_inv (pumpToLwip ws c)"
proof (cases rule: pump_cases [where c = c and ws = ws])
  case (moved n)
  have "backlog_inv (pumped n c)"
    using assms moved(2) by (auto simp: backlog_inv_def pumped_def set_ses_def)
  then show ?thesis
    unfolding moved(3) Let_def
    by (auto intro: idle_backward_inv idle_backward_ops)
qed (use assms in \<open>simp_all add: backlog_inv_def\<close>)

lemma backlog_read:
  "backlog_inv c \<Longrightarrow> backlog_inv (read_loop rs c)"
proof (induction rs c rule: read_loop.induct)
  case (1 rs c)
  show ?case
  proof (cases "backwardBytes (ses c) \<ge> HIGH_WATER")
    case True
    then show ?thesis
      using idle_backward_inv(1) [OF idle_backward_trans [OF idle_backward_ops(15) idle_backward_ops(1)] 1(2)] by (subst read_loop.simps) simp
  next
    case False
    have "backlog_inv (post_stack (WriteToLwip (take 65536 d))
        (set_ses (\<lambda>s. s\<lparr>backwardBytes := backwardBytes s + int (length (take 65536 d))\<rparr>)
          (c\<lparr>fd_in := fd_in c @ take 65536 d\<rparr>)))" for d
      using 1(2) False by (auto simp: backlog_inv_def post_stack_def set_ses_def)
    then show ?thesis
      using False 1 idle_backward_inv(1) [OF idle_backward_ops(5) 1(2)] idle_backward_inv(1) [OF idle_backward_trans [OF idle_backward_ops(14) idle_backward_ops(1)] 1(2)]
      by (subst read_loop.simps) (auto simp: Let_def split: list.split recv_res.split)
  qed
qed

lemma backlog_task:
  assumes "backlog_inv c" and "stackTasks c = t # ts"
  shows "backlog_inv (run_stack_task ws t (c\<lparr>stackTasks := ts\<rparr>))"
proof (cases t)
  case (WriteToLwip d)
  let ?d = "set_ses (\<lambda>s. s\<lparr>backwardBuf := backwardBuf s @ d\<rparr>) (c\<lparr>stackTasks := ts\<rparr>)"
  have "backlog_inv ?d" and "backlog_inv (c\<lparr>stackTasks := ts\<rparr>)"
    using assms WriteToLwip by (auto simp: backlog_inv_def set_ses_def)
  then show ?thesis
    using backlog_pump [of ?d ws] WriteToLwip by (simp add: writeToLwip_def)
next
  case FdEofTask
  have "backlog_inv (set_ses (\<lambda>s. s\<lparr>fdEof := True\<rparr>) (c\<lparr>stackTasks := ts\<rparr>))"
    using assms FdEofTask by (auto simp: backlog_inv_def set_ses_def)
  then have "backlog_inv (pumpToLwip ws (set_ses (\<lambda>s. s\<lparr>fdEof := True\<rparr>) (c\<lparr>stackTasks := ts\<rparr>)))"
    by (rule backlog_pump)
  then show ?thesis
    using FdEofTask by (auto simp: onFdEofFromStack_def Let_def intro: idle_backward_inv(1) [OF idle_backward_ops(4)])
next
  case AckRecved
  have "backlog_inv (c\<lparr>stackTasks := ts\<rparr>)" using assms AckRecved by (auto simp: backlog_inv_def)
  then show ?thesis using AckRecved by (auto intro: idle_backward_inv(1) [OF idle_backward_ops(13)])
next
  case CloseFromStack
  have "backlog_inv (c\<lparr>stackTasks := ts\<rparr>)" using assms CloseFromStack by (auto simp: backlog_inv_def)
  then show ?thesis using CloseFromStack by (auto intro: idle_backward_inv(1) [OF idle_backward_ops(4)])
qed

lemma idle_backward_reactor_task: "idle_backward c (run_reactor_task ss t (c\<lparr>reactorTasks := ts\<rparr>))"
proof -
  have r: "idle_backward c (c\<lparr>reactorTasks := ts\<rparr>)" by (simp add: idle_backward_def bwd_def)
  show ?thesis
    by (cases t)
      (auto intro: r idle_backward_trans [OF r idle_backward_flush] idle_backward_trans [OF r idle_backward_ops(5)] idle_backward_trans [OF r idle_backward_ops(1)]
        idle_backward_trans [OF r idle_backward_ops(8)])
qed

lemma idle_backward_onConnected: "idle_backward c (onConnected good ss c)"
  by (auto simp: onConnected_def intro: idle_backward_ops(5) idle_backward_trans [OF idle_backward_trans [OF idle_backward_ops(16) idle_backward_ops(1)] idle_backward_flush])

lemma backlog_step:
  assumes "backlog_inv c"
  shows "backlog_inv (tcp_step op c)"
proof -
  note q = idle_backward_inv(1) [OF _ assms]
  have ev: "backlog_inv (onFdEvent e good rs ss c)" for e good rs ss
    using backlog_read [OF assms, of rs] assms idle_backward_inv(1) [OF idle_backward_flush]
    by (auto simp: onFdEvent_def Let_def intro: q idle_backward_ops(5) idle_backward_onConnected)
  show ?thesis
    by (cases op)
      (auto simp: tcp_step_def assms ev backlog_pump [OF assms] backlog_task [OF assms]
        intro: q idle_backward_ops idle_backward_reactor_task split: option.split list.split)
qed

lemma backlog_open: "0 \<le> fd \<Longrightarrow> backlog_inv (tcp_open fd)"
  by (simp add: backlog_inv_def tcp_eval)

text \<open>C38: the bytes read from the socket and not yet handed to lwIP, buffered or in the tasks of
  the stack thread, are covered by the backlog counter, which never goes negative and stays
  below 320 KiB: the high-water mark plus one read of 64 KiB.\<close>

theorem tcp_backlog_bounded:
  assumes "0 \<le> fd"
  shows "int (length (backwardBuf (ses (tcp_run ops (tcp_open fd)))) +
      length (writes_of (stackTasks (tcp_run ops (tcp_open fd))))) \<le> backwardBytes (ses (tcp_run ops (tcp_open fd))) \<and>
    backwardBytes (ses (tcp_run ops (tcp_open fd))) < 320 * 1024"
proof -
  have "backlog_inv c \<Longrightarrow> backlog_inv (tcp_run ops c)" for c
    by (induction ops c rule: tcp_run.induct) (simp_all add: backlog_step)
  from this [OF backlog_open [OF assms]] show ?thesis
    by (simp add: backlog_inv_def HIGH_WATER_def)
qed

theorem tcp_backlog_bounded_witness:
  "backwardBytes (ses (tcp_run demo_tcp_ops (tcp_open 7))) < 320 * 1024 \<and>
   fd_in (tcp_run demo_tcp_ops (tcp_open 7)) = [9]"
proof
  show "backwardBytes (ses (tcp_run demo_tcp_ops (tcp_open 7))) < 320 * 1024"
    using tcp_backlog_bounded [of 7 demo_tcp_ops] by simp
  show "fd_in (tcp_run demo_tcp_ops (tcp_open 7)) = [9]" by (simp add: demo_tcp_ops_def tcp_eval)
qed

section \<open>An orderly end\<close>

text \<open>Histories in which nothing fails: the connection is made, no call of lwIP or of the socket
  returns an error, lwIP does not end or lose the stream, the stack is not torn down.\<close>

definition good_writes :: "(u16 \<times> werr) list \<Rightarrow> bool" where
  "good_writes ws \<longleftrightarrow> list_all (\<lambda>w. snd w \<noteq> WErr) ws"

definition good_sends :: "send_res list \<Rightarrow> bool" where
  "good_sends ss \<longleftrightarrow> list_all (\<lambda>r. r \<noteq> SendError \<and> r \<noteq> Sent 0) ss"

definition good_recvs :: "recv_res list \<Rightarrow> bool" where
  "good_recvs rs \<longleftrightarrow> list_all (\<lambda>r. r \<noteq> RecvError) rs"

definition no_failure :: "tcp_op \<Rightarrow> bool" where
  "no_failure op =
     (case op of
        LwData data \<Rightarrow> True
      | LwFin \<Rightarrow> False
      | LwSent ws \<Rightarrow> good_writes ws
      | LwDead \<Rightarrow> False
      | FdReady ready good rs ss \<Rightarrow> good \<and> ready AND POLL_ERROR = 0 \<and> good_recvs rs \<and> good_sends ss
      | RunStack ws \<Rightarrow> good_writes ws
      | RunReactor ss \<Rightarrow> good_sends ss
      | StackDown \<Rightarrow> False)"

fun eof_last :: "stack_task list \<Rightarrow> bool" where
  "eof_last [] = True"
| "eof_last (t # ts) = ((t = FdEofTask \<longrightarrow> writes_of ts = []) \<and> eof_last ts)"

lemma eof_last_append:
  "eof_last (p @ q) \<longleftrightarrow> eof_last p \<and> eof_last q \<and> (FdEofTask \<in> set p \<longrightarrow> writes_of q = [])"
  by (induction p) auto

definition watched :: "tcp_conn \<Rightarrow> int \<Rightarrow> bool" where
  "watched c k \<longleftrightarrow> map_of (ioWatchers (rea c)) k \<noteq> None"

definition orderly :: "int \<Rightarrow> tcp_conn \<Rightarrow> bool" where
  "orderly fd c \<longleftrightarrow>
     (ts_pcb (ses c) \<longrightarrow> fd_in c = lw_out c @ backwardBuf (ses c) @ writes_of (stackTasks c)) \<and>
     (\<not> ts_pcb (ses c) \<longrightarrow> fdEof (ses c) \<and> lw_out c = fd_in c) \<and>
     (fdEof (ses c) \<longrightarrow> writes_of (stackTasks c) = []) \<and> eof_last (stackTasks c) \<and>
     (fdEof (ses c) \<or> FdEofTask \<in> set (stackTasks c) \<longrightarrow> \<not> watched c fd) \<and>
     (\<forall>k. k \<noteq> fd \<longrightarrow> \<not> watched c k) \<and>
     CloseFromStack \<notin> set (stackTasks c) \<and> ShutdownFd \<notin> set (reactorTasks c) \<and>
     (CloseFromReactor \<in> set (reactorTasks c) \<longrightarrow> \<not> ts_pcb (ses c))"

text \<open>Operations that keep it whatever they are given.\<close>

definition harmless :: "tcp_conn \<Rightarrow> tcp_conn \<Rightarrow> bool" where
  "harmless c c' \<longleftrightarrow>
     fd_in c' = fd_in c \<and> lw_out c' = lw_out c \<and> backwardBuf (ses c') = backwardBuf (ses c) \<and>
     ts_pcb (ses c') = ts_pcb (ses c) \<and> fdEof (ses c') = fdEof (ses c) \<and>
     (\<exists>ts. stackTasks c' = stackTasks c @ ts \<and> set ts \<subseteq> {AckRecved}) \<and>
     (\<forall>k. watched c' k \<longrightarrow> watched c k) \<and>
     (\<forall>r \<in> set (reactorTasks c'). r \<in> set (reactorTasks c) \<or> r \<noteq> CloseFromReactor \<and> r \<noteq> ShutdownFd)"

lemma acks_only: "set ts \<subseteq> {AckRecved} \<Longrightarrow> writes_of ts = [] \<and> eof_last ts \<and> FdEofTask \<notin> set ts \<and> CloseFromStack \<notin> set ts"
  by (induction ts) auto

lemma harmless_orderly:
  assumes "harmless c c'" and "orderly fd c"
  shows "orderly fd c'"
proof -
  obtain ts where ts: "stackTasks c' = stackTasks c @ ts" "set ts \<subseteq> {AckRecved}"
    using assms(1) by (auto simp: harmless_def)
  show ?thesis
    using assms acks_only [OF ts(2)] ts(1)
    unfolding orderly_def harmless_def by (simp add: eof_last_append) blast
qed

lemma harmless_trans: "harmless a b \<Longrightarrow> harmless b c \<Longrightarrow> harmless a c"
proof -
  assume h: "harmless a b" "harmless b c"
  obtain t1 t2 where t: "stackTasks b = stackTasks a @ t1" "set t1 \<subseteq> {AckRecved}"
      "stackTasks c = stackTasks b @ t2" "set t2 \<subseteq> {AckRecved}"
    using h by (auto simp: harmless_def)
  then have "\<exists>ts. stackTasks c = stackTasks a @ ts \<and> set ts \<subseteq> {AckRecved}"
    by (intro exI [of _ "t1 @ t2"]) simp
  moreover have "\<forall>r \<in> set (reactorTasks c). r \<in> set (reactorTasks a) \<or> r \<noteq> CloseFromReactor \<and> r \<noteq> ShutdownFd"
    using h by (simp add: harmless_def) blast
  ultimately show ?thesis
    using h by (simp add: harmless_def)
qed

lemma watched_rea:
  "watched (set_rea (applyMod x ev) c) k \<longrightarrow> watched c k" "watched (set_rea (applyDel x) c) k \<longrightarrow> watched c k"
  by (simp_all add: watched_def set_rea_def table_simps)

lemma harmless_ops:
  "harmless c c" "harmless c (set_rea (applyMod x ev) c)" "harmless c (set_rea (applyDel x) c)"
  "harmless c (tcp_onRecv data c)" "harmless c (updateReadInterest c)" "harmless c (add_pending n c)"
  "harmless c (flush_interest x how c)" "harmless c (ackRecvedToLwip c)"
  "harmless c (set_ses (\<lambda>s. s\<lparr>readPaused := p\<rparr>) c)" "harmless c (set_ses (\<lambda>s. s\<lparr>ts_connected := p\<rparr>) c)"
  "\<not> ts_pcb (ses c) \<Longrightarrow> harmless c (tcp_closeFromReactor c)"
proof -
  note d = harmless_def watched_def set_ses_def set_rea_def post_reactor_def post_stack_def Let_def table_simps
  show "harmless c c" by (simp add: d)
  show "harmless c (set_rea (applyMod x ev) c)" by (simp add: d)
  show "harmless c (set_rea (applyDel x) c)" by (simp add: d)
  show "harmless c (tcp_onRecv data c)" by (simp add: d tcp_onRecv_def)
  show "harmless c (updateReadInterest c)" by (simp add: d updateReadInterest_def)
  show "harmless c (add_pending n c)" by (simp add: d add_pending_def)
  show "harmless c (flush_interest x how c)" by (simp add: d flush_interest_def)
  show "harmless c (ackRecvedToLwip c)" by (simp add: d ackRecvedToLwip_def)
  show "harmless c (set_ses (\<lambda>s. s\<lparr>readPaused := p\<rparr>) c)" by (simp add: d)
  show "harmless c (set_ses (\<lambda>s. s\<lparr>ts_connected := p\<rparr>) c)" by (simp add: d)
  show "\<not> ts_pcb (ses c) \<Longrightarrow> harmless c (tcp_closeFromReactor c)" by (simp add: d tcp_closeFromReactor_def)
qed

lemma flush_not_broken: "good_sends ss \<Longrightarrow> snd (snd (flush_loop ss b out)) \<noteq> Broken"
  by (induction ss b out rule: flush_loop.induct) (auto simp: good_sends_def)

lemma harmless_flush:
  assumes "good_sends ss"
  shows "harmless c (flushForwardLocked ss c)"
proof -
  obtain rest out how where f: "flush_loop ss (forwardBuf (ses c)) [] = (rest, out, how)"
    by (cases "flush_loop ss (forwardBuf (ses c)) []") auto
  let ?c1 = "set_ses (\<lambda>s. s\<lparr>forwardBuf := rest\<rparr>) (c\<lparr>fd_out := fd_out c @ out\<rparr>)"
  have "harmless c ?c1" by (simp add: harmless_def watched_def set_ses_def)
  from harmless_trans [OF harmless_trans [OF this harmless_ops(7)] harmless_ops(6)]
  have "harmless c (add_pending (length out) (flush_interest (ts_fd (ses c)) how ?c1))" .
  moreover have "how \<noteq> Broken" using flush_not_broken [OF assms, of "forwardBuf (ses c)" "[]"] f by simp
  ultimately show ?thesis
    using harmless_ops(1) by (simp add: flushForwardLocked_def f Let_def)
qed

lemma orderly_close:
  assumes "orderly fd c" and "fdEof (ses c)" and "backwardBuf (ses c) = []"
  shows "orderly fd (tcp_closeFromStack c)"
proof -
  have w: "writes_of (stackTasks c) = []" using assms(1,2) by (simp add: orderly_def)
  then have l: "lw_out c = fd_in c"
    using assms(1,3) by (cases "ts_pcb (ses c)") (simp_all add: orderly_def)
  show ?thesis
    using assms w l
    by (simp add: orderly_def tcp_closeFromStack_def watched_def post_reactor_def set_ses_def Let_def)
qed

lemma orderly_pump:
  assumes "orderly fd c" and "good_writes ws"
  shows "orderly fd (pumpToLwip ws c)"
proof (cases rule: pump_cases [where c = c and ws = ws])
  case (failed n)
  then show ?thesis using assms(2) by (auto simp: good_writes_def list_all_iff)
next
  case (moved n)
  have p: "orderly fd (pumped n c)"
    using assms(1) moved(1,2) by (simp add: orderly_def pumped_def watched_def set_ses_def)
  have e: "fdEof (ses (updateReadInterest (pumped n c))) = fdEof (ses c)"
    "backwardBuf (ses (updateReadInterest (pumped n c))) = drop n (backwardBuf (ses c))"
    by (simp_all add: pumped_def updateReadInterest_def post_reactor_def set_ses_def)
  show ?thesis
    unfolding moved(3) Let_def
    using harmless_orderly [OF harmless_ops(5) p] orderly_close e by simp
qed (use assms in simp)

lemma orderly_task:
  assumes "orderly fd c" and "stackTasks c = t # ts" and "good_writes ws"
  shows "orderly fd (run_stack_task ws t (c\<lparr>stackTasks := ts\<rparr>))"
proof (cases t)
  case (WriteToLwip d)
  let ?d = "set_ses (\<lambda>s. s\<lparr>backwardBuf := backwardBuf s @ d\<rparr>) (c\<lparr>stackTasks := ts\<rparr>)"
  have "orderly fd ?d" if "ts_pcb (ses c)"
    using assms(1,2) WriteToLwip that by (simp add: orderly_def watched_def set_ses_def)
  moreover have "orderly fd (c\<lparr>stackTasks := ts\<rparr>)" if "\<not> ts_pcb (ses c)"
    using assms(1,2) WriteToLwip that by (simp add: orderly_def watched_def)
  ultimately show ?thesis
    using WriteToLwip orderly_pump [OF _ assms(3), of fd ?d] by (simp add: writeToLwip_def)
next
  case FdEofTask
  let ?d = "set_ses (\<lambda>s. s\<lparr>fdEof := True\<rparr>) (c\<lparr>stackTasks := ts\<rparr>)"
  have "orderly fd ?d"
    using assms(1,2) FdEofTask by (simp add: orderly_def watched_def set_ses_def)
  then have p: "orderly fd (pumpToLwip ws ?d)" by (rule orderly_pump [OF _ assms(3)])
  have "fdEof (ses (pumpToLwip ws ?d))"
    by (cases rule: pump_cases [where c = ?d and ws = ws])
      (auto simp: set_ses_def pumped_def updateReadInterest_def post_reactor_def tcp_closeFromStack_def Let_def)
  then show ?thesis
    using FdEofTask p orderly_close by (auto simp: onFdEofFromStack_def Let_def)
next
  case AckRecved
  have "orderly fd (c\<lparr>stackTasks := ts\<rparr>)"
    using assms(1,2) AckRecved by (simp add: orderly_def watched_def)
  then show ?thesis using AckRecved harmless_orderly [OF harmless_ops(8)] by simp
next
  case CloseFromStack
  then show ?thesis using assms(1,2) by (simp add: orderly_def)
qed

lemma orderly_reactor_task:
  assumes "orderly fd c" and "reactorTasks c = t # ts" and "good_sends ss"
  shows "orderly fd (run_reactor_task ss t (c\<lparr>reactorTasks := ts\<rparr>))"
proof -
  let ?d = "c\<lparr>reactorTasks := ts\<rparr>"
  have d: "orderly fd ?d" using assms(1,2) by (auto simp: orderly_def watched_def)
  have "harmless ?d (run_reactor_task ss t ?d)"
    using assms harmless_ops
    by (cases t) (auto simp: orderly_def harmless_flush)
  then show ?thesis by (rule harmless_orderly [OF _ d])
qed

lemma orderly_read:
  "orderly fd c \<Longrightarrow> watched c fd \<Longrightarrow> ts_fd (ses c) = fd \<Longrightarrow> good_recvs rs \<Longrightarrow> orderly fd (read_loop rs c)"
proof (induction rs c rule: read_loop.induct)
  case (1 rs c)
  show ?case
  proof (cases "backwardBytes (ses c) \<ge> HIGH_WATER")
    case True
    then show ?thesis
      using harmless_orderly [OF harmless_trans [OF harmless_ops(9) harmless_ops(2)] 1(2)]
      by (subst read_loop.simps) simp
  next
    case False
    let ?next = "\<lambda>d. post_stack (WriteToLwip d)
      (set_ses (\<lambda>s. s\<lparr>backwardBytes := backwardBytes s + int (length d)\<rparr>) (c\<lparr>fd_in := fd_in c @ d\<rparr>))"
    have e: "\<not> fdEof (ses c)" "FdEofTask \<notin> set (stackTasks c)" "ts_pcb (ses c)"
      using 1(2,3) by (auto simp: orderly_def)
    have n: "orderly fd (?next d)" "watched (?next d) fd" "ts_fd (ses (?next d)) = fd" for d
      using 1(2-4) e by (simp_all add: orderly_def watched_def post_stack_def set_ses_def eof_last_append)
    have z: "orderly fd (set_rea (applyDel fd) (post_stack FdEofTask c))"
      using 1(2) e by (simp add: orderly_def watched_def post_stack_def set_rea_def table_simps eof_last_append)
    show ?thesis
    proof (cases rs)
      case Nil
      then show ?thesis using False 1(2) by (subst read_loop.simps) simp
    next
      case (Cons r rs')
      have g: "good_recvs rs'" "r \<noteq> RecvError" using 1(5) Cons by (simp_all add: good_recvs_def)
      show ?thesis
      proof (cases r)
        case (Recvd d)
        show ?thesis
          using 1(1) [OF False Cons Recvd refl _ n g(1)] False Cons Recvd z 1(4)
          by (subst read_loop.simps) (simp add: Let_def)
      qed (use g False Cons 1(2) in \<open>subst read_loop.simps, simp\<close>)+
    qed
  qed
qed

lemma watched_poll:
  assumes "orderly fd c" and "reactor_poll (ts_fd (ses c)) ready (rea c) = Some ev"
  shows "ts_fd (ses c) = fd \<and> watched c fd"
  using assms poll_needs_watcher [OF assms(2)] by (auto simp: orderly_def watched_def)

lemma poll_no_failure:
  assumes "reactor_poll k ready r = Some ev" and "ready AND POLL_ERROR = 0"
  shows "\<not> ev_has ev EV_FAILURE"
proof -
  obtain mode where "ev = fromPocoMode (ready AND (mode OR POLL_ERROR))"
    using assms(1) by (auto simp: reactor_poll_def Let_def split: option.splits if_splits)
  moreover have "ready AND (mode OR POLL_ERROR) AND POLL_ERROR = 0"
    using assms(2) by (simp add: and.assoc and.left_commute [of mode] and.commute [of _ POLL_ERROR] ac_simps)
  ultimately show ?thesis
    by (simp add: fromPocoMode_def ev_has_def EV_NONE_def EV_READ_def EV_WRITE_def EV_FAILURE_def and.assoc)
qed

lemma orderly_event:
  assumes "orderly fd c" and "watched c fd" and "ts_fd (ses c) = fd" and "\<not> ev_has ev EV_FAILURE"
    and "good_recvs rs" and "good_sends ss"
  shows "orderly fd (onFdEvent ev True rs ss c)"
proof -
  note flush = harmless_orderly [OF harmless_flush [OF assms(6)]]
  have "orderly fd (onConnected True ss c)"
    using flush harmless_orderly [OF harmless_trans [OF harmless_ops(10) harmless_ops(2)] assms(1)]
    by (simp add: onConnected_def)
  then show ?thesis
    using assms orderly_read flush by (simp add: onFdEvent_def Let_def)
qed

lemma orderly_step:
  assumes "orderly fd c" and "no_failure op"
  shows "orderly fd (tcp_step op c)"
proof (cases op)
  case (LwData data)
  then show ?thesis using assms(1) harmless_orderly [OF harmless_ops(4)] by (simp add: tcp_step_def)
next
  case (LwSent ws)
  then show ?thesis using assms orderly_pump by (simp add: tcp_step_def no_failure_def)
next
  case (FdReady ready good rs ss)
  show ?thesis
  proof (cases "reactor_poll (ts_fd (ses c)) ready (rea c)")
    case None
    then show ?thesis using FdReady assms(1) by (simp add: tcp_step_def)
  next
    case (Some ev)
    have w: "ts_fd (ses c) = fd" "watched c fd" using watched_poll [OF assms(1) Some] by simp_all
    have "\<not> ev_has ev EV_FAILURE" "good" "good_recvs rs" "good_sends ss"
      using poll_no_failure [OF Some] assms(2) FdReady by (simp_all add: no_failure_def)
    then show ?thesis
      using orderly_event [OF assms(1) w(2,1)] FdReady Some by (simp add: tcp_step_def)
  qed
next
  case (RunStack ws)
  then show ?thesis
    using assms orderly_task by (auto simp: tcp_step_def no_failure_def split: list.split)
next
  case (RunReactor ss)
  then show ?thesis
    using assms orderly_reactor_task by (auto simp: tcp_step_def no_failure_def split: list.split)
qed (use assms in \<open>simp_all add: no_failure_def\<close>)

lemma orderly_open: "0 \<le> fd \<Longrightarrow> orderly fd (tcp_open fd)"
  by (simp add: orderly_def watched_def tcp_eval)

lemma orderly_run: "orderly fd c \<Longrightarrow> list_all no_failure ops \<Longrightarrow> orderly fd (tcp_run ops c)"
  by (induction ops arbitrary: c) (simp_all add: orderly_step)



section \<open>A lost interest\<close>

text \<open>
  Reading is paused and resumed by overwriting what the watcher asks for, with \<open>NONE\<close> and with
  \<open>READ\<close>: an interest in writability that the forward direction had registered is lost.
\<close>

definition demo_chunk :: bytes where
  "demo_chunk = replicate 65536 0"

definition demo_lost_ops :: "tcp_op list" where
  "demo_lost_ops =
     [FdReady 2 True [] [], LwData [1, 2, 3], RunReactor [SendAgain],
      FdReady 1 True [Recvd demo_chunk, Recvd demo_chunk, Recvd demo_chunk, Recvd demo_chunk] [],
      RunStack [(65535, WOk), (1, WOk)], RunStack [(65535, WOk), (1, WOk)], RunStack [(65535, WOk), (1, WOk)],
      RunReactor []]"

lemma demo_chunk_length: "length demo_chunk = 65536" "demo_chunk \<noteq> []"
proof -
  show l: "length demo_chunk = 65536" by (simp only: demo_chunk_def length_replicate)
  show "demo_chunk \<noteq> []" using l by force
qed

text \<open>Three bytes wait for a full socket, the watcher asks for writability, and the other
  direction is paused and resumed: afterwards the bytes still wait, the session still believes
  it asked, but the watcher asks for readability only, and the socket becoming writable changes
  nothing.\<close>

theorem write_interest_lost:
  "let c = tcp_run demo_lost_ops (tcp_open 7) in
     forwardBuf (ses c) = [1, 2, 3] \<and> wantWrite (ses c) \<and> \<not> readPaused (ses c) \<and>
     map_of (ioWatchers (rea c)) 7 = Some EV_READ \<and> reactorTasks c = [] \<and>
     tcp_step (FdReady POLL_WRITE True rs ss) c = c"
  by (simp add: demo_lost_ops_def tcp_eval demo_chunk_length)

end
