(* ===== verification/Outbound.thy ===== *)
theory Outbound
  imports Handles SessionTcp
begin

text \<open>
  \<^verbatim>\<open>netstack/outbound\<close> and \<^verbatim>\<open>netstack/sockcompat.h\<close>: how the userspace stack makes the sockets
  of its sessions, and the thin layer over the sockets of POSIX systems and of Windows. Calls
  appear in a trace with the values they are given, the system's answers are arguments.
\<close>

section \<open>The portability layer\<close>

datatype platform = Posix | Windows | NoSockets

record sockaddr_in =
  sin_port :: u16
  s_addr :: u32

datatype sock_call =
    NewSocket bool
  | GetFl int
  | SetFl int u32
  | IoctlNonBlocking int
  | Connect int sockaddr_in
  | Bind int sockaddr_in
  | SetRcvBuf int int
  | Recv int nat
  | Send int bytes
  | SendTo int bytes sockaddr_in
  | RecvFrom int nat
  | CloseSocket int

text \<open>
  What the calls return; after a failed one \<open>sk_error\<close> is \<^verbatim>\<open>errno\<close> or \<^verbatim>\<open>WSAGetLastError()\<close>.
\<close>

record sock_kernel =
  sk_socket :: int
  sk_getfl :: u32
  sk_setfl :: int
  sk_ioctl :: int
  sk_connect :: int
  sk_bind :: int
  sk_setsockopt :: int
  sk_error :: int

text \<open>The numbers of POSIX systems are those of Linux.\<close>

definition SOCK_NONBLOCK_FLAG :: u32 where "SOCK_NONBLOCK_FLAG = 0x800"
definition EAGAIN :: int where "EAGAIN = 11"
definition EINPROGRESS :: int where "EINPROGRESS = 115"
definition WSAEWOULDBLOCK :: int where "WSAEWOULDBLOCK = 10035"
definition WSAEINPROGRESS :: int where "WSAEINPROGRESS = 10036"

text \<open>\<^verbatim>\<open>htons\<close> on a little-endian host.\<close>

definition htons :: "u16 \<Rightarrow> u16" where
  "htons p = push_bit 8 p OR drop_bit 8 p"

definition netClose :: "int \<Rightarrow> sock_call list" where
  "netClose fd = [CloseSocket fd]"

definition netSetNonBlocking :: "platform \<Rightarrow> sock_kernel \<Rightarrow> int \<Rightarrow> sock_call list \<times> int" where
  "netSetNonBlocking P K fd =
     (case P of
        Windows \<Rightarrow> ([IoctlNonBlocking fd], if sk_ioctl K = 0 then 0 else -1)
      | _ \<Rightarrow> ([GetFl fd, SetFl fd (sk_getfl K OR SOCK_NONBLOCK_FLAG)], sk_setfl K))"

definition netRecv :: "int \<Rightarrow> nat \<Rightarrow> sock_call list" where
  "netRecv fd len = [Recv fd len]"

definition netSend :: "int \<Rightarrow> bytes \<Rightarrow> sock_call list" where
  "netSend fd buf = [Send fd buf]"

definition netSendTo :: "int \<Rightarrow> bytes \<Rightarrow> u32 \<Rightarrow> u16 \<Rightarrow> sock_call list" where
  "netSendTo fd buf dstIpBe dstPortHost =
     [SendTo fd buf \<lparr>sin_port = htons dstPortHost, s_addr = dstIpBe\<rparr>]"

text \<open>
  \<open>None\<close>: the call failed. The outputs are written only when something was received; those the
  caller passed no place for do not exist in the model, all callers pass both.
\<close>

definition netRecvFrom :: "(bytes \<times> sockaddr_in) option \<Rightarrow> (bytes \<times> u32 \<times> u16) option" where
  "netRecvFrom answer =
     (case answer of None \<Rightarrow> None | Some (data, addr) \<Rightarrow> Some (data, s_addr addr, htons (sin_port addr)))"

definition netBindAny :: "sock_kernel \<Rightarrow> int \<Rightarrow> sock_call list \<times> int" where
  "netBindAny K fd = ([Bind fd \<lparr>sin_port = 0, s_addr = 0\<rparr>], if sk_bind K = 0 then 0 else -1)"

definition netSetRecvBuf :: "sock_kernel \<Rightarrow> int \<Rightarrow> int \<Rightarrow> sock_call list \<times> int" where
  "netSetRecvBuf K fd bufBytes = ([SetRcvBuf fd bufBytes], if sk_setsockopt K = 0 then 0 else -1)"

text \<open>\<^verbatim>\<open>EAGAIN\<close> and \<^verbatim>\<open>EWOULDBLOCK\<close> are one number on Linux and macOS.\<close>

definition netWouldBlock :: "platform \<Rightarrow> int \<Rightarrow> bool" where
  "netWouldBlock P err = (case P of Windows \<Rightarrow> err = WSAEWOULDBLOCK | _ \<Rightarrow> err = EAGAIN)"

definition netInProgress :: "platform \<Rightarrow> int \<Rightarrow> bool" where
  "netInProgress P err =
     (case P of Windows \<Rightarrow> err = WSAEWOULDBLOCK \<or> err = WSAEINPROGRESS | _ \<Rightarrow> err = EINPROGRESS)"

definition netErrStr :: "(int \<Rightarrow> bytes) \<Rightarrow> platform \<Rightarrow> int \<Rightarrow> bytes" where
  "netErrStr generic P err = (case P of Windows \<Rightarrow> str ''wsa error '' @ to_string err | _ \<Rightarrow> generic err)"

section \<open>Dialling\<close>

record Endpoint =
  ep_host :: ip4
  ep_port :: u16

text \<open>The base class supports neither kind of connection.\<close>

definition Outbound_dialTcp :: "Endpoint \<Rightarrow> int" where
  "Outbound_dialTcp dst = -1"

definition Outbound_dialUdp :: int where
  "Outbound_dialUdp = -1"

definition DirectOutbound_name :: bytes where
  "DirectOutbound_name = str ''direct''"

definition DirectOutbound_dialTcp :: "platform \<Rightarrow> sock_kernel \<Rightarrow> Endpoint \<Rightarrow> sock_call list \<times> int" where
  "DirectOutbound_dialTcp P K dst =
     (if P = NoSockets then ([], -1)
      else let fd = sk_socket K;
               addr = \<lparr>sin_port = htons (ep_port dst), s_addr = ip4_u32 (ep_host dst)\<rparr>;
               t = [NewSocket True] @ fst (netSetNonBlocking P K fd) @ [Connect fd addr]
           in if fd < 0 then ([NewSocket True], -1)
              else if sk_connect K \<noteq> 0 \<and> \<not> netInProgress P (sk_error K) then (t @ netClose fd, -1)
              else (t, fd))"

definition DirectOutbound_dialUdp :: "platform \<Rightarrow> sock_kernel \<Rightarrow> sock_call list \<times> int" where
  "DirectOutbound_dialUdp P K =
     (if P = NoSockets then ([], -1)
      else let fd = sk_socket K; (b, r) = netBindAny K fd;
               t = [NewSocket False] @ fst (netSetNonBlocking P K fd) @ b
           in if fd < 0 then ([NewSocket False], -1)
              else if r \<noteq> 0 then (t @ netClose fd, -1)
              else (t, fd))"

section \<open>Addresses\<close>

lemma htons_htons [simp]: "htons (htons p) = p"
  by (rule bit_word_eqI) (auto simp: htons_def bit_simps)

text \<open>The peer a datagram is sent to is the peer its answer is read from.\<close>

lemma sendto_recvfrom:
  "netSendTo fd buf ip port = [SendTo fd buf a] \<Longrightarrow> netRecvFrom (Some (answer, a)) = Some (answer, ip, port)"
  by (auto simp: netSendTo_def netRecvFrom_def)

section \<open>The contract of an outbound\<close>

fun sock_events :: "sock_kernel \<Rightarrow> sock_call \<Rightarrow> int handle_event list" where
  "sock_events K (NewSocket s) = opened (sk_socket K)"
| "sock_events K (CloseSocket fd) = closed fd"
| "sock_events K _ = []"

text \<open>
  A dialler returns either an open socket that nobody else holds, or \<open>-1\<close>, and then has left
  nothing open. Its client closes what it got once.
\<close>

locale dialler =
  fixes dial :: "'k \<Rightarrow> 'e \<Rightarrow> 'c list \<times> int"
    and ev :: "'k \<Rightarrow> 'c \<Rightarrow> int handle_event list"
  assumes dials: "dial K e = (cs, r) \<Longrightarrow> fresh (handle_events (ev K) cs) S \<Longrightarrow>
    (if r < 0 then r = -1 \<and> ledger (handle_events (ev K) cs) S = Some S
     else r \<notin> S \<and> ledger (handle_events (ev K) cs) S = Some (insert r S))"
begin

lemma dialled_and_closed:
  assumes "dial K e = (cs, r)" and "fresh (handle_events (ev K) cs) S"
  shows "ledger (handle_events (ev K) cs @ closed r) S = Some S"
  using dials [OF assms] by (auto simp: ledger_append closed_def split: if_splits)

end

lemma nonblocking_events [simp]: "handle_events (sock_events K) (fst (netSetNonBlocking P K fd)) = []"
  by (simp add: netSetNonBlocking_def split: platform.split)

interpretation direct_tcp: dialler "\<lambda>K. DirectOutbound_dialTcp P K" sock_events
  by unfold_locales
    (auto simp: DirectOutbound_dialTcp_def netClose_def opened_def closed_def Let_def split: if_splits)

interpretation direct_udp: dialler "\<lambda>K e. DirectOutbound_dialUdp P K" sock_events
  by unfold_locales
    (auto simp: DirectOutbound_dialUdp_def netBindAny_def netClose_def opened_def closed_def Let_def split: if_splits)

section \<open>Sessions\<close>

text \<open>A connection is accepted exactly when its socket could be made, and then holds that socket.\<close>

lemma accepted_holds_socket:
  assumes "DirectOutbound_dialTcp P K dst = (cs, r)" and "fresh (handle_events (sock_events K) cs) S"
  shows "case onAccept True r of
      None \<Rightarrow> ledger (handle_events (sock_events K) cs) S = Some S
    | Some c \<Rightarrow> ledger (handle_events (sock_events K) cs) S = Some (insert (ts_fd (ses c)) S) \<and> ts_fd (ses c) \<notin> S \<and>
        Connect (ts_fd (ses c)) \<lparr>sin_port = htons (ep_port dst), s_addr = ip4_u32 (ep_host dst)\<rparr> \<in> set cs"
proof (cases "r < 0")
  case True
  then show ?thesis
    using direct_tcp.dials [OF assms] by (simp add: onAccept_def tcp_start_def Let_def)
next
  case False
  obtain c where c: "onAccept True r = Some c" "ts_fd (ses c) = r"
    using False by (simp add: onAccept_def tcp_start_def Let_def set_ses_def set_rea_def)
  have "Connect r \<lparr>sin_port = htons (ep_port dst), s_addr = ip4_u32 (ep_host dst)\<rparr> \<in> set cs"
    using assms(1) False by (auto simp: DirectOutbound_dialTcp_def Let_def split: if_splits)
  then show ?thesis using direct_tcp.dials [OF assms] False c by simp
qed

end
