(* ===== verification/UdpLanding.thy ===== *)
theory UdpLanding
  imports Outbound
begin

text \<open>
  The socket of a UDP session of the userspace stack (\<^verbatim>\<open>netstack/session_udp.cc\<close>, a session of its
  own socket) between the two threads that share it: the stack thread, which owns the control block of
  lwIP and the table of sessions, and the reactor thread, which owns the socket. Either side may begin to
  close; each hands the rest to the other through its task queue. What theory \<^verbatim>\<open>NetStack\<close> takes as one
  step is taken apart here; the time of the last activity, which decides about idleness, and the sessions
  without a socket of their own are treated there. At the end the reader of the shared socket (\<^verbatim>\<open>netstack/udpmux.cc\<close>).
\<close>

section \<open>State\<close>

text \<open>
  \<open>ul_self\<close>: the session's reference to itself; \<open>ul_listed\<close>: the table of sessions refers to it;
  \<open>ul_watched\<close>: the reactor's handler does. Every queued task holds a reference, too.
\<close>

datatype stack_job = ReplyJob u32 u16 bytes | CloseFromStackJob

datatype reactor_job = WatchJob | LandingJob u32 u16 bytes | CloseFromReactorJob | ShutdownJob

record udp_life =
  ul_pcb :: bool
  ul_fd :: int
  ul_closing :: bool
  ul_self :: bool
  ul_listed :: bool
  ul_watched :: bool
  ul_stack :: "stack_job list"
  ul_reactor :: "reactor_job list"
  ul_trace :: "sock_call list"

text \<open>
  After a successful \<^verbatim>\<open>start\<close> and the insertion into the table; \<^verbatim>\<open>Reactor::add\<close> is called from
  another thread and posts a task.
\<close>

definition ul_start :: "int \<Rightarrow> udp_life" where
  "ul_start fd =
     \<lparr>ul_pcb = True, ul_fd = fd, ul_closing = False, ul_self = True, ul_listed = True, ul_watched = False,
      ul_stack = [], ul_reactor = [WatchJob], ul_trace = []\<rparr>"

section \<open>The stack thread\<close>

definition ul_post_reactor :: "reactor_job \<Rightarrow> udp_life \<Rightarrow> udp_life" where
  "ul_post_reactor j l = l\<lparr>ul_reactor := ul_reactor l @ [j]\<rparr>"

definition ul_post_stack :: "stack_job \<Rightarrow> udp_life \<Rightarrow> udp_life" where
  "ul_post_stack j l = l\<lparr>ul_stack := ul_stack l @ [j]\<rparr>"

definition ul_onPcbRecv :: "u32 \<Rightarrow> u16 \<Rightarrow> bytes \<Rightarrow> udp_life \<Rightarrow> udp_life" where
  "ul_onPcbRecv dstIpBe dstPortHost data l = ul_post_reactor (LandingJob dstIpBe dstPortHost data) l"

definition ul_closeFromStack :: "udp_life \<Rightarrow> udp_life" where
  "ul_closeFromStack l =
     (let l1 = ul_post_reactor CloseFromReactorJob (l\<lparr>ul_pcb := False\<rparr>) in l1\<lparr>ul_listed := False\<rparr>)"

definition ul_shutdownFromStack :: "udp_life \<Rightarrow> udp_life" where
  "ul_shutdownFromStack l =
     (let l1 = l\<lparr>ul_pcb := False\<rparr>
      in if \<not> ul_closing l1 then ul_post_reactor ShutdownJob (l1\<lparr>ul_closing := True\<rparr>) else l1)"

text \<open>Idle sessions and all sessions of a stack that ends are shut down and leave the table.\<close>

definition ul_reap :: "udp_life \<Rightarrow> udp_life" where
  "ul_reap l = (ul_shutdownFromStack l)\<lparr>ul_listed := False\<rparr>"

fun ul_stack_job :: "stack_job \<Rightarrow> udp_life \<Rightarrow> udp_life" where
  "ul_stack_job (ReplyJob ip port data) l = l"
| "ul_stack_job CloseFromStackJob l = ul_closeFromStack l"

section \<open>The reactor thread\<close>

definition ul_close_fd :: "udp_life \<Rightarrow> udp_life" where
  "ul_close_fd l =
     (if ul_fd l \<ge> 0
      then l\<lparr>ul_watched := False, ul_trace := ul_trace l @ netClose (ul_fd l), ul_fd := -1\<rparr>
      else l)"

definition ul_closeFromReactor :: "udp_life \<Rightarrow> udp_life" where
  "ul_closeFromReactor l =
     (if ul_closing l then l
      else let l1 = ul_close_fd (l\<lparr>ul_closing := True\<rparr>);
               l2 = (if ul_pcb l1 then ul_post_stack CloseFromStackJob l1 else l1)
           in l2\<lparr>ul_self := False\<rparr>)"

text \<open>What \<^verbatim>\<open>recvfrom\<close> answers; a list of answers that ends is continued by \<open>WouldBlock\<close>.\<close>

datatype recv_answer = Datagram bytes sockaddr_in | WouldBlock | RecvError

fun ul_onFdReadable :: "recv_answer list \<Rightarrow> udp_life \<Rightarrow> udp_life" where
  "ul_onFdReadable [] l = l\<lparr>ul_trace := ul_trace l @ [RecvFrom (ul_fd l) 65536]\<rparr>"
| "ul_onFdReadable (a # as) l =
     (let l1 = l\<lparr>ul_trace := ul_trace l @ [RecvFrom (ul_fd l) 65536]\<rparr>
      in case a of
           Datagram data addr \<Rightarrow>
             (case netRecvFrom (Some (take 65536 data, addr)) of
                Some (buf, ip, port) \<Rightarrow>
                  if buf = [] then l1 else ul_onFdReadable as (ul_post_stack (ReplyJob ip port buf) l1)
              | None \<Rightarrow> l1)
         | WouldBlock \<Rightarrow> l1
         | RecvError \<Rightarrow> ul_closeFromReactor l1)"

definition ul_onFdEvent :: "bool \<Rightarrow> bool \<Rightarrow> recv_answer list \<Rightarrow> udp_life \<Rightarrow> udp_life" where
  "ul_onFdEvent failure readable answers l =
     (if failure then ul_closeFromReactor l
      else if readable then ul_onFdReadable answers l
      else l)"

fun ul_reactor_job :: "reactor_job \<Rightarrow> udp_life \<Rightarrow> udp_life" where
  "ul_reactor_job WatchJob l = l\<lparr>ul_watched := True\<rparr>"
| "ul_reactor_job (LandingJob ip port data) l =
     (if ul_closing l then l
      else if ul_fd l < 0 then l
      else l\<lparr>ul_trace := ul_trace l @ netSendTo (ul_fd l) data ip port\<rparr>)"
| "ul_reactor_job CloseFromReactorJob l = ul_closeFromReactor l"
| "ul_reactor_job ShutdownJob l = (ul_close_fd l)\<lparr>ul_self := False\<rparr>"

section \<open>Steps\<close>

text \<open>
  lwIP calls back while the control block lives; the table's owner may drop the session while it is
  listed; the reactor calls the handler of a watched socket.
\<close>

datatype ul_event =
    PcbRecv u32 u16 bytes
  | Reap
  | StackJob
  | ReactorJob
  | FdEvent bool bool "recv_answer list"

fun ul_step :: "ul_event \<Rightarrow> udp_life \<Rightarrow> udp_life" where
  "ul_step (PcbRecv ip port data) l = (if ul_pcb l then ul_onPcbRecv ip port data l else l)"
| "ul_step Reap l = (if ul_listed l then ul_reap l else l)"
| "ul_step StackJob l = (case ul_stack l of [] \<Rightarrow> l | j # js \<Rightarrow> ul_stack_job j (l\<lparr>ul_stack := js\<rparr>))"
| "ul_step ReactorJob l = (case ul_reactor l of [] \<Rightarrow> l | j # js \<Rightarrow> ul_reactor_job j (l\<lparr>ul_reactor := js\<rparr>))"
| "ul_step (FdEvent failure readable answers) l =
     (if ul_watched l then ul_onFdEvent failure readable answers l else l)"

definition ul_run :: "int \<Rightarrow> ul_event list \<Rightarrow> udp_life" where
  "ul_run fd es = fold ul_step es (ul_start fd)"

text \<open>The object lives while somebody refers to it.\<close>

definition ul_alive :: "udp_life \<Rightarrow> bool" where
  "ul_alive l \<longleftrightarrow> ul_self l \<or> ul_listed l \<or> ul_watched l \<or> ul_stack l \<noteq> [] \<or> ul_reactor l \<noteq> []"

section \<open>What the calls do to the socket\<close>

text \<open>The sockets open after some calls; a call on a socket that is not open makes it \<open>None\<close>.\<close>

fun call_target :: "sock_call \<Rightarrow> int option" where
  "call_target (NewSocket b) = None"
| "call_target (GetFl fd) = Some fd"
| "call_target (SetFl fd v) = Some fd"
| "call_target (IoctlNonBlocking fd) = Some fd"
| "call_target (Connect fd a) = Some fd"
| "call_target (Bind fd a) = Some fd"
| "call_target (SetRcvBuf fd n) = Some fd"
| "call_target (Recv fd n) = Some fd"
| "call_target (Send fd d) = Some fd"
| "call_target (SendTo fd d a) = Some fd"
| "call_target (RecvFrom fd n) = Some fd"
| "call_target (CloseSocket fd) = Some fd"

fun open_after :: "sock_call list \<Rightarrow> int set \<Rightarrow> int set option" where
  "open_after [] S = Some S"
| "open_after (c # cs) S =
     (case call_target c of
        None \<Rightarrow> open_after cs S
      | Some fd \<Rightarrow>
          if fd \<in> S then open_after cs (case c of CloseSocket _ \<Rightarrow> S - {fd} | _ \<Rightarrow> S) else None)"

lemma open_after_append:
  "open_after (a @ b) S = (case open_after a S of None \<Rightarrow> None | Some S' \<Rightarrow> open_after b S')"
  by (induction a S rule: open_after.induct) (auto split: option.split)

definition holds_fd :: "int \<Rightarrow> udp_life \<Rightarrow> bool" where
  "holds_fd fd l \<longleftrightarrow> (ul_fd l = fd \<or> ul_fd l = -1) \<and> open_after (ul_trace l) {fd} = Some (fd_own (ul_fd l))"

text \<open>
  How far the two sides have come: the session is open; the reactor has closed the socket and told
  the stack thread; the stack thread has let go and told the reactor; both are done.
\<close>

definition st_open :: "int \<Rightarrow> udp_life \<Rightarrow> bool" where
  "st_open fd l \<longleftrightarrow> \<not> ul_closing l \<and> ul_fd l = fd \<and> ul_self l \<and> ul_pcb l \<and> ul_listed l \<and>
     ShutdownJob \<notin> set (ul_reactor l) \<and> CloseFromStackJob \<notin> set (ul_stack l)"

definition st_broken :: "udp_life \<Rightarrow> bool" where
  "st_broken l \<longleftrightarrow> ul_closing l \<and> ul_fd l = -1 \<and> \<not> ul_self l \<and> CloseFromStackJob \<in> set (ul_stack l) \<and>
     (ul_pcb l \<or> \<not> ul_listed l)"

definition st_shut :: "int \<Rightarrow> udp_life \<Rightarrow> bool" where
  "st_shut fd l \<longleftrightarrow> ul_closing l \<and> ul_fd l = fd \<and> \<not> ul_pcb l \<and> \<not> ul_listed l \<and> ShutdownJob \<in> set (ul_reactor l)"

definition st_over :: "udp_life \<Rightarrow> bool" where
  "st_over l \<longleftrightarrow> ul_closing l \<and> ul_fd l = -1 \<and> \<not> ul_self l \<and> \<not> ul_pcb l \<and> \<not> ul_listed l"

text \<open>The registration with the reactor comes before everything else it is asked to do.\<close>

definition watch_ok :: "int \<Rightarrow> udp_life \<Rightarrow> bool" where
  "watch_ok fd l \<longleftrightarrow> (\<not> ul_watched l \<or> ul_fd l = fd) \<and>
     (case ul_reactor l of [] \<Rightarrow> True
      | j # js \<Rightarrow> WatchJob \<notin> set js \<and> (j \<noteq> WatchJob \<or> ul_fd l = fd \<and> \<not> ul_watched l))"

definition ul_inv :: "int \<Rightarrow> udp_life \<Rightarrow> bool" where
  "ul_inv fd l \<longleftrightarrow> 0 \<le> fd \<and> holds_fd fd l \<and> watch_ok fd l \<and> (st_open fd l \<or> st_broken l \<or> st_shut fd l \<or> st_over l)"

lemmas st_defs = st_open_def st_broken_def st_shut_def st_over_def

lemmas ul_ops = ul_post_reactor_def ul_post_stack_def ul_closeFromStack_def ul_shutdownFromStack_def
  ul_close_fd_def ul_closeFromReactor_def ul_reap_def ul_onPcbRecv_def ul_onFdEvent_def Let_def

lemma ul_inv_start: "0 \<le> fd \<Longrightarrow> ul_inv fd (ul_start fd)"
  by (simp add: ul_inv_def ul_start_def holds_fd_def fd_own_def watch_ok_def st_open_def)

lemma fd_own_open: "0 \<le> fd \<Longrightarrow> fd_own fd = {fd}" "fd_own (- 1) = {}"
  by (simp_all add: fd_own_def)

text \<open>A call on the socket while it is open.\<close>

lemma holds_use:
  "holds_fd fd l \<Longrightarrow> 0 \<le> fd \<Longrightarrow> ul_fd l = fd \<Longrightarrow> call_target c = Some fd \<Longrightarrow> (\<forall>x. c \<noteq> CloseSocket x) \<Longrightarrow>
    open_after (ul_trace l @ [c]) {fd} = Some {fd}"
  by (auto simp: holds_fd_def open_after_append fd_own_def split: sock_call.splits)

lemma holds_close: "holds_fd fd l \<Longrightarrow> 0 \<le> fd \<Longrightarrow> holds_fd fd (ul_close_fd l)"
  by (auto simp: holds_fd_def ul_close_fd_def netClose_def open_after_append fd_own_def)

lemma ul_close_fd_simps [simp]:
  "ul_pcb (ul_close_fd l) = ul_pcb l" "ul_closing (ul_close_fd l) = ul_closing l" "ul_self (ul_close_fd l) = ul_self l"
  "ul_listed (ul_close_fd l) = ul_listed l" "ul_stack (ul_close_fd l) = ul_stack l" "ul_reactor (ul_close_fd l) = ul_reactor l"
  by (simp_all add: ul_close_fd_def)

lemma ul_close_fd_closed:
  "holds_fd fd l \<Longrightarrow> 0 \<le> fd \<Longrightarrow> ul_watched l \<longrightarrow> ul_fd l = fd \<Longrightarrow>
    ul_fd (ul_close_fd l) = -1 \<and> \<not> ul_watched (ul_close_fd l)"
  by (auto simp: holds_fd_def ul_close_fd_def)

lemma holds_fd_cong: "ul_fd l' = ul_fd l \<Longrightarrow> ul_trace l' = ul_trace l \<Longrightarrow> holds_fd fd l' = holds_fd fd l"
  by (simp add: holds_fd_def)

lemma holds_fd_upd [simp]:
  "holds_fd fd (l\<lparr>ul_reactor := rs\<rparr>) = holds_fd fd l" "holds_fd fd (l\<lparr>ul_stack := ss\<rparr>) = holds_fd fd l"
  "holds_fd fd (l\<lparr>ul_closing := b\<rparr>) = holds_fd fd l" "holds_fd fd (l\<lparr>ul_self := b\<rparr>) = holds_fd fd l"
  "holds_fd fd (l\<lparr>ul_pcb := b\<rparr>) = holds_fd fd l" "holds_fd fd (l\<lparr>ul_listed := b\<rparr>) = holds_fd fd l"
  "holds_fd fd (l\<lparr>ul_watched := b\<rparr>) = holds_fd fd l"
  by (simp_all add: holds_fd_def)

lemma watch_ok_upd [simp]:
  "watch_ok fd (l\<lparr>ul_stack := ss\<rparr>) = watch_ok fd l" "watch_ok fd (l\<lparr>ul_closing := b\<rparr>) = watch_ok fd l"
  "watch_ok fd (l\<lparr>ul_self := b\<rparr>) = watch_ok fd l" "watch_ok fd (l\<lparr>ul_pcb := b\<rparr>) = watch_ok fd l"
  "watch_ok fd (l\<lparr>ul_listed := b\<rparr>) = watch_ok fd l" "watch_ok fd (l\<lparr>ul_trace := t\<rparr>) = watch_ok fd l"
  by (simp_all add: watch_ok_def split: list.split)

lemma watch_ok_post: "watch_ok fd l \<Longrightarrow> j \<noteq> WatchJob \<Longrightarrow> watch_ok fd (l\<lparr>ul_reactor := ul_reactor l @ [j]\<rparr>)"
  by (auto simp: watch_ok_def split: list.splits)

lemma watch_ok_pop: "watch_ok fd l \<Longrightarrow> ul_reactor l = j # js \<Longrightarrow> j \<noteq> WatchJob \<Longrightarrow> watch_ok fd (l\<lparr>ul_reactor := js\<rparr>)"
  by (auto simp: watch_ok_def split: list.splits)

lemma watch_ok_close:
  assumes "watch_ok fd l" and "holds_fd fd l" and "0 \<le> fd" and "WatchJob \<notin> set (ul_reactor l)"
  shows "watch_ok fd (ul_close_fd l) \<and> ul_fd (ul_close_fd l) = -1 \<and> \<not> ul_watched (ul_close_fd l)"
  using assms by (auto simp: watch_ok_def holds_fd_def ul_close_fd_def split: list.splits)

lemma inv_closeFromReactor:
  assumes "ul_inv fd l" and "WatchJob \<notin> set (ul_reactor l)"
  shows "ul_inv fd (ul_closeFromReactor l)"
proof (cases "ul_closing l")
  case False
  define m where "m = ul_close_fd (l\<lparr>ul_closing := True\<rparr>)"
  have h: "0 \<le> fd" "holds_fd fd l" "watch_ok fd l" "st_open fd l" using assms(1) False by (auto simp: ul_inv_def st_defs)
  have "watch_ok fd m \<and> ul_fd m = -1 \<and> \<not> ul_watched m" "holds_fd fd m"
    unfolding m_def using watch_ok_close [of fd "l\<lparr>ul_closing := True\<rparr>"] holds_close [of fd "l\<lparr>ul_closing := True\<rparr>"] h assms(2)
    by simp_all
  moreover have "ul_closing m" "ul_pcb m" by (use h(4) in \<open>simp_all add: m_def st_open_def\<close>)
  moreover from this have "ul_closeFromReactor l = (ul_post_stack CloseFromStackJob m)\<lparr>ul_self := False\<rparr>"
    using False by (simp add: ul_closeFromReactor_def Let_def m_def)
  ultimately show ?thesis using h(1) by (simp add: ul_inv_def ul_post_stack_def st_broken_def)
qed (use assms in \<open>simp add: ul_closeFromReactor_def\<close>)

lemma watched_no_watch: "ul_inv fd l \<Longrightarrow> ul_watched l \<Longrightarrow> ul_fd l = fd \<and> WatchJob \<notin> set (ul_reactor l)"
  by (auto simp: ul_inv_def watch_ok_def split: list.splits)

lemma inv_use:
  assumes "ul_inv fd l" and "ul_fd l = fd" and "call_target c = Some fd" and "\<forall>x. c \<noteq> CloseSocket x"
  shows "ul_inv fd (l\<lparr>ul_trace := ul_trace l @ [c]\<rparr>)"
proof -
  have "holds_fd fd (l\<lparr>ul_trace := ul_trace l @ [c]\<rparr>)"
    using holds_use [of fd l c] assms by (simp add: ul_inv_def holds_fd_def fd_own_def)
  then show ?thesis using assms(1) by (simp add: ul_inv_def st_defs)
qed

lemma inv_reads:
  assumes "ul_inv fd l" and "ul_watched l"
  shows "ul_inv fd (ul_onFdReadable as l)"
  using assms
proof (induction as l rule: ul_onFdReadable.induct)
  case (1 l)
  then show ?case using watched_no_watch [OF 1] inv_use [OF 1(1)] by simp
next
  case (2 a as l)
  let ?l = "l\<lparr>ul_trace := ul_trace l @ [RecvFrom (ul_fd l) 65536]\<rparr>"
  have i: "ul_inv fd ?l" "ul_watched ?l"
    using watched_no_watch [OF 2(2,3)] inv_use [OF 2(2)] 2(3) by simp_all
  have p: "ul_inv fd (ul_post_stack (ReplyJob ip port buf) ?l)" "ul_watched (ul_post_stack (ReplyJob ip port buf) ?l)"
    for ip port buf
    using i by (simp_all add: ul_inv_def ul_post_stack_def st_defs)
  show ?case
  proof (cases a)
    case (Datagram data addr)
    then show ?thesis
      using 2(1) [OF refl Datagram _ refl refl] p i by (simp add: netRecvFrom_def Let_def)
  next
    case RecvError
    then show ?thesis using inv_closeFromReactor [OF i(1)] watched_no_watch [OF i] by (simp add: Let_def)
  qed (use i in \<open>simp add: Let_def\<close>)
qed

lemma inv_post_reactor:
  assumes "ul_inv fd l" and "j \<noteq> WatchJob" and "j \<noteq> ShutdownJob"
  shows "ul_inv fd (ul_post_reactor j l)"
  using assms watch_ok_post [of fd l j] by (simp add: ul_inv_def ul_post_reactor_def st_defs)

lemma inv_pop:
  assumes "ul_inv fd l" and "ul_reactor l = j # js" and "j \<noteq> ShutdownJob" and "j \<noteq> WatchJob"
  shows "ul_inv fd (l\<lparr>ul_reactor := js\<rparr>) \<and> WatchJob \<notin> set js"
proof -
  have "watch_ok fd l" using assms(1) by (simp add: ul_inv_def)
  then have "WatchJob \<notin> set js" using assms(2) by (simp add: watch_ok_def)
  moreover have "watch_ok fd (l\<lparr>ul_reactor := js\<rparr>)" using watch_ok_pop [OF \<open>watch_ok fd l\<close> assms(2,4)] .
  ultimately show ?thesis using assms by (simp add: ul_inv_def st_defs)
qed

lemma inv_reap:
  assumes "ul_inv fd l" and "ul_listed l"
  shows "ul_inv fd (ul_reap l)"
proof -
  have w: "watch_ok fd (l\<lparr>ul_reactor := ul_reactor l @ [ShutdownJob]\<rparr>)"
    using watch_ok_post [of fd l ShutdownJob] assms(1) by (simp add: ul_inv_def)
  show ?thesis
  proof (cases "ul_closing l")
    case True
    then have "st_broken l" using assms by (auto simp: ul_inv_def st_defs)
    then show ?thesis using assms(1) True by (simp add: ul_inv_def ul_reap_def ul_shutdownFromStack_def st_broken_def)
  next
    case False
    then have "st_open fd l" using assms(1) by (auto simp: ul_inv_def st_defs)
    moreover have "watch_ok fd (ul_reap l) = watch_ok fd (l\<lparr>ul_reactor := ul_reactor l @ [ShutdownJob]\<rparr>)"
      using False by (simp add: ul_reap_def ul_shutdownFromStack_def ul_post_reactor_def watch_ok_def split: list.split)
    ultimately show ?thesis
      using assms(1) w False
      by (simp add: ul_inv_def) (simp add: ul_reap_def ul_shutdownFromStack_def ul_post_reactor_def st_shut_def st_open_def)
  qed
qed

lemma inv_stack_job:
  assumes "ul_inv fd l" and "ul_stack l = j # js"
  shows "ul_inv fd (ul_stack_job j (l\<lparr>ul_stack := js\<rparr>))"
proof (cases j)
  case (ReplyJob ip port data)
  then show ?thesis using assms by (auto simp: ul_inv_def st_defs)
next
  case CloseFromStackJob
  let ?l = "l\<lparr>ul_stack := js, ul_pcb := False, ul_listed := False\<rparr>"
  have "ul_inv fd ?l"
  proof -
    have "st_broken l \<or> st_shut fd l \<or> st_over l" using assms CloseFromStackJob by (auto simp: ul_inv_def st_open_def)
    then have "st_over ?l \<or> st_shut fd ?l" by (elim disjE) (simp_all add: st_defs)
    then show ?thesis using assms(1) by (auto simp: ul_inv_def)
  qed
  then have "ul_inv fd (ul_post_reactor CloseFromReactorJob ?l)" by (rule inv_post_reactor) simp_all
  moreover have "ul_stack_job j (l\<lparr>ul_stack := js\<rparr>) = ul_post_reactor CloseFromReactorJob ?l"
    using CloseFromStackJob by (simp add: ul_closeFromStack_def ul_post_reactor_def)
  ultimately show ?thesis by simp
qed

lemma inv_reactor_job:
  assumes "ul_inv fd l" and "ul_reactor l = j # js"
  shows "ul_inv fd (ul_reactor_job j (l\<lparr>ul_reactor := js\<rparr>))"
proof (cases j)
  case WatchJob
  have w: "WatchJob \<notin> set js" "ul_fd l = fd" using assms WatchJob by (auto simp: ul_inv_def watch_ok_def)
  then have "watch_ok fd (l\<lparr>ul_reactor := js, ul_watched := True\<rparr>)" by (auto simp: watch_ok_def split: list.split)
  then show ?thesis using assms WatchJob by (simp add: ul_inv_def) (auto simp: st_defs)
next
  case (LandingJob ip port data)
  note i = inv_pop [OF assms]
  show ?thesis
  proof (cases "ul_closing l \<or> ul_fd l < 0")
    case False
    then have "ul_fd l = fd" using assms(1) by (auto simp: ul_inv_def holds_fd_def)
    then show ?thesis
      using inv_use [of fd "l\<lparr>ul_reactor := js\<rparr>" "SendTo fd data \<lparr>sin_port = htons port, s_addr = ip\<rparr>"] i LandingJob False
      by (simp add: netSendTo_def)
  qed (use i LandingJob in auto)
next
  case CloseFromReactorJob
  then show ?thesis using inv_pop [OF assms] inv_closeFromReactor [of fd "l\<lparr>ul_reactor := js\<rparr>"] by simp
next
  case ShutdownJob
  let ?l = "l\<lparr>ul_reactor := js\<rparr>"
  have h: "0 \<le> fd" "holds_fd fd ?l" "watch_ok fd l" using assms(1) by (simp_all add: ul_inv_def)
  have w: "watch_ok fd ?l" "WatchJob \<notin> set js"
    using watch_ok_pop [OF h(3) assms(2)] h(3) assms(2) ShutdownJob by (simp_all add: watch_ok_def)
  have c: "watch_ok fd (ul_close_fd ?l)" "ul_fd (ul_close_fd ?l) = -1" "holds_fd fd (ul_close_fd ?l)"
    using watch_ok_close [OF w(1) h(2,1)] w(2) holds_close [OF h(2,1)] by simp_all
  have "st_broken l \<or> st_shut fd l \<or> st_over l" using assms ShutdownJob by (auto simp: ul_inv_def st_open_def)
  then have "st_broken ((ul_close_fd ?l)\<lparr>ul_self := False\<rparr>) \<or> st_over ((ul_close_fd ?l)\<lparr>ul_self := False\<rparr>)"
    using c(2) by (elim disjE) (simp_all add: st_defs)
  then show ?thesis using h(1) c ShutdownJob by (auto simp: ul_inv_def)
qed

lemma inv_step: "ul_inv fd l \<Longrightarrow> ul_inv fd (ul_step e l)"
proof (cases e)
  case (FdEvent failure readable answers)
  assume i: "ul_inv fd l"
  then show ?thesis
    using FdEvent inv_closeFromReactor [OF i] watched_no_watch [OF i] inv_reads [OF i] by (simp add: ul_onFdEvent_def)
qed (auto simp: ul_onPcbRecv_def intro: inv_post_reactor inv_reap inv_stack_job inv_reactor_job split: list.split)

lemma inv_run: "ul_inv fd l \<Longrightarrow> ul_inv fd (fold ul_step es l)"
  by (induction es arbitrary: l) (simp_all add: inv_step)

text \<open>C28: however the two threads interleave, a session uses its socket only while it is open and closes it at most
  once; as long as lwIP may call back into the session, the object exists; and a session
  that has not begun to close has its socket, its control block and its place in the table.\<close>

theorem udp_socket_used_while_open:
  assumes "0 \<le> fd"
  shows "open_after (ul_trace (ul_run fd es)) {fd} = Some (fd_own (ul_fd (ul_run fd es))) \<and>
    (ul_pcb (ul_run fd es) \<longrightarrow> ul_alive (ul_run fd es)) \<and>
    (\<not> ul_closing (ul_run fd es) \<longrightarrow> ul_fd (ul_run fd es) = fd \<and> ul_pcb (ul_run fd es) \<and> ul_listed (ul_run fd es))"
proof -
  have i: "ul_inv fd (ul_run fd es)" unfolding ul_run_def by (rule inv_run [OF ul_inv_start [OF assms]])
  then show ?thesis by (auto simp: ul_inv_def holds_fd_def st_defs ul_alive_def)
qed

section \<open>The end of a session\<close>

definition drain_reactor :: "udp_life \<Rightarrow> udp_life" where
  "drain_reactor l = fold ul_step (replicate (length (ul_reactor l)) ReactorJob) l"

definition drain_stack :: "udp_life \<Rightarrow> udp_life" where
  "drain_stack l = fold ul_step (replicate (length (ul_stack l)) StackJob) l"

lemma closing_reactor_job:
  "ul_closing l \<Longrightarrow> ul_closing (ul_reactor_job j l) \<and> ul_reactor (ul_reactor_job j l) = ul_reactor l \<and>
    ul_stack (ul_reactor_job j l) = ul_stack l"
  by (cases j) (simp_all add: ul_closeFromReactor_def)

lemma closing_drain_reactor:
  assumes "ul_closing l"
  shows "ul_closing (drain_reactor l) \<and> ul_reactor (drain_reactor l) = [] \<and> ul_stack (drain_reactor l) = ul_stack l"
proof -
  have "ul_closing (fold ul_step (replicate n ReactorJob) l) \<and>
      ul_reactor (fold ul_step (replicate n ReactorJob) l) = drop n (ul_reactor l) \<and>
      ul_stack (fold ul_step (replicate n ReactorJob) l) = ul_stack l" if "ul_closing l" for n l
    using that
  proof (induction n arbitrary: l)
    case (Suc n)
    then show ?case
    proof (cases "ul_reactor l")
      case (Cons j js)
      then show ?thesis
        using Suc.IH [of "ul_step ReactorJob l"] closing_reactor_job [of "l\<lparr>ul_reactor := js\<rparr>" j] Suc.prems by simp
    qed simp
  qed simp
  from this [OF assms, of "length (ul_reactor l)"] show ?thesis by (simp add: drain_reactor_def)
qed

lemma closing_stack_job:
  "ul_closing l \<Longrightarrow> ul_closing (ul_stack_job j l) \<and> ul_stack (ul_stack_job j l) = ul_stack l"
  by (cases j) (simp_all add: ul_closeFromStack_def ul_post_reactor_def)

lemma closing_drain_stack:
  assumes "ul_closing l"
  shows "ul_closing (drain_stack l) \<and> ul_stack (drain_stack l) = []"
proof -
  have "ul_closing (fold ul_step (replicate n StackJob) l) \<and>
      ul_stack (fold ul_step (replicate n StackJob) l) = drop n (ul_stack l)" if "ul_closing l" for n l
    using that
  proof (induction n arbitrary: l)
    case (Suc n)
    then show ?case
    proof (cases "ul_stack l")
      case (Cons j js)
      then show ?thesis
        using Suc.IH [of "ul_step StackJob l"] closing_stack_job [of "l\<lparr>ul_stack := js\<rparr>" j] Suc.prems by simp
    qed simp
  qed simp
  from this [OF assms, of "length (ul_stack l)"] show ?thesis by (simp add: drain_stack_def)
qed

text \<open>C29: once either thread has begun to close a session, wherever the two have got to, it ends when the
  reactor, the stack thread and the reactor again have worked off their queues: the socket is closed, the
  control block removed, and nothing refers to the session any more, so it is destroyed.\<close>

theorem udp_session_ends:
  assumes "0 \<le> fd" and "ul_closing (ul_run fd es)"
  shows "let l = drain_reactor (drain_stack (drain_reactor (ul_run fd es)))
    in ul_fd l = -1 \<and> \<not> ul_pcb l \<and> \<not> ul_alive l"
proof -
  let ?l = "ul_run fd es"
  define l1 where "l1 = drain_reactor ?l"
  define l2 where "l2 = drain_stack l1"
  define l3 where "l3 = drain_reactor l2"
  have "ul_inv fd ?l" unfolding ul_run_def by (rule inv_run [OF ul_inv_start [OF assms(1)]])
  then have i: "ul_inv fd l3" unfolding l3_def l2_def l1_def drain_reactor_def drain_stack_def by (intro inv_run)
  have c1: "ul_closing l1" using closing_drain_reactor [OF assms(2)] by (simp add: l1_def)
  have c2: "ul_closing l2" "ul_stack l2 = []" using closing_drain_stack [OF c1] by (simp_all add: l2_def)
  have c3: "ul_closing l3" "ul_reactor l3 = []" "ul_stack l3 = []"
    using closing_drain_reactor [OF c2(1)] c2(2) by (simp_all add: l3_def)
  then have "st_over l3" using i by (auto simp: ul_inv_def st_open_def st_broken_def st_shut_def)
  moreover from this have "\<not> ul_watched l3" using i by (auto simp: ul_inv_def watch_ok_def st_over_def)
  ultimately have "ul_fd l3 = -1 \<and> \<not> ul_pcb l3 \<and> \<not> ul_alive l3" using c3 by (simp add: ul_alive_def st_over_def)
  then show ?thesis by (simp add: Let_def l3_def l2_def l1_def)
qed

section \<open>The reader of the shared socket\<close>

text \<open>
  \<^verbatim>\<open>UdpMux::onFdEvent\<close>: what it posts to the stack thread, where \<open>demux\<close> is called with it. The
  socket is kept whatever happens.
\<close>

fun mux_onFdReadable :: "recv_answer list \<Rightarrow> (u32 \<times> u16 \<times> bytes) list" where
  "mux_onFdReadable [] = []"
| "mux_onFdReadable (a # as) =
     (case a of
        Datagram data addr \<Rightarrow>
          (case netRecvFrom (Some (take 65536 data, addr)) of
             Some (buf, ip, port) \<Rightarrow> if buf = [] then [] else (ip, port, buf) # mux_onFdReadable as
           | None \<Rightarrow> [])
      | WouldBlock \<Rightarrow> []
      | RecvError \<Rightarrow> [])"

definition mux_onFdEvent :: "bool \<Rightarrow> bool \<Rightarrow> recv_answer list \<Rightarrow> (u32 \<times> u16 \<times> bytes) list" where
  "mux_onFdEvent failure readable answers =
     (if failure then [] else if readable then mux_onFdReadable answers else [])"

text \<open>The datagrams up to the first that is empty, or the first error.\<close>

fun is_datagram :: "recv_answer \<Rightarrow> bool" where
  "is_datagram (Datagram data addr) \<longleftrightarrow> data \<noteq> []"
| "is_datagram _ \<longleftrightarrow> False"

fun datagram_of :: "recv_answer \<Rightarrow> u32 \<times> u16 \<times> bytes" where
  "datagram_of (Datagram data addr) = (s_addr addr, htons (sin_port addr), take 65536 data)"
| "datagram_of _ = (0, 0, [])"

lemma mux_reads: "mux_onFdReadable as = map datagram_of (takeWhile is_datagram as)"
  by (induction as) (auto simp: netRecvFrom_def split: recv_answer.split)

text \<open>A session hands the same datagrams to its stack thread, in order.\<close>

lemma session_reads:
  "ul_stack (ul_onFdReadable as l) =
    (let js = map (\<lambda>(ip, port, buf). ReplyJob ip port buf) (mux_onFdReadable as)
     in if list_ex (\<lambda>a. a = RecvError) (take 1 (dropWhile is_datagram as)) \<and> \<not> ul_closing l \<and> ul_pcb l
        then ul_stack l @ js @ [CloseFromStackJob] else ul_stack l @ js)"
proof (induction as l rule: ul_onFdReadable.induct)
  case (2 a as l)
  show ?case
  proof (cases a)
    case (Datagram data addr)
    then show ?thesis
      using 2 [OF refl Datagram _ refl refl] by (auto simp: netRecvFrom_def ul_post_stack_def Let_def)
  qed (simp_all add: ul_closeFromReactor_def ul_post_stack_def Let_def)
qed simp

section \<open>A session written out\<close>

definition demo_events :: "ul_event list" where
  "demo_events = [PcbRecv 1 53 [7], ReactorJob, ReactorJob, FdEvent False True [Datagram [8] \<lparr>sin_port = 0x3500, s_addr = 1\<rparr>, RecvError],
     PcbRecv 1 53 [9]]"

lemma demo_run:
  "ul_fd (ul_run 5 demo_events) = -1" "ul_pcb (ul_run 5 demo_events)" "ul_closing (ul_run 5 demo_events)"
  by (simp_all add: ul_run_def demo_events_def ul_start_def ul_ops netRecvFrom_def)

theorem udp_socket_used_while_open_witness:
  "open_after (ul_trace (ul_run 5 demo_events)) {5} = Some {} \<and> ul_alive (ul_run 5 demo_events)"
  using udp_socket_used_while_open [of 5 demo_events] demo_run by (simp add: fd_own_def)

theorem udp_session_ends_witness:
  "let l = drain_reactor (drain_stack (drain_reactor (ul_run 5 demo_events)))
   in ul_fd l = -1 \<and> \<not> ul_pcb l \<and> \<not> ul_alive l"
  using udp_session_ends [of 5 demo_events] demo_run by simp

end
