(* ===== verification/StackSetup.thy ===== *)
theory StackSetup
  imports Handles NetStack
begin

text \<open>
  What \<^verbatim>\<open>NetStack::initStack\<close> registers with lwIP, which is one per process, and what \<^verbatim>\<open>teardownStack\<close>
  takes back (\<^verbatim>\<open>netstack/netstack.cc\<close>). lwIP's answers are arguments; an interface or a control
  block is a handle. Calls that only set flags or names of the interface are left out.
\<close>

section \<open>Calls\<close>

datatype lwip_handle = Netif | Pcb int

datatype lwip_call =
    NetifAdd bool
  | NetifSetMtu u16
  | TcpNew "int option"
  | TcpBind int
  | TcpListen int "int option"
  | TcpAccept int
  | UdpNew "int option"
  | UdpBind int
  | UdpRecv int bool
  | UdpRemove int
  | TcpClose int
  | NetifRemove

text \<open>
  \<^verbatim>\<open>tcp_listen\<close> returns a new control block and frees the one it was given; when it fails the
  given one stays.
\<close>

fun lwip_events :: "lwip_call \<Rightarrow> lwip_handle handle_event list" where
  "lwip_events (NetifAdd ok) = (if ok then [Acquire Netif] else [])"
| "lwip_events (TcpNew p) = (case p of None \<Rightarrow> [] | Some n \<Rightarrow> [Acquire (Pcb n)])"
| "lwip_events (TcpListen n p) = (case p of None \<Rightarrow> [] | Some m \<Rightarrow> [Acquire (Pcb m), Release (Pcb n)])"
| "lwip_events (UdpNew p) = (case p of None \<Rightarrow> [] | Some n \<Rightarrow> [Acquire (Pcb n)])"
| "lwip_events (UdpRemove n) = [Release (Pcb n)]"
| "lwip_events (TcpClose n) = [Release (Pcb n)]"
| "lwip_events NetifRemove = [Release Netif]"
| "lwip_events _ = []"

record lwip_answers =
  la_netif_add :: bool
  la_tcp_new :: "int option"
  la_tcp_bind :: bool
  la_tcp_listen :: "int option"
  la_udp_new :: "int option"
  la_udp_bind :: bool

text \<open>The members \<^verbatim>\<open>listenPcb\<close> and \<^verbatim>\<open>udpListenPcb\<close>.\<close>

record stack_pcbs =
  listenPcb :: "int option"
  udpListenPcb :: "int option"

definition stack_pcbs_new :: stack_pcbs where
  "stack_pcbs_new = \<lparr>listenPcb = None, udpListenPcb = None\<rparr>"

section \<open>Operations\<close>

definition initStack_udp :: "lwip_answers \<Rightarrow> stack_pcbs \<Rightarrow> lwip_call list \<Rightarrow> stack_pcbs \<times> lwip_call list \<times> int" where
  "initStack_udp A s t =
     (let s1 = s\<lparr>udpListenPcb := la_udp_new A\<rparr>; t1 = t @ [UdpNew (la_udp_new A)]
      in case la_udp_new A of
           None \<Rightarrow> (s1, t1, -1)
         | Some u \<Rightarrow>
             if \<not> la_udp_bind A then (s1, t1 @ [UdpBind u], -1)
             else (s1, t1 @ [UdpBind u, UdpRecv u True], 0))"

definition initStack :: "lwip_answers \<Rightarrow> int \<Rightarrow> stack_pcbs \<Rightarrow> stack_pcbs \<times> lwip_call list \<times> int" where
  "initStack A tunMtu s =
     (if \<not> la_netif_add A then (s, [NetifAdd False], -1)
      else let t = [NetifAdd True, NetifSetMtu (initStack_mtu tunMtu), TcpNew (la_tcp_new A)]
           in case la_tcp_new A of
                None \<Rightarrow> (s, t, -1)
              | Some p \<Rightarrow>
                  if \<not> la_tcp_bind A then (s, t @ [TcpBind p], -1)
                  else let s1 = s\<lparr>listenPcb := la_tcp_listen A\<rparr>; t1 = t @ [TcpBind p, TcpListen p (la_tcp_listen A)]
                       in case la_tcp_listen A of
                            None \<Rightarrow> (s1, t1, -1)
                          | Some q \<Rightarrow> initStack_udp A s1 (t1 @ [TcpAccept q]))"

text \<open>The part of \<^verbatim>\<open>teardownStack\<close> after the sessions.\<close>

definition teardown_lwip :: "stack_pcbs \<Rightarrow> stack_pcbs \<times> lwip_call list" where
  "teardown_lwip s =
     (stack_pcbs_new,
      (case udpListenPcb s of None \<Rightarrow> [] | Some u \<Rightarrow> [UdpRecv u False, UdpRemove u]) @
      (case listenPcb s of None \<Rightarrow> [] | Some q \<Rightarrow> [TcpClose q]) @ [NetifRemove])"

text \<open>
  The stack thread: when \<^verbatim>\<open>initStack\<close> fails the thread ends and nothing is torn down, neither here nor
  in the destructor.
\<close>

definition stack_thread_calls :: "lwip_answers \<Rightarrow> int \<Rightarrow> lwip_call list" where
  "stack_thread_calls A tunMtu =
     (let (s, t, r) = initStack A tunMtu stack_pcbs_new
      in if r \<noteq> 0 then t else t @ snd (teardown_lwip s))"

section \<open>What stays behind\<close>

text \<open>What a failed start has registered when it gives up.\<close>

definition left_behind :: "lwip_answers \<Rightarrow> lwip_handle set" where
  "left_behind A =
     (if \<not> la_netif_add A then {}
      else case la_tcp_new A of
             None \<Rightarrow> {Netif}
           | Some p \<Rightarrow>
               if \<not> la_tcp_bind A \<or> la_tcp_listen A = None then {Netif, Pcb p}
               else (case la_udp_new A of
                       None \<Rightarrow> {Netif, Pcb (the (la_tcp_listen A))}
                     | Some u \<Rightarrow> if la_udp_bind A then {} else {Netif, Pcb (the (la_tcp_listen A)), Pcb u}))"

lemmas stack_ops = stack_thread_calls_def initStack_def initStack_udp_def teardown_lwip_def stack_pcbs_new_def Let_def

lemma init_succeeds:
  "snd (snd (initStack A tunMtu s)) = 0 \<longleftrightarrow> la_netif_add A \<and> la_tcp_new A \<noteq> None \<and> la_tcp_bind A \<and> la_tcp_listen A \<noteq> None \<and>
     la_udp_new A \<noteq> None \<and> la_udp_bind A"
  by (auto simp: initStack_def initStack_udp_def Let_def split: option.split)

text \<open>A stack that starts gives everything it registered with lwIP back when it ends. A stack that
  fails to start after its interface was added leaves the interface, and the control blocks it had, in lwIP, although the
  interface is a member of an object that is destroyed and made anew when the client reconnects.\<close>

theorem failed_stack_leaves_interface:
  assumes "fresh (handle_events lwip_events (stack_thread_calls A tunMtu)) S" and "Netif \<notin> S" and "\<And>n. Pcb n \<notin> S"
  shows "ledger (handle_events lwip_events (stack_thread_calls A tunMtu)) S = Some (S \<union> left_behind A) \<and>
    (snd (snd (initStack A tunMtu stack_pcbs_new)) = 0 \<longrightarrow> left_behind A = {}) \<and>
    (snd (snd (initStack A tunMtu stack_pcbs_new)) \<noteq> 0 \<and> la_netif_add A \<longrightarrow> Netif \<in> left_behind A)"
  using assms
  by (auto simp: stack_ops left_behind_def split: option.splits if_splits)

definition demo_answers :: lwip_answers where
  "demo_answers = \<lparr>la_netif_add = True, la_tcp_new = Some 1, la_tcp_bind = True, la_tcp_listen = Some 2,
     la_udp_new = Some 3, la_udp_bind = False\<rparr>"

theorem failed_stack_leaves_interface_witness:
  "ledger (handle_events lwip_events (stack_thread_calls demo_answers 1400)) {} = Some {Netif, Pcb 2, Pcb 3}"
proof -
  have "fresh (handle_events lwip_events (stack_thread_calls demo_answers 1400)) {}"
    by (simp add: stack_ops demo_answers_def)
  from failed_stack_leaves_interface [OF this] show ?thesis by (simp add: left_behind_def demo_answers_def)
qed

end
