(* ===== verification/ReactorLoop.thy ===== *)
theory ReactorLoop
  imports Reactor "HOL-Library.Sublist"
begin

text \<open>
  \<^verbatim>\<open>netstack/reactor.cc\<close>: the thread of the reactor and what other threads ask of it. A task
  is the list of calls its closure makes on the reactor; calls made on the loop's own thread take effect
  at once, those of other threads become tasks. A step is one access of the loop's thread or
  of another to the shared state, so that posting, stopping and the loop interleave freely.
\<close>

datatype call =
    RAdd int ReactorEvent
  | RMod int ReactorEvent
  | RDel int
  | RPost "call list"

type_synonym task = "call list"

text \<open>Where the loop's thread is; the batch of events or tasks it still has to go through.\<close>

datatype loop_pc =
    AtCheck
  | Polling
  | Events "(int \<times> u32) list"
  | Tasks "task list"
  | Ended

record event_loop =
  el_reactor :: Reactor
  el_live :: bool
  el_woken :: bool
  el_running :: bool
  el_tasks :: "task list"
  el_pc :: loop_pc

definition event_loop_new :: event_loop where
  "event_loop_new = \<lparr>el_reactor = Reactor_new, el_live = False, el_woken = False, el_running = False,
     el_tasks = [], el_pc = Ended\<rparr>"

section \<open>Calls\<close>

definition post_task :: "task \<Rightarrow> event_loop \<Rightarrow> event_loop" where
  "post_task t l = l\<lparr>el_tasks := el_tasks l @ [t], el_woken := (el_woken l \<or> el_live l)\<rparr>"

text \<open>\<open>on\<close>: whether the caller is the loop's thread.\<close>

fun reactor_call :: "bool \<Rightarrow> call \<Rightarrow> event_loop \<Rightarrow> event_loop" where
  "reactor_call on (RAdd fd ev) l =
     (if on then l\<lparr>el_reactor := applyAdd fd ev (el_reactor l)\<rparr> else post_task [RAdd fd ev] l)"
| "reactor_call on (RMod fd ev) l =
     (if on then l\<lparr>el_reactor := applyMod fd ev (el_reactor l)\<rparr> else post_task [RMod fd ev] l)"
| "reactor_call on (RDel fd) l =
     (if on then l\<lparr>el_reactor := applyDel fd (el_reactor l)\<rparr> else post_task [RDel fd] l)"
| "reactor_call on (RPost t) l = post_task t l"

definition run_calls :: "task \<Rightarrow> event_loop \<Rightarrow> event_loop" where
  "run_calls cs l = fold (reactor_call True) cs l"

section \<open>Start and stop\<close>

definition reactor_start :: "event_loop \<Rightarrow> event_loop \<times> int" where
  "reactor_start l =
     (l\<lparr>el_reactor := (el_reactor l)\<lparr>pollSet := []\<rparr>, el_live := True, el_running := True, el_pc := AtCheck\<rparr>, 0)"

text \<open>
  \<^verbatim>\<open>stop\<close> up to the join, which then waits for the thread to end, and what it does after
  it if it was the first to stop the loop.
\<close>

definition stop_request :: "event_loop \<Rightarrow> event_loop \<times> bool" where
  "stop_request l =
     (if \<not> el_running l then (l, False)
      else (l\<lparr>el_running := False, el_woken := (el_woken l \<or> el_live l)\<rparr>, True))"

definition stop_finish :: "event_loop \<Rightarrow> event_loop" where
  "stop_finish l = l\<lparr>el_reactor := Reactor_new, el_live := False\<rparr>"

section \<open>The loop\<close>

definition loop_check :: "event_loop \<Rightarrow> event_loop" where
  "loop_check l = l\<lparr>el_pc := (if el_running l then Polling else Ended)\<rparr>"

definition loop_poll :: "(int \<times> u32) list \<Rightarrow> event_loop \<Rightarrow> event_loop" where
  "loop_poll ready l = l\<lparr>el_pc := Events ready, el_woken := False\<rparr>"

text \<open>
  One reported socket: its handler, which makes the calls \<open>handler ev\<close>, is called with the
  events unless a handler before it has removed the watcher.
\<close>

definition loop_event :: "(ReactorEvent \<Rightarrow> task) \<Rightarrow> int \<Rightarrow> u32 \<Rightarrow> event_loop \<Rightarrow> event_loop \<times> (int \<times> ReactorEvent) list" where
  "loop_event handler fd mode l =
     (case map_of (ioWatchers (el_reactor l)) fd of
        None \<Rightarrow> (l, [])
      | Some _ \<Rightarrow> (run_calls (handler (fromPocoMode mode)) l, [(fd, fromPocoMode mode)]))"

definition drain_swap :: "event_loop \<Rightarrow> event_loop" where
  "drain_swap l = l\<lparr>el_pc := Tasks (el_tasks l), el_tasks := []\<rparr>"

text \<open>
  The next access of the loop's thread. \<open>ready\<close> is what the poll reports if it is about to poll,
  \<open>handler\<close> what a handler does if one is called. The result says which handler was called and which
  task was run.
\<close>

definition reactor_step ::
  "(int \<times> u32) list \<Rightarrow> (ReactorEvent \<Rightarrow> task) \<Rightarrow> event_loop \<Rightarrow>
    event_loop \<times> (int \<times> ReactorEvent) list \<times> task list" where
  "reactor_step ready handler l =
     (case el_pc l of
        AtCheck \<Rightarrow> (loop_check l, [], [])
      | Polling \<Rightarrow> (loop_poll ready l, [], [])
      | Events ((fd, mode) # es) \<Rightarrow>
          (let (l1, called) = loop_event handler fd mode (l\<lparr>el_pc := Events es\<rparr>) in (l1, called, []))
      | Events [] \<Rightarrow> (drain_swap l, [], [])
      | Tasks (t # ts) \<Rightarrow> (run_calls t (l\<lparr>el_pc := Tasks ts\<rparr>), [], [t])
      | Tasks [] \<Rightarrow> (l\<lparr>el_pc := AtCheck\<rparr>, [], [])
      | Ended \<Rightarrow> (l, [], []))"

section \<open>Interleaved runs\<close>

text \<open>Steps of the loop, calls of other threads, a request to stop.\<close>

datatype el_op =
    LoopStep "(int \<times> u32) list" "ReactorEvent \<Rightarrow> task"
  | OtherCall call
  | StopRequest

definition el_step :: "el_op \<Rightarrow> event_loop \<Rightarrow> event_loop \<times> (int \<times> ReactorEvent) list \<times> task list" where
  "el_step op l =
     (case op of
        LoopStep ready handler \<Rightarrow> reactor_step ready handler l
      | OtherCall c \<Rightarrow> (reactor_call False c l, [], [])
      | StopRequest \<Rightarrow> (fst (stop_request l), [], []))"

fun el_run :: "el_op list \<Rightarrow> event_loop \<Rightarrow> event_loop" where
  "el_run [] l = l"
| "el_run (op # ops) l = el_run ops (fst (el_step op l))"

fun called :: "el_op list \<Rightarrow> event_loop \<Rightarrow> (int \<times> ReactorEvent) list" where
  "called [] l = []"
| "called (op # ops) l = fst (snd (el_step op l)) @ called ops (fst (el_step op l))"

fun executed :: "el_op list \<Rightarrow> event_loop \<Rightarrow> task list" where
  "executed [] l = []"
| "executed (op # ops) l = snd (snd (el_step op l)) @ executed ops (fst (el_step op l))"

text \<open>The tasks that are yet to be run, and those a step adds at the end of the queue.\<close>

definition unfinished :: "event_loop \<Rightarrow> task list" where
  "unfinished l = (case el_pc l of Tasks ts \<Rightarrow> ts | _ \<Rightarrow> []) @ el_tasks l"

fun posts :: "bool \<Rightarrow> call \<Rightarrow> task list" where
  "posts on (RPost t) = [t]"
| "posts on c = (if on then [] else [[c]])"

definition posted_by :: "el_op \<Rightarrow> event_loop \<Rightarrow> task list" where
  "posted_by op l =
     (case op of
        OtherCall c \<Rightarrow> posts False c
      | StopRequest \<Rightarrow> []
      | LoopStep ready handler \<Rightarrow>
          (case el_pc l of
             Events ((fd, mode) # es) \<Rightarrow>
               (case map_of (ioWatchers (el_reactor l)) fd of
                  None \<Rightarrow> []
                | Some _ \<Rightarrow> concat (map (posts True) (handler (fromPocoMode mode))))
           | Tasks (t # ts) \<Rightarrow> concat (map (posts True) t)
           | _ \<Rightarrow> []))"

fun posted :: "el_op list \<Rightarrow> event_loop \<Rightarrow> task list" where
  "posted [] l = []"
| "posted (op # ops) l = posted_by op l @ posted ops (fst (el_step op l))"

section \<open>Every task once, in order\<close>

lemma reactor_call_tasks:
  "el_tasks (reactor_call on c l) = el_tasks l @ posts on c \<and> el_pc (reactor_call on c l) = el_pc l \<and>
   el_running (reactor_call on c l) = el_running l"
  by (cases c) (simp_all add: post_task_def)

lemma run_calls_tasks:
  "el_tasks (run_calls cs l) = el_tasks l @ concat (map (posts True) cs) \<and> el_pc (run_calls cs l) = el_pc l \<and>
   el_running (run_calls cs l) = el_running l"
  by (induction cs arbitrary: l) (simp_all add: run_calls_def reactor_call_tasks)

lemma el_step_tasks:
  "snd (snd (el_step op l)) @ unfinished (fst (el_step op l)) = unfinished l @ posted_by op l"
proof (cases op)
  case (LoopStep ready handler)
  show ?thesis
  proof (cases "el_pc l")
    case (Events es)
    then show ?thesis
      using LoopStep
      by (cases es)
        (auto simp: el_step_def reactor_step_def loop_event_def posted_by_def unfinished_def drain_swap_def run_calls_tasks
          split: option.splits)
  next
    case (Tasks ts)
    then show ?thesis
      using LoopStep
      by (cases ts) (simp_all add: el_step_def reactor_step_def posted_by_def unfinished_def run_calls_tasks)
  qed (simp_all add: LoopStep el_step_def reactor_step_def posted_by_def unfinished_def loop_check_def loop_poll_def)
qed (simp_all add: el_step_def posted_by_def unfinished_def reactor_call_tasks stop_request_def)

lemma run_tasks:
  "executed ops l @ unfinished (el_run ops l) = unfinished l @ posted ops l"
proof (induction ops arbitrary: l)
  case (Cons op ops)
  have "executed (op # ops) l @ unfinished (el_run (op # ops) l) =
      snd (snd (el_step op l)) @ unfinished (fst (el_step op l)) @ posted ops (fst (el_step op l))"
    using Cons [of "fst (el_step op l)"] by simp
  also have "\<dots> = unfinished l @ posted (op # ops) l"
    using el_step_tasks [of op l] by (metis append.assoc posted.simps(2))
  finally show ?case .
qed simp

text \<open>Tasks run once each and in the order they were posted, whichever thread posted them,
  however posting, stopping and the loop interleave, and also when a task posts another: what has
  been run, followed by what is still waiting, is what was waiting followed by what was posted.\<close>

theorem tasks_run_in_order:
  "executed ops l @ unfinished (el_run ops l) = unfinished l @ posted ops l"
  by (rule run_tasks)

section \<open>Stopping\<close>

text \<open>What the loop will certainly run before it looks at \<^verbatim>\<open>running\<close> again.\<close>

definition owed :: "event_loop \<Rightarrow> task list" where
  "owed l = (case el_pc l of AtCheck \<Rightarrow> [] | Polling \<Rightarrow> el_tasks l | Events _ \<Rightarrow> el_tasks l | Tasks ts \<Rightarrow> ts | Ended \<Rightarrow> [])"

lemma owed_step: "prefix (owed l) (snd (snd (el_step op l)) @ owed (fst (el_step op l)))"
proof (cases op)
  case (LoopStep ready handler)
  show ?thesis
  proof (cases "el_pc l")
    case (Events es)
    then show ?thesis
      using LoopStep
      by (cases es)
        (auto simp: el_step_def reactor_step_def loop_event_def owed_def drain_swap_def run_calls_tasks split: option.splits)
  next
    case (Tasks ts)
    then show ?thesis
      using LoopStep by (cases ts) (simp_all add: el_step_def reactor_step_def owed_def run_calls_tasks)
  qed (simp_all add: LoopStep el_step_def reactor_step_def owed_def loop_check_def loop_poll_def)
qed (auto simp: el_step_def owed_def reactor_call_tasks stop_request_def split: loop_pc.split)

lemma owed_run: "prefix (owed l) (executed ops l @ owed (el_run ops l))"
proof (induction ops arbitrary: l)
  case (Cons op ops)
  let ?l = "fst (el_step op l)"
  have "prefix (snd (snd (el_step op l)) @ owed ?l) (snd (snd (el_step op l)) @ executed ops ?l @ owed (el_run ops ?l))"
    using Cons [of ?l] by simp
  then show ?case using owed_step [of l op] prefix_order.order_trans by fastforce
qed simp

text \<open>Once the batch is taken, or the turn is over, a loop that is to stop runs nothing else.\<close>

definition past_drain :: "event_loop \<Rightarrow> bool" where
  "past_drain l \<longleftrightarrow> \<not> el_running l \<and> (\<forall>es. el_pc l \<noteq> Events es) \<and> el_pc l \<noteq> Polling"

lemma past_drain_step:
  assumes "past_drain l"
  shows "past_drain (fst (el_step op l)) \<and> snd (snd (el_step op l)) @ owed (fst (el_step op l)) = owed l"
proof (cases op)
  case (LoopStep ready handler)
  show ?thesis
  proof (cases "el_pc l")
    case (Tasks ts)
    then show ?thesis
      using LoopStep assms
      by (cases ts) (simp_all add: el_step_def reactor_step_def past_drain_def owed_def run_calls_tasks)
  qed (use assms in \<open>simp_all add: LoopStep el_step_def reactor_step_def past_drain_def owed_def loop_check_def\<close>)
qed (use assms in \<open>auto simp: el_step_def past_drain_def owed_def reactor_call_tasks stop_request_def split: loop_pc.split\<close>)

lemma past_drain_run: "past_drain l \<Longrightarrow> executed ops l @ owed (el_run ops l) = owed l"
proof (induction ops arbitrary: l)
  case (Cons op ops)
  then show ?case using past_drain_step [OF Cons.prems, of op] by simp
qed simp

text \<open>C34: what a loop that has been asked to stop still runs. If it is polling or calling handlers,
  all tasks in the queue; but if it has already taken a batch, that batch only: what was posted
  since stays in the queue for ever. The closing of the sessions' sockets is posted like that when the
  stack is taken down, just before the reactor is stopped, so those sockets can stay open.\<close>

theorem late_tasks_are_lost:
  assumes "\<not> el_running l" and "el_pc (el_run ops l) = Ended"
  shows "case el_pc l of
      Tasks ts \<Rightarrow> executed ops l = ts \<and> prefix (el_tasks l) (el_tasks (el_run ops l))
    | Polling \<Rightarrow> prefix (el_tasks l) (executed ops l)
    | Events es \<Rightarrow> prefix (el_tasks l) (executed ops l)
    | _ \<Rightarrow> executed ops l = []"
proof -
  have e: "owed (el_run ops l) = []" "unfinished (el_run ops l) = el_tasks (el_run ops l)"
    using assms(2) by (simp_all add: owed_def unfinished_def)
  have w: "prefix (owed l) (executed ops l)" using owed_run [of l ops] e by simp
  have x: "executed ops l = owed l" if "past_drain l" using past_drain_run [OF that, of ops] e by simp
  show ?thesis
  proof (cases "el_pc l")
    case (Tasks ts)
    then have "executed ops l = ts" using x assms(1) by (simp add: past_drain_def owed_def)
    moreover have "el_tasks (el_run ops l) = el_tasks l @ posted ops l"
      using run_tasks [of ops l] e(2) Tasks \<open>executed ops l = ts\<close> by (simp add: unfinished_def)
    ultimately show ?thesis using Tasks by simp
  qed (use w x assms(1) in \<open>simp_all add: past_drain_def owed_def\<close>)
qed

text \<open>A loop in the middle of a batch; the stack posts the closing of socket 7 and stops the reactor.\<close>

definition demo_loop :: event_loop where
  "demo_loop = fst (stop_request (reactor_call False (RPost [RDel 7])
     (el_run [OtherCall (RPost [RDel 6]), LoopStep [] (\<lambda>_. []), LoopStep [] (\<lambda>_. []), LoopStep [] (\<lambda>_. [])]
       (fst (reactor_start event_loop_new)))))"

definition demo_last_steps :: "el_op list" where
  "demo_last_steps = replicate 3 (LoopStep [] (\<lambda>_. []))"

theorem late_tasks_are_lost_witness:
  "executed demo_last_steps demo_loop = [[RDel 6]] \<and> prefix [[RDel 7]] (el_tasks (el_run demo_last_steps demo_loop))"
proof -
  note ev = demo_loop_def demo_last_steps_def reactor_start_def event_loop_new_def el_step_def reactor_step_def loop_check_def
    loop_poll_def drain_swap_def stop_request_def post_task_def run_calls_def numeral_eq_Suc
  have "\<not> el_running demo_loop" and "el_pc demo_loop = Tasks [[RDel 6]]" and "el_tasks demo_loop = [[RDel 7]]"
    and "el_pc (el_run demo_last_steps demo_loop) = Ended"
    by (simp_all add: ev)
  then show ?thesis using late_tasks_are_lost [of demo_loop demo_last_steps] by simp
qed

section \<open>The interests of other threads\<close>

text \<open>The table as if every call took effect when it is made.\<close>

fun apply_call :: "call \<Rightarrow> Reactor \<Rightarrow> Reactor" where
  "apply_call (RAdd fd ev) r = applyAdd fd ev r"
| "apply_call (RMod fd ev) r = applyMod fd ev r"
| "apply_call (RDel fd) r = applyDel fd r"
| "apply_call (RPost t) r = r"

fun plain :: "call \<Rightarrow> bool" where
  "plain (RPost t) = False"
| "plain c = True"

definition caught_up :: "event_loop \<Rightarrow> Reactor" where
  "caught_up l = fold apply_call (concat (unfinished l)) (el_reactor l)"

definition plain_loop :: "event_loop \<Rightarrow> bool" where
  "plain_loop l \<longleftrightarrow> (\<forall>t \<in> set (unfinished l). \<forall>c \<in> set t. plain c)"

fun plain_op :: "el_op \<Rightarrow> bool" where
  "plain_op (LoopStep ready handler) \<longleftrightarrow> handler = (\<lambda>_. [])"
| "plain_op (OtherCall c) \<longleftrightarrow> plain c"
| "plain_op StopRequest \<longleftrightarrow> True"

fun calls_of :: "el_op list \<Rightarrow> call list" where
  "calls_of [] = []"
| "calls_of (OtherCall c # ops) = c # calls_of ops"
| "calls_of (op # ops) = calls_of ops"

lemma plain_call:
  "plain c \<Longrightarrow> el_reactor (reactor_call True c l) = apply_call c (el_reactor l) \<and> posts True c = [] \<and>
    el_tasks (reactor_call False c l) = el_tasks l @ [[c]] \<and> el_reactor (reactor_call False c l) = el_reactor l"
  by (cases c) (simp_all add: post_task_def)

lemma plain_run_calls:
  "\<forall>c \<in> set cs. plain c \<Longrightarrow>
    el_reactor (run_calls cs l) = fold apply_call cs (el_reactor l) \<and> concat (map (posts True) cs) = []"
  by (induction cs arbitrary: l) (simp_all add: run_calls_def plain_call)

lemma plain_step:
  assumes "plain_loop l" and "plain_op op"
  shows "plain_loop (fst (el_step op l)) \<and>
    caught_up (fst (el_step op l)) = fold apply_call (calls_of [op]) (caught_up l)"
proof (cases op)
  case (LoopStep ready handler)
  show ?thesis
  proof (cases "el_pc l")
    case (Events es)
    then show ?thesis
      using LoopStep assms
      by (cases es)
        (auto simp: el_step_def reactor_step_def loop_event_def drain_swap_def run_calls_def caught_up_def plain_loop_def
          unfinished_def split: option.splits)
  next
    case (Tasks ts)
    show ?thesis
    proof (cases ts)
      case (Cons t ts')
      have p: "\<forall>c \<in> set t. plain c" using assms(1) Tasks Cons by (simp add: plain_loop_def unfinished_def)
      let ?l = "l\<lparr>el_pc := Tasks ts'\<rparr>"
      have "el_tasks (run_calls t ?l) = el_tasks l" "el_pc (run_calls t ?l) = Tasks ts'"
        "el_reactor (run_calls t ?l) = fold apply_call t (el_reactor l)"
        using plain_run_calls [OF p, of ?l] run_calls_tasks [of t ?l] by simp_all
      then show ?thesis
        using LoopStep assms Tasks Cons
        by (simp add: el_step_def reactor_step_def caught_up_def plain_loop_def unfinished_def)
    qed (use LoopStep assms Tasks in \<open>simp add: el_step_def reactor_step_def caught_up_def plain_loop_def unfinished_def\<close>)
  qed (use LoopStep assms in \<open>simp_all add: el_step_def reactor_step_def loop_check_def loop_poll_def caught_up_def
        plain_loop_def unfinished_def\<close>)
next
  case (OtherCall c)
  have p: "plain c" using OtherCall assms(2) by simp
  then have u: "unfinished (fst (el_step op l)) = unfinished l @ [[c]]" "el_reactor (fst (el_step op l)) = el_reactor l"
    using OtherCall plain_call [OF p, of l] reactor_call_tasks [of False c l]
    by (simp_all add: el_step_def unfinished_def)
  show ?thesis
    using u p assms(1) OtherCall by (auto simp: caught_up_def plain_loop_def)
next
  case StopRequest
  then show ?thesis
    using assms by (simp add: el_step_def stop_request_def caught_up_def plain_loop_def unfinished_def)
qed

lemma plain_run:
  "plain_loop l \<Longrightarrow> list_all plain_op ops \<Longrightarrow>
    caught_up (el_run ops l) = fold apply_call (calls_of ops) (caught_up l)"
proof (induction ops arbitrary: l)
  case (Cons op ops)
  then have "caught_up (el_run (op # ops) l) = fold apply_call (calls_of ops) (fold apply_call (calls_of [op]) (caught_up l))"
    using plain_step [of l op] by simp
  then show ?case by (cases op) simp_all
qed simp

text \<open>C37: \<open>add\<close>, \<open>mod\<close> and \<open>del\<close> from other threads, which only post, implement the table in which each
  takes effect at once: while the handlers make no calls of their own, the tables agree whenever
  no task is waiting, however the calls fall between the steps of the loop.\<close>

theorem posted_interests_refine:
  assumes "unfinished l = []" and "list_all plain_op ops" and "unfinished (el_run ops l) = []"
  shows "el_reactor (el_run ops l) = fold apply_call (calls_of ops) (el_reactor l)"
proof -
  have "plain_loop l" using assms(1) by (simp add: plain_loop_def)
  then show ?thesis using plain_run [OF _ assms(2), of l] assms(1,3) by (simp add: caught_up_def)
qed

definition demo_interests :: "el_op list" where
  "demo_interests = [OtherCall (RAdd 7 EV_WRITE), LoopStep [] (\<lambda>_. []), LoopStep [(7, 1)] (\<lambda>_. []),
     OtherCall (RMod 7 EV_READ), LoopStep [] (\<lambda>_. []), LoopStep [] (\<lambda>_. []), OtherCall (RAdd 8 EV_READ)] @
     replicate 7 (LoopStep [] (\<lambda>_. [])) @ [OtherCall (RDel 8)] @ replicate 6 (LoopStep [] (\<lambda>_. []))"

theorem posted_interests_refine_witness:
  "map_of (ioWatchers (el_reactor (el_run demo_interests (fst (reactor_start event_loop_new))))) 7 = Some EV_READ"
proof -
  note ev = demo_interests_def reactor_start_def event_loop_new_def el_step_def reactor_step_def loop_check_def loop_event_def
    loop_poll_def drain_swap_def post_task_def run_calls_def numeral_eq_Suc unfinished_def
  let ?l = "fst (reactor_start event_loop_new)"
  have "unfinished ?l = []" "list_all plain_op demo_interests" "unfinished (el_run demo_interests ?l) = []"
    by (simp_all add: ev reactor_eval tbl_put_def tbl_erase_def)
  then have "el_reactor (el_run demo_interests ?l) = fold apply_call (calls_of demo_interests) (el_reactor ?l)"
    by (rule posted_interests_refine)
  then show ?thesis
    by (simp add: demo_interests_def numeral_eq_Suc watcher_apply reactor_start_def event_loop_new_def Reactor_new_def)
qed

section \<open>Removed watchers\<close>

fun adds :: "int \<Rightarrow> call \<Rightarrow> bool" where
  "adds fd (RAdd fd' ev) \<longleftrightarrow> fd = fd'"
| "adds fd _ \<longleftrightarrow> False"

lemma run_calls_watcher:
  "map_of (ioWatchers (el_reactor l)) fd = None \<Longrightarrow> \<forall>c \<in> set cs. \<not> adds fd c \<Longrightarrow>
    map_of (ioWatchers (el_reactor (run_calls cs l))) fd = None"
proof (induction cs arbitrary: l)
  case (Cons c cs)
  then have "map_of (ioWatchers (el_reactor (reactor_call True c l))) fd = None"
    by (cases c) (auto simp: watcher_apply post_task_def)
  then show ?case using Cons by (simp add: run_calls_def)
qed (simp add: run_calls_def)

text \<open>
  The rest of a poll's report: a socket that a handler removes is not reported to anyone any more,
  even when another session is given its number meanwhile, since additions of other threads wait
  for the end of the batch.
\<close>

lemma removed_socket_not_called:
  assumes "map_of (ioWatchers (el_reactor l)) fd = None"
    and "\<forall>ready handler. LoopStep ready handler \<in> set ops \<longrightarrow> (\<forall>ev. \<forall>c \<in> set (handler ev). \<not> adds fd c)"
    and "\<forall>n < length ops. \<exists>es. el_pc (el_run (take n ops) l) = Events es"
  shows "\<forall>ev. (fd, ev) \<notin> set (called ops l)"
  using assms
proof (induction ops arbitrary: l)
  case (Cons op ops)
  let ?l = "fst (el_step op l)"
  obtain es where pc: "el_pc l = Events es" using Cons.prems(3) by force
  have "map_of (ioWatchers (el_reactor ?l)) fd = None \<and> (\<forall>ev. (fd, ev) \<notin> set (fst (snd (el_step op l))))"
  proof (cases op)
    case (LoopStep ready handler)
    then have h: "\<forall>c \<in> set (handler ev). \<not> adds fd c" for ev using Cons.prems(2) by simp
    show ?thesis
      using LoopStep pc Cons.prems(1) run_calls_watcher h
      by (cases es) (auto simp: el_step_def reactor_step_def loop_event_def drain_swap_def split: option.splits)
  next
    case (OtherCall c)
    then show ?thesis using Cons.prems(1) by (cases c) (simp_all add: el_step_def post_task_def)
  qed (use Cons.prems(1) in \<open>simp add: el_step_def stop_request_def\<close>)
  moreover have "\<forall>n < length ops. \<exists>es. el_pc (el_run (take n ops) ?l) = Events es"
    using Cons.prems(3) by (auto dest: spec [of _ "Suc _"])
  ultimately show ?case using Cons.IH [of ?l] Cons.prems(2) by auto
qed simp

end
