(* ===== verification/Utilities.thy ===== *)
theory Utilities
  imports Config "HOL-Library.Signed_Division"
begin

text \<open>
  \<^verbatim>\<open>utils/hex.h\<close>, \<^verbatim>\<open>utils/time.cc\<close>, \<^verbatim>\<open>utils/atomic.h\<close> and the text a client presents itself with
  (\<^verbatim>\<open>WebSocketClient::hostName\<close>, \<^verbatim>\<open>core/version.h\<close>). A value behind a mutex and a condition
  variable is a monitor: a call that holds the lock is one step, a thread that waits sleeps until it is
  notified and then tests its condition again.
\<close>

section \<open>Hexadecimal text\<close>

definition to_hex :: "bytes \<Rightarrow> bytes" where
  "to_hex buffer = concat (map (\<lambda>c. [hex_digit (unat c div 16), hex_digit (unat c mod 16)]) buffer)"

text \<open>The reader of such text; nothing in the program reads it.\<close>

definition hex_value :: "u8 \<Rightarrow> nat" where
  "hex_value d = (if d < 58 then unat d - 48 else unat d - 87)"

fun from_hex :: "bytes \<Rightarrow> bytes" where
  "from_hex (a # b # s) = of_nat (16 * hex_value a + hex_value b) # from_hex s"
| "from_hex _ = []"

lemma hex_value_digit:
  assumes "n < 16"
  shows "hex_value (hex_digit n) = n"
proof -
  have "n \<in> {0, 1, 2, 3, 4, 5, 6, 7, 8, 9, 10, 11, 12, 13, 14, 15}" using assms by (simp, presburger)
  then show ?thesis by (elim insertE) (simp_all add: hex_value_def hex_digit_def)
qed

lemma from_hex_to_hex: "from_hex (to_hex s) = s"
proof (induction s)
  case (Cons c s)
  have "unat c < 256" by (rule unat_byte_less)
  then have "unat c div 16 < 16" "unat c mod 16 < 16" by (simp_all add: less_mult_imp_div_less)
  moreover have "of_nat (unat c) = c" by simp
  ultimately show ?case using Cons by (simp add: to_hex_def hex_value_digit)
qed (simp add: to_hex_def)

section \<open>Clocks\<close>

text \<open>\<open>now\<close>: the nanoseconds since the epoch of the clock; a conversion to a coarser unit cuts off.\<close>

definition unixTime :: "int \<Rightarrow> int" where
  "unixTime now = now sdiv 1000000000"

definition bootTime :: "int \<Rightarrow> int" where
  "bootTime now = now sdiv 1000000"

record tm =
  tm_year :: int
  tm_mon :: int
  tm_mday :: int
  tm_hour :: int
  tm_min :: int
  tm_sec :: int

definition zero_filled :: "nat \<Rightarrow> int \<Rightarrow> bytes" where
  "zero_filled w i = (let t = to_string i in replicate (w - length t) 48 @ t)"

text \<open>\<open>localtime\<close>: the calendar of the system, for seconds.\<close>

definition getCurrentTimeWithMillis :: "(int \<Rightarrow> tm) \<Rightarrow> int \<Rightarrow> bytes" where
  "getCurrentTimeWithMillis localtime now =
     (let value = now sdiv 1000000; t = localtime (now sdiv 1000000000)
      in to_string (tm_year t + 1900) @ str ''-'' @ zero_filled 2 (tm_mon t + 1) @ str ''-'' @ zero_filled 2 (tm_mday t) @ str '' '' @
        zero_filled 2 (tm_hour t) @ str '':'' @ zero_filled 2 (tm_min t) @ str '':'' @ zero_filled 2 (tm_sec t) @
        str ''.'' @ zero_filled 3 (value smod 1000))"

lemma sdiv_pos: "0 \<le> a \<Longrightarrow> 0 < b \<Longrightarrow> (a :: int) sdiv b = a div b"
  by (cases "0 < a") (simp_all add: signed_divide_int_def)

lemma smod_pos: "0 \<le> a \<Longrightarrow> 0 < b \<Longrightarrow> (a :: int) smod b = a mod b"
  by (cases "0 < a") (simp_all add: signed_modulo_int_def)

text \<open>The clocks do not run backwards when the clock of the system does not, and 30 s are 30,000 ms.\<close>

theorem clocks_advance:
  "0 \<le> a \<Longrightarrow> a \<le> b \<Longrightarrow> unixTime a \<le> unixTime b \<and> bootTime a \<le> bootTime b"
  "0 \<le> a \<Longrightarrow> 0 \<le> n \<Longrightarrow> bootTime (a + n * 1000000) = bootTime a + n \<and> unixTime (a + n * 1000000000) = unixTime a + n"
  by (simp_all add: unixTime_def bootTime_def sdiv_pos zdiv_mono1)

lemma short_number: "i < 1000 \<Longrightarrow> 0 \<le> i \<Longrightarrow> length (to_string i) \<le> 3"
  by (simp add: to_string_def show_nat.simps [of "nat i"] show_nat.simps [of "nat i div 10"]
    show_nat.simps [of "nat i div 100"] div_mult2_eq [symmetric])

text \<open>The milliseconds always have three digits.\<close>

theorem millis_have_three_digits:
  assumes "0 \<le> now"
  shows "\<exists>start ms. getCurrentTimeWithMillis localtime now = start @ 46 # ms \<and> length ms = 3 \<and> list_all is_digit ms"
proof -
  define i where "i = now sdiv 1000000 smod 1000"
  have i: "0 \<le> i" "i < 1000" using assms by (simp_all add: i_def sdiv_pos smod_pos)
  have l: "length (zero_filled 3 i) = 3" using short_number [of i] i by (simp add: zero_filled_def Let_def)
  have d: "list_all is_digit (zero_filled 3 i)"
    using i show_nat_digits [of "nat i"] by (auto simp: zero_filled_def Let_def list_all_iff to_string_def is_digit_def)
  show ?thesis
    unfolding getCurrentTimeWithMillis_def Let_def i_def [symmetric]
    by (rule exI, rule exI [of _ "zero_filled 3 i"]) (simp add: l d str_def)
qed

section \<open>The text of the ping message\<close>

datatype poco_os = OS_LINUX | OS_MAC_OS_X | OS_ANDROID | OS_WINDOWS_NT | OS_OTHER

definition CANDY_SYSTEM :: "poco_os \<Rightarrow> bytes" where
  "CANDY_SYSTEM os =
     (case os of
        OS_LINUX \<Rightarrow> str ''linux'' | OS_MAC_OS_X \<Rightarrow> str ''macos'' | OS_ANDROID \<Rightarrow> str ''android''
      | OS_WINDOWS_NT \<Rightarrow> str ''windows'' | OS_OTHER \<Rightarrow> str ''unknown'')"

definition version :: "bytes option \<Rightarrow> bytes" where
  "version defined = (case defined of None \<Rightarrow> str ''unknown'' | Some v \<Rightarrow> v)"

text \<open>
  \<open>answer\<close>: what \<^verbatim>\<open>gethostname\<close> wrote, \<open>None\<close> when it failed. A name that fills the buffer has no
  terminator.
\<close>

definition hostName :: "bytes option \<Rightarrow> bytes" where
  "hostName answer = (case answer of None \<Rightarrow> [] | Some name \<Rightarrow> takeWhile (\<lambda>c. c \<noteq> 0) (take 64 name))"

definition ping_message :: "poco_os \<Rightarrow> bytes option \<Rightarrow> bytes option \<Rightarrow> bytes" where
  "ping_message os defined answer =
     str ''candy::'' @ CANDY_SYSTEM os @ str ''::'' @ version defined @ str ''::'' @ hostName answer"

section \<open>A value that can be waited for\<close>

text \<open>Threads are numbers; \<open>mo_asleep\<close>, \<open>mo_woken\<close>: those that wait, with what they wait for.\<close>

record 'a monitor =
  mo_value :: 'a
  mo_asleep :: "(nat \<times> ('a \<Rightarrow> bool)) list"
  mo_woken :: "(nat \<times> ('a \<Rightarrow> bool)) list"

definition Atomic_new :: "'a \<Rightarrow> 'a monitor" where
  "Atomic_new initial = \<lparr>mo_value = initial, mo_asleep = [], mo_woken = []\<rparr>"

definition atomic_load :: "'a monitor \<Rightarrow> 'a" where
  "atomic_load m = mo_value m"

definition atomic_notify_all :: "'a monitor \<Rightarrow> 'a monitor" where
  "atomic_notify_all m = m\<lparr>mo_asleep := [], mo_woken := mo_woken m @ mo_asleep m\<rparr>"

text \<open>Which thread a notification of one reaches is not determined.\<close>

definition atomic_notify_one :: "nat \<Rightarrow> 'a monitor \<Rightarrow> 'a monitor" where
  "atomic_notify_one k m =
     (if k < length (mo_asleep m)
      then m\<lparr>mo_asleep := take k (mo_asleep m) @ drop (Suc k) (mo_asleep m), mo_woken := mo_woken m @ [mo_asleep m ! k]\<rparr>
      else m)"

definition atomic_store :: "'a \<Rightarrow> 'a monitor \<Rightarrow> 'a monitor" where
  "atomic_store new_value m = atomic_notify_all (m\<lparr>mo_value := new_value\<rparr>)"

text \<open>The result tells whether the call returns now.\<close>

definition atomic_wait_until :: "nat \<Rightarrow> ('a \<Rightarrow> bool) \<Rightarrow> 'a monitor \<Rightarrow> 'a monitor \<times> bool" where
  "atomic_wait_until t pred m =
     (if pred (mo_value m) then (m, True) else (m\<lparr>mo_asleep := mo_asleep m @ [(t, pred)]\<rparr>, False))"

definition atomic_wait :: "nat \<Rightarrow> 'a \<Rightarrow> 'a monitor \<Rightarrow> 'a monitor \<times> bool" where
  "atomic_wait t expected m = atomic_wait_until t (\<lambda>v. v \<noteq> expected) m"

text \<open>The \<open>k\<close>-th woken thread gets the lock again.\<close>

definition atomic_turn :: "nat \<Rightarrow> 'a monitor \<Rightarrow> 'a monitor \<times> bool" where
  "atomic_turn k m =
     (if k < length (mo_woken m)
      then let (t, pred) = mo_woken m ! k
           in atomic_wait_until t pred (m\<lparr>mo_woken := take k (mo_woken m) @ drop (Suc k) (mo_woken m)\<rparr>)
      else (m, False))"

datatype 'a atomic_event =
    StoreEv 'a
  | WaitEv nat 'a
  | WaitUntilEv nat "'a \<Rightarrow> bool"
  | NotifyAllEv
  | NotifyOneEv nat
  | TurnEv nat

text \<open>A condition variable may also wake a thread without reason, which is \<open>NotifyOneEv\<close> again.\<close>

fun atomic_step :: "'a atomic_event \<Rightarrow> 'a monitor \<Rightarrow> 'a monitor" where
  "atomic_step (StoreEv v) m = atomic_store v m"
| "atomic_step (WaitEv t e) m = fst (atomic_wait t e m)"
| "atomic_step (WaitUntilEv t p) m = fst (atomic_wait_until t p m)"
| "atomic_step NotifyAllEv m = atomic_notify_all m"
| "atomic_step (NotifyOneEv k) m = atomic_notify_one k m"
| "atomic_step (TurnEv k) m = fst (atomic_turn k m)"

text \<open>Nobody sleeps while what it waits for holds.\<close>

definition no_oversleep :: "'a monitor \<Rightarrow> bool" where
  "no_oversleep m \<longleftrightarrow> list_all (\<lambda>(t, pred). \<not> pred (mo_value m)) (mo_asleep m)"

lemma no_oversleep_wait: "no_oversleep m \<Longrightarrow> no_oversleep (fst (atomic_wait_until t p m))"
  by (simp add: no_oversleep_def atomic_wait_until_def)

lemma no_oversleep_step: "no_oversleep m \<Longrightarrow> no_oversleep (atomic_step e m)"
proof (cases e)
  case (TurnEv k)
  assume "no_oversleep m"
  then have "no_oversleep (m\<lparr>mo_woken := w\<rparr>)" for w by (simp add: no_oversleep_def)
  then show ?thesis
    using TurnEv \<open>no_oversleep m\<close> by (simp add: atomic_turn_def no_oversleep_wait split: prod.split)
next
  case (NotifyOneEv k)
  assume "no_oversleep m"
  then show ?thesis
    using NotifyOneEv by (auto simp: no_oversleep_def atomic_notify_one_def list_all_iff dest: in_set_takeD in_set_dropD)
qed (simp_all add: no_oversleep_wait atomic_wait_def, simp_all add: atomic_store_def atomic_notify_all_def no_oversleep_def)

lemma no_oversleep_run: "no_oversleep m \<Longrightarrow> no_oversleep (fold atomic_step es m)"
  by (induction es arbitrary: m) (simp_all add: no_oversleep_step)

text \<open>No wake-up is lost. Whatever stores, waits, notifications and turns came before, a thread that sleeps
  in a wait does so because its condition fails for the current value; so when its condition
  holds it has been woken, and its next turn ends the wait.\<close>

theorem no_wakeup_is_lost:
  assumes "m = fold atomic_step es (Atomic_new initial)" and "(t, pred) \<in> set (mo_asleep m) \<union> set (mo_woken m)"
    and "pred (atomic_load m)"
  shows "\<exists>k < length (mo_woken m). mo_woken m ! k = (t, pred) \<and> snd (atomic_turn k m)"
proof -
  have "no_oversleep m" unfolding assms(1) by (rule no_oversleep_run) (simp add: no_oversleep_def Atomic_new_def)
  then have "(t, pred) \<in> set (mo_woken m)"
    using assms(2,3) by (auto simp: no_oversleep_def atomic_load_def list_all_iff)
  then obtain k where "k < length (mo_woken m)" "mo_woken m ! k = (t, pred)" by (auto simp: in_set_conv_nth)
  then show ?thesis
    using assms(3) by (intro exI [of _ k]) (simp add: atomic_turn_def atomic_wait_until_def atomic_load_def)
qed

theorem no_wakeup_is_lost_witness:
  "\<exists>k < 1. snd (atomic_turn k (fold atomic_step [WaitEv 1 True, NotifyOneEv 0, TurnEv 0, StoreEv False] (Atomic_new True)))"
proof -
  let ?m = "fold atomic_step [WaitEv 1 True, NotifyOneEv 0, TurnEv 0, StoreEv False] (Atomic_new True)"
  have m: "mo_woken ?m = [(1, \<lambda>v. v \<noteq> True)]" "atomic_load ?m = False"
    by (simp_all add: Atomic_new_def atomic_wait_def atomic_wait_until_def atomic_notify_one_def atomic_turn_def
        atomic_store_def atomic_notify_all_def atomic_load_def)
  show ?thesis using no_wakeup_is_lost [OF refl, of 1 "\<lambda>v. v \<noteq> True" "[WaitEv 1 True, NotifyOneEv 0, TurnEv 0, StoreEv False]" True] m by auto
qed

text \<open>A value that is only changed for a moment may be missed: the woken thread goes back to sleep.\<close>

lemma short_change_missed:
  "mo_woken m = [] \<Longrightarrow> mo_asleep m = [(t, \<lambda>v. v \<noteq> e)] \<Longrightarrow> mo_value m = e \<Longrightarrow>
    mo_asleep (fold atomic_step [StoreEv v, StoreEv e, TurnEv 0] m) = [(t, \<lambda>v. v \<noteq> e)]"
  by (simp add: atomic_store_def atomic_notify_all_def atomic_turn_def atomic_wait_until_def)

end
